(* ===== verification/Prelude.thy ===== *)
theory Prelude
  imports Complex_Main "HOL-Library.Sublist" "HOL-Library.Multiset"
begin

text \<open>
  What every component of the development shares: the Python built-in operations the
  source uses (slices with negative bounds, \<open>str.strip\<close>, \<open>str.lower\<close>,
  \<open>in\<close> on strings, \<open>str.startswith\<close>, \<open>round(x, 10)\<close>, stable \<open>sorted\<close>) and the
  generic lemmas on them, collected in \<open>py_simps\<close> for the component proofs.

  Conventions.  A Python \<open>str\<close> is a \<open>string\<close> whose characters are the code points up
  to 255; where the source prints code points above that range (emoji, the ellipsis) the
  component uses a list of code points (\<open>ustr\<close>).  A Python \<open>float\<close> is a \<open>real\<close>:
  arithmetic is exact and every \<open>round(_, 10)\<close> of the source is written out, so that a
  statement that depends on the rounding says so.  A Python \<open>int\<close> is an \<open>int\<close>, or a
  \<open>nat\<close> for a length.  A Python \<open>dict\<close> is a map, or an association list where the
  iteration order matters.
\<close>

named_theorems py_simps

type_synonym pyfloat = real
type_synonym ustr = "nat list"

text \<open>The exceptions the modelled code raises or catches, as values.\<close>

datatype py_error =
    ValueError string
  | TypeError string
  | KeyError string
  | ZeroDivisionError
  | RuntimeError string
  | FileNotFoundError string
  | OSError string
  | EmbedderUnavailable string
  | StructError string
  | AttributeError string
  | IndexError string

text \<open>
  What \<open>float(x)\<close> may meet: a finite number, one of the three special values, or an
  argument it rejects.
\<close>

datatype py_number = Fin real | NaN | PInf | NInf | NonNumeric

text \<open>A loop that stops at the first exception.\<close>

fun mapM :: "('a \<Rightarrow> 'e + 'b) \<Rightarrow> 'a list \<Rightarrow> 'e + 'b list" where
  "mapM f [] = Inr []"
| "mapM f (x # xs) = (case f x of Inl e \<Rightarrow> Inl e
     | Inr y \<Rightarrow> (case mapM f xs of Inl e \<Rightarrow> Inl e | Inr ys \<Rightarrow> Inr (y # ys)))"

lemma mapM_Inr_iff:
  "mapM f xs = Inr ys \<longleftrightarrow> list_all2 (\<lambda>x y. f x = Inr y) xs ys"
proof (induction xs arbitrary: ys)
  case (Cons x xs)
  show ?case
    by (cases "f x"; cases "mapM f xs") (auto simp: list_all2_Cons1 Cons [symmetric])
qed auto

lemma mapM_Inr_pure: "mapM (\<lambda>x. Inr (g x)) xs = Inr (map g xs)"
  by (induction xs) auto

text \<open>Statements in sequence, the first exception ending them.\<close>

definition bind_err :: "'e + 'a \<Rightarrow> ('a \<Rightarrow> 'e + 'b) \<Rightarrow> 'e + 'b" where
  "bind_err m f = (case m of Inl e \<Rightarrow> Inl e | Inr x \<Rightarrow> f x)"

lemma bind_err_simps [simp]:
  "bind_err (Inl e) f = Inl e" "bind_err (Inr x) f = f x"
  by (simp_all add: bind_err_def)

lemma bind_err_Inr: "bind_err m f = Inr y \<longleftrightarrow> (\<exists>x. m = Inr x \<and> f x = Inr y)"
  by (cases m) simp_all

lemma mapM_Inr_set:
  "mapM f xs = Inr ys \<Longrightarrow> y \<in> set ys \<Longrightarrow> \<exists>x \<in> set xs. f x = Inr y"
  by (induction xs arbitrary: ys) (auto split: sum.splits)

lemma mapM_error: "x \<in> set xs \<Longrightarrow> f x = Inl e \<Longrightarrow> \<exists>e'. mapM f xs = Inl e'"
  by (induction xs) (auto split: sum.split)

section \<open>Slices\<close>

text \<open>\<open>xs[:i]\<close> and \<open>xs[i:]\<close>, with Python's reading of a negative bound.\<close>

definition py_bound :: "'a list \<Rightarrow> int \<Rightarrow> nat" where
  "py_bound xs i = (if i < 0 then nat (int (length xs) + i) else min (nat i) (length xs))"

definition py_upto :: "'a list \<Rightarrow> int \<Rightarrow> 'a list" where
  "py_upto xs i = take (py_bound xs i) xs"

definition py_from :: "'a list \<Rightarrow> int \<Rightarrow> 'a list" where
  "py_from xs i = drop (py_bound xs i) xs"

lemma py_upto_from [py_simps]: "py_upto xs i @ py_from xs i = xs"
  by (simp add: py_upto_def py_from_def)

lemma py_upto_nonneg [py_simps]: "0 \<le> i \<Longrightarrow> py_upto xs i = take (nat i) xs"
  by (cases "nat i \<le> length xs") (auto simp: py_upto_def py_bound_def min_def)

lemma py_from_nonneg [py_simps]: "0 \<le> i \<Longrightarrow> py_from xs i = drop (nat i) xs"
  by (cases "nat i \<le> length xs") (auto simp: py_from_def py_bound_def min_def)

lemma py_upto_neg [py_simps]: "0 < n \<Longrightarrow> py_upto xs (- int n) = take (length xs - n) xs"
  by (auto simp: py_upto_def py_bound_def nat_diff_distrib intro!: arg_cong2 [where f = take])

lemma py_from_neg [py_simps]: "0 < n \<Longrightarrow> py_from xs (- int n) = drop (length xs - n) xs"
  by (auto simp: py_from_def py_bound_def nat_diff_distrib intro!: arg_cong2 [where f = drop])

lemma py_from_zero [py_simps]: "py_from xs 0 = xs"
  by (simp add: py_simps)

lemma py_upto_zero [py_simps]: "py_upto xs 0 = []"
  by (simp add: py_simps)

lemma set_py_upto: "set (py_upto xs i) \<subseteq> set xs"
  by (simp add: py_upto_def set_take_subset)

lemma set_py_from: "set (py_from xs i) \<subseteq> set xs"
  by (simp add: py_from_def set_drop_subset)

lemma length_py_upto_le: "length (py_upto xs i) \<le> length xs"
  by (simp add: py_upto_def)

lemma length_py_upto_nonneg: "length (py_upto xs (int n)) = min n (length xs)"
  by (simp add: py_simps min.commute)

section \<open>Strings\<close>

definition is_space :: "char \<Rightarrow> bool" where
  "is_space c \<longleftrightarrow> (let n = (of_char c :: nat) in
     9 \<le> n \<and> n \<le> 13 \<or> 28 \<le> n \<and> n \<le> 32 \<or> n = 133 \<or> n = 160)"

definition py_lstrip :: "string \<Rightarrow> string" where
  "py_lstrip s = dropWhile is_space s"

definition py_strip :: "string \<Rightarrow> string" where
  "py_strip s = rev (dropWhile is_space (rev (dropWhile is_space s)))"

text \<open>\<open>str.lower\<close> on the code points up to 255: the ASCII and the Latin-1 capitals.\<close>

definition lower_char :: "char \<Rightarrow> char" where
  "lower_char c = (let n = (of_char c :: nat) in
     if 65 \<le> n \<and> n \<le> 90 \<or> 192 \<le> n \<and> n \<le> 222 \<and> n \<noteq> 215
     then char_of (n + 32) else c)"

definition py_lower :: "string \<Rightarrow> string" where
  "py_lower s = map lower_char s"

text \<open>\<open>s.startswith(p)\<close> and \<open>p in s\<close>.\<close>

definition starts_with :: "'a list \<Rightarrow> 'a list \<Rightarrow> bool" where
  "starts_with s p \<longleftrightarrow> take (length p) s = p"

fun contains :: "'a list \<Rightarrow> 'a list \<Rightarrow> bool" where
  "contains p [] \<longleftrightarrow> p = []"
| "contains p (c # s) \<longleftrightarrow> starts_with (c # s) p \<or> contains p s"

lemma length_py_lower [py_simps]: "length (py_lower s) = length s"
  by (simp add: py_lower_def)

lemma starts_with_iff_prefix: "starts_with s p \<longleftrightarrow> prefix p s"
  by (metis append_eq_conv_conj append_take_drop_id prefix_def starts_with_def)

lemma starts_with_append [py_simps]: "starts_with (p @ s) p"
  by (simp add: starts_with_def)

lemma drop_starts_with [py_simps]: "starts_with s p \<Longrightarrow> p @ drop (length p) s = s"
  by (metis append_take_drop_id starts_with_def)

lemma contains_iff_sublist: "contains p s \<longleftrightarrow> sublist p s"
  by (induction s) (auto simp: starts_with_iff_prefix sublist_Cons_right)

lemma length_py_strip_le: "length (py_strip s) \<le> length s"
  unfolding py_strip_def
  by (metis length_dropWhile_le length_rev order.trans)

lemma set_py_strip: "set (py_strip s) \<subseteq> set s"
  unfolding py_strip_def by (auto dest!: set_dropWhileD)

lemma lower_char_not_upper:
  "\<not> (65 \<le> (of_char (lower_char c) :: nat) \<and> (of_char (lower_char c) :: nat) \<le> 90)"
  by (auto simp: lower_char_def Let_def)

lemma lower_char_idem [simp]: "lower_char (lower_char c) = lower_char c"
proof (cases "65 \<le> (of_char c :: nat) \<and> (of_char c :: nat) \<le> 90
    \<or> 192 \<le> (of_char c :: nat) \<and> (of_char c :: nat) \<le> 222 \<and> (of_char c :: nat) \<noteq> 215")
  case True
  let ?n = "of_char c :: nat"
  have lc: "lower_char c = char_of (?n + 32)"
    unfolding lower_char_def Let_def by (rule if_P) (use True in blast)
  have "?n + 32 < 256" using True by linarith
  then have "(of_char (char_of (?n + 32) :: char) :: nat) = ?n + 32" by simp
  then have "\<not> (65 \<le> (of_char (lower_char c) :: nat) \<and> (of_char (lower_char c) :: nat) \<le> 90
    \<or> 192 \<le> (of_char (lower_char c) :: nat) \<and> (of_char (lower_char c) :: nat) \<le> 222
      \<and> (of_char (lower_char c) :: nat) \<noteq> 215)"
    using True unfolding lc by linarith
  then show ?thesis unfolding lower_char_def [of "lower_char c"] Let_def by (rule if_not_P)
next
  case False
  then have "lower_char c = c" unfolding lower_char_def Let_def by (rule if_not_P)
  then show ?thesis by simp
qed

lemma contains_set: "contains p s \<Longrightarrow> set p \<subseteq> set s"
  by (metis contains_iff_sublist set_mono_sublist)

text \<open>\<open>sep.join(parts)\<close>.\<close>

fun join :: "'a list \<Rightarrow> 'a list list \<Rightarrow> 'a list" where
  "join sep [] = []"
| "join sep [x] = x"
| "join sep (x # y # xs) = x @ sep @ join sep (y # xs)"

lemma length_join:
  "xs \<noteq> [] \<Longrightarrow> length (join sep xs) = sum_list (map length xs) + length sep * (length xs - 1)"
  by (induction sep xs rule: join.induct) (auto simp: algebra_simps)

lemma join_append_single:
  "xs \<noteq> [] \<Longrightarrow> join sep (xs @ [y]) = join sep xs @ sep @ y"
  by (induction sep xs rule: join.induct) auto

text \<open>\<open>str(n)\<close> of a natural number.\<close>

definition digit :: "nat \<Rightarrow> char" where
  "digit n = char_of (48 + n)"

fun show_nat :: "nat \<Rightarrow> string" where
  "show_nat n = (if n < 10 then [digit n] else show_nat (n div 10) @ [digit (n mod 10)])"

declare show_nat.simps [simp del]

definition digits_value :: "string \<Rightarrow> nat" where
  "digits_value s = foldl (\<lambda>a c. 10 * a + (of_char c - 48)) 0 s"

lemma digits_value_show_nat [simp]: "digits_value (show_nat n) = n"
proof (induction n rule: less_induct)
  case (less n)
  have d: "of_char (digit k) - (48 :: nat) = k" if "k < 10" for k
    using that by (simp add: digit_def)
  show ?case
  proof (cases "n < 10")
    case True
    then show ?thesis by (simp add: show_nat.simps [of n] digits_value_def d)
  next
    case False
    then have "digits_value (show_nat n) = 10 * digits_value (show_nat (n div 10)) + n mod 10"
      unfolding show_nat.simps [of n] by (simp add: digits_value_def d)
    also have "\<dots> = n" using less False by simp
    finally show ?thesis .
  qed
qed

lemma show_nat_eq [simp]: "show_nat m = show_nat n \<longleftrightarrow> m = n"
  by (metis digits_value_show_nat)

section \<open>Rounding\<close>

text \<open>
  \<open>round(x, 10)\<close> rounds to the nearest multiple of \<open>10 ^ -10\<close>, ties to the even one.
\<close>

definition round_half_even :: "real \<Rightarrow> int" where
  "round_half_even y = (let f = \<lfloor>y\<rfloor>; d = y - of_int f in
     if d < 1 / 2 then f else if d > 1 / 2 then f + 1 else if even f then f else f + 1)"

definition round10 :: "real \<Rightarrow> real" where
  "round10 x = of_int (round_half_even (x * 10 ^ 10)) / 10 ^ 10"

lemma round_half_even_of_int [simp]: "round_half_even (of_int n) = n"
  by (simp add: round_half_even_def)

lemma round_half_even_bounds:
  "y - 1 / 2 \<le> of_int (round_half_even y)" "of_int (round_half_even y) \<le> y + 1 / 2"
  unfolding round_half_even_def Let_def by (simp_all add: field_simps) linarith+

lemma round_half_even_mono:
  assumes "x \<le> y"
  shows "round_half_even x \<le> round_half_even y"
proof (cases "\<lfloor>x\<rfloor> = \<lfloor>y\<rfloor>")
  case True
  with assms show ?thesis by (auto simp: round_half_even_def Let_def)
next
  case False
  with assms have "\<lfloor>x\<rfloor> + 1 \<le> \<lfloor>y\<rfloor>" by (meson floor_mono order_le_less zless_imp_add1_zle)
  then show ?thesis by (auto simp: round_half_even_def Let_def)
qed

lemma round10_mono: "x \<le> y \<Longrightarrow> round10 x \<le> round10 y"
  by (simp add: round10_def divide_right_mono round_half_even_mono)

lemma round10_grid: "x * 10 ^ 10 = of_int n \<Longrightarrow> round10 x = x"
  by (simp add: round10_def nonzero_divide_eq_eq)

lemma round10_error: "\<bar>round10 x - x\<bar> \<le> 1 / (2 * 10 ^ 10)"
proof -
  have "\<bar>of_int (round_half_even (x * 10 ^ 10)) - x * 10 ^ 10\<bar> \<le> 1 / 2"
    using round_half_even_bounds [of "x * 10 ^ 10"] by linarith
  then show ?thesis by (simp add: round10_def field_simps)
qed

lemma round10_0 [simp]: "round10 0 = 0" and round10_1 [simp]: "round10 1 = 1"
  by (simp_all add: round10_grid [of _ 0] round10_grid [of _ "10 ^ 10"])

lemma round10_half [simp]: "round10 (1 / 2) = 1 / 2"
  by (simp add: round10_grid [of _ "5000000000"])

lemma round10_nonneg: "0 \<le> x \<Longrightarrow> 0 \<le> round10 x"
  using round10_mono [of 0 x] by simp

lemma round10_le_1: "x \<le> 1 \<Longrightarrow> round10 x \<le> 1"
  using round10_mono [of x 1] by simp

section \<open>Stable sorting\<close>

text \<open>
  Python's \<open>sorted\<close> is stable, with or without \<open>reverse=True\<close>: elements with equal
  keys keep their order.  \<open>sort_key\<close> is stable too, and \<open>reverse=True\<close> on a numeric
  key is the sort by the negated key.
\<close>

definition sorted_desc :: "('a \<Rightarrow> real) \<Rightarrow> 'a list \<Rightarrow> 'a list" where
  "sorted_desc f xs = sort_key (\<lambda>x. - f x) xs"

lemma set_sorted_desc [simp]: "set (sorted_desc f xs) = set xs"
  and length_sorted_desc [simp]: "length (sorted_desc f xs) = length xs"
  and mset_sorted_desc [simp]: "mset (sorted_desc f xs) = mset xs"
  by (simp_all add: sorted_desc_def)

lemma sorted_desc_sorted: "sorted_wrt (\<lambda>x y. f y \<le> f x) (sorted_desc f xs)"
  using sorted_sort_key [of "\<lambda>x. - f x" xs]
  by (simp add: sorted_desc_def sorted_map)

lemma sorted_desc_stable:
  "filter (\<lambda>y. f y = v) (sorted_desc f xs) = filter (\<lambda>y. f y = v) xs"
  using sort_key_stable [of "\<lambda>x. - f x" "- v" xs] by (simp add: sorted_desc_def)

text \<open>Two keys that order every pair of the list alike sort it alike.\<close>

lemma insort_key_cong_le:
  assumes "\<And>y. y \<in> set xs \<Longrightarrow> f x \<le> f y \<longleftrightarrow> g x \<le> g y"
  shows "insort_key f x xs = insort_key g x xs"
  using assms by (induction xs) auto

lemma sort_key_cong_le:
  assumes "\<And>x y. x \<in> set xs \<Longrightarrow> y \<in> set xs \<Longrightarrow> f x \<le> f y \<longleftrightarrow> g x \<le> g y"
  shows "sort_key f xs = sort_key g xs"
  using assms
proof (induction xs)
  case (Cons x xs)
  then have "sort_key f xs = sort_key g xs" by simp
  moreover have "insort_key f x (sort_key g xs) = insort_key g x (sort_key g xs)"
    by (rule insort_key_cong_le) (simp add: Cons.prems)
  ultimately show ?case by simp
qed simp

lemma sorted_wrt_take: "sorted_wrt P xs \<Longrightarrow> sorted_wrt P (take n xs)"
  by (metis append_take_drop_id sorted_wrt_append)

text \<open>The first \<open>n\<close> of a sorted list dominate the rest.\<close>

lemma take_dominates:
  assumes "sorted_wrt P xs" "x \<in> set (take n xs)" "y \<in> set (drop n xs)"
  shows "P x y"
  using assms by (metis append_take_drop_id sorted_wrt_append)

section \<open>Step systems\<close>

text \<open>
  The threads and processes of the program are step relations.  A state is reachable from the starts by
  steps; the locale is the contract of an invariant, interpreted for every one of them.
\<close>

inductive reachable :: "('s \<Rightarrow> bool) \<Rightarrow> ('s \<Rightarrow> 's \<Rightarrow> bool) \<Rightarrow> 's \<Rightarrow> bool" for starts steps where
  start: "starts s \<Longrightarrow> reachable starts steps s"
| step: "reachable starts steps s \<Longrightarrow> steps s s' \<Longrightarrow> reachable starts steps s'"

locale step_invariant =
  fixes starts :: "'s \<Rightarrow> bool" and steps :: "'s \<Rightarrow> 's \<Rightarrow> bool" and inv :: "'s \<Rightarrow> bool"
  assumes inv_start: "starts s \<Longrightarrow> inv s"
    and inv_step: "steps s s' \<Longrightarrow> inv s \<Longrightarrow> inv s'"
begin

lemma inv_reachable: "reachable starts steps s \<Longrightarrow> inv s"
  by (induction rule: reachable.induct) (auto intro: inv_start inv_step)

text \<open>What one more step leads to.\<close>

lemma inv_after: "reachable starts steps s \<Longrightarrow> steps s s' \<Longrightarrow> inv s'"
  by (rule inv_reachable) (rule reachable.step)

end

end
