(* ===== verification/Salience.thy ===== *)
theory Salience
  imports Prelude
begin

text \<open>
  The salience gate (\<open>salience.py\<close>): a pure function that decides whether a candidate
  plasticity write is worth performing.  \<open>clamp\<close> is \<open>_clamp\<close>, \<open>evaluate_salience\<close>
  the gate itself with its floors in source order; the only exception it can raise is the
  \<open>ZeroDivisionError\<close> of \<open>0.0 ** w\<close> for a negative weight.
\<close>

section \<open>Definitions\<close>

definition clamp :: "py_number \<Rightarrow> real" where
  "clamp x = (case x of
      NonNumeric \<Rightarrow> 0
    | NaN \<Rightarrow> 0
    | NInf \<Rightarrow> 0
    | PInf \<Rightarrow> 1
    | Fin v \<Rightarrow> if v < 0 then 0 else if v > 1 then 1 else v)"

record salience_input =
  novelty :: py_number
  reward :: py_number
  surprise :: py_number

record salience_config =
  threshold :: real
  min_novelty :: real
  min_reward :: real
  min_surprise :: real
  weights :: "real \<times> real \<times> real"

definition default_config :: salience_config where
  "default_config = \<lparr>threshold = 6 / 10, min_novelty = 0, min_reward = 0, min_surprise = 0,
     weights = (1, 1, 1)\<rparr>"

record salience_decision =
  dwrite :: bool
  dsalience :: real
  dreason :: string
  dcomponents :: "real \<times> real \<times> real"

text \<open>\<open>x ** y\<close> on floats, for a base that is not negative.\<close>

definition py_pow :: "real \<Rightarrow> real \<Rightarrow> py_error + real" where
  "py_pow x y = (if x = 0 then (if y = 0 then Inr 1 else if y > 0 then Inr 0 else Inl ZeroDivisionError)
     else Inr (x powr y))"

definition evaluate_salience ::
    "salience_input \<Rightarrow> salience_config \<Rightarrow> py_error + salience_decision" where
  "evaluate_salience signals config = (
     let n = clamp (novelty signals);
         r = clamp (reward signals);
         s = clamp (surprise signals);
         components = (n, r, s)
     in if n < min_novelty config then Inr \<lparr>dwrite = False, dsalience = 0,
            dreason = ''novelty_below_floor'', dcomponents = components\<rparr>
        else if r < min_reward config then Inr \<lparr>dwrite = False, dsalience = 0,
            dreason = ''reward_below_floor'', dcomponents = components\<rparr>
        else if s < min_surprise config then Inr \<lparr>dwrite = False, dsalience = 0,
            dreason = ''surprise_below_floor'', dcomponents = components\<rparr>
        else case weights config of (wn, wr, ws) \<Rightarrow>
          (case (py_pow n wn, py_pow r wr, py_pow s ws) of
             (Inr a, Inr b, Inr c) \<Rightarrow>
               (let sal = round10 (a * b * c)
                in if sal > threshold config
                   then Inr \<lparr>dwrite = True, dsalience = sal, dreason = ''cleared'',
                          dcomponents = components\<rparr>
                   else Inr \<lparr>dwrite = False, dsalience = sal, dreason = ''below_threshold'',
                          dcomponents = components\<rparr>)
           | _ \<Rightarrow> Inl ZeroDivisionError))"

section \<open>Lemmas\<close>

lemma clamp_bounds [simp]: "0 \<le> clamp x" "clamp x \<le> 1"
  by (auto simp: clamp_def split: py_number.splits)

lemma py_pow_bounds:
  assumes "0 \<le> x" "x \<le> 1" "py_pow x w = Inr a" "0 \<le> w"
  shows "0 \<le> a" "a \<le> 1"
  using assms by (auto simp: py_pow_def powr_le1 split: if_splits)

lemma py_pow_le_base:
  assumes "0 \<le> x" "x \<le> 1" "py_pow x w = Inr a" "1 \<le> w"
  shows "a \<le> x"
  using assms powr_le_one_le [of x w] by (auto simp: py_pow_def split: if_splits)

lemma py_pow_mono:
  assumes "0 \<le> x" "x \<le> y" "0 \<le> w" "py_pow x w = Inr a" "py_pow y w = Inr b"
  shows "a \<le> b"
  using assms by (auto simp: py_pow_def powr_mono2 split: if_splits)

lemma py_pow_total: "0 \<le> w \<Longrightarrow> \<exists>a. py_pow x w = Inr a"
  by (auto simp: py_pow_def)

text \<open>When the gate writes: every floor is met and the product is above the threshold.\<close>

lemma evaluate_write:
  assumes "evaluate_salience s c = Inr d" "dwrite d"
  obtains a b e wn wr ws where
    "weights c = (wn, wr, ws)"
    "py_pow (clamp (novelty s)) wn = Inr a" "py_pow (clamp (reward s)) wr = Inr b"
    "py_pow (clamp (surprise s)) ws = Inr e"
    "dsalience d = round10 (a * b * e)" "threshold c < round10 (a * b * e)"
    "min_novelty c \<le> clamp (novelty s)" "min_reward c \<le> clamp (reward s)"
    "min_surprise c \<le> clamp (surprise s)"
  using assms unfolding evaluate_salience_def Let_def
  by (auto split: if_splits prod.splits sum.splits)

lemma evaluate_writesI:
  assumes "weights c = (wn, wr, ws)"
    "py_pow (clamp (novelty s)) wn = Inr a" "py_pow (clamp (reward s)) wr = Inr b"
    "py_pow (clamp (surprise s)) ws = Inr e" "threshold c < round10 (a * b * e)"
    "min_novelty c \<le> clamp (novelty s)" "min_reward c \<le> clamp (reward s)"
    "min_surprise c \<le> clamp (surprise s)"
  shows "\<exists>d. evaluate_salience s c = Inr d \<and> dwrite d"
  using assms unfolding evaluate_salience_def Let_def by auto

lemma product3_le:
  fixes a b c :: real
  assumes "0 \<le> a" "a \<le> 1" "0 \<le> b" "b \<le> 1" "0 \<le> c" "c \<le> 1"
  shows "a * b * c \<le> a" "a * b * c \<le> b" "a * b * c \<le> c" "0 \<le> a * b * c"
proof -
  have ab: "a * b \<le> a" "a * b \<le> b" "0 \<le> a * b" "a * b \<le> 1"
    using assms by (auto simp: mult_left_le mult_left_le_one_le mult_le_one)
  then show "a * b * c \<le> a" "a * b * c \<le> b"
    using assms by (meson mult_left_le order.trans)+
  show "a * b * c \<le> c" "0 \<le> a * b * c"
    using assms ab by (auto simp: mult_left_le_one_le)
qed

section \<open>Properties\<close>

text \<open>
  a write is cleared only when all three signals clear the bar together.  With every
  weight at least 1 (the default is 1), each clamped signal is above the threshold (up to
  the source's rounding to ten digits) and at or above its floor: one weak signal rejects
  the write whatever the other two are.
\<close>

theorem salience_gate_needs_every_signal:
  assumes "evaluate_salience s c = Inr d" "dwrite d"
    and "weights c = (wn, wr, ws)" "1 \<le> wn" "1 \<le> wr" "1 \<le> ws"
  shows "threshold c < round10 (clamp (novelty s)) \<and> threshold c < round10 (clamp (reward s))
    \<and> threshold c < round10 (clamp (surprise s))
    \<and> min_novelty c \<le> clamp (novelty s) \<and> min_reward c \<le> clamp (reward s)
    \<and> min_surprise c \<le> clamp (surprise s) \<and> dsalience d \<le> 1"
proof -
  obtain a b e where p: "py_pow (clamp (novelty s)) wn = Inr a"
      "py_pow (clamp (reward s)) wr = Inr b" "py_pow (clamp (surprise s)) ws = Inr e"
    and sal: "dsalience d = round10 (a * b * e)" "threshold c < round10 (a * b * e)"
    and fl: "min_novelty c \<le> clamp (novelty s)" "min_reward c \<le> clamp (reward s)"
      "min_surprise c \<le> clamp (surprise s)"
    using assms(1,2,3) by (auto elim: evaluate_write)
  note bounds = py_pow_bounds [OF _ _ p(1)] py_pow_bounds [OF _ _ p(2)] py_pow_bounds [OF _ _ p(3)]
  have "a * b * e \<le> a" "a * b * e \<le> b" "a * b * e \<le> e"
    using product3_le [of a b e] bounds assms(4-6) by auto
  moreover have "a \<le> clamp (novelty s)" "b \<le> clamp (reward s)" "e \<le> clamp (surprise s)"
    using p assms(4-6) by (auto intro: py_pow_le_base)
  ultimately have "a * b * e \<le> clamp (novelty s)" "a * b * e \<le> clamp (reward s)"
    "a * b * e \<le> clamp (surprise s)" by linarith+
  note le = this [THEN round10_mono]
  have "a * b * e \<le> 1"
    using \<open>a * b * e \<le> clamp (novelty s)\<close> clamp_bounds(2) [of "novelty s"] by linarith
  then show ?thesis using le sal fl by (auto intro: round10_le_1)
qed

theorem salience_gate_needs_every_signal_witness:
  "(\<exists>d. evaluate_salience \<lparr>novelty = Fin 1, reward = Fin 1, surprise = PInf\<rparr> default_config = Inr d
     \<and> dwrite d) \<and> (6 / 10 :: real) < round10 1"
proof -
  let ?s = "\<lparr>novelty = Fin 1, reward = Fin 1, surprise = PInf\<rparr>"
  let ?d = "\<lparr>dwrite = True, dsalience = 1, dreason = ''cleared'', dcomponents = (1, 1, 1)\<rparr>"
  have e: "evaluate_salience ?s default_config = Inr ?d"
    by (simp add: evaluate_salience_def default_config_def clamp_def py_pow_def)
  show ?thesis
    using e salience_gate_needs_every_signal [OF e] by (auto simp: default_config_def clamp_def)
qed

text \<open>
  the gate is monotone.  For weights that are not negative, raising any of the signals
  never turns an accepted write into a rejected one, and the gate never raises.
\<close>

theorem salience_gate_monotone:
  assumes "evaluate_salience s c = Inr d" "dwrite d"
    and "weights c = (wn, wr, ws)" "0 \<le> wn" "0 \<le> wr" "0 \<le> ws"
    and "clamp (novelty s) \<le> clamp (novelty s')" "clamp (reward s) \<le> clamp (reward s')"
      "clamp (surprise s) \<le> clamp (surprise s')"
  shows "\<exists>d'. evaluate_salience s' c = Inr d' \<and> dwrite d'"
proof -
  obtain a b e where p: "py_pow (clamp (novelty s)) wn = Inr a"
      "py_pow (clamp (reward s)) wr = Inr b" "py_pow (clamp (surprise s)) ws = Inr e"
    and sal: "threshold c < round10 (a * b * e)"
    and fl: "min_novelty c \<le> clamp (novelty s)" "min_reward c \<le> clamp (reward s)"
      "min_surprise c \<le> clamp (surprise s)"
    using assms(1,2,3) by (auto elim: evaluate_write)
  obtain a' b' e' where p': "py_pow (clamp (novelty s')) wn = Inr a'"
      "py_pow (clamp (reward s')) wr = Inr b'" "py_pow (clamp (surprise s')) ws = Inr e'"
    using py_pow_total assms(4-6) by meson
  have "a \<le> a'" "b \<le> b'" "e \<le> e'"
    using py_pow_mono [OF _ _ _ p(1) p'(1)] py_pow_mono [OF _ _ _ p(2) p'(2)]
      py_pow_mono [OF _ _ _ p(3) p'(3)] assms(4-9) by auto
  moreover have "0 \<le> a" "0 \<le> b" "0 \<le> e"
    using py_pow_bounds(1) [OF _ _ p(1)] py_pow_bounds(1) [OF _ _ p(2)]
      py_pow_bounds(1) [OF _ _ p(3)] assms(4-6) by auto
  ultimately have "a * b * e \<le> a' * b' * e'" by (intro mult_mono) auto
  then have "threshold c < round10 (a' * b' * e')"
    using sal round10_mono by fastforce
  then show ?thesis
    using fl assms(7-9) by (intro evaluate_writesI [OF assms(3) p']) auto
qed

theorem salience_gate_monotone_witness:
  "\<exists>d'. evaluate_salience \<lparr>novelty = PInf, reward = Fin 2, surprise = Fin 1\<rparr> default_config = Inr d'
     \<and> dwrite d'"
proof -
  let ?d = "\<lparr>dwrite = True, dsalience = 1, dreason = ''cleared'', dcomponents = (1, 1, 1)\<rparr>"
  have e: "evaluate_salience \<lparr>novelty = Fin 1, reward = Fin 1, surprise = Fin 1\<rparr> default_config
      = Inr ?d"
    by (simp add: evaluate_salience_def default_config_def clamp_def py_pow_def)
  show ?thesis
    by (rule salience_gate_monotone [OF e, of 1 1 1]) (simp_all add: default_config_def clamp_def)
qed

lemma salience_neutral_rejected:
  "\<exists>d. evaluate_salience \<lparr>novelty = Fin (1/2), reward = Fin (1/2), surprise = Fin (1/2)\<rparr>
     default_config = Inr d \<and> \<not> dwrite d \<and> dreason d = ''below_threshold''"
proof -
  have "round10 (1 / 8) = 1 / 8" by (rule round10_grid [of _ "1250000000"]) simp
  then show ?thesis
    by (simp add: Let_def evaluate_salience_def default_config_def clamp_def py_pow_def)
qed

end
