(* ===== verification/Usage.thy ===== *)
theory Usage
  imports Prelude
begin

text \<open>
  Usage weighting and decay (\<open>usage.py\<close>) and the mutable-embedding seam
  (\<open>embeddings.py\<close>), both pure: the bounded saturating usage boost, the geometric decay
  towards the neutral importance, and the moving-average update that is off by default.
\<close>

section \<open>Usage boost and decay\<close>

definition NEUTRAL_IMPORTANCE :: real where "NEUTRAL_IMPORTANCE = 1 / 2"

definition USAGE_SCALE :: real where "USAGE_SCALE = 4 / 100"

text \<open>\<open>retrieval_count or 0\<close> reads \<open>None\<close> as zero.\<close>

definition usage_adjustment :: "int option \<Rightarrow> real \<Rightarrow> real \<Rightarrow> real" where
  "usage_adjustment retrieval_count weight saturation = (
     let rc = (case retrieval_count of None \<Rightarrow> 0 | Some n \<Rightarrow> n)
     in if rc \<le> 0 \<or> weight \<le> 0 \<or> saturation \<le> 0 then 0
        else round10 (weight * USAGE_SCALE * min 1 (of_int rc / saturation)))"

definition decay_factor :: "real \<Rightarrow> real \<Rightarrow> real" where
  "decay_factor age_days half_life_days =
     (if half_life_days \<le> 0 then 1 else if age_days \<le> 0 then 1
      else round10 ((1 / 2) powr (age_days / half_life_days)))"

definition decay_importance :: "real \<Rightarrow> real \<Rightarrow> real \<Rightarrow> real \<Rightarrow> real" where
  "decay_importance importance age_days half_life_days flr =
     (let f = decay_factor age_days half_life_days
      in round10 (flr + (importance - flr) * f))"

lemma decay_factor_bounds: "0 \<le> decay_factor a h" "decay_factor a h \<le> 1"
  by (auto simp: decay_factor_def powr_le1 intro!: round10_nonneg round10_le_1)

lemma decay_factor_antimono:
  assumes "a \<le> b"
  shows "decay_factor b h \<le> decay_factor a h"
proof (cases "0 < h \<and> 0 < a")
  case True
  then have "(1 / 2 :: real) powr (b / h) \<le> (1 / 2) powr (a / h)"
    using assms by (intro powr_mono') (auto simp: divide_right_mono)
  then show ?thesis using True assms by (auto simp: decay_factor_def intro: round10_mono)
next
  case False
  then show ?thesis using decay_factor_bounds(2) [of b h] by (auto simp: decay_factor_def)
qed

text \<open>A convex combination stays between its ends.\<close>

lemma lerp_bounds:
  fixes f x y :: real
  assumes "0 \<le> f" "f \<le> 1" "x \<le> y"
  shows "x \<le> x + (y - x) * f" "x + (y - x) * f \<le> y"
    "x \<le> y + (x - y) * f" "y + (x - y) * f \<le> y"
proof -
  have "0 \<le> (y - x) * f" "(y - x) * f \<le> y - x"
    using assms by (auto simp: mult_left_le)
  moreover have "(x - y) * f = - ((y - x) * f)" by (simp add: algebra_simps)
  ultimately show "x \<le> x + (y - x) * f" "x + (y - x) * f \<le> y"
    "x \<le> y + (x - y) * f" "y + (x - y) * f \<le> y" by linarith+
qed

text \<open>
  the usage boost is bounded and saturating.  It is never negative, never above
  \<open>weight * 0.04\<close> (rounded to ten digits), grows with the retrieval count, and stops
  growing at the saturation point: usage can never dominate.
\<close>

theorem usage_adjustment_bounded:
  assumes "0 \<le> w"
  shows "0 \<le> usage_adjustment rc w sat \<and> usage_adjustment rc w sat \<le> round10 (w * USAGE_SCALE)
    \<and> (m \<le> n \<longrightarrow> usage_adjustment (Some m) w sat \<le> usage_adjustment (Some n) w sat)
    \<and> (0 < sat \<and> 1 \<le> sat \<and> sat \<le> of_int n
        \<longrightarrow> usage_adjustment (Some n) w sat = round10 (w * USAGE_SCALE))"
proof -
  have scale: "0 \<le> w * USAGE_SCALE" using assms by (simp add: USAGE_SCALE_def)
  have le: "w * USAGE_SCALE * min 1 q \<le> w * USAGE_SCALE" for q
    using mult_left_mono [OF min.cobounded1 scale, of 1 q] by simp
  have "0 \<le> usage_adjustment rc w sat" for rc
    using scale by (auto simp: usage_adjustment_def Let_def intro!: round10_nonneg mult_nonneg_nonneg)
  moreover have "usage_adjustment rc w sat \<le> round10 (w * USAGE_SCALE)"
    using scale round10_mono [OF le] round10_nonneg [OF scale]
    by (auto simp: usage_adjustment_def Let_def)
  moreover have "usage_adjustment (Some m) w sat \<le> usage_adjustment (Some n) w sat" if "m \<le> n"
  proof (cases "m \<le> 0 \<or> w \<le> 0 \<or> sat \<le> 0")
    case True
    then have "usage_adjustment (Some m) w sat = 0" by (auto simp: usage_adjustment_def)
    then show ?thesis using \<open>\<And>rc. 0 \<le> usage_adjustment rc w sat\<close> by simp
  next
    case False
    then have "min 1 (real_of_int m / sat) \<le> min 1 (real_of_int n / sat)"
      using that by (intro min.mono) (auto simp: divide_right_mono)
    then show ?thesis using False that scale
      by (auto simp: usage_adjustment_def intro!: round10_mono mult_left_mono)
  qed
  moreover have "usage_adjustment (Some n) w sat = round10 (w * USAGE_SCALE)"
    if "1 \<le> sat" "sat \<le> of_int n"
    using that assms by (auto simp: usage_adjustment_def Let_def min_def field_simps)
  ultimately show ?thesis by blast
qed

theorem usage_adjustment_bounded_witness:
  "(0 :: real) \<le> 1 \<and> usage_adjustment (Some 1000) 1 10 = round10 (1 * USAGE_SCALE)"
  using usage_adjustment_bounded [of 1 None 10 10 1000] by simp

text \<open>
  decay relaxes an importance towards the floor and never crosses it.  An importance at
  or above the floor stays between the (rounded) floor and itself, one at or below it stays
  between itself and the floor, and an older drawer is never further from the floor on that
  side than a younger one.
\<close>

theorem decay_never_crosses_floor:
  shows "(flr \<le> imp \<longrightarrow> round10 flr \<le> decay_importance imp a h flr
            \<and> decay_importance imp a h flr \<le> round10 imp)
    \<and> (imp \<le> flr \<longrightarrow> round10 imp \<le> decay_importance imp a h flr
            \<and> decay_importance imp a h flr \<le> round10 flr)
    \<and> (flr \<le> imp \<and> a \<le> b \<longrightarrow> decay_importance imp b h flr \<le> decay_importance imp a h flr)
    \<and> (imp \<le> flr \<and> a \<le> b \<longrightarrow> decay_importance imp a h flr \<le> decay_importance imp b h flr)"
proof -
  note f = decay_factor_bounds [of a h]
  have mono: "decay_factor b h \<le> decay_factor a h" if "a \<le> b"
    using that by (rule decay_factor_antimono)
  have "(imp - flr) * decay_factor b h \<le> (imp - flr) * decay_factor a h" if "flr \<le> imp" "a \<le> b"
    using that mono by (intro mult_left_mono) auto
  moreover have "(imp - flr) * decay_factor a h \<le> (imp - flr) * decay_factor b h"
    if "imp \<le> flr" "a \<le> b"
    using that mono by (intro mult_left_mono_neg) auto
  ultimately show ?thesis
    using lerp_bounds [OF f, of flr imp] lerp_bounds [OF f, of imp flr]
    by (auto simp: decay_importance_def Let_def intro!: round10_mono)
qed

theorem decay_never_crosses_floor_witness:
  "(1 / 2 :: real) \<le> 9 / 10 \<and> round10 (1 / 2) \<le> decay_importance (9 / 10) 60 30 (1 / 2)"
  using decay_never_crosses_floor [of "1 / 2" "9 / 10" 60 30 60] by simp

text \<open>
  The docstring promises a factor in \<open>(0, 1]\<close>.  Rounding to ten digits makes it exactly
  zero from 35 half-lives on.
\<close>

text \<open>
  the decay factor underflows.  From 35 half-lives on the rounded factor is exactly 0,
  outside the documented range \<open>(0, 1]\<close>, and the importance is then the floor itself.
\<close>

theorem decay_factor_underflows:
  assumes "0 < h" "35 * h \<le> a"
  shows "decay_factor a h = 0 \<and> decay_importance imp a h flr = round10 flr"
proof -
  have "35 \<le> a / h" using assms by (simp add: pos_le_divide_eq)
  then have "(1 / 2 :: real) powr (a / h) \<le> (1 / 2) powr 35" by (intro powr_mono') auto
  also have "\<dots> = (1 / 2) ^ 35" by (simp add: powr_numeral)
  finally have le: "(1 / 2 :: real) powr (a / h) * 10 ^ 10 \<le> (1 / 2) ^ 35 * 10 ^ 10" by simp
  have "(1 / 2 :: real) ^ 35 * 10 ^ 10 < 1 / 2" by (simp add: power_one_over)
  with le have small: "(1 / 2 :: real) powr (a / h) * 10 ^ 10 < 1 / 2" by linarith
  moreover have "\<lfloor>(1 / 2 :: real) powr (a / h) * 10 ^ 10\<rfloor> = 0"
    using small by (subst floor_eq_iff) (simp add: order_less_le_trans)
  ultimately have "round_half_even ((1 / 2) powr (a / h) * 10 ^ 10) = 0"
    unfolding round_half_even_def Let_def by simp
  then have "round10 ((1 / 2) powr (a / h)) = 0" by (simp add: round10_def)
  moreover have "0 < a" using assms by (meson less_le_trans mult_pos_pos zero_less_numeral)
  ultimately show ?thesis using assms by (simp add: decay_factor_def decay_importance_def)
qed

theorem decay_factor_underflows_witness:
  "decay_factor 1050 30 = 0"
  using decay_factor_underflows [of 30 1050] by simp

section \<open>Mutable embeddings\<close>

record mutable_embedding_config =
  enabled :: bool
  alpha :: real
  renormalize :: bool

definition default_embedding_config :: mutable_embedding_config where
  "default_embedding_config = \<lparr>enabled = False, alpha = 1 / 10, renormalize = True\<rparr>"

definition l2_norm :: "real list \<Rightarrow> real" where
  "l2_norm v = sqrt (sum_list (map (\<lambda>x. x * x) v))"

definition l2_normalize :: "real list \<Rightarrow> real list" where
  "l2_normalize v = (let norm = l2_norm v in if norm = 0 then v else map (\<lambda>x. x / norm) v)"

definition cosine_distance :: "real list \<Rightarrow> real list \<Rightarrow> real" where
  "cosine_distance a b = (let na = l2_norm a; nb = l2_norm b in
     if na = 0 \<or> nb = 0 then 1
     else let dot = sum_list (map (\<lambda>(x, y). x * y) (zip a b))
          in round10 (1 - dot / (na * nb)))"

definition reembed :: "real list \<Rightarrow> real list \<Rightarrow> mutable_embedding_config \<Rightarrow> bool \<Rightarrow> real list" where
  "reembed current target config pinned = (
     if \<not> enabled config \<or> pinned \<or> alpha config \<le> 0 then current
     else if length current \<noteq> length target then current
     else let a = min 1 (max 0 (alpha config));
              blended = map (\<lambda>(c, t). (1 - a) * c + a * t) (zip current target)
          in if renormalize config then l2_normalize blended else blended)"

definition recall_overlap :: "'a list \<Rightarrow> 'a list \<Rightarrow> int \<Rightarrow> real" where
  "recall_overlap before after k = (
     if k \<le> 0 then 1
     else let b = py_upto before k; a = set (py_upto after k)
          in if b = [] then 1
             else of_nat (length (filter (\<lambda>x. x \<in> a) b)) / of_nat (length b))"

lemma sum_squares_nonneg: "0 \<le> sum_list (map (\<lambda>x. x * x) (v :: real list))"
  by (induction v) auto

lemma l2_norm_scale: "l2_norm (map (\<lambda>x. x / c) v) = l2_norm v / \<bar>c\<bar>"
proof -
  have "sum_list (map (\<lambda>x. x * x) (map (\<lambda>x. x / c) v)) = sum_list (map (\<lambda>x. x * x) v) / (c * c)"
    by (induction v) (auto simp: add_divide_distrib)
  then show ?thesis by (simp add: l2_norm_def real_sqrt_divide)
qed

lemma l2_norm_nonneg [simp]: "0 \<le> l2_norm v"
  by (simp add: l2_norm_def sum_squares_nonneg)

lemma l2_normalize_unit: "l2_norm (l2_normalize v) = (if l2_norm v = 0 then 0 else 1)"
  by (simp add: l2_normalize_def Let_def l2_norm_scale)

lemma length_l2_normalize [simp]: "length (l2_normalize v) = length v"
  by (simp add: l2_normalize_def Let_def)

text \<open>
  no embedding moves without an explicit opt-in, and a move keeps the vector's shape.
  With the seam disabled, the vector pinned, a rate that is not positive, or a shape
  mismatch, \<open>reembed\<close> returns the current vector; otherwise the result has the same
  length, and with \<open>renormalize\<close> its norm is 1 unless the blend is the zero vector.
\<close>

theorem reembed_opt_in:
  shows "(\<not> enabled c \<or> pinned \<or> alpha c \<le> 0 \<or> length cur \<noteq> length tgt
            \<longrightarrow> reembed cur tgt c pinned = cur)
    \<and> length (reembed cur tgt c pinned) = length cur
    \<and> (reembed cur tgt c pinned \<noteq> cur \<and> renormalize c
            \<longrightarrow> l2_norm (reembed cur tgt c pinned) \<in> {0, 1})
    \<and> reembed cur tgt default_embedding_config pinned = cur"
  by (auto simp: reembed_def Let_def l2_normalize_unit default_embedding_config_def)

theorem reembed_opt_in_witness:
  "\<not> enabled default_embedding_config
     \<and> reembed [1, 0] [0, 1] default_embedding_config False = [1, 0]"
  using reembed_opt_in [of default_embedding_config False "[1, 0]" "[0, 1]"]
  by (simp add: default_embedding_config_def)

lemma recall_overlap_bounds: "0 \<le> recall_overlap b a k" "recall_overlap b a k \<le> 1"
  by (auto simp: recall_overlap_def Let_def divide_le_eq_1)

lemma recall_overlap_same: "recall_overlap b b k = 1"
  by (simp add: recall_overlap_def Let_def)

end
