(* ===== verification/Phase3.thy ===== *)
theory Phase3
  imports Prelude
begin

text \<open>
  The Phase 3 curation rubric (\<open>phase3.py\<close>): importance of a drawer from its category and
  signals, the duplicate thresholds, and the plan of knowledge-graph facts for a batch of
  drawers.  Scores are turned into strings by Python's \<open>str\<close>, the parameter
  \<open>str_of\<close>.
\<close>

section \<open>Definitions\<close>

record drawer_record =
  did :: string
  dcategory :: "string option"
  dsignals :: "string \<rightharpoonup> bool"
  dup_match :: "(string \<times> real) option"

record kg_fact =
  subject :: string
  predicate :: string
  kobject :: string

text \<open>\<open>(base_score, {signal_key: boost_amount}, cap)\<close>, the last row the sentinel.\<close>

type_synonym rubric_row = "real \<times> (string \<times> real) list \<times> real"

definition RUBRIC_ROWS :: "(string \<times> rubric_row) list" where
  "RUBRIC_ROWS = [
     (''decision'', (75 / 100, [(''architecture_level'', 1 / 10), (''user_explicit'', 15 / 100)], 1)),
     (''architecture'', (7 / 10, [(''cross_wing'', 1 / 10)], 1)),
     (''blocker'', (65 / 100, [(''unresolved'', 1 / 10)], 9 / 10)),
     (''resolved_blocker'', (55 / 100, [(''root_cause_documented'', 1 / 10)], 8 / 10)),
     (''dependency'', (5 / 10, [(''external_breaking'', 1 / 10)], 8 / 10)),
     (''pattern'', (5 / 10, [(''cross_project'', 1 / 10)], 8 / 10)),
     (''lesson_learned'', (45 / 100, [(''gotcha_adjacent'', 1 / 10)], 7 / 10))]"

definition RUBRIC :: "string \<rightharpoonup> rubric_row" where
  "RUBRIC = map_of RUBRIC_ROWS"

definition RUBRIC_DEFAULT :: rubric_row where
  "RUBRIC_DEFAULT = (4 / 10, [], 5 / 10)"

definition DUPLICATE_IMPORTANCE_OVERRIDE :: real where "DUPLICATE_IMPORTANCE_OVERRIDE = 15 / 100"

definition NEAR_IDENTICAL_THRESHOLD :: real where "NEAR_IDENTICAL_THRESHOLD = 95 / 100"

definition RELATED_THRESHOLD :: real where "RELATED_THRESHOLD = 85 / 100"

definition rubric_row :: "string option \<Rightarrow> rubric_row" where
  "rubric_row category = (case category of
      None \<Rightarrow> RUBRIC_DEFAULT
    | Some c \<Rightarrow> (case RUBRIC c of None \<Rightarrow> RUBRIC_DEFAULT | Some row \<Rightarrow> row))"

definition boost_sum :: "(string \<times> real) list \<Rightarrow> (string \<rightharpoonup> bool) \<Rightarrow> real" where
  "boost_sum boosts signals =
     sum_list (map snd (filter (\<lambda>(key, amount). signals key = Some True) boosts))"

definition compute_importance ::
    "string option \<Rightarrow> (string \<rightharpoonup> bool) \<Rightarrow> (string \<rightharpoonup> real) option \<Rightarrow> real" where
  "compute_importance category signals base_overrides = (
     case rubric_row category of (base0, boosts, cap0) \<Rightarrow>
       let override = (case (base_overrides, category) of
                (Some ov, Some c) \<Rightarrow> ov c | _ \<Rightarrow> None);
           base = (case override of None \<Rightarrow> base0 | Some b \<Rightarrow> b);
           cap = (case override of None \<Rightarrow> cap0 | Some b \<Rightarrow> max cap0 b);
           score = base + boost_sum boosts signals
       in round10 (min score cap))"

definition duplicate_action :: "real \<Rightarrow> string option" where
  "duplicate_action score =
     (if score \<ge> NEAR_IDENTICAL_THRESHOLD then Some ''duplicates''
      else if score \<ge> RELATED_THRESHOLD then Some ''related_to'' else None)"

definition drawer_subject :: "string \<Rightarrow> string" where
  "drawer_subject i = ''drawer:'' @ i"

definition drawer_importance :: "drawer_record \<Rightarrow> (string \<rightharpoonup> real) option \<Rightarrow> real" where
  "drawer_importance d base_overrides = (
     let action = (case dup_match d of None \<Rightarrow> None | Some (m, sc) \<Rightarrow> duplicate_action sc)
     in if action = Some ''duplicates'' then DUPLICATE_IMPORTANCE_OVERRIDE
        else compute_importance (dcategory d) (dsignals d) base_overrides)"

definition drawer_facts ::
    "(real \<Rightarrow> string) \<Rightarrow> (string \<rightharpoonup> real) option \<Rightarrow> drawer_record \<Rightarrow> kg_fact list" where
  "drawer_facts str_of base_overrides d = (
     let sub = drawer_subject (did d);
         action = (case dup_match d of None \<Rightarrow> None | Some (m, sc) \<Rightarrow> duplicate_action sc)
     in [\<lparr>subject = sub, predicate = ''has_importance'',
           kobject = str_of (drawer_importance d base_overrides)\<rparr>]
        @ (case dcategory d of None \<Rightarrow> []
           | Some c \<Rightarrow> [\<lparr>subject = sub, predicate = ''has_category'', kobject = c\<rparr>])
        @ (case (action, dup_match d) of
             (Some a, Some (m, sc)) \<Rightarrow> [\<lparr>subject = sub, predicate = a, kobject = drawer_subject m\<rparr>]
           | _ \<Rightarrow> []))"

definition plan_phase3_actions ::
    "(real \<Rightarrow> string) \<Rightarrow> drawer_record list \<Rightarrow> (string \<rightharpoonup> real) option \<Rightarrow> kg_fact list" where
  "plan_phase3_actions str_of drawers base_overrides =
     concat (map (drawer_facts str_of base_overrides) drawers)"

section \<open>Lemmas\<close>

text \<open>Every row of the rubric: a base in \<open>[0.4, cap]\<close>, boosts that are not negative.\<close>

definition rubric_row_ok :: "rubric_row \<Rightarrow> bool" where
  "rubric_row_ok row = (case row of (base, boosts, cap) \<Rightarrow>
     4 / 10 \<le> base \<and> base \<le> cap \<and> cap \<le> 1 \<and> (\<forall>(k, a) \<in> set boosts. 0 \<le> a))"

lemma rubric_rows_ok: "\<forall>row \<in> set (RUBRIC_DEFAULT # map snd RUBRIC_ROWS). rubric_row_ok row"
  by (simp add: RUBRIC_ROWS_def RUBRIC_DEFAULT_def rubric_row_ok_def)

lemma rubric_row_in: "rubric_row c \<in> set (RUBRIC_DEFAULT # map snd RUBRIC_ROWS)"
  by (cases c) (force simp: rubric_row_def RUBRIC_def dest: map_of_SomeD split: option.splits)+

lemma rubric_row_wf:
  assumes "rubric_row c = (base, boosts, cap)"
  shows "4 / 10 \<le> base" "base \<le> cap" "cap \<le> 1" "\<forall>(k, a) \<in> set boosts. 0 \<le> a"
proof -
  have "rubric_row_ok (rubric_row c)" using rubric_row_in rubric_rows_ok by blast
  then show "4 / 10 \<le> base" "base \<le> cap" "cap \<le> 1" "\<forall>(k, a) \<in> set boosts. 0 \<le> a"
    by (simp_all add: assms rubric_row_ok_def)
qed

lemma boost_sum_nonneg:
  assumes "\<forall>(k, a) \<in> set boosts. 0 \<le> a"
  shows "0 \<le> boost_sum boosts signals"
  unfolding boost_sum_def using assms by (intro sum_list_nonneg) auto

lemma boost_sum_mono:
  assumes "\<forall>(k, a) \<in> set boosts. 0 \<le> a" "\<And>k. s k = Some True \<Longrightarrow> s' k = Some True"
  shows "boost_sum boosts s \<le> boost_sum boosts s'"
  using assms by (induction boosts) (auto simp: boost_sum_def)

lemma length_drawer_facts:
  "length (drawer_facts str_of ov d) = 1 + (if dcategory d = None then 0 else 1)
     + (if (case dup_match d of None \<Rightarrow> None | Some (m, sc) \<Rightarrow> duplicate_action sc) = None
        then 0 else 1)"
  by (auto simp: drawer_facts_def Let_def split: option.splits prod.splits)

lemma duplicate_action_values:
  "duplicate_action s \<in> {None, Some ''duplicates'', Some ''related_to''}"
  by (simp add: duplicate_action_def)

section \<open>Properties\<close>

text \<open>
  without overrides the importance is a score in \<open>[0.4, 1]\<close> up to the rounding, at
  most the cap of its category, and raising a signal never lowers it; an unknown category
  scores as an uncategorised drawer.
\<close>

theorem compute_importance_bounds:
  assumes "rubric_row c = (base, boosts, cap)"
  shows "round10 base \<le> compute_importance c s None \<and> compute_importance c s None \<le> round10 cap
    \<and> 0 \<le> compute_importance c s None \<and> compute_importance c s None \<le> 1
    \<and> ((\<forall>k. s k = Some True \<longrightarrow> s' k = Some True)
        \<longrightarrow> compute_importance c s None \<le> compute_importance c s' None)
    \<and> (RUBRIC x = None \<longrightarrow> compute_importance (Some x) s None = compute_importance None s None)"
proof -
  note wf = rubric_row_wf [OF assms]
  have eq: "compute_importance c s None = round10 (min (base + boost_sum boosts s) cap)" for s
    using assms by (simp add: compute_importance_def)
  have le: "base \<le> min (base + boost_sum boosts s) cap" for s
    using wf boost_sum_nonneg [OF wf(4)] by (simp add: min_def)
  have "0 \<le> round10 base" using wf by (intro round10_nonneg) linarith
  moreover have "round10 cap \<le> 1" using wf by (intro round10_le_1)
  moreover have "compute_importance c s None \<le> compute_importance c s' None"
    if "\<forall>k. s k = Some True \<longrightarrow> s' k = Some True"
    unfolding eq using boost_sum_mono [OF wf(4), of s s'] that
    by (intro round10_mono min.mono) auto
  moreover have "round10 base \<le> compute_importance c s None"
    unfolding eq by (rule round10_mono [OF le])
  moreover have "compute_importance c s None \<le> round10 cap"
    unfolding eq by (rule round10_mono) simp
  moreover have "RUBRIC x = None \<Longrightarrow> compute_importance (Some x) s None = compute_importance None s None"
    by (simp add: compute_importance_def rubric_row_def)
  ultimately show ?thesis by (metis order.trans)
qed

theorem compute_importance_bounds_witness:
  "RUBRIC ''misc'' = None
   \<and> compute_importance (Some ''misc'') Map.empty None = compute_importance None Map.empty None
   \<and> compute_importance (Some ''decision'') Map.empty None
       \<le> compute_importance (Some ''decision'') [''user_explicit'' \<mapsto> True] None"
proof -
  have r: "rubric_row (Some ''decision'')
      = (75 / 100, [(''architecture_level'', 1 / 10), (''user_explicit'', 15 / 100)], 1)"
    by (simp add: rubric_row_def RUBRIC_def RUBRIC_ROWS_def)
  have m: "RUBRIC ''misc'' = None" by (simp add: RUBRIC_def RUBRIC_ROWS_def)
  show ?thesis
    using compute_importance_bounds [OF r, of Map.empty "[''user_explicit'' \<mapsto> True]" "''misc''"] m
    by simp
qed

text \<open>
  a manifest's declared base is never clamped below its stated value: with an override
  \<open>b\<close> for the category the importance is at least \<open>b\<close>, and without one it is the
  rubric's own score.  Nothing bounds the override: a base above 1 gives an importance
  above 1, outside the documented range.
\<close>

theorem importance_override:
  shows "(ov c = Some b \<longrightarrow> round10 b \<le> compute_importance (Some c) s (Some ov))
    \<and> (ov c = None \<longrightarrow> compute_importance (Some c) s (Some ov) = compute_importance (Some c) s None)
    \<and> compute_importance None s (Some ov) = compute_importance None s None
    \<and> (ov c = Some b \<and> 2 \<le> b \<longrightarrow> 1 < compute_importance (Some c) s (Some ov))"
proof -
  obtain base boosts cap where r: "rubric_row (Some c) = (base, boosts, cap)"
    by (cases "rubric_row (Some c)") auto
  have "b \<le> min (b + boost_sum boosts s) (max cap b)" if "ov c = Some b"
    using boost_sum_nonneg [OF rubric_row_wf(4) [OF r]] by simp
  then have le: "round10 b \<le> compute_importance (Some c) s (Some ov)" if "ov c = Some b"
    using that r by (auto simp: compute_importance_def intro: round10_mono)
  moreover have "1 < compute_importance (Some c) s (Some ov)" if "ov c = Some b" "2 \<le> b"
  proof -
    have "round10 2 = 2" by (rule round10_grid [of _ "20000000000"]) simp
    then have "2 \<le> round10 b" using round10_mono [OF that(2)] by simp
    then show ?thesis using le [OF that(1)] by simp
  qed
  ultimately show ?thesis by (simp add: compute_importance_def)
qed

theorem importance_override_witness:
  "[''pattern'' \<mapsto> 2] ''pattern'' = Some (2::real)
     \<and> 1 < compute_importance (Some ''pattern'') Map.empty (Some [''pattern'' \<mapsto> 2])"
  using importance_override [of "[''pattern'' \<mapsto> 2]" "''pattern''" 2 Map.empty] by simp

text \<open>
  the plan of a batch.  For each drawer, in order: exactly one \<open>has_importance\<close> fact,
  then a \<open>has_category\<close> fact exactly when it has a category, then one duplicate edge exactly
  when its match scores at least 0.85; a near-identical drawer (0.95 and up) is tagged with
  the override 0.15 whatever its category and signals.  The plan of a concatenation is the
  concatenation of the plans: no drawer influences another.
\<close>

theorem plan_phase3_spec:
  shows "plan_phase3_actions str_of (ds @ es) ov
      = plan_phase3_actions str_of ds ov @ plan_phase3_actions str_of es ov
    \<and> filter (\<lambda>f. predicate f = ''has_importance'') (plan_phase3_actions str_of ds ov)
      = map (\<lambda>d. \<lparr>subject = drawer_subject (did d), predicate = ''has_importance'',
                kobject = str_of (drawer_importance d ov)\<rparr>) ds
    \<and> length (filter (\<lambda>f. predicate f = ''has_category'') (plan_phase3_actions str_of ds ov))
      = length (filter (\<lambda>d. dcategory d \<noteq> None) ds)
    \<and> (\<forall>d \<in> set ds. \<forall>m sc. dup_match d = Some (m, sc) \<and> 95 / 100 \<le> sc \<longrightarrow>
         drawer_importance d ov = 15 / 100
         \<and> \<lparr>subject = drawer_subject (did d), predicate = ''duplicates'', kobject = drawer_subject m\<rparr>
             \<in> set (plan_phase3_actions str_of ds ov))"
proof (intro conjI)
  show "filter (\<lambda>f. predicate f = ''has_importance'') (plan_phase3_actions str_of ds ov)
      = map (\<lambda>d. \<lparr>subject = drawer_subject (did d), predicate = ''has_importance'',
                kobject = str_of (drawer_importance d ov)\<rparr>) ds"
    by (induction ds)
      (auto simp: plan_phase3_actions_def drawer_facts_def Let_def duplicate_action_def
        split: option.splits)
  show "length (filter (\<lambda>f. predicate f = ''has_category'') (plan_phase3_actions str_of ds ov))
      = length (filter (\<lambda>d. dcategory d \<noteq> None) ds)"
    by (induction ds)
      (auto simp: plan_phase3_actions_def drawer_facts_def Let_def duplicate_action_def
        split: option.splits)
  show "\<forall>d \<in> set ds. \<forall>m sc. dup_match d = Some (m, sc) \<and> 95 / 100 \<le> sc \<longrightarrow>
         drawer_importance d ov = 15 / 100
         \<and> \<lparr>subject = drawer_subject (did d), predicate = ''duplicates'', kobject = drawer_subject m\<rparr>
             \<in> set (plan_phase3_actions str_of ds ov)"
    by (auto simp: plan_phase3_actions_def drawer_facts_def drawer_importance_def Let_def
        duplicate_action_def NEAR_IDENTICAL_THRESHOLD_def DUPLICATE_IMPORTANCE_OVERRIDE_def
        intro!: bexI)
qed (simp add: plan_phase3_actions_def)

theorem plan_phase3_spec_witness:
  "drawer_importance \<lparr>did = ''a'', dcategory = Some ''decision'', dsignals = Map.empty,
     dup_match = Some (''b'', 1)\<rparr> None = 15 / 100"
proof -
  let ?d = "\<lparr>did = ''a'', dcategory = Some ''decision'', dsignals = Map.empty,
     dup_match = Some (''b'', 1)\<rparr> :: drawer_record"
  have "?d \<in> set [?d]" "dup_match ?d = Some (''b'', 1) \<and> 95 / 100 \<le> (1 :: real)" by simp_all
  then show ?thesis using plan_phase3_spec [of "\<lambda>_. ''''" "[?d]" "[]" None] by blast
qed

end
