(* ===== verification/Manifest.thy ===== *)
theory Manifest
  imports Prelude "HOL-Library.AList"
begin

text \<open>
  The capture manifest (\<open>manifest.py\<close>): the declared capture targets, the zero-LLM
  category detection, the parser over an already-decoded YAML document and the resolution
  order of the candidate files.  PyYAML, the file system and Python's conversions between
  strings and numbers are parameters.
\<close>

section \<open>Data\<close>

record attractor =
  aid :: string
  seeds :: "string list"
  importance_base :: "real option"
  intent :: "string option"

record manifest =
  version :: int
  attractors :: "attractor list"
  emergent_enabled :: bool
  emergent_promote_threshold :: int

text \<open>\<open>{a.id: list(a.seeds) for a in attractors}\<close>: a repeated id keeps its first position
  and takes the last value, as a Python dict does.\<close>

definition category_signals :: "manifest \<Rightarrow> (string \<times> string list) list" where
  "category_signals m = fold (\<lambda>a. AList.update (aid a) (seeds a)) (attractors m) []"

definition importance_bases :: "manifest \<Rightarrow> (string \<rightharpoonup> real)" where
  "importance_bases m = fold (\<lambda>a b. case importance_base a of None \<Rightarrow> b
     | Some v \<Rightarrow> b(aid a \<mapsto> v)) (attractors m) Map.empty"

section \<open>Category detection\<close>

fun detect_category :: "string \<Rightarrow> (string \<times> string list) list \<Rightarrow> string option" where
  "detect_category text [] = None"
| "detect_category text ((category, sds) # rest) =
     (if \<exists>seed \<in> set sds. contains seed (py_lower text) then Some category
      else detect_category text rest)"

section \<open>Parsing\<close>

datatype yaml =
    YNull
  | YBool bool
  | YInt int
  | YFloat real
  | YStr string
  | YList "yaml list"
  | YMap "(string \<times> yaml) list"

fun truthy :: "yaml \<Rightarrow> bool" where
  "truthy YNull = False"
| "truthy (YBool b) = b"
| "truthy (YInt n) = (n \<noteq> 0)"
| "truthy (YFloat x) = (x \<noteq> 0)"
| "truthy (YStr s) = (s \<noteq> [])"
| "truthy (YList xs) = (xs \<noteq> [])"
| "truthy (YMap m) = (m \<noteq> [])"

text \<open>The Python conversions of a decoded scalar: \<open>int\<close>, \<open>float\<close> and \<open>str\<close>.\<close>

record conversions =
  str_of :: "yaml \<Rightarrow> string"
  int_of_str :: "string \<Rightarrow> int option"
  float_of_str :: "string \<Rightarrow> real option"

text \<open>\<open>str(v)\<close>.\<close>

definition json_text :: "conversions \<Rightarrow> yaml \<Rightarrow> string" where
  "json_text cv v = (case v of YStr s \<Rightarrow> s | _ \<Rightarrow> str_of cv v)"

definition py_trunc :: "real \<Rightarrow> int" where
  "py_trunc x = (if 0 \<le> x then \<lfloor>x\<rfloor> else \<lceil>x\<rceil>)"

definition to_int :: "conversions \<Rightarrow> yaml \<Rightarrow> py_error + int" where
  "to_int cv v = (case v of
      YInt n \<Rightarrow> Inr n
    | YBool b \<Rightarrow> Inr (if b then 1 else 0)
    | YFloat x \<Rightarrow> Inr (py_trunc x)
    | YStr s \<Rightarrow> (case int_of_str cv s of Some n \<Rightarrow> Inr n | None \<Rightarrow> Inl (ValueError s))
    | _ \<Rightarrow> Inl (TypeError ''int''))"

definition to_float :: "conversions \<Rightarrow> yaml \<Rightarrow> py_error + real" where
  "to_float cv v = (case v of
      YInt n \<Rightarrow> Inr (of_int n)
    | YBool b \<Rightarrow> Inr (if b then 1 else 0)
    | YFloat x \<Rightarrow> Inr x
    | YStr s \<Rightarrow> (case float_of_str cv s of Some x \<Rightarrow> Inr x | None \<Rightarrow> Inl (ValueError s))
    | _ \<Rightarrow> Inl (TypeError ''float''))"

text \<open>\<open>for x in (v or [])\<close>: a list, the characters of a string, the keys of a mapping.\<close>

definition iter_or_empty :: "yaml option \<Rightarrow> py_error + yaml list" where
  "iter_or_empty ov = (case ov of
      None \<Rightarrow> Inr []
    | Some v \<Rightarrow> if \<not> truthy v then Inr [] else
        (case v of
           YList xs \<Rightarrow> Inr xs
         | YStr s \<Rightarrow> Inr (map (\<lambda>c. YStr [c]) s)
         | YMap m \<Rightarrow> Inr (map (YStr \<circ> fst) m)
         | _ \<Rightarrow> Inl (TypeError ''not iterable'')))"

definition parse_attractor :: "conversions \<Rightarrow> yaml \<Rightarrow> py_error + attractor" where
  "parse_attractor cv raw = (case raw of
      YMap m \<Rightarrow>
        (case map_of m ''id'' of
           None \<Rightarrow> Inl (ValueError ''attractor missing required id'')
         | Some i \<Rightarrow>
             if \<not> truthy i then Inl (ValueError ''attractor missing required id'')
             else (case iter_or_empty (map_of m ''seeds'') of
                 Inl e \<Rightarrow> Inl e
               | Inr ss \<Rightarrow>
                   let base = (case map_of m ''importance_base'' of
                          None \<Rightarrow> Inr None
                        | Some YNull \<Rightarrow> Inr None
                        | Some b \<Rightarrow> (case to_float cv b of Inl e \<Rightarrow> Inl e | Inr x \<Rightarrow> Inr (Some x)));
                       int' = (case map_of m ''intent'' of
                          None \<Rightarrow> None | Some YNull \<Rightarrow> None | Some v \<Rightarrow> Some (str_of cv v))
                   in (case base of Inl e \<Rightarrow> Inl e
                       | Inr b \<Rightarrow> Inr \<lparr>aid = str_of cv i, seeds = map (str_of cv) ss,
                            importance_base = b, intent = int'\<rparr>)))
    | YStr s \<Rightarrow> if contains ''id'' s then Inl (TypeError ''string indices'')
               else Inl (ValueError ''attractor missing required id'')
    | YList xs \<Rightarrow> if YStr ''id'' \<in> set xs then Inl (TypeError ''list indices'')
               else Inl (ValueError ''attractor missing required id'')
    | _ \<Rightarrow> Inl (TypeError ''not iterable''))"

definition parse_manifest :: "conversions \<Rightarrow> (string \<times> yaml) list \<Rightarrow> py_error + manifest" where
  "parse_manifest cv data = (
     case to_int cv (case map_of data ''version'' of None \<Rightarrow> YInt 1 | Some v \<Rightarrow> v) of
       Inl e \<Rightarrow> Inl e
     | Inr ver \<Rightarrow>
         (case iter_or_empty (map_of data ''attractors'') of
            Inl e \<Rightarrow> Inl e
          | Inr raws \<Rightarrow>
              (case mapM (parse_attractor cv) raws of
                 Inl e \<Rightarrow> Inl e
               | Inr as \<Rightarrow>
                   let em = (case map_of data ''emergent'' of
                              None \<Rightarrow> YMap []
                            | Some v \<Rightarrow> if truthy v then v else YMap [])
                   in (case em of
                         YMap e \<Rightarrow>
                           (case to_int cv (case map_of e ''promote_threshold'' of
                                   None \<Rightarrow> YInt 5 | Some v \<Rightarrow> v) of
                              Inl err \<Rightarrow> Inl err
                            | Inr th \<Rightarrow> Inr \<lparr>version = ver, attractors = as,
                                emergent_enabled = (case map_of e ''enabled'' of
                                   None \<Rightarrow> False | Some v \<Rightarrow> truthy v),
                                emergent_promote_threshold = th\<rparr>)
                       | _ \<Rightarrow> Inl (TypeError ''emergent has no get'')))))"

section \<open>The built-in default\<close>

definition DEFAULT_MANIFEST :: manifest where
  "DEFAULT_MANIFEST = \<lparr>version = 1, attractors = [
     \<lparr>aid = ''decision'',
      seeds = [''decided'', ''decision'', ''we will'', ''going with'', ''chosen'', ''agreed''],
      importance_base = Some (75 / 100),
      intent = Some ''Decisions that shape what we build or how we build it''\<rparr>,
     \<lparr>aid = ''architecture'',
      seeds = [''architecture'', ''design'', ''pattern'', ''structure'', ''component'', ''module''],
      importance_base = Some (7 / 10),
      intent = Some ''System structure, design patterns, component boundaries''\<rparr>,
     \<lparr>aid = ''blocker'',
      seeds = [''blocked'', ''blocking'', ''cannot'', ''failed'', ''error'', ''issue'', ''problem''],
      importance_base = Some (65 / 100),
      intent = Some ''Active problems blocking progress''\<rparr>,
     \<lparr>aid = ''resolved_blocker'',
      seeds = [''fixed'', ''resolved'', ''workaround'', ''solution found'', ''now works''],
      importance_base = Some (55 / 100),
      intent = Some ''Problems that were fixed, with the resolution''\<rparr>,
     \<lparr>aid = ''dependency'',
      seeds = [''depends on'', ''requires'', ''dependency'', ''import'', ''package''],
      importance_base = Some (5 / 10),
      intent = Some ''What depends on what; external requirements''\<rparr>,
     \<lparr>aid = ''pattern'',
      seeds = [''pattern'', ''convention'', ''always'', ''never'', ''best practice'', ''rule''],
      importance_base = Some (5 / 10),
      intent = Some ''Conventions and rules to follow or avoid''\<rparr>,
     \<lparr>aid = ''lesson_learned'',
      seeds = [''learned'', ''lesson'', ''turns out'', ''discovered'', ''realized'', ''note:''],
      importance_base = Some (45 / 100),
      intent = Some ''Non-obvious things discovered the hard way''\<rparr>],
     emergent_enabled = False, emergent_promote_threshold = 5\<rparr>"

section \<open>Loading\<close>

text \<open>Paths are strings, joined with a slash; \<open>expanduser\<close> is a parameter.\<close>

definition candidate_paths ::
    "(string \<Rightarrow> string) \<Rightarrow> string option \<Rightarrow> string \<Rightarrow> string \<Rightarrow> string list" where
  "candidate_paths expanduser config_path cwd home =
     (case config_path of None \<Rightarrow> [] | Some p \<Rightarrow> if p = [] then [] else [expanduser p])
     @ [cwd @ ''/project-context/memory-manifest.yaml'', home @ ''/.amplifier/memory-manifest.yaml'']"

text \<open>What reading one candidate gives: \<open>None\<close> when the loop goes on to the next.\<close>

definition try_manifest ::
    "conversions \<Rightarrow> (string \<Rightarrow> bool) \<Rightarrow> (string \<Rightarrow> py_error + yaml) \<Rightarrow> string \<Rightarrow> manifest option" where
  "try_manifest cv is_file safe_load path = (
     if \<not> is_file path then None
     else (case safe_load path of
         Inr (YMap d) \<Rightarrow> (case parse_manifest cv d of Inr m \<Rightarrow> Some m | Inl _ \<Rightarrow> None)
       | _ \<Rightarrow> None))"

fun first_manifest ::
    "conversions \<Rightarrow> (string \<Rightarrow> bool) \<Rightarrow> (string \<Rightarrow> py_error + yaml) \<Rightarrow> string list \<Rightarrow> manifest" where
  "first_manifest cv is_file safe_load [] = DEFAULT_MANIFEST"
| "first_manifest cv is_file safe_load (p # ps) =
     (case try_manifest cv is_file safe_load p of
        Some m \<Rightarrow> m | None \<Rightarrow> first_manifest cv is_file safe_load ps)"

definition load_manifest ::
    "conversions \<Rightarrow> bool \<Rightarrow> (string \<Rightarrow> string) \<Rightarrow> (string \<Rightarrow> bool) \<Rightarrow> (string \<Rightarrow> py_error + yaml)
       \<Rightarrow> string option \<Rightarrow> string \<Rightarrow> string \<Rightarrow> manifest" where
  "load_manifest cv has_yaml expanduser is_file safe_load config_path cwd home =
     (if \<not> has_yaml then DEFAULT_MANIFEST
      else first_manifest cv is_file safe_load (candidate_paths expanduser config_path cwd home))"

section \<open>Lemmas\<close>

lemma detect_category_Some_iff:
  "detect_category text sigs = Some c \<longleftrightarrow>
     (\<exists>pre sds post. sigs = pre @ (c, sds) # post
        \<and> (\<forall>(c', ss) \<in> set pre. \<forall>s \<in> set ss. \<not> contains s (py_lower text))
        \<and> (\<exists>s \<in> set sds. contains s (py_lower text)))"
proof (induction sigs)
  case (Cons p sigs)
  obtain c' ss where p: "p = (c', ss)" by (cases p)
  show ?case
  proof (cases "\<exists>s \<in> set ss. contains s (py_lower text)")
    case True
    have "(\<exists>pre sds post. p # sigs = pre @ (c, sds) # post
        \<and> (\<forall>(c', ss) \<in> set pre. \<forall>s \<in> set ss. \<not> contains s (py_lower text))
        \<and> (\<exists>s \<in> set sds. contains s (py_lower text))) \<longleftrightarrow> c = c'"
      (is "?L \<longleftrightarrow> _")
    proof
      assume ?L
      then obtain pre sds post where "p # sigs = pre @ (c, sds) # post"
        "\<forall>(c', ss) \<in> set pre. \<forall>s \<in> set ss. \<not> contains s (py_lower text)" by blast
      with True show "c = c'" unfolding p by (cases pre) auto
    next
      assume "c = c'"
      with True show ?L unfolding p
        by - (rule exI [of _ "[]"], rule exI [of _ ss], rule exI [of _ sigs], auto)
    qed
    with True show ?thesis unfolding p by auto
  next
    case False
    have "(\<exists>pre sds post. p # sigs = pre @ (c, sds) # post
        \<and> (\<forall>(c', ss) \<in> set pre. \<forall>s \<in> set ss. \<not> contains s (py_lower text))
        \<and> (\<exists>s \<in> set sds. contains s (py_lower text)))
      \<longleftrightarrow> (\<exists>pre sds post. sigs = pre @ (c, sds) # post
        \<and> (\<forall>(c', ss) \<in> set pre. \<forall>s \<in> set ss. \<not> contains s (py_lower text))
        \<and> (\<exists>s \<in> set sds. contains s (py_lower text)))" (is "?L \<longleftrightarrow> ?R")
    proof
      assume ?L
      then obtain pre sds post where h: "p # sigs = pre @ (c, sds) # post"
        "\<forall>(c', ss) \<in> set pre. \<forall>s \<in> set ss. \<not> contains s (py_lower text)"
        "\<exists>s \<in> set sds. contains s (py_lower text)" by blast
      with False obtain pre' where "pre = p # pre'" unfolding p by (cases pre) auto
      with h show ?R by auto
    next
      assume ?R
      then obtain pre sds post where h: "sigs = pre @ (c, sds) # post"
        "\<forall>(c', ss) \<in> set pre. \<forall>s \<in> set ss. \<not> contains s (py_lower text)"
        "\<exists>s \<in> set sds. contains s (py_lower text)" by blast
      then show ?L using False unfolding p
        by (intro exI [of _ "(c', ss) # pre"] exI [of _ sds] exI [of _ post]) auto
    qed
    with False Cons show ?thesis unfolding p by simp
  qed
qed simp

lemma detect_category_None_iff:
  "detect_category text sigs = None \<longleftrightarrow>
     (\<forall>(c, ss) \<in> set sigs. \<forall>s \<in> set ss. \<not> contains s (py_lower text))"
  by (induction sigs) (auto split: if_splits)

text \<open>A seed with a capital ASCII letter matches nothing: the text is lowered, the seed is not.\<close>

lemma capital_seed_never_matches:
  assumes "c \<in> set seed" "65 \<le> (of_char c :: nat)" "(of_char c :: nat) \<le> 90"
  shows "\<not> contains seed (py_lower text)"
proof
  assume "contains seed (py_lower text)"
  with assms(1) have "c \<in> set (py_lower text)" by (auto dest: contains_set)
  then obtain d where "c = lower_char d" by (auto simp: py_lower_def)
  then show False using assms(2,3) lower_char_not_upper [of d] by simp
qed

lemma first_manifest_split:
  assumes "\<forall>p \<in> set ps. try_manifest cv isf ld p = None" "try_manifest cv isf ld q = Some m"
  shows "first_manifest cv isf ld (ps @ q # rest) = m"
  using assms by (induction ps) auto

lemma first_manifest_default:
  "\<forall>p \<in> set ps. try_manifest cv isf ld p = None \<Longrightarrow> first_manifest cv isf ld ps = DEFAULT_MANIFEST"
  by (induction ps) auto

lemma default_category_signals:
  "category_signals DEFAULT_MANIFEST = map (\<lambda>a. (aid a, seeds a)) (attractors DEFAULT_MANIFEST)"
  by (simp add: category_signals_def DEFAULT_MANIFEST_def)

section \<open>Properties\<close>

text \<open>
  first match wins.  A category is reported exactly when one of its seeds occurs in
  the lowered text and no seed of an earlier category does; nothing is reported exactly
  when no seed of any category occurs.
\<close>

theorem detect_category_first_match:
  shows "(detect_category text sigs = Some c \<longleftrightarrow>
     (\<exists>pre sds post. sigs = pre @ (c, sds) # post
        \<and> (\<forall>(c', ss) \<in> set pre. \<forall>s \<in> set ss. \<not> contains s (py_lower text))
        \<and> (\<exists>s \<in> set sds. contains s (py_lower text))))
   \<and> (detect_category text sigs = None \<longleftrightarrow>
     (\<forall>(c, ss) \<in> set sigs. \<forall>s \<in> set ss. \<not> contains s (py_lower text)))"
  by (rule conjI [OF detect_category_Some_iff detect_category_None_iff])

theorem detect_category_first_match_witness:
  "detect_category ''We DECIDED'' [(''a'', [''x'']), (''b'', [''decided''])] = Some ''b''"
proof -
  let ?t = "''We DECIDED''" and ?a = "(''a'', [''x''])" and ?b = "(''b'', [''decided''])"
  have "contains ''decided'' (py_lower ?t)" by code_simp
  moreover have "\<not> contains ''x'' (py_lower ?t)" by code_simp
  ultimately have "\<exists>pre sds post. [?a, ?b] = pre @ (''b'', sds) # post
      \<and> (\<forall>(c', ss) \<in> set pre. \<forall>s \<in> set ss. \<not> contains s (py_lower ?t))
      \<and> (\<exists>s \<in> set sds. contains s (py_lower ?t))"
    by (intro exI [of _ "[?a]"] exI [of _ "[''decided'']"] exI [of _ "[]"]) simp
  then show ?thesis
    using detect_category_first_match [of ?t "[?a, ?b]" "''b''"] by blast
qed

text \<open>
  the seed ''pattern'' of the default category \<open>pattern\<close> is dead.  The earlier
  category \<open>architecture\<close> declares the same seed, so a text that mentions a pattern is
  filed under \<open>decision\<close> or \<open>architecture\<close> and never under \<open>pattern\<close>.
\<close>

theorem pattern_seed_is_dead:
  assumes "contains ''pattern'' (py_lower text)"
  shows "detect_category text (category_signals DEFAULT_MANIFEST)
     \<in> {Some ''decision'', Some ''architecture''}"
  using assms unfolding default_category_signals by (simp add: DEFAULT_MANIFEST_def)

theorem pattern_seed_is_dead_witness:
  "contains ''pattern'' (py_lower ''a pattern to follow'')
   \<and> detect_category ''a pattern to follow'' (category_signals DEFAULT_MANIFEST) \<noteq> Some ''pattern''"
proof -
  have c: "contains ''pattern'' (py_lower ''a pattern to follow'')" by code_simp
  show ?thesis using c pattern_seed_is_dead [OF c] by auto
qed

text \<open>
  resolution order with a safe fallback.  Loading never raises; the result is the
  manifest of the first candidate that is a file, decodes to a mapping and parses, the
  explicit path first; when no candidate does, or PyYAML is absent, it is the built-in
  default.  A malformed earlier candidate never hides a valid later one.
\<close>

theorem load_manifest_resolution:
  shows "(candidate_paths ex cp cwd home = ps @ q # rest
        \<and> (\<forall>p \<in> set ps. try_manifest cv isf ld p = None) \<and> try_manifest cv isf ld q = Some m
        \<longrightarrow> load_manifest cv True ex isf ld cp cwd home = m)
    \<and> ((\<forall>p \<in> set (candidate_paths ex cp cwd home). try_manifest cv isf ld p = None)
        \<longrightarrow> load_manifest cv True ex isf ld cp cwd home = DEFAULT_MANIFEST)
    \<and> load_manifest cv False ex isf ld cp cwd home = DEFAULT_MANIFEST
    \<and> (cp = Some (c # cs) \<and> try_manifest cv isf ld (ex (c # cs)) = Some m
        \<longrightarrow> load_manifest cv True ex isf ld cp cwd home = m)"
  by (auto simp: load_manifest_def first_manifest_split first_manifest_default candidate_paths_def)

definition demo_conversions :: conversions where
  "demo_conversions = \<lparr>str_of = (\<lambda>_. ''x''), int_of_str = (\<lambda>_. None), float_of_str = (\<lambda>_. None)\<rparr>"

definition demo_load :: "string \<Rightarrow> py_error + yaml" where
  "demo_load p = (if p = ''/m'' then Inr (YMap [(''version'', YInt 2)]) else Inl (OSError p))"

theorem load_manifest_resolution_witness:
  "version (load_manifest demo_conversions True id (\<lambda>_. True) demo_load (Some ''/m'') ''/w'' ''/h'') = 2
    \<and> load_manifest demo_conversions True id (\<lambda>_. True) demo_load None ''/w'' ''/h'' = DEFAULT_MANIFEST"
proof -
  let ?cv = demo_conversions and ?ld = demo_load
  let ?m = "\<lparr>version = 2, attractors = [], emergent_enabled = False, emergent_promote_threshold = 5\<rparr>"
  have t: "try_manifest ?cv (\<lambda>_. True) ?ld (id ''/m'') = Some ?m"
    by (simp add: try_manifest_def demo_load_def parse_manifest_def to_int_def iter_or_empty_def)
  have n: "\<forall>p \<in> set (candidate_paths id None ''/w'' ''/h''). try_manifest ?cv (\<lambda>_. True) ?ld p = None"
    by (simp add: candidate_paths_def try_manifest_def demo_load_def)
  show ?thesis
    using load_manifest_resolution [of id "Some ''/m''" "''/w''" "''/h''" _ _ _ ?cv "\<lambda>_. True" ?ld ?m
        "CHR ''/''" "''m''"] load_manifest_resolution [of id None "''/w''" "''/h''" _ _ _ ?cv "\<lambda>_. True" ?ld ?m]
      t n by simp
qed

end
