(* ===== verification/Mutation.thy ===== *)
theory Mutation
  imports Prelude
begin

text \<open>
  The plasticity mutation contract (\<open>scripts/mutation.py\<close>): the reversible delta, the
  record every plasticity write carries, and its constructor.  The fresh id and the clock
  are parameters.
\<close>

section \<open>Definitions\<close>

record reversible_delta =
  dsubject :: string
  dpredicate :: string
  new_value :: string
  old_value :: "string option"

definition inverse :: "reversible_delta \<Rightarrow> reversible_delta" where
  "inverse d = \<lparr>dsubject = dsubject d, dpredicate = dpredicate d,
     new_value = (case old_value d of Some o' \<Rightarrow> o' | None \<Rightarrow> new_value d),
     old_value = (case old_value d of Some _ \<Rightarrow> None | None \<Rightarrow> Some (new_value d))\<rparr>"

record mutation_record =
  interaction_id :: string
  provenance :: string
  source_outcome :: string
  delta :: reversible_delta
  confidence :: real
  timestamp :: string
  rollback_handle :: string
  atomic :: bool
  applied :: bool
  extra :: "(string \<times> string) list"

definition mark_applied :: "mutation_record \<Rightarrow> mutation_record" where
  "mark_applied r = r\<lparr>applied := True\<rparr>"

definition new_interaction_id :: "string \<Rightarrow> string" where
  "new_interaction_id uuid_hex = ''ix_'' @ uuid_hex"

definition new_mutation ::
    "string \<Rightarrow> string \<Rightarrow> string \<Rightarrow> string \<Rightarrow> reversible_delta \<Rightarrow> real \<Rightarrow> bool \<Rightarrow> string option
       \<Rightarrow> py_error + mutation_record" where
  "new_mutation uuid_hex now prov outcome d conf atm iid0 = (
     if prov = [] then Inl (ValueError ''mutation contract violation: empty provenance'')
     else if outcome = [] then Inl (ValueError ''mutation contract violation: empty source_outcome'')
     else let iid = (case iid0 of Some i \<Rightarrow> if i = [] then new_interaction_id uuid_hex else i
                     | None \<Rightarrow> new_interaction_id uuid_hex)
          in Inr \<lparr>interaction_id = iid, provenance = prov, source_outcome = outcome, delta = d,
                  confidence = max 0 (min 1 conf), timestamp = now, rollback_handle = iid,
                  atomic = atm, applied = False, extra = []\<rparr>)"

section \<open>Lemmas\<close>

lemma new_mutation_Inr:
  assumes "new_mutation u t p oc d cf a i = Inr r"
  shows "provenance r = p" "source_outcome r = oc" "p \<noteq> []" "oc \<noteq> []" "delta r = d" "timestamp r = t"
    "atomic r = a" "\<not> applied r" "rollback_handle r = interaction_id r" "interaction_id r \<noteq> []"
    "0 \<le> confidence r" "confidence r \<le> 1"
  using assms by (auto simp: new_mutation_def new_interaction_id_def Let_def split: if_splits option.splits)

lemma new_mutation_ok_iff: "(\<exists>r. new_mutation u t p oc d cf a i = Inr r) \<longleftrightarrow> p \<noteq> [] \<and> oc \<noteq> []"
  by (auto simp: new_mutation_def Let_def)

section \<open>Properties\<close>

text \<open>
  the mutation contract.  A record is minted exactly when provenance and source
  outcome are both given; then it carries them verbatim, its confidence lies in
  \<open>[0, 1]\<close>, its id is not empty and is its rollback handle, and it is not yet applied.
\<close>

theorem new_mutation_contract:
  shows "((\<exists>r. new_mutation u t p oc d cf a i = Inr r) \<longleftrightarrow> p \<noteq> [] \<and> oc \<noteq> [])
    \<and> (\<forall>r. new_mutation u t p oc d cf a i = Inr r \<longrightarrow>
        provenance r = p \<and> source_outcome r = oc \<and> delta r = d \<and> atomic r = a
        \<and> 0 \<le> confidence r \<and> confidence r \<le> 1
        \<and> interaction_id r \<noteq> [] \<and> rollback_handle r = interaction_id r
        \<and> \<not> applied r \<and> applied (mark_applied r) \<and> (mark_applied r)\<lparr>applied := False\<rparr> = r)"
  using new_mutation_ok_iff [of u t p oc d cf a i]
  by (auto simp: new_mutation_Inr mark_applied_def)

theorem new_mutation_contract_witness:
  "\<exists>r. new_mutation ''ff'' ''t'' ''hook'' ''ok'' \<lparr>dsubject = ''s'', dpredicate = ''p'',
       new_value = ''1'', old_value = None\<rparr> 7 True None = Inr r \<and> confidence r \<le> 1"
  using new_mutation_contract [of "''ff''" "''t''" "''hook''" "''ok''" "\<lparr>dsubject = ''s'',
      dpredicate = ''p'', new_value = ''1'', old_value = None\<rparr>" 7 True None] by blast

text \<open>
  the inverse of a delta carries no old value exactly when the delta had one.  The
  docstring of \<open>inverse\<close> has callers read a missing old value on the inverse as "there was
  no prior value, only invalidate the new one"; the code produces it in the other case, and
  an inverse applied twice is the original only up to the lost old value.
\<close>

theorem inverse_old_value:
  shows "(old_value (inverse d) = None \<longleftrightarrow> old_value d \<noteq> None)
    \<and> (old_value d = Some v \<longrightarrow> new_value (inverse d) = v
        \<and> inverse (inverse d) = d\<lparr>new_value := v, old_value := Some v\<rparr>)
    \<and> (old_value d = None \<longrightarrow> inverse d = d\<lparr>old_value := Some (new_value d)\<rparr>
        \<and> inverse (inverse d) = d)"
  by (cases d) (auto simp: inverse_def split: option.splits)

theorem inverse_old_value_witness:
  "old_value (inverse \<lparr>dsubject = ''s'', dpredicate = ''p'', new_value = ''0.7'',
     old_value = Some ''0.4''\<rparr>) = None"
  using inverse_old_value [of "\<lparr>dsubject = ''s'', dpredicate = ''p'', new_value = ''0.7'',
     old_value = Some ''0.4''\<rparr>" "''0.4''"] by simp

end
