(* ===== verification/Memory_Store.thy ===== *)
theory Memory_Store
  imports Mutation
begin

text \<open>
  The storage seam of the consolidation pipeline (\<open>store.py\<close>): the \<open>MemoryStore\<close>
  protocol as the locale \<open>memory_store\<close>, the plasticity surface as the locale
  \<open>plasticity_store\<close>, the in-memory \<open>RecordingMemoryStore\<close> as an instance of both, and
  the client \<open>write_cells\<close> (\<open>scripts/write_cells.py\<close>).  \<open>str\<close> and \<open>float\<close> on
  numbers are parameters.
\<close>

section \<open>The protocol\<close>

text \<open>The arguments of \<open>file\<close>.\<close>

record cell =
  wing :: string
  room :: string
  content :: string
  source :: string
  category :: "string option"
  importance :: "real option"
  embedding :: "real list option"

text \<open>
  \<open>MemoryStore\<close>: filing a cell appends its record to what the store has filed and touches
  no earlier record.
\<close>

locale memory_store =
  fixes file_cell :: "cell \<Rightarrow> 's \<Rightarrow> 's"
    and filed :: "'s \<Rightarrow> cell list"
  assumes file_appends: "filed (file_cell c s) = filed s @ [c]"

text \<open>
  The plasticity surface: an accepted update appends its record to the ledger, marked
  applied and carrying the caller's contract fields.  An update returns its result and the
  state it leaves, on an error too.
\<close>

record update_request =
  u_subject :: string
  u_old :: "real option"
  u_new :: real
  u_provenance :: string
  u_outcome :: string
  u_confidence :: real
  u_interaction :: "string option"

locale plasticity_store =
  fixes update :: "update_request \<Rightarrow> 's \<Rightarrow> (py_error + mutation_record) \<times> 's"
    and mutations :: "'s \<Rightarrow> mutation_record list"
  assumes update_appends: "update q s = (Inr r, s') \<Longrightarrow> mutations s' = mutations s @ [r]"
    and update_contract: "update q s = (Inr r, s') \<Longrightarrow>
      applied r \<and> provenance r = u_provenance q \<and> source_outcome r = u_outcome q
      \<and> dsubject (delta r) = u_subject q"
    and update_accepts: "u_provenance q \<noteq> [] \<Longrightarrow> u_outcome q \<noteq> [] \<Longrightarrow>
      \<exists>r s'. update q s = (Inr r, s')"
begin

text \<open>The ledger of a run of updates is the list of the records they returned.\<close>

fun update_all :: "update_request list \<Rightarrow> 's \<Rightarrow> (py_error + mutation_record) list \<times> 's" where
  "update_all [] s = ([], s)"
| "update_all (q # qs) s = (case update q s of (res, s1) \<Rightarrow>
     (case update_all qs s1 of (rs, s2) \<Rightarrow> (res # rs, s2)))"

lemma update_all_ledger:
  assumes "\<And>q. q \<in> set qs \<Longrightarrow> u_provenance q \<noteq> [] \<and> u_outcome q \<noteq> []"
  shows "\<exists>rs. fst (update_all qs s) = map Inr rs \<and> mutations (snd (update_all qs s)) = mutations s @ rs
    \<and> map (\<lambda>r. dsubject (delta r)) rs = map u_subject qs \<and> (\<forall>r \<in> set rs. applied r)"
  using assms
proof (induction qs arbitrary: s)
  case (Cons q qs)
  obtain r s1 where u: "update q s = (Inr r, s1)" using Cons.prems [of q] update_accepts by force
  obtain rs where rs: "fst (update_all qs s1) = map Inr rs"
    "mutations (snd (update_all qs s1)) = mutations s1 @ rs"
    "map (\<lambda>r. dsubject (delta r)) rs = map u_subject qs" "\<forall>r \<in> set rs. applied r"
    using Cons.IH [of s1] Cons.prems by auto
  then show ?case
    using update_appends [OF u] update_contract [OF u]
    by (intro exI [of _ "r # rs"]) (simp add: u case_prod_beta)
qed simp

end

section \<open>The client: write\_cells\<close>

text \<open>
  A decoded cell: \<open>None\<close> where the key is absent.  A missing \<open>wing\<close>, \<open>room\<close> or
  \<open>content\<close> raises \<open>KeyError\<close>; the cells before it stay filed.
\<close>

record raw_cell =
  raw_wing :: "string option"
  raw_room :: "string option"
  raw_content :: "string option"
  raw_source :: "string option"
  raw_category :: "string option"
  raw_importance :: "real option"
  raw_embedding :: "real list option"

definition cell_of :: "raw_cell \<Rightarrow> py_error + cell" where
  "cell_of c = (case raw_wing c of None \<Rightarrow> Inl (KeyError ''wing'') | Some w \<Rightarrow>
     (case raw_room c of None \<Rightarrow> Inl (KeyError ''room'') | Some r \<Rightarrow>
     (case raw_content c of None \<Rightarrow> Inl (KeyError ''content'') | Some t \<Rightarrow>
        Inr \<lparr>wing = w, room = r, content = t,
          source = (case raw_source c of None \<Rightarrow> '''' | Some x \<Rightarrow> x),
          category = raw_category c, importance = raw_importance c,
          embedding = raw_embedding c\<rparr>)))"

fun write_cells :: "(cell \<Rightarrow> 's \<Rightarrow> 's) \<Rightarrow> raw_cell list \<Rightarrow> 's \<Rightarrow> nat \<Rightarrow> (py_error + nat) \<times> 's" where
  "write_cells file_cell [] s cnt = (Inr cnt, s)"
| "write_cells file_cell (c # cs) s cnt =
     (case cell_of c of Inl e \<Rightarrow> (Inl e, s)
      | Inr x \<Rightarrow> write_cells file_cell cs (file_cell x s) (Suc cnt))"

context memory_store
begin

lemma filed_fold: "filed (fold file_cell cs s) = filed s @ cs"
  by (induction cs arbitrary: s) (auto simp: file_appends)

lemma write_cells_all:
  assumes "mapM cell_of raws = Inr cs"
  shows "write_cells file_cell raws s n = (Inr (n + length cs), fold file_cell cs s)"
  using assms
  by (induction raws arbitrary: cs s n) (auto split: sum.splits)

lemma write_cells_filed:
  "mapM cell_of raws = Inr cs \<Longrightarrow>
     fst (write_cells file_cell raws s n) = Inr (n + length cs)
     \<and> filed (snd (write_cells file_cell raws s n)) = filed s @ cs"
  by (simp add: write_cells_all filed_fold)

lemma write_cells_prefix:
  assumes "mapM cell_of pre = Inr cs" "cell_of bad = Inl e"
  shows "fst (write_cells file_cell (pre @ bad # post) s n) = Inl e
     \<and> filed (snd (write_cells file_cell (pre @ bad # post) s n)) = filed s @ cs"
  using assms
  by (induction pre arbitrary: cs s n) (auto simp: file_appends split: sum.splits)

end

section \<open>RecordingMemoryStore\<close>

record recording_store =
  rec_filed :: "cell list"
  rec_mutations :: "mutation_record list"
  rec_rolled_back :: "string list"
  rec_importance :: "string \<rightharpoonup> real"

definition recording_init :: recording_store where
  "recording_init = \<lparr>rec_filed = [], rec_mutations = [], rec_rolled_back = [],
     rec_importance = Map.empty\<rparr>"

definition recording_file :: "cell \<Rightarrow> recording_store \<Rightarrow> recording_store" where
  "recording_file c s = (
     let s1 = s\<lparr>rec_filed := rec_filed s @ [c]\<rparr>
     in case importance c of None \<Rightarrow> s1
        | Some x \<Rightarrow> s1\<lparr>rec_importance :=
            (rec_importance s1)((if source c \<noteq> [] then source c else content c) \<mapsto> x)\<rparr>)"

definition recording_update ::
    "(real \<Rightarrow> string) \<Rightarrow> string \<Rightarrow> string \<Rightarrow> update_request \<Rightarrow> recording_store
       \<Rightarrow> (py_error + mutation_record) \<times> recording_store" where
  "recording_update str_of uuid_hex now q s = (
     let d = \<lparr>dsubject = u_subject q, dpredicate = ''has_importance'',
              new_value = str_of (u_new q), old_value = map_option str_of (u_old q)\<rparr>
     in case new_mutation uuid_hex now (u_provenance q) (u_outcome q) d (u_confidence q) True
              (u_interaction q) of
          Inl e \<Rightarrow> (Inl e, s)
        | Inr r0 \<Rightarrow>
            let r = mark_applied r0
            in (Inr r, s\<lparr>rec_importance := (rec_importance s)(u_subject q \<mapsto> u_new q),
                         rec_mutations := rec_mutations s @ [r]\<rparr>))"

definition recording_rollback ::
    "(string \<Rightarrow> real option) \<Rightarrow> mutation_record \<Rightarrow> recording_store \<Rightarrow> py_error + recording_store" where
  "recording_rollback float_of r s = (
     let d = delta r;
         imp = (case old_value d of
                  None \<Rightarrow> Inr ((rec_importance s)(dsubject d := None))
                | Some v \<Rightarrow> (case float_of v of None \<Rightarrow> Inl (ValueError v)
                             | Some x \<Rightarrow> Inr ((rec_importance s)(dsubject d \<mapsto> x))))
     in case imp of Inl e \<Rightarrow> Inl e
        | Inr m \<Rightarrow> Inr (s\<lparr>rec_importance := m,
                          rec_rolled_back := rec_rolled_back s @ [interaction_id r]\<rparr>))"

lemma rec_filed_file: "rec_filed (recording_file c s) = rec_filed s @ [c]"
  by (simp add: recording_file_def Let_def split: option.splits)

interpretation recs: memory_store recording_file rec_filed
  by unfold_locales (rule rec_filed_file)

lemma recording_update_Inr:
  assumes "recording_update str_of u now q s = (Inr r, s')"
  shows "s' = s\<lparr>rec_importance := (rec_importance s)(u_subject q \<mapsto> u_new q),
             rec_mutations := rec_mutations s @ [r]\<rparr>"
    "applied r" "provenance r = u_provenance q" "source_outcome r = u_outcome q"
    "delta r = \<lparr>dsubject = u_subject q, dpredicate = ''has_importance'',
              new_value = str_of (u_new q), old_value = map_option str_of (u_old q)\<rparr>"
    "atomic r" "rollback_handle r = interaction_id r"
  using assms new_mutation_Inr unfolding recording_update_def Let_def mark_applied_def
  by (force split: sum.splits)+

interpretation recp: plasticity_store "recording_update str_of u now" rec_mutations
proof unfold_locales
  fix q :: update_request and s r s' assume h: "recording_update str_of u now q s = (Inr r, s')"
  note i = recording_update_Inr [OF h]
  show "rec_mutations s' = rec_mutations s @ [r]" by (simp add: i(1))
  show "applied r \<and> provenance r = u_provenance q \<and> source_outcome r = u_outcome q
      \<and> dsubject (delta r) = u_subject q" by (simp add: i)
next
  fix q :: update_request and s :: recording_store assume "u_provenance q \<noteq> []" "u_outcome q \<noteq> []"
  then show "\<exists>r s'. recording_update str_of u now q s = (Inr r, s')"
    by (simp add: recording_update_def new_mutation_def Let_def)
qed

section \<open>Properties\<close>

text \<open>
  the pipeline's last node files exactly its input.  On well-formed cells \<open>write_cells\<close>
  files them all, in order, and returns their number; at the first cell without a wing, a
  room or a content it raises, with exactly the cells before it filed.
\<close>

theorem write_cells_recording:
  shows "(mapM cell_of raws = Inr cs \<longrightarrow>
      fst (write_cells recording_file raws s 0) = Inr (length cs)
      \<and> rec_filed (snd (write_cells recording_file raws s 0)) = rec_filed s @ cs)
    \<and> (mapM cell_of pre = Inr cs \<and> cell_of bad = Inl e \<longrightarrow>
      fst (write_cells recording_file (pre @ bad # post) s 0) = Inl e
      \<and> rec_filed (snd (write_cells recording_file (pre @ bad # post) s 0)) = rec_filed s @ cs)"
  using recs.write_cells_filed [of raws cs s 0] recs.write_cells_prefix [of pre cs bad e post s 0]
  by auto

theorem write_cells_recording_witness:
  "fst (write_cells recording_file [\<lparr>raw_wing = Some ''w'', raw_room = Some ''r'',
      raw_content = Some ''c'', raw_source = None, raw_category = None, raw_importance = None,
      raw_embedding = None\<rparr>] recording_init 0) = Inr 1"
  using write_cells_recording [of "[\<lparr>raw_wing = Some ''w'', raw_room = Some ''r'',
      raw_content = Some ''c'', raw_source = None, raw_category = None, raw_importance = None,
      raw_embedding = None\<rparr>]" "[\<lparr>wing = ''w'', room = ''r'', content = ''c'', source = '''',
      category = None, importance = None, embedding = None\<rparr>]" recording_init "[]"]
  by (simp add: cell_of_def)

text \<open>
  an importance update can be undone.  Rolling back the record an update returned sets
  the subject's importance to the old value the caller named and leaves every other subject
  alone; when the caller named the current importance, the importance map is the one before
  the update.  \<open>float\<close> must read back what \<open>str\<close> printed for that one value.
\<close>

theorem recording_rollback_restores:
  assumes "recording_update str_of u now q s = (Inr r, s')"
    and "\<And>x. u_old q = Some x \<Longrightarrow> float_of (str_of x) = Some x"
  shows "\<exists>s''. recording_rollback float_of r s' = Inr s''
    \<and> rec_importance s'' = (rec_importance s)(u_subject q := u_old q)
    \<and> (u_old q = rec_importance s (u_subject q) \<longrightarrow> rec_importance s'' = rec_importance s)
    \<and> rec_mutations s'' = rec_mutations s @ [r]
    \<and> rec_rolled_back s'' = rec_rolled_back s @ [rollback_handle r]"
proof (cases "u_old q")
  case None
  then show ?thesis
    by (auto simp: recording_rollback_def recording_update_Inr [OF assms(1)])
next
  case (Some x)
  then show ?thesis
    using assms(2) [OF Some] by (auto simp: recording_rollback_def recording_update_Inr [OF assms(1)])
qed

definition demo_update :: update_request where
  "demo_update = \<lparr>u_subject = ''d'', u_old = Some (1 / 2), u_new = 3 / 4, u_provenance = ''p'',
     u_outcome = ''o'', u_confidence = 1, u_interaction = Some ''ix''\<rparr>"

theorem recording_rollback_restores_witness:
  "\<exists>r s' s''. recording_update (\<lambda>x. if x = 1 / 2 then ''0.5'' else ''0.75'') ''u'' ''t'' demo_update
       (recording_init\<lparr>rec_importance := [''d'' \<mapsto> 1 / 2]\<rparr>) = (Inr r, s')
     \<and> recording_rollback (\<lambda>v. if v = ''0.5'' then Some (1 / 2) else None) r s' = Inr s''
     \<and> rec_importance s'' = [''d'' \<mapsto> 1 / 2]"
proof -
  let ?s = "recording_init\<lparr>rec_importance := [''d'' \<mapsto> 1 / 2]\<rparr>"
  let ?str = "\<lambda>x. if x = (1 / 2 :: real) then ''0.5'' else ''0.75''"
  let ?flt = "\<lambda>v. if v = ''0.5'' then Some (1 / 2 :: real) else None"
  obtain r s' where u: "recording_update ?str ''u'' ''t'' demo_update ?s = (Inr r, s')"
    by (simp add: recording_update_def demo_update_def new_mutation_def Let_def)
  have "\<And>x. u_old demo_update = Some x \<Longrightarrow> ?flt (?str x) = Some x"
    by (simp add: demo_update_def)
  from recording_rollback_restores [OF u this]
  have "\<exists>s''. recording_rollback ?flt r s' = Inr s'' \<and> rec_importance s'' = [''d'' \<mapsto> 1 / 2]"
    by (auto simp: demo_update_def)
  with u show ?thesis by blast
qed

end
