(* ===== verification/Fold.thy ===== *)
theory Fold
  imports Prelude "HOL-Library.Product_Lexorder"
begin

text \<open>
  The read side of the native store (\<open>store.py\<close>): the incremental memo of cell refs
  (\<open>_CellRefCache\<close>), the materialized fold of the event log with its lazily built indexes
  (\<open>_SearchFold\<close>), and its incremental extension from an earlier fold.

  The event log belongs to the amplifier-data substrate.  Its interface, as far as this
  code reads it, is the datatype \<open>event\<close> (the two event classes it tests for with
  \<open>isinstance\<close>, any other event being \<open>Other\<close>) and the record \<open>substrate\<close>: the content
  address of a cell, and the two relation names.  A log is a list of positions and events.
  What the code relies on is named: \<open>boundary_sound\<close> (an equal position at the boundary
  means an append-only continuation) and \<open>content_addressed\<close> (a ref determines its
  payload).
\<close>

section \<open>Events\<close>

datatype ('r, 'i) event =
    CellWrite (cell_payload: string) (cell_interpreters: 'i)
  | Relationship (from_ref: 'r) (to_ref: 'r) (rel_type: string)
  | Other

type_synonym ('r, 'i) log = "(int \<times> ('r, 'i) event) list"

record ('r, 'i) substrate =
  cell_ref :: "string \<Rightarrow> 'i \<Rightarrow> 'r"
  EMBEDDING_OF :: string
  SCOPED_TO :: string

definition ref_of :: "('r, 'i) substrate \<Rightarrow> ('r, 'i) event \<Rightarrow> 'r option" where
  "ref_of S ev = (case ev of CellWrite p i \<Rightarrow> Some (cell_ref S p i) | _ \<Rightarrow> None)"

definition refs_spec :: "('r, 'i) substrate \<Rightarrow> ('r, 'i) log \<Rightarrow> 'r option list" where
  "refs_spec S evs = map (\<lambda>(pos, ev). ref_of S ev) evs"

definition boundary_sound :: "('r, 'i) log \<Rightarrow> ('r, 'i) log \<Rightarrow> bool" where
  "boundary_sound seen evs \<longleftrightarrow>
     (seen \<noteq> [] \<and> length seen \<le> length evs \<and> fst (evs ! (length seen - 1)) = fst (last seen)
        \<longrightarrow> prefix seen evs)"

definition content_addressed :: "('r, 'i) substrate \<Rightarrow> bool" where
  "content_addressed S \<longleftrightarrow> (\<forall>p i p' i'. cell_ref S p i = cell_ref S p' i' \<longrightarrow> p = p')"

lemma refs_spec_append [simp]: "refs_spec S (xs @ ys) = refs_spec S xs @ refs_spec S ys"
  by (simp add: refs_spec_def)

lemma length_refs_spec [simp]: "length (refs_spec S xs) = length xs"
  by (simp add: refs_spec_def)

lemma drop_refs_spec: "drop n (refs_spec S xs) = refs_spec S (drop n xs)"
  by (simp add: refs_spec_def drop_map)

section \<open>The memo of cell refs\<close>

record 'r ref_cache =
  cache_refs :: "'r option list"
  cache_last :: "int option"

definition empty_cache :: "'r ref_cache" where
  "empty_cache = \<lparr>cache_refs = [], cache_last = None\<rparr>"

definition refs_for ::
    "('r, 'i) substrate \<Rightarrow> ('r, 'i) log \<Rightarrow> 'r ref_cache \<Rightarrow> 'r option list \<times> 'r ref_cache" where
  "refs_for S evs c = (
     let n0 = length (cache_refs c);
         stale = (n0 > length evs \<or> (n0 \<noteq> 0 \<and> Some (fst (evs ! (n0 - 1))) \<noteq> cache_last c));
         rs = (if stale then [] else cache_refs c);
         n = length rs;
         c' = (if length evs > n
               then \<lparr>cache_refs = rs @ map (\<lambda>(pos, ev). ref_of S ev) (drop n evs),
                     cache_last = Some (fst (last evs))\<rparr>
               else \<lparr>cache_refs = rs, cache_last = cache_last c\<rparr>)
     in (take (length evs) (cache_refs c'), c'))"

text \<open>What the memo knows: it holds the refs of the log it was last asked about.\<close>

definition cache_ok :: "('r, 'i) substrate \<Rightarrow> 'r ref_cache \<Rightarrow> ('r, 'i) log \<Rightarrow> bool" where
  "cache_ok S c seen \<longleftrightarrow> cache_refs c = refs_spec S seen
     \<and> (seen \<noteq> [] \<longrightarrow> cache_last c = Some (fst (last seen)))"

text \<open>
  The interface of a memo: asked about a log that continues the one it knows, or that
  visibly does not, it answers with the refs of the log and then knows that log.
\<close>

locale ref_memo =
  fixes S :: "('r, 'i) substrate"
    and ask :: "('r, 'i) log \<Rightarrow> 'c \<Rightarrow> 'r option list \<times> 'c"
    and knows :: "'c \<Rightarrow> ('r, 'i) log \<Rightarrow> bool"
  assumes ask_refs: "knows c seen \<Longrightarrow> boundary_sound seen evs \<Longrightarrow> fst (ask evs c) = refs_spec S evs"
    and ask_knows: "knows c seen \<Longrightarrow> boundary_sound seen evs \<Longrightarrow> knows (snd (ask evs c)) evs"
begin

text \<open>A run of questions about successive logs, and what it answers.\<close>

fun ask_all :: "('r, 'i) log list \<Rightarrow> 'c \<Rightarrow> 'r option list list" where
  "ask_all [] c = []"
| "ask_all (evs # rest) c = fst (ask evs c) # ask_all rest (snd (ask evs c))"

lemma ask_all_refs:
  assumes "knows c seen" "\<forall>i < length logs. boundary_sound ((seen # logs) ! i) (logs ! i)"
  shows "ask_all logs c = map (refs_spec S) logs"
  using assms
proof (induction logs arbitrary: c seen)
  case (Cons evs rest)
  have b: "boundary_sound seen evs" using Cons.prems(2) by force
  have r: "\<forall>i < length rest. boundary_sound ((evs # rest) ! i) (rest ! i)"
    using Cons.prems(2) by (metis Suc_less_eq length_Cons nth_Cons_Suc)
  have k: "knows (snd (ask evs c)) evs" by (rule ask_knows [OF Cons.prems(1) b])
  show ?case
    using Cons.IH [OF k r] ask_refs [OF Cons.prems(1) b] by simp
qed simp

end

lemma refs_for_ok:
  assumes ok: "cache_ok S c seen" and b: "boundary_sound seen evs"
  shows "fst (refs_for S evs c) = refs_spec S evs" "cache_ok S (snd (refs_for S evs c)) evs"
proof -
  let ?n = "length seen"
  have len: "length (cache_refs c) = ?n" using ok by (simp add: cache_ok_def)
  have "fst (refs_for S evs c) = refs_spec S evs \<and> cache_ok S (snd (refs_for S evs c)) evs"
  proof (cases "?n > length evs \<or> (?n \<noteq> 0 \<and> Some (fst (evs ! (?n - 1))) \<noteq> cache_last c)")
    case True
    then show ?thesis
      by (auto simp: refs_for_def len Let_def cache_ok_def refs_spec_def)
  next
    case False
    have "prefix seen evs"
    proof (cases "seen = []")
      case nonempty: False
      then have "fst (evs ! (?n - 1)) = fst (last seen)"
        using False ok by (auto simp: cache_ok_def)
      then show ?thesis using b nonempty False by (auto simp: boundary_sound_def)
    qed simp
    then obtain zs where zs: "evs = seen @ zs" by (auto simp: prefix_def)
    have "map (\<lambda>(pos, ev). ref_of S ev) zs = refs_spec S zs" by (simp add: refs_spec_def)
    then show ?thesis using False ok
      by (cases "zs = []") (auto simp: refs_for_def len Let_def cache_ok_def zs)
  qed
  then show "fst (refs_for S evs c) = refs_spec S evs" "cache_ok S (snd (refs_for S evs c)) evs"
    by simp_all
qed

interpretation memo: ref_memo S "refs_for S" "cache_ok S" for S
  by unfold_locales (simp_all add: refs_for_ok)

lemma empty_cache_ok: "cache_ok S empty_cache []"
  by (simp add: cache_ok_def empty_cache_def refs_spec_def)

section \<open>The fold\<close>

type_synonym 'r edges = "('r \<times> 'r) list"

record ('r, 'i) fold =
  fevents :: "('r, 'i) log"
  frefs :: "'r option list"
  payloads :: "'r \<rightharpoonup> string"
  by_subject :: "('r \<rightharpoonup> ('r, 'i) log) option"
  view_cache :: "('r, 'i) log option"
  edges_cache :: "'r edges option"
  matrix_state :: "('r list \<times> real list list \<times> nat) option"
  matrix_computed :: bool
  matrix_result :: "('r list \<times> real list list) option"

definition join_payloads ::
    "((int \<times> ('r, 'i) event) \<times> 'r option) list \<Rightarrow> ('r \<rightharpoonup> string) \<Rightarrow> ('r \<rightharpoonup> string)" where
  "join_payloads tail m0 = fold (\<lambda>((pos, ev), ref) m.
     case ref of None \<Rightarrow> m | Some r \<Rightarrow> m(r \<mapsto> cell_payload ev)) tail m0"

definition index_add :: "('r, 'i) log \<Rightarrow> ('r \<rightharpoonup> ('r, 'i) log) \<Rightarrow> ('r \<rightharpoonup> ('r, 'i) log)" where
  "index_add evs by0 = fold (\<lambda>item m. case snd item of
      Relationship f t ty \<Rightarrow> m(f \<mapsto> (case m f of None \<Rightarrow> [] | Some l \<Rightarrow> l) @ [item])
    | _ \<Rightarrow> m) evs by0"

definition is_edge :: "string \<Rightarrow> ('r, 'i) event \<Rightarrow> bool" where
  "is_edge ty ev \<longleftrightarrow> (case ev of Relationship f t ty' \<Rightarrow> ty' = ty | _ \<Rightarrow> False)"

definition edges_of :: "('r, 'i) substrate \<Rightarrow> ('r, 'i) log \<Rightarrow> 'r edges" where
  "edges_of S evs = map (\<lambda>(pos, ev). (from_ref ev, to_ref ev))
     (filter (\<lambda>(pos, ev). is_edge (EMBEDDING_OF S) ev) evs)"

definition is_prefix_of :: "('r, 'i) fold \<Rightarrow> ('r, 'i) log \<Rightarrow> bool" where
  "is_prefix_of f evs = (let n = length (fevents f) in
     if n = 0 then True
     else if length evs < n then False
     else fst (evs ! (n - 1)) = fst (last (fevents f)))"

text \<open>The constructor, over the events just read and their refs.\<close>

definition new_fold ::
    "('r, 'i) substrate \<Rightarrow> ('r, 'i) log \<Rightarrow> 'r option list \<Rightarrow> ('r, 'i) fold option \<Rightarrow> ('r, 'i) fold" where
  "new_fold S evs refs prior = (
     let base = (case prior of None \<Rightarrow> None | Some p \<Rightarrow> if is_prefix_of p evs then Some p else None);
         start = (case base of None \<Rightarrow> 0 | Some p \<Rightarrow> length (fevents p));
         new_tail = zip (drop start evs) (drop start refs)
     in \<lparr>fevents = evs, frefs = refs,
         payloads = join_payloads new_tail (case base of None \<Rightarrow> Map.empty | Some p \<Rightarrow> payloads p),
         by_subject = (case base of None \<Rightarrow> None
            | Some p \<Rightarrow> map_option (index_add (map fst new_tail)) (by_subject p)),
         view_cache = None,
         edges_cache = (case base of None \<Rightarrow> None
            | Some p \<Rightarrow> map_option (\<lambda>e. e @ edges_of S (map fst new_tail)) (edges_cache p)),
         matrix_state = (case base of None \<Rightarrow> None | Some p \<Rightarrow> matrix_state p),
         matrix_computed = False, matrix_result = None\<rparr>)"

text \<open>\<open>_SearchFold(kernel, ref_cache, prior=...)\<close>, with and without a memo.\<close>

definition build_fold ::
    "('r, 'i) substrate \<Rightarrow> ('r, 'i) log \<Rightarrow> 'r ref_cache \<Rightarrow> ('r, 'i) fold option
       \<Rightarrow> ('r, 'i) fold \<times> 'r ref_cache" where
  "build_fold S evs c prior = (case refs_for S evs c of (refs, c') \<Rightarrow> (new_fold S evs refs prior, c'))"

definition scratch_fold :: "('r, 'i) substrate \<Rightarrow> ('r, 'i) log \<Rightarrow> ('r, 'i) fold" where
  "scratch_fold S evs = new_fold S evs (map (\<lambda>(pos, ev). ref_of S ev) evs) None"

text \<open>The lazy readers return their answer and the fold with the cache filled.\<close>

definition for_subject :: "'r \<Rightarrow> ('r, 'i) fold \<Rightarrow> ('r, 'i) log \<times> ('r, 'i) fold" where
  "for_subject ref f = (
     let by = (case by_subject f of Some m \<Rightarrow> m | None \<Rightarrow> index_add (fevents f) Map.empty)
     in (case by ref of None \<Rightarrow> [] | Some l \<Rightarrow> l, f\<lparr>by_subject := Some by\<rparr>))"

definition embedding_edges :: "('r, 'i) substrate \<Rightarrow> ('r, 'i) fold \<Rightarrow> 'r edges \<times> ('r, 'i) fold" where
  "embedding_edges S f = (
     let es = (case edges_cache f of Some es \<Rightarrow> es | None \<Rightarrow> edges_of S (fevents f))
     in (es, f\<lparr>edges_cache := Some es\<rparr>))"

definition keep_for_vectors :: "('r, 'i) substrate \<Rightarrow> 'r set \<Rightarrow> ('r, 'i) event \<times> 'r option \<Rightarrow> bool" where
  "keep_for_vectors S emb_refs er = (case snd er of
      Some r \<Rightarrow> r \<in> emb_refs
    | None \<Rightarrow> is_edge (EMBEDDING_OF S) (fst er) \<or> is_edge (SCOPED_TO S) (fst er))"

definition vector_view :: "('r, 'i) substrate \<Rightarrow> ('r, 'i) fold \<Rightarrow> ('r, 'i) log \<times> ('r, 'i) fold" where
  "vector_view S f = (
     let view = (case view_cache f of Some v \<Rightarrow> v
       | None \<Rightarrow>
           let emb_refs = set (map fst (edges_of S (fevents f)))
           in map fst (filter (\<lambda>((pos, ev), ref). keep_for_vectors S emb_refs (ev, ref))
                (zip (fevents f) (frefs f))))
     in (view, f\<lparr>view_cache := Some view\<rparr>))"

section \<open>Specifications of the indexes\<close>

definition subject_spec :: "'r \<Rightarrow> ('r, 'i) log \<Rightarrow> ('r, 'i) log" where
  "subject_spec ref evs = filter (\<lambda>(pos, ev). case ev of Relationship f t ty \<Rightarrow> f = ref | _ \<Rightarrow> False) evs"

definition payload_spec :: "('r, 'i) substrate \<Rightarrow> ('r, 'i) log \<Rightarrow> ('r \<rightharpoonup> string)" where
  "payload_spec S evs = join_payloads (zip evs (refs_spec S evs)) Map.empty"

definition view_spec :: "('r, 'i) substrate \<Rightarrow> ('r, 'i) log \<Rightarrow> ('r, 'i) log" where
  "view_spec S evs = filter (\<lambda>(pos, ev).
     keep_for_vectors S (set (map fst (edges_of S evs))) (ev, ref_of S ev)) evs"

definition index_ok :: "('r \<rightharpoonup> ('r, 'i) log) \<Rightarrow> ('r, 'i) log \<Rightarrow> bool" where
  "index_ok m evs \<longleftrightarrow> (\<forall>r. (case m r of None \<Rightarrow> [] | Some l \<Rightarrow> l) = subject_spec r evs)"

text \<open>Well-formed folds: every index that was built is the index of the fold's events.\<close>

definition fold_ok :: "('r, 'i) substrate \<Rightarrow> ('r, 'i) fold \<Rightarrow> bool" where
  "fold_ok S f \<longleftrightarrow> frefs f = refs_spec S (fevents f)
     \<and> payloads f = payload_spec S (fevents f)
     \<and> (\<forall>m. by_subject f = Some m \<longrightarrow> index_ok m (fevents f))
     \<and> (\<forall>v. view_cache f = Some v \<longrightarrow> v = view_spec S (fevents f))
     \<and> (\<forall>es. edges_cache f = Some es \<longrightarrow> es = edges_of S (fevents f))"

lemma fold_nil_simps [simp]: "edges_of S [] = []" "join_payloads [] m = m"
  by (simp_all add: edges_of_def join_payloads_def)

lemma edges_of_append [simp]: "edges_of S (xs @ ys) = edges_of S xs @ edges_of S ys"
  by (simp add: edges_of_def)

lemma join_payloads_append [simp]:
  "join_payloads (xs @ ys) m = join_payloads ys (join_payloads xs m)"
  by (simp add: join_payloads_def)

lemma payload_spec_append:
  "payload_spec S (xs @ ys) = join_payloads (zip ys (refs_spec S ys)) (payload_spec S xs)"
  by (simp add: payload_spec_def)

lemma index_add_ok: "index_ok m xs \<Longrightarrow> index_ok (index_add ys m) (xs @ ys)"
proof (induction ys arbitrary: m xs)
  case Nil
  then show ?case by (simp add: index_add_def)
next
  case (Cons y ys)
  obtain p ev where y: "y = (p, ev)" by (cases y)
  have "index_ok (case ev of
      Relationship f t ty \<Rightarrow> m(f \<mapsto> (case m f of None \<Rightarrow> [] | Some l \<Rightarrow> l) @ [y]) | _ \<Rightarrow> m) (xs @ [y])"
    using Cons.prems unfolding y index_ok_def subject_spec_def
    by (cases ev) auto
  from Cons.IH [OF this] show ?case
    unfolding y by (simp add: index_add_def)
qed

lemma index_add_empty_ok: "index_ok (index_add evs Map.empty) evs"
  using index_add_ok [of Map.empty "[]" evs] by (simp add: index_ok_def subject_spec_def)

lemma fold_prefix_append:
  assumes "boundary_sound (fevents p) evs" "is_prefix_of p evs"
  obtains zs where "evs = fevents p @ zs"
proof (cases "fevents p = []")
  case True
  then show ?thesis using that [of evs] by simp
next
  case False
  then have "prefix (fevents p) evs"
    using assms by (auto simp: boundary_sound_def is_prefix_of_def Let_def split: if_splits)
  then show ?thesis using that by (auto simp: prefix_def)
qed

text \<open>Construction, fresh or by extension, gives a well-formed fold.\<close>

lemma new_fold_ok:
  assumes "\<And>p. prior = Some p \<Longrightarrow> fold_ok S p \<and> boundary_sound (fevents p) evs"
  shows "fold_ok S (new_fold S evs (refs_spec S evs) prior)"
proof (cases "\<exists>p. prior = Some p \<and> is_prefix_of p evs")
  case False
  then have "new_fold S evs (refs_spec S evs) prior = new_fold S evs (refs_spec S evs) None"
    by (auto simp: new_fold_def split: option.splits)
  then show ?thesis by (simp add: fold_ok_def new_fold_def payload_spec_def)
next
  case True
  then obtain p where p: "prior = Some p" "is_prefix_of p evs" by blast
  then have ok: "fold_ok S p" and b: "boundary_sound (fevents p) evs" using assms by auto
  obtain zs where zs: "evs = fevents p @ zs" by (rule fold_prefix_append [OF b p(2)])
  have "length zs = length (refs_spec S zs)" by simp
  then have "map fst (zip zs (refs_spec S zs)) = zs" by (simp only: map_fst_zip)
  then show ?thesis using ok p zs
    by (auto simp: fold_ok_def new_fold_def payload_spec_append drop_refs_spec index_add_ok)
qed

lemma for_subject_ok:
  assumes "fold_ok S f"
  shows "fst (for_subject r f) = subject_spec r (fevents f)" "fold_ok S (snd (for_subject r f))"
    "fevents (snd (for_subject r f)) = fevents f"
proof -
  obtain by' where by': "(case by_subject f of Some m \<Rightarrow> m | None \<Rightarrow> index_add (fevents f) Map.empty) = by'"
    "index_ok by' (fevents f)"
    using assms index_add_empty_ok [of "fevents f"]
    by (cases "by_subject f") (auto simp: fold_ok_def)
  have e: "for_subject r f = (case by' r of None \<Rightarrow> [] | Some l \<Rightarrow> l, f\<lparr>by_subject := Some by'\<rparr>)"
    by (simp add: for_subject_def by'(1))
  show "fst (for_subject r f) = subject_spec r (fevents f)"
    using by'(2) by (simp add: e index_ok_def)
  show "fold_ok S (snd (for_subject r f))" "fevents (snd (for_subject r f)) = fevents f"
    using assms by'(2) by (simp_all add: e fold_ok_def)
qed

lemma embedding_edges_ok:
  assumes "fold_ok S f"
  shows "fst (embedding_edges S f) = edges_of S (fevents f)" "fold_ok S (snd (embedding_edges S f))"
    "fevents (snd (embedding_edges S f)) = fevents f" "payloads (snd (embedding_edges S f)) = payloads f"
    "matrix_state (snd (embedding_edges S f)) = matrix_state f"
  using assms by (auto simp: embedding_edges_def fold_ok_def Let_def split: option.splits)

lemma zip_refs_filter:
  "map fst (filter (\<lambda>((pos, ev), ref). P (ev, ref)) (zip evs (refs_spec S evs)))
     = filter (\<lambda>(pos, ev). P (ev, ref_of S ev)) evs"
  by (induction evs) (auto simp: refs_spec_def)

lemma vector_view_ok:
  assumes "fold_ok S f"
  shows "fst (vector_view S f) = view_spec S (fevents f)" "fold_ok S (snd (vector_view S f))"
    "fevents (snd (vector_view S f)) = fevents f"
  using assms zip_refs_filter [of "keep_for_vectors S (set (map fst (edges_of S (fevents f))))" "fevents f" S]
  by (auto simp: vector_view_def fold_ok_def Let_def view_spec_def split: option.splits)

lemma build_fold_ok:
  assumes "cache_ok S c seen" "boundary_sound seen evs"
    and "\<And>p. prior = Some p \<Longrightarrow> fold_ok S p \<and> boundary_sound (fevents p) evs"
  shows "fold_ok S (fst (build_fold S evs c prior))" "fevents (fst (build_fold S evs c prior)) = evs"
    "cache_ok S (snd (build_fold S evs c prior)) evs"
proof -
  note r = refs_for_ok [OF assms(1,2)]
  have "build_fold S evs c prior = (new_fold S evs (refs_spec S evs) prior, snd (refs_for S evs c))"
    using r(1) by (simp add: build_fold_def prod.case_eq_if)
  then show "fold_ok S (fst (build_fold S evs c prior))" "fevents (fst (build_fold S evs c prior)) = evs"
    "cache_ok S (snd (build_fold S evs c prior)) evs"
    using new_fold_ok [OF assms(3)] r(2) by (auto simp: new_fold_def Let_def)
qed

lemma scratch_fold_ok: "fold_ok S (scratch_fold S evs)" "fevents (scratch_fold S evs) = evs"
proof -
  have "scratch_fold S evs = new_fold S evs (refs_spec S evs) None"
    by (simp add: scratch_fold_def refs_spec_def)
  then show "fold_ok S (scratch_fold S evs)" "fevents (scratch_fold S evs) = evs"
    using new_fold_ok [of None S evs] by (auto simp: new_fold_def Let_def)
qed

section \<open>Properties\<close>

text \<open>
  the ref memo is exact.  Over any sequence of logs in which a matching boundary
  position means an append-only continuation, starting from an empty memo, every answer is
  the list of refs computed from scratch: logs that shrank or were rewritten are noticed.
\<close>

theorem ref_cache_exact:
  assumes "\<forall>i < length logs. boundary_sound (([] # logs) ! i) (logs ! i)"
  shows "ref_memo.ask_all (refs_for S) logs empty_cache = map (refs_spec S) logs"
  by (rule memo.ask_all_refs [OF empty_cache_ok assms])

definition demo_substrate :: "(string, nat) substrate" where
  "demo_substrate = \<lparr>cell_ref = (\<lambda>p i. ''#'' @ p), EMBEDDING_OF = ''embedding_of'',
     SCOPED_TO = ''scoped_to''\<rparr>"

theorem ref_cache_exact_witness:
  "ref_memo.ask_all (refs_for demo_substrate)
     [[(0, CellWrite ''a'' 0)], [(0, CellWrite ''a'' 0), (1, CellWrite ''b'' 0)], [(5, CellWrite ''c'' 0)]]
     empty_cache = [[Some ''#a''], [Some ''#a'', Some ''#b''], [Some ''#c'']]"
proof -
  let ?logs = "[[(0, CellWrite ''a'' (0::nat))], [(0, CellWrite ''a'' 0), (1, CellWrite ''b'' 0)],
     [(5, CellWrite ''c'' 0)]] :: (string, nat) log list"
  have "\<forall>i < length ?logs. boundary_sound (([] # ?logs) ! i) (?logs ! i)"
    by (auto simp: boundary_sound_def less_Suc_eq numeral_nat)
  from ref_cache_exact [OF this, of demo_substrate] show ?thesis
    by (simp add: refs_spec_def ref_of_def demo_substrate_def)
qed

text \<open>
  C4: incremental extension is a refinement of rebuilding.  A fold extended from an
  earlier well-formed fold (with any of its indexes already built) has the payload join and answers the per-subject
  slices, the embedding edges and the vector view exactly as the fold built from scratch over the same
  events, and is well-formed again.  The embedding matrix is not among these reads: its extension agrees with the
  rebuilt one only where the earlier edges were grounded (theory \<open>Vector\<close>).
\<close>

theorem incremental_fold_equals_rebuild:
  assumes "fold_ok S p" "boundary_sound (fevents p) evs" "cache_ok S c seen" "boundary_sound seen evs"
  defines "f \<equiv> fst (build_fold S evs c (Some p))"
  shows "fold_ok S f
    \<and> fevents f = fevents (scratch_fold S evs)
    \<and> payloads f = payloads (scratch_fold S evs)
    \<and> fst (for_subject r f) = fst (for_subject r (scratch_fold S evs))
    \<and> fst (embedding_edges S f) = fst (embedding_edges S (scratch_fold S evs))
    \<and> fst (vector_view S f) = fst (vector_view S (scratch_fold S evs))"
proof -
  have f: "fold_ok S f" "fevents f = evs"
    unfolding f_def using build_fold_ok [OF assms(3,4), of "Some p"] assms(1,2) by auto
  note s = scratch_fold_ok [of S evs]
  have "payloads f = payloads (scratch_fold S evs)"
    using f s by (simp add: fold_ok_def)
  then show ?thesis
    using f s for_subject_ok(1) [OF f(1)] for_subject_ok(1) [OF s(1)]
      embedding_edges_ok(1) [OF f(1)] embedding_edges_ok(1) [OF s(1)]
      vector_view_ok(1) [OF f(1)] vector_view_ok(1) [OF s(1)] by simp
qed

definition demo_log :: "(string, nat) log" where
  "demo_log = [(0, CellWrite ''a'' 0), (1, Relationship ''#a'' ''#w'' ''scoped_to'')]"

theorem incremental_fold_equals_rebuild_witness:
  "fst (for_subject ''#a'' (fst (build_fold demo_substrate (demo_log @ [(2, Relationship ''#a'' ''#r'' ''scoped_to'')])
      empty_cache (Some (snd (for_subject ''#b'' (scratch_fold demo_substrate demo_log)))))))
   = [(1, Relationship ''#a'' ''#w'' ''scoped_to''), (2, Relationship ''#a'' ''#r'' ''scoped_to'')]"
proof -
  let ?evs = "demo_log @ [(2, Relationship ''#a'' ''#r'' ''scoped_to'')]"
  let ?p = "snd (for_subject ''#b'' (scratch_fold demo_substrate demo_log))"
  note s = scratch_fold_ok [of demo_substrate demo_log]
  have p: "fold_ok demo_substrate ?p" "fevents ?p = demo_log"
    using for_subject_ok(2,3) [OF s(1)] s(2) by simp_all
  have b: "boundary_sound (fevents ?p) ?evs" by (simp add: p(2) boundary_sound_def)
  have b0: "boundary_sound [] ?evs" by (simp add: boundary_sound_def)
  have "fst (for_subject ''#a'' (fst (build_fold demo_substrate ?evs empty_cache (Some ?p))))
      = fst (for_subject ''#a'' (scratch_fold demo_substrate ?evs))"
    using incremental_fold_equals_rebuild [OF p(1) b empty_cache_ok b0, of "''#a''"] by blast
  also have "\<dots> = subject_spec ''#a'' ?evs"
    using for_subject_ok(1) [OF scratch_fold_ok(1)] scratch_fold_ok(2) by metis
  finally show ?thesis by (simp add: subject_spec_def demo_log_def)
qed

text \<open>
  slicing by subject is exact for every lens that reads only the relationship events of
  its subject: its answer over \<open>for_subject(ref)\<close> is its answer over the whole log.
\<close>

theorem for_subject_exact:
  assumes "fold_ok S f"
    and "\<And>evs evs'. subject_spec ref evs = subject_spec ref evs' \<Longrightarrow> lens ref evs = lens ref evs'"
  shows "lens ref (fst (for_subject ref f)) = lens ref (fevents f)"
proof (rule assms(2))
  show "subject_spec ref (fst (for_subject ref f)) = subject_spec ref (fevents f)"
    by (simp add: for_subject_ok(1) [OF assms(1)]) (simp add: subject_spec_def)
qed

theorem for_subject_exact_witness:
  "length (subject_spec ''#a'' (fst (for_subject ''#a'' (scratch_fold demo_substrate demo_log))))
    = length (subject_spec ''#a'' demo_log)"
  using for_subject_exact [OF scratch_fold_ok(1), of "''#a''" "\<lambda>r evs. length (subject_spec r evs)"
      demo_substrate demo_log] scratch_fold_ok(2) [of demo_substrate demo_log] by simp

end
