(* ===== verification/Vector.thy ===== *)
theory Vector
  imports Fold Usage
begin

text \<open>
  The vector scorer of the native store (\<open>_SearchFold.vector_matrix\<close> and
  \<open>_fast_vector_query\<close> in \<open>store.py\<close>): the embedding matrix that a fold builds once and a
  later fold extends by the new rows, and the top-\<open>k\<close> cosine query over it.

  A payload is a byte string; \<open>dec\<close> stands for the little-endian decoding of four bytes, and
  \<open>fold_scope\<close> for the scope index of the substrate.  Matrix entries are reals.
\<close>

section \<open>The matrix\<close>

fun unpack4 :: "(string \<Rightarrow> real) \<Rightarrow> string \<Rightarrow> real list" where
  "unpack4 dec (a # b # c # d # rest) = dec [a, b, c, d] # unpack4 dec rest"
| "unpack4 dec _ = []"

definition unpack_floats :: "(string \<Rightarrow> real) \<Rightarrow> string \<Rightarrow> py_error + real list" where
  "unpack_floats dec raw = (if length raw mod 4 \<noteq> 0 then Inl (StructError ''buffer size'')
     else Inr (unpack4 dec raw))"

text \<open>One row: the dimension test (\<open>Inr None\<close> is the bail-out), then the decoding.\<close>

definition decode_row ::
    "(string \<Rightarrow> real) \<Rightarrow> nat option \<Rightarrow> string \<Rightarrow> py_error + real list option" where
  "decode_row dec d raw = (
     if d \<noteq> None \<and> d \<noteq> Some (length raw div 4) then Inr None
     else (case unpack_floats dec raw of Inl err \<Rightarrow> Inl err | Inr row \<Rightarrow> Inr (Some row)))"

definition cons_row ::
    "'r \<Rightarrow> real list \<Rightarrow> py_error + ('r list \<times> real list list) option
       \<Rightarrow> py_error + ('r list \<times> real list list) option" where
  "cons_row t row r = (case r of
     Inr (Some (rs, rows)) \<Rightarrow> Inr (Some (t # rs, row # rows)) | other \<Rightarrow> other)"

text \<open>
  The loop over the new edges.  A dangling edge is skipped, and the first edge that fixes a
  dimension fixes it for the rest.
\<close>

fun matrix_rows ::
    "(string \<Rightarrow> real) \<Rightarrow> ('r \<rightharpoonup> string) \<Rightarrow> nat option \<Rightarrow> 'r edges
       \<Rightarrow> py_error + ('r list \<times> real list list) option" where
  "matrix_rows dec P d [] = Inr (Some ([], []))"
| "matrix_rows dec P d ((emb, target) # es) = (case P emb of
     None \<Rightarrow> matrix_rows dec P d es
   | Some raw \<Rightarrow> (case decode_row dec d raw of
       Inl err \<Rightarrow> Inl err
     | Inr None \<Rightarrow> Inr None
     | Inr (Some row) \<Rightarrow> cons_row target row (matrix_rows dec P (Some (length raw div 4)) es)))"

definition mat_dim :: "real list list \<Rightarrow> nat option" where
  "mat_dim mat = (case mat of [] \<Rightarrow> None | row # _ \<Rightarrow> Some (length row))"

definition vector_matrix ::
    "bool \<Rightarrow> (string \<Rightarrow> real) \<Rightarrow> ('r, 'i) substrate \<Rightarrow> ('r, 'i) fold
       \<Rightarrow> (py_error + ('r list \<times> real list list) option) \<times> ('r, 'i) fold" where
  "vector_matrix numpy dec S f0 = (
     if matrix_computed f0 then (Inr (matrix_result f0), f0)
     else let f1 = f0\<lparr>matrix_computed := True\<rparr> in
       if \<not> numpy then (Inr None, f1\<lparr>matrix_result := None\<rparr>)
       else (case embedding_edges S f1 of (edges, f2) \<Rightarrow>
         let (prior_refs, prior_mat, n) =
               (case matrix_state f2 of
                  Some (rs, mat, n) \<Rightarrow> if n \<le> length edges then (rs, mat, n) else ([], [], 0)
                | None \<Rightarrow> ([], [], 0))
         in (case matrix_rows dec (payloads f2) (mat_dim prior_mat) (drop n edges) of
               Inl err \<Rightarrow> (Inl err, f2)
             | Inr None \<Rightarrow> (Inr None, f2\<lparr>matrix_result := None\<rparr>)
             | Inr (Some (new_refs, new_rows)) \<Rightarrow>
                 let refs = prior_refs @ new_refs; mat = prior_mat @ new_rows
                 in (Inr (Some (refs, mat)),
                     f2\<lparr>matrix_state := Some (refs, mat, length edges),
                        matrix_result := Some (refs, mat)\<rparr>))))"

text \<open>What a fold knows of its matrix: the rows of an initial part of its edges.\<close>

definition matrix_ok :: "(string \<Rightarrow> real) \<Rightarrow> ('r, 'i) substrate \<Rightarrow> ('r, 'i) fold \<Rightarrow> bool" where
  "matrix_ok dec S f \<longleftrightarrow> (\<forall>rs mat n. matrix_state f = Some (rs, mat, n) \<longrightarrow>
     n \<le> length (edges_of S (fevents f))
     \<and> matrix_rows dec (payloads f) None (take n (edges_of S (fevents f))) = Inr (Some (rs, mat)))"

text \<open>Every embedding edge of the log points from a cell the log holds.\<close>

definition edges_grounded :: "('r, 'i) substrate \<Rightarrow> ('r, 'i) log \<Rightarrow> bool" where
  "edges_grounded S evs \<longleftrightarrow> (\<forall>(e, t) \<in> set (edges_of S evs). payload_spec S evs e \<noteq> None)"

lemma length_unpack4 [simp]: "length (unpack4 dec raw) = length raw div 4"
  by (induction dec raw rule: unpack4.induct) auto

lemma unpack_floats_length: "unpack_floats dec raw = Inr row \<Longrightarrow> length row = length raw div 4"
  by (auto simp: unpack_floats_def split: if_splits)

lemma decode_row_length:
  assumes "decode_row dec d raw = Inr (Some row)"
  shows "length row = length raw div 4" "d = None \<or> d = Some (length row)"
proof -
  have c: "\<not> (d \<noteq> None \<and> d \<noteq> Some (length raw div 4))"
  proof
    assume "d \<noteq> None \<and> d \<noteq> Some (length raw div 4)"
    then have "decode_row dec d raw = Inr None" unfolding decode_row_def by (rule if_P)
    with assms show False by simp
  qed
  with assms have "unpack_floats dec raw = Inr row"
    by (simp add: decode_row_def split: sum.splits if_splits)
  with c show "length row = length raw div 4" "d = None \<or> d = Some (length row)"
    using unpack_floats_length by auto
qed

lemma cons_row_eq:
  "cons_row t row r = Inr (Some (rs, rows)) \<longleftrightarrow>
     (\<exists>rs' rows'. r = Inr (Some (rs', rows')) \<and> rs = t # rs' \<and> rows = row # rows')"
  by (auto simp: cons_row_def split: sum.splits option.splits)

definition append_rows ::
    "'r list \<Rightarrow> real list list \<Rightarrow> py_error + ('r list \<times> real list list) option
       \<Rightarrow> py_error + ('r list \<times> real list list) option" where
  "append_rows rs rows r = (case r of
     Inr (Some (rs', rows')) \<Rightarrow> Inr (Some (rs @ rs', rows @ rows')) | other \<Rightarrow> other)"

lemma append_rows_simps:
  "append_rows [] [] r = r" "cons_row t row (append_rows rs rows r) = append_rows (t # rs) (row # rows) r"
  by (auto simp: append_rows_def cons_row_def split: sum.splits option.splits)

lemma matrix_rows_Some_cases:
  assumes "matrix_rows dec P d ((emb, t) # es) = Inr (Some (rs, rows))" "P emb = Some raw"
  obtains row rs' rows' where "decode_row dec d raw = Inr (Some row)"
    "matrix_rows dec P (Some (length raw div 4)) es = Inr (Some (rs', rows'))"
    "rs = t # rs'" "rows = row # rows'"
proof (cases "decode_row dec d raw")
  case (Inr o')
  then obtain row where "o' = Some row" using assms by (cases o') simp_all
  then show ?thesis using that assms Inr by (auto simp: cons_row_eq)
qed (use assms in simp)

lemma matrix_rows_shape:
  "matrix_rows dec P d es = Inr (Some (rs, rows)) \<Longrightarrow>
     length rs = length rows \<and> (\<exists>n. (d \<noteq> None \<longrightarrow> d = Some n) \<and> (\<forall>row \<in> set rows. length row = n))"
proof (induction es arbitrary: d rs rows)
  case (Cons e es)
  obtain emb t where e: "e = (emb, t)" by (cases e)
  show ?case
  proof (cases "P emb")
    case None
    then show ?thesis using Cons by (simp add: e)
  next
    case (Some raw)
    obtain row rs' rows' where r: "decode_row dec d raw = Inr (Some row)"
      "matrix_rows dec P (Some (length raw div 4)) es = Inr (Some (rs', rows'))"
      "rs = t # rs'" "rows = row # rows'"
      using Cons.prems(1)[unfolded e] Some by (rule matrix_rows_Some_cases)
    show ?thesis
      using Cons.IH [OF r(2)] decode_row_length [OF r(1)]
      by (intro conjI exI [of _ "length row"]) (auto simp: r(3,4))
  qed
qed auto

text \<open>Running the loop over a longer list is running it over the rest, from the rows so far.\<close>

lemma matrix_rows_append:
  "matrix_rows dec P d xs = Inr (Some (rs, rows)) \<Longrightarrow>
   matrix_rows dec P d (xs @ ys) =
     append_rows rs rows (matrix_rows dec P (if rows = [] then d else mat_dim rows) ys)"
proof (induction xs arbitrary: d rs rows)
  case Nil
  then show ?case by (simp add: append_rows_simps)
next
  case (Cons e es)
  obtain emb t where e: "e = (emb, t)" by (cases e)
  show ?case
  proof (cases "P emb")
    case None
    then show ?thesis using Cons by (simp add: e)
  next
    case (Some raw)
    obtain row rs' rows' where r: "decode_row dec d raw = Inr (Some row)"
      "matrix_rows dec P (Some (length raw div 4)) es = Inr (Some (rs', rows'))"
      "rs = t # rs'" "rows = row # rows'"
      using Cons.prems(1)[unfolded e] Some by (rule matrix_rows_Some_cases)
    have "(if rows' = [] then Some (length raw div 4) else mat_dim rows') = mat_dim rows"
      using matrix_rows_shape [OF r(2)] decode_row_length [OF r(1)]
      by (cases rows') (auto simp: mat_dim_def r(4))
    with Cons.IH [OF r(2), of ] show ?thesis
      by (simp add: e Some r(1,3,4) append_rows_simps)
  qed
qed

lemma matrix_rows_cong:
  assumes "\<And>e t. (e, t) \<in> set es \<Longrightarrow> P e = Q e"
  shows "matrix_rows dec P d es = matrix_rows dec Q d es"
  using assms
proof (induction es arbitrary: d)
  case (Cons e es)
  have "P (fst e) = Q (fst e)" using Cons.prems [of "fst e" "snd e"] by simp
  moreover have "matrix_rows dec P d' es = matrix_rows dec Q d' es" for d'
    using Cons.IH Cons.prems by auto
  ultimately show ?case
    by (cases e) (simp cong: option.case_cong sum.case_cong)
qed simp

text \<open>The matrix a fold answers with is the one of all its edges, extended or not.\<close>

lemma vector_matrix_fresh:
  assumes "\<not> matrix_computed f" "fold_ok S f" "matrix_ok dec S f"
  shows "fst (vector_matrix numpy dec S f) =
    (if numpy then matrix_rows dec (payloads f) None (edges_of S (fevents f)) else Inr None)"
    "matrix_ok dec S (snd (vector_matrix numpy dec S f))"
proof -
  let ?f1 = "f\<lparr>matrix_computed := True\<rparr>"
  let ?es = "edges_of S (fevents f)"
  have f1: "fold_ok S ?f1" using assms(2) by (simp add: fold_ok_def)
  obtain es' f2 where e2: "embedding_edges S ?f1 = (es', f2)" by (rule prod.exhaust)
  have f2: "embedding_edges S ?f1 = (?es, f2)" "fevents f2 = fevents f"
    "payloads f2 = payloads f" "matrix_state f2 = matrix_state f"
    using embedding_edges_ok [OF f1] by (simp_all add: e2)
  obtain rs mat n where st: "(case matrix_state f of
        Some (rs, mat, n) \<Rightarrow> if n \<le> length ?es then (rs, mat, n) else ([], [], 0)
      | None \<Rightarrow> ([], [], 0)) = (rs, mat, n)"
    by (rule prod_cases3)
  have rows: "matrix_rows dec (payloads f) None (take n ?es) = Inr (Some (rs, mat))"
    using st assms(3) by (auto simp: matrix_ok_def split: option.splits if_splits)
  let ?new = "matrix_rows dec (payloads f) (mat_dim mat) (drop n ?es)"
  have "(if mat = [] then None else mat_dim mat) = mat_dim mat" by (simp add: mat_dim_def)
  then have all: "matrix_rows dec (payloads f) None ?es = append_rows rs mat ?new"
    using matrix_rows_append [OF rows, of "drop n ?es"] by simp
  have *: "matrix_ok dec S f2"
    using assms(3) by (simp add: matrix_ok_def f2)
  have "fst (vector_matrix numpy dec S f) =
      (if numpy then matrix_rows dec (payloads f) None ?es else Inr None)
    \<and> matrix_ok dec S (snd (vector_matrix numpy dec S f))"
  proof (cases numpy)
    case False
    then show ?thesis using assms(1,3) by (simp add: vector_matrix_def matrix_ok_def)
  next
    case True
    have v: "vector_matrix True dec S f = (case ?new of
        Inl err \<Rightarrow> (Inl err, f2)
      | Inr None \<Rightarrow> (Inr None, f2\<lparr>matrix_result := None\<rparr>)
      | Inr (Some (new_refs, new_rows)) \<Rightarrow> (Inr (Some (rs @ new_refs, mat @ new_rows)),
          f2\<lparr>matrix_state := Some (rs @ new_refs, mat @ new_rows, length ?es),
             matrix_result := Some (rs @ new_refs, mat @ new_rows)\<rparr>))"
      using assms(1) f2 st by (simp add: vector_matrix_def Let_def split: sum.splits option.splits)
    consider err where "?new = Inl err" | "?new = Inr None"
      | rs' rows' where "?new = Inr (Some (rs', rows'))"
      by (metis old.sum.exhaust option.exhaust surj_pair)
    then show ?thesis
      using True * all by cases (auto simp: v append_rows_def matrix_ok_def f2)
  qed
  then show "fst (vector_matrix numpy dec S f) =
      (if numpy then matrix_rows dec (payloads f) None ?es else Inr None)"
    "matrix_ok dec S (snd (vector_matrix numpy dec S f))" by simp_all
qed

section \<open>Extending a matrix\<close>

lemma payload_spec_snoc:
  "payload_spec S (xs @ [(pos, ev)]) =
     (case ev of CellWrite p i \<Rightarrow> (payload_spec S xs)(cell_ref S p i \<mapsto> p) | _ \<Rightarrow> payload_spec S xs)"
  by (cases ev) (simp_all add: payload_spec_append join_payloads_def refs_spec_def ref_of_def)

lemma payload_spec_sound:
  "payload_spec S evs e = Some raw \<Longrightarrow> \<exists>i. cell_ref S raw i = e"
proof (induction evs rule: rev_induct)
  case (snoc y ys)
  then show ?case by (cases y) (auto simp: payload_spec_snoc split: event.splits if_splits)
qed (simp add: payload_spec_def)

lemma payload_spec_mono:
  assumes "content_addressed S" "payload_spec S xs e = Some raw"
  shows "payload_spec S (xs @ ys) e = Some raw"
proof (induction ys rule: rev_induct)
  case (snoc y ys)
  obtain pos ev where y: "y = (pos, ev)" by (cases y)
  obtain i where i: "cell_ref S raw i = e" using payload_spec_sound [OF assms(2)] by blast
  have "payload_spec S ((xs @ ys) @ [y]) e = Some raw"
    using snoc assms(1) i unfolding y content_addressed_def payload_spec_snoc
    by (auto split: event.splits)
  then show ?case by simp
qed (use assms(2) in simp)

lemma new_fold_matrix_ok:
  assumes "content_addressed S" "fold_ok S p" "matrix_ok dec S p" "boundary_sound (fevents p) evs"
    "edges_grounded S (fevents p)"
  shows "matrix_ok dec S (new_fold S evs (refs_spec S evs) (Some p))"
proof (cases "is_prefix_of p evs")
  case False
  then show ?thesis by (simp add: matrix_ok_def new_fold_def)
next
  case True
  obtain zs where zs: "evs = fevents p @ zs" by (rule fold_prefix_append [OF assms(4) True])
  let ?f = "new_fold S evs (refs_spec S evs) (Some p)"
  let ?es = "edges_of S (fevents p)"
  have "fold_ok S ?f" by (rule new_fold_ok) (use assms(2,4) in auto)
  then have pay: "payloads ?f = payload_spec S evs" by (simp add: fold_ok_def new_fold_def Let_def)
  have same: "payloads p e = payloads ?f e" if et: "(e, t) \<in> set ?es" for e t
  proof -
    obtain raw where raw: "payload_spec S (fevents p) e = Some raw"
      using et assms(5) by (auto simp: edges_grounded_def)
    have "payload_spec S evs e = Some raw"
      unfolding zs by (rule payload_spec_mono [OF assms(1) raw])
    then show ?thesis using assms(2) raw unfolding pay by (simp add: fold_ok_def)
  qed
  have st: "matrix_state ?f = matrix_state p" "fevents ?f = fevents p @ zs"
    using True zs by (simp_all add: new_fold_def Let_def)
  have "matrix_rows dec (payloads ?f) None (take n ?es) = matrix_rows dec (payloads p) None (take n ?es)" for n
  proof (rule matrix_rows_cong)
    fix e t assume "(e, t) \<in> set (take n ?es)"
    then have "(e, t) \<in> set ?es" by (rule in_set_takeD)
    then show "payloads ?f e = payloads p e" using same by simp
  qed
  then show ?thesis using assms(3) unfolding matrix_ok_def st
    by (simp add: le_SucI trans_le_add1)
qed

section \<open>The top-\<open>k\<close> query\<close>

definition dot :: "real list \<Rightarrow> real list \<Rightarrow> real" where
  "dot a b = sum_list (map (\<lambda>(x, y). x * y) (zip a b))"

definition cosine_score :: "real list \<Rightarrow> real list \<Rightarrow> real" where
  "cosine_score q row = (if l2_norm row = 0 \<or> l2_norm q = 0 then 0
     else dot row q / (l2_norm row * l2_norm q))"

definition rank_key :: "'r \<times> real \<Rightarrow> real \<times> 'r" where
  "rank_key x = (- snd x, fst x)"

definition top_k :: "int \<Rightarrow> ('r::linorder \<times> real) list \<Rightarrow> ('r \<times> real) list" where
  "top_k k scored = take (nat k) (sort_key rank_key scored)"

definition in_scope_rows ::
    "(('r, 'i) log \<Rightarrow> 'r \<Rightarrow> 's \<Rightarrow> bool) \<Rightarrow> ('r, 'i) log \<Rightarrow> 's option \<Rightarrow> 'r list \<times> real list list
       \<Rightarrow> ('r \<times> real list) list" where
  "in_scope_rows fold_scope view scope m = (case scope of
     None \<Rightarrow> zip (fst m) (snd m)
   | Some s \<Rightarrow> filter (\<lambda>(r, row). fold_scope view r s) (zip (fst m) (snd m)))"

definition query_matrix ::
    "(('r::linorder, 'i) log \<Rightarrow> 'r \<Rightarrow> 's \<Rightarrow> bool) \<Rightarrow> ('r, 'i) log \<Rightarrow> real list \<Rightarrow> int \<Rightarrow> 's option
       \<Rightarrow> 'r list \<times> real list list \<Rightarrow> py_error + ('r \<times> real) list" where
  "query_matrix fold_scope view q k scope m = (
     if snd m = [] then Inr []
     else let sub = in_scope_rows fold_scope view scope m in
       if scope \<noteq> None \<and> sub = [] then Inr []
       else if length q \<noteq> length (hd (snd m)) then Inl (ValueError ''dimension mismatch'')
       else Inr (top_k k (map (\<lambda>(r, row). (r, cosine_score q row)) sub)))"

definition fast_vector_query ::
    "bool \<Rightarrow> (string \<Rightarrow> real) \<Rightarrow> (('r::linorder, 'i) log \<Rightarrow> 'r \<Rightarrow> 's \<Rightarrow> bool) \<Rightarrow> ('r, 'i) substrate
       \<Rightarrow> real list \<Rightarrow> int \<Rightarrow> 's option \<Rightarrow> ('r, 'i) fold
       \<Rightarrow> (py_error + ('r \<times> real) list option) \<times> ('r, 'i) fold" where
  "fast_vector_query numpy dec fold_scope S q k scope f = (
     case vector_matrix numpy dec S f of
       (Inl err, f1) \<Rightarrow> (Inl err, f1)
     | (Inr None, f1) \<Rightarrow> (Inr None, f1)
     | (Inr (Some m), f1) \<Rightarrow>
         if scope = None \<or> snd m = [] then (map_sum id Some (query_matrix fold_scope [] q k scope m), f1)
         else (case vector_view S f1 of (view, f2) \<Rightarrow>
           (map_sum id Some (query_matrix fold_scope view q k scope m), f2)))"

lemma dot_bound: "length a = length b \<Longrightarrow> \<bar>dot a b\<bar> \<le> l2_norm a * l2_norm b"
proof (induction a b rule: list_induct2)
  case (Cons x xs y ys)
  let ?A = "l2_norm xs" let ?B = "l2_norm ys"
  have sq: "l2_norm (z # zs) = sqrt (z\<^sup>2 + (l2_norm zs)\<^sup>2)" for z zs
    using sum_squares_nonneg [of zs] by (simp add: l2_norm_def power2_eq_square)
  have "\<bar>dot (x # xs) (y # ys)\<bar> \<le> \<bar>x\<bar> * \<bar>y\<bar> + ?A * ?B"
    using Cons.IH by (simp add: dot_def abs_mult [symmetric])
  also have "\<dots> = \<bar>\<bar>x\<bar> * \<bar>y\<bar> + ?A * ?B\<bar>" by simp
  also have "\<dots> \<le> sqrt ((x\<^sup>2 + ?A\<^sup>2) * (y\<^sup>2 + ?B\<^sup>2))"
  proof (rule real_le_rsqrt)
    have "0 \<le> (\<bar>x\<bar> * ?B - \<bar>y\<bar> * ?A)\<^sup>2" by simp
    then show "\<bar>\<bar>x\<bar> * \<bar>y\<bar> + ?A * ?B\<bar>\<^sup>2 \<le> (x\<^sup>2 + ?A\<^sup>2) * (y\<^sup>2 + ?B\<^sup>2)"
      by (simp add: power2_eq_square algebra_simps)
  qed
  finally show ?case by (simp add: sq real_sqrt_mult)
qed (simp add: dot_def)

lemma cosine_score_bounds: "length row = length q \<Longrightarrow> \<bar>cosine_score q row\<bar> \<le> 1"
  using dot_bound [of row q] by (simp add: cosine_score_def abs_mult divide_le_eq)

lemma rank_key_le:
  "rank_key x \<le> rank_key y \<longleftrightarrow> snd y < snd x \<or> (snd y = snd x \<and> fst x \<le> fst y)"
  by (auto simp: rank_key_def)

lemma top_k_rank:
  "sorted_wrt (\<lambda>x y. rank_key x \<le> rank_key y) (top_k k scored)"
  "length (top_k k scored) = min (nat k) (length scored)"
  "set (top_k k scored) \<subseteq> set scored"
  "\<exists>rest. mset scored = mset (top_k k scored) + mset rest
     \<and> (\<forall>x \<in> set (top_k k scored). \<forall>y \<in> set rest. rank_key x \<le> rank_key y)"
proof -
  let ?s = "sort_key rank_key scored"
  have so: "sorted_wrt (\<lambda>x y. rank_key x \<le> rank_key y) ?s"
    using sorted_sort_key [of rank_key scored] by (simp add: sorted_map)
  then show "sorted_wrt (\<lambda>x y. rank_key x \<le> rank_key y) (top_k k scored)"
    unfolding top_k_def by (rule sorted_wrt_take)
  show "length (top_k k scored) = min (nat k) (length scored)" by (simp add: top_k_def min.commute)
  show "set (top_k k scored) \<subseteq> set scored" using set_take_subset [of "nat k" ?s] by (simp add: top_k_def)
  have "mset scored = mset (take (nat k) ?s) + mset (drop (nat k) ?s)"
    by (metis append_take_drop_id mset_append mset_sort)
  moreover have "\<forall>x \<in> set (top_k k scored). \<forall>y \<in> set (drop (nat k) ?s). rank_key x \<le> rank_key y"
    using take_dominates [OF so] unfolding top_k_def by simp
  ultimately show "\<exists>rest. mset scored = mset (top_k k scored) + mset rest
     \<and> (\<forall>x \<in> set (top_k k scored). \<forall>y \<in> set rest. rank_key x \<le> rank_key y)"
    unfolding top_k_def by blast
qed

lemma fold_ok_matrix_fields [simp]:
  "fold_ok S (f\<lparr>matrix_computed := b\<rparr>) = fold_ok S f"
  "fold_ok S (f\<lparr>matrix_state := st\<rparr>) = fold_ok S f"
  "fold_ok S (f\<lparr>matrix_result := r\<rparr>) = fold_ok S f"
  by (simp_all add: fold_ok_def)

lemma vector_matrix_keeps:
  assumes "fold_ok S f"
  shows "fold_ok S (snd (vector_matrix numpy dec S f))"
    "fevents (snd (vector_matrix numpy dec S f)) = fevents f"
    "payloads (snd (vector_matrix numpy dec S f)) = payloads f"
proof -
  let ?f1 = "f\<lparr>matrix_computed := True\<rparr>"
  have f1: "fold_ok S ?f1" using assms by simp
  obtain es f2 where e: "embedding_edges S ?f1 = (es, f2)" by (rule prod.exhaust)
  have f2: "fold_ok S f2" "fevents f2 = fevents f" "payloads f2 = payloads f"
    using embedding_edges_ok [OF f1] by (simp_all add: e)
  have "fold_ok S (snd (vector_matrix numpy dec S f))
      \<and> fevents (snd (vector_matrix numpy dec S f)) = fevents f
      \<and> payloads (snd (vector_matrix numpy dec S f)) = payloads f"
    using assms f2 by (simp add: vector_matrix_def Let_def e split: sum.split option.split prod.split)
  then show "fold_ok S (snd (vector_matrix numpy dec S f))"
    "fevents (snd (vector_matrix numpy dec S f)) = fevents f"
    "payloads (snd (vector_matrix numpy dec S f)) = payloads f" by simp_all
qed

lemma query_matrix_Inr:
  assumes "query_matrix fs view q k scope m = Inr out" "length (fst m) = length (snd m)"
    and "\<And>row. row \<in> set (snd m) \<Longrightarrow> length row = length (hd (snd m))"
  shows "out = top_k k (map (\<lambda>(r, row). (r, cosine_score q row)) (in_scope_rows fs view scope m))"
    "\<And>r s. (r, s) \<in> set out \<Longrightarrow> \<bar>s\<bar> \<le> 1"
proof -
  let ?sub = "in_scope_rows fs view scope m"
  show out: "out = top_k k (map (\<lambda>(r, row). (r, cosine_score q row)) ?sub)"
    using assms(1,2) by (auto simp: query_matrix_def Let_def top_k_def in_scope_rows_def
        split: if_splits option.splits)
  fix r s assume "(r, s) \<in> set out"
  then obtain row where row: "(r, row) \<in> set ?sub" "s = cosine_score q row"
    using top_k_rank(3) unfolding out by fastforce
  then have "row \<in> set (snd m)"
    by (auto simp: in_scope_rows_def dest: set_zip_rightD split: option.splits)
  moreover from row(1) have "snd m \<noteq> []" "?sub \<noteq> []" using calculation by auto
  then have "length q = length (hd (snd m))"
    using assms(1) by (auto simp: query_matrix_def Let_def split: if_splits)
  ultimately show "\<bar>s\<bar> \<le> 1" using row(2) assms(3) cosine_score_bounds [of row q] by simp
qed

section \<open>Properties\<close>

text \<open>
  C21: the embedding matrix may be extended.  Over a content-addressed log whose earlier
  embedding edges all pointed from cells it held, a fold that inherits the matrix of an
  earlier fold and decodes only the new rows answers exactly as a fold built from scratch
  (rows, order, bail-out on mixed dimensions and decoding errors alike), and hands on a
  state that the next fold may extend again.
\<close>

theorem matrix_extension_equals_rebuild:
  assumes "content_addressed S" "fold_ok S p" "matrix_ok dec S p" "boundary_sound (fevents p) evs"
    "edges_grounded S (fevents p)"
  shows "fst (vector_matrix numpy dec S (new_fold S evs (refs_spec S evs) (Some p)))
      = fst (vector_matrix numpy dec S (scratch_fold S evs))
    \<and> fold_ok S (snd (vector_matrix numpy dec S (new_fold S evs (refs_spec S evs) (Some p))))
    \<and> matrix_ok dec S (snd (vector_matrix numpy dec S (new_fold S evs (refs_spec S evs) (Some p))))"
proof -
  let ?f = "new_fold S evs (refs_spec S evs) (Some p)" and ?g = "scratch_fold S evs"
  have f: "fold_ok S ?f" by (rule new_fold_ok) (use assms(2,4) in auto)
  note g = scratch_fold_ok [of S evs]
  have un: "\<not> matrix_computed ?f" "\<not> matrix_computed ?g" "matrix_ok dec S ?g" "fevents ?f = evs"
    by (simp_all add: new_fold_def scratch_fold_def matrix_ok_def Let_def)
  have "payloads ?f = payloads ?g" using f g un(4) by (simp add: fold_ok_def)
  then show ?thesis
    using vector_matrix_fresh [OF un(1) f new_fold_matrix_ok [OF assms]]
      vector_matrix_fresh(1) [OF un(2) g(1) un(3)] vector_matrix_keeps(1) [OF f] g(2) un(4) by simp
qed

definition vector_log :: "(string, nat) log" where
  "vector_log = [(0, CellWrite ''abcd'' 0), (1, Relationship ''#abcd'' ''#a'' ''embedding_of'')]"

definition longer_log :: "(string, nat) log" where
  "longer_log = vector_log @ [(2, CellWrite ''efgh'' 0), (3, Relationship ''#efgh'' ''#b'' ''embedding_of'')]"

text \<open>A fold that has decoded the row of \<open>vector_log\<close>, extended by the row of \<open>longer_log\<close>.\<close>

theorem matrix_extension_equals_rebuild_witness:
  "let p = snd (vector_matrix True (\<lambda>w. 1) demo_substrate (scratch_fold demo_substrate vector_log))
   in matrix_state p = Some ([''#a''], [[1]], 1)
     \<and> fst (vector_matrix True (\<lambda>w. 1) demo_substrate (new_fold demo_substrate longer_log (refs_spec demo_substrate longer_log) (Some p)))
      = Inr (Some ([''#a'', ''#b''], [[1], [1]]))"
proof -
  let ?S = demo_substrate
  define p where "p = snd (vector_matrix True (\<lambda>w. 1 :: real) ?S (scratch_fold ?S vector_log))"
  have ca: "content_addressed ?S" by (simp add: content_addressed_def demo_substrate_def)
  have un: "\<not> matrix_computed (scratch_fold ?S vector_log)" and mk: "matrix_ok (\<lambda>w. 1) ?S (scratch_fold ?S vector_log)"
    by (simp_all add: matrix_ok_def scratch_fold_def new_fold_def Let_def)
  have fold: "fold_ok ?S p" "fevents p = vector_log" and mat: "matrix_ok (\<lambda>w. 1) ?S p"
    unfolding p_def using vector_matrix_keeps [OF scratch_fold_ok(1)] vector_matrix_fresh(2) [OF un scratch_fold_ok(1) mk]
    by (simp_all add: scratch_fold_ok)
  have b: "boundary_sound (fevents p) longer_log" by (simp add: fold boundary_sound_def longer_log_def)
  have gr: "edges_grounded ?S (fevents p)"
    by (simp add: fold edges_grounded_def vector_log_def edges_of_def is_edge_def
        demo_substrate_def payload_spec_def join_payloads_def refs_spec_def ref_of_def)
  note ev = vector_matrix_def scratch_fold_def new_fold_def Let_def embedding_edges_def longer_log_def vector_log_def edges_of_def
    is_edge_def demo_substrate_def refs_spec_def ref_of_def join_payloads_def decode_row_def unpack_floats_def cons_row_def mat_dim_def
  have "matrix_state p = Some ([''#a''], [[1]], 1)" unfolding p_def by (simp add: ev)
  moreover have "fst (vector_matrix True (\<lambda>w. 1) ?S (scratch_fold ?S longer_log)) = Inr (Some ([''#a'', ''#b''], [[1], [1]]))"
    by (simp add: ev)
  ultimately show ?thesis
    using matrix_extension_equals_rebuild [OF ca fold(1) mat b gr, of True] unfolding p_def [symmetric] Let_def by simp
qed

text \<open>
  the hypothesis on grounded edges is needed.  When an embedding edge is read before
  the cell it points from, the extended matrix never gets its row, although the cell has
  arrived and a rebuilt matrix has it.
\<close>

theorem dangling_edge_is_never_revisited:
  "let p = snd (vector_matrix True dec demo_substrate (scratch_fold demo_substrate (tl vector_log)));
       evs = tl vector_log @ [(2, CellWrite ''abcd'' 0)]
   in fst (vector_matrix True dec demo_substrate (new_fold demo_substrate evs (refs_spec demo_substrate evs) (Some p)))
        = Inr (Some ([], []))
    \<and> fst (vector_matrix True dec demo_substrate (scratch_fold demo_substrate evs))
        = Inr (Some ([''#a''], [[dec ''abcd'']]))"
  by (simp add: vector_matrix_def scratch_fold_def new_fold_def Let_def embedding_edges_def
      vector_log_def edges_of_def is_edge_def demo_substrate_def refs_spec_def ref_of_def join_payloads_def
      decode_row_def unpack_floats_def cons_row_def mat_dim_def is_prefix_of_def)


definition numbered_substrate :: "(nat, nat) substrate" where
  "numbered_substrate = \<lparr>cell_ref = (\<lambda>p i. length p), EMBEDDING_OF = ''embedding_of'',
     SCOPED_TO = ''scoped_to''\<rparr>"

definition numbered_log :: "(nat, nat) log" where
  "numbered_log = [(0, CellWrite ''abcd'' 0), (1, Relationship 4 7 ''embedding_of'')]"


end
