(* ===== verification/Native_Store.thy ===== *)
theory Native_Store
  imports Memory_Store Fold
begin

text \<open>
  The write side of \<open>NativeMemoryStore\<close> (\<open>store.py\<close>): filing a drawer, a diary entry or
  a KG fact, replacing an importance, rolling back.  The substrate is a parameter: its
  direct surface and its write batch are records of functions (\<open>store_api\<close>,
  \<open>batch_api\<close>, collected in \<open>backend\<close>), and what the code relies on is the locale
  \<open>event_backend\<close>: each call appends the events it documents, in call order, and a commit
  appends what was staged.  Refs are strings, and a text payload stands for the text it
  encodes.
\<close>

section \<open>The substrate's surface\<close>

record 's writer =
  w_cell :: "string \<Rightarrow> 's \<Rightarrow> string \<times> 's"
  w_fact :: "string \<Rightarrow> string \<Rightarrow> string \<Rightarrow> 's \<Rightarrow> 's"
  w_scope :: "string \<Rightarrow> string \<Rightarrow> 's \<Rightarrow> 's"

record 's store_api = "'s writer" +
  s_invalidate :: "string \<Rightarrow> string \<Rightarrow> string \<Rightarrow> 's \<Rightarrow> 's"
  s_embed :: "string \<Rightarrow> real list \<Rightarrow> 's \<Rightarrow> string \<times> 's"

record 'b batch_api = "'b writer" +
  b_relate :: "string \<Rightarrow> string \<Rightarrow> string \<Rightarrow> 'b \<Rightarrow> 'b"

text \<open>
  \<open>commit\<close> answers a map from staged tokens to refs (the gateway) or sequence positions
  (the direct store), here \<open>None\<close>.
\<close>

record ('s, 'b) backend =
  batchable :: bool
  direct :: "'s store_api"
  write_batch :: "'s \<Rightarrow> 'b"
  staged :: "'b batch_api"
  commit :: "'b \<Rightarrow> 's \<Rightarrow> (string \<rightharpoonup> string) option \<times> 's"

definition resolve_batch_ref :: "(string \<rightharpoonup> string) option \<Rightarrow> string \<Rightarrow> string" where
  "resolve_batch_ref res ref = (case res of
     Some m \<Rightarrow> (case m ref of Some r \<Rightarrow> r | None \<Rightarrow> ref) | None \<Rightarrow> ref)"

definition INVALIDATE_PREFIX :: string where "INVALIDATE_PREFIX = ''__invalidate__:''"

section \<open>Operations\<close>

record 's native_store =
  ns_store :: 's
  ns_filed :: "(string \<times> cell) list"
  ns_mutations :: "mutation_record list"
  ns_rolled_back :: "string list"

definition native_init :: "'s \<Rightarrow> 's native_store" where
  "native_init s = \<lparr>ns_store = s, ns_filed = [], ns_mutations = [], ns_rolled_back = []\<rparr>"

text \<open>\<open>if v is not None: assert_fact(ref, predicate, write_cell(v))\<close>\<close>

definition fact_if :: "('s, 'm) writer_scheme \<Rightarrow> string \<Rightarrow> string \<Rightarrow> string option \<Rightarrow> 's \<Rightarrow> 's" where
  "fact_if W ref pred v s = (case v of None \<Rightarrow> s
     | Some x \<Rightarrow> (case w_cell W x s of (obj, s1) \<Rightarrow> w_fact W ref pred obj s1))"

definition scope_to :: "('s, 'm) writer_scheme \<Rightarrow> string \<Rightarrow> string \<Rightarrow> 's \<Rightarrow> 's" where
  "scope_to W ref name s = (case w_cell W name s of (c, s1) \<Rightarrow> w_scope W ref c s1)"

text \<open>The calls that the batch path and the sequential path of \<open>file\<close> share.\<close>

definition file_core :: "(real \<Rightarrow> string) \<Rightarrow> ('s, 'm) writer_scheme \<Rightarrow> cell \<Rightarrow> 's \<Rightarrow> string \<times> 's" where
  "file_core str_of W c s0 = (case w_cell W (content c) s0 of (ref, s1) \<Rightarrow>
     let s2 = scope_to W ref (''wing:'' @ wing c) s1;
         s3 = scope_to W ref (''room:'' @ room c) s2;
         s4 = fact_if W ref ''has_source'' (if source c = [] then None else Some (source c)) s3;
         s5 = fact_if W ref ''has_category'' (category c) s4;
         s6 = fact_if W ref ''has_importance'' (map_option str_of (importance c)) s5
     in (ref, s6))"

definition native_file ::
    "('s, 'b) backend \<Rightarrow> string \<Rightarrow> (real \<Rightarrow> string) \<Rightarrow> (real list \<Rightarrow> string) \<Rightarrow> cell
       \<Rightarrow> 's native_store \<Rightarrow> string \<times> 's native_store" where
  "native_file B embedding_of str_of pack c st = (
     let (ref, s') =
       (if batchable B then
          (case file_core str_of (staged B) c (write_batch B (ns_store st)) of (ref, b1) \<Rightarrow>
             let b2 = (case embedding c of None \<Rightarrow> b1
                   | Some v \<Rightarrow> (case w_cell (staged B) (pack v) b1 of (e, b) \<Rightarrow>
                       b_relate (staged B) e ref embedding_of b))
             in (case commit B b2 (ns_store st) of (res, s1) \<Rightarrow> (resolve_batch_ref res ref, s1)))
        else
          (case file_core str_of (direct B) c (ns_store st) of (ref, s1) \<Rightarrow>
             (ref, case embedding c of None \<Rightarrow> s1 | Some v \<Rightarrow> snd (s_embed (direct B) ref v s1))))
     in (ref, st\<lparr>ns_store := s', ns_filed := ns_filed st @ [(ref, c)]\<rparr>))"

definition diary_core ::
    "('s, 'm) writer_scheme \<Rightarrow> string \<Rightarrow> string \<Rightarrow> string \<Rightarrow> 's \<Rightarrow> string \<times> 's" where
  "diary_core W agent entry topic s0 = (case w_cell W entry s0 of (ref, s1) \<Rightarrow>
     let s2 = scope_to W ref (''agent:'' @ agent) s1;
         s3 = scope_to W ref (''room:'' @ topic) s2
     in (ref, fact_if W ref ''has_source'' (Some (''diary:'' @ agent)) s3))"

definition file_diary ::
    "('s, 'b) backend \<Rightarrow> string \<Rightarrow> string \<Rightarrow> string \<Rightarrow> 's native_store \<Rightarrow> string \<times> 's native_store" where
  "file_diary B agent entry topic st = (
     let (ref, s') =
       (if batchable B then
          (case diary_core (staged B) agent entry topic (write_batch B (ns_store st)) of (ref, b1) \<Rightarrow>
             (case commit B b1 (ns_store st) of (res, s1) \<Rightarrow> (resolve_batch_ref res ref, s1)))
        else diary_core (direct B) agent entry topic (ns_store st))
     in (ref, st\<lparr>ns_store := s'\<rparr>))"

definition anchor :: "('s, 'b) backend \<Rightarrow> string \<Rightarrow> 's \<Rightarrow> string \<times> 's" where
  "anchor B name s = w_cell (direct B) (''entity:'' @ name) s"

definition assert_kg ::
    "('s, 'b) backend \<Rightarrow> string \<Rightarrow> string \<Rightarrow> string \<Rightarrow> 's native_store \<Rightarrow> 's native_store" where
  "assert_kg B subj pred obj st = (case anchor B subj (ns_store st) of (x, s1) \<Rightarrow>
     (case anchor B obj s1 of (y, s2) \<Rightarrow> st\<lparr>ns_store := w_fact (direct B) x pred y s2\<rparr>))"

definition invalidate_kg ::
    "('s, 'b) backend \<Rightarrow> string \<Rightarrow> string \<Rightarrow> string \<Rightarrow> 's native_store \<Rightarrow> 's native_store" where
  "invalidate_kg B subj pred obj st = (case anchor B subj (ns_store st) of (x, s1) \<Rightarrow>
     (case anchor B obj s1 of (y, s2) \<Rightarrow> st\<lparr>ns_store := s_invalidate (direct B) x pred y s2\<rparr>))"

text \<open>
  \<open>update_importance\<close>.  The store is written before the mutation record is minted, so the
  state returned with an error is the written one.
\<close>

definition update_staged :: "(real \<Rightarrow> string) \<Rightarrow> 'b batch_api \<Rightarrow> update_request \<Rightarrow> 'b \<Rightarrow> 'b" where
  "update_staged str_of W q b0 = (case w_cell W (str_of (u_new q)) b0 of (new_ref, b1) \<Rightarrow>
     let b2 = (case u_old q of None \<Rightarrow> b1
           | Some x \<Rightarrow> (case w_cell W (str_of x) b1 of (old_ref, b) \<Rightarrow>
               b_relate W (u_subject q) old_ref (INVALIDATE_PREFIX @ ''has_importance'') b))
     in w_fact W (u_subject q) ''has_importance'' new_ref b2)"

definition update_direct :: "(real \<Rightarrow> string) \<Rightarrow> 's store_api \<Rightarrow> update_request \<Rightarrow> 's \<Rightarrow> 's" where
  "update_direct str_of W q s0 = (case w_cell W (str_of (u_new q)) s0 of (new_ref, s1) \<Rightarrow>
     let s2 = (case u_old q of None \<Rightarrow> s1
           | Some x \<Rightarrow> (case w_cell W (str_of x) s1 of (old_ref, s) \<Rightarrow>
               s_invalidate W (u_subject q) ''has_importance'' old_ref s))
     in w_fact W (u_subject q) ''has_importance'' new_ref s2)"

definition native_update ::
    "('s, 'b) backend \<Rightarrow> (real \<Rightarrow> string) \<Rightarrow> string \<Rightarrow> string \<Rightarrow> update_request \<Rightarrow> 's native_store
       \<Rightarrow> (py_error + mutation_record) \<times> 's native_store" where
  "native_update B str_of uuid_hex now q st = (
     let s1 = (if batchable B
          then snd (commit B (update_staged str_of (staged B) q (write_batch B (ns_store st))) (ns_store st))
          else update_direct str_of (direct B) q (ns_store st));
         st1 = st\<lparr>ns_store := s1\<rparr>;
         d = \<lparr>dsubject = u_subject q, dpredicate = ''has_importance'',
              new_value = str_of (u_new q), old_value = map_option str_of (u_old q)\<rparr>
     in case new_mutation uuid_hex now (u_provenance q) (u_outcome q) d (u_confidence q) (batchable B)
              (u_interaction q) of
          Inl e \<Rightarrow> (Inl e, st1)
        | Inr r0 \<Rightarrow> let r = mark_applied r0
                    in (Inr r, st1\<lparr>ns_mutations := ns_mutations st1 @ [r]\<rparr>))"

definition native_rollback :: "('s, 'b) backend \<Rightarrow> mutation_record \<Rightarrow> 's native_store \<Rightarrow> 's native_store" where
  "native_rollback B r st = (
     let d = delta r; W = direct B in
     case w_cell W (new_value d) (ns_store st) of (new_ref, s1) \<Rightarrow>
       let s2 = s_invalidate W (dsubject d) (dpredicate d) new_ref s1;
           s3 = fact_if W (dsubject d) (dpredicate d) (old_value d) s2
       in st\<lparr>ns_store := s3, ns_rolled_back := ns_rolled_back st @ [interaction_id r]\<rparr>)"

section \<open>What the code relies on\<close>

text \<open>The events of scoping a ref to a named cell, of an optional fact, of a whole drawer.\<close>

definition scope_events ::
    "(string, 'i) substrate \<Rightarrow> 'i \<Rightarrow> string \<Rightarrow> string \<Rightarrow> (string, 'i) event list" where
  "scope_events S i0 r name = [CellWrite name i0, Relationship r (cell_ref S name i0) (SCOPED_TO S)]"

definition fact_events ::
    "(string, 'i) substrate \<Rightarrow> 'i \<Rightarrow> string \<Rightarrow> string \<Rightarrow> string option \<Rightarrow> (string, 'i) event list" where
  "fact_events S i0 r p v = (case v of None \<Rightarrow> []
     | Some o' \<Rightarrow> [CellWrite o' i0, Relationship r (cell_ref S o' i0) p])"

definition drawer_events ::
    "(string, 'i) substrate \<Rightarrow> 'i \<Rightarrow> (real \<Rightarrow> string) \<Rightarrow> (real list \<Rightarrow> string) \<Rightarrow> cell
       \<Rightarrow> (string, 'i) event list" where
  "drawer_events S i0 str_of pack c = (let r = cell_ref S (content c) i0 in
     CellWrite (content c) i0 #
     scope_events S i0 r (''wing:'' @ wing c) @ scope_events S i0 r (''room:'' @ room c)
     @ fact_events S i0 r ''has_source'' (if source c = [] then None else Some (source c))
     @ fact_events S i0 r ''has_category'' (category c)
     @ fact_events S i0 r ''has_importance'' (map_option str_of (importance c))
     @ (case embedding c of None \<Rightarrow> []
        | Some v \<Rightarrow> [CellWrite (pack v) i0, Relationship (cell_ref S (pack v) i0) r (EMBEDDING_OF S)]))"

definition update_events ::
    "(string, 'i) substrate \<Rightarrow> 'i \<Rightarrow> (real \<Rightarrow> string) \<Rightarrow> update_request \<Rightarrow> (string, 'i) event list" where
  "update_events S i0 str_of q = CellWrite (str_of (u_new q)) i0 #
     (case u_old q of None \<Rightarrow> []
      | Some x \<Rightarrow> [CellWrite (str_of x) i0, Relationship (u_subject q) (cell_ref S (str_of x) i0)
          (INVALIDATE_PREFIX @ ''has_importance'')])
     @ [Relationship (u_subject q) (cell_ref S (str_of (u_new q)) i0) ''has_importance'']"

text \<open>
  A writer records events.  \<open>evs s\<close> are the events a state has recorded, \<open>resolve s\<close>
  the content address a ref or token of that state stands for, and \<open>issued s\<close> the refs and
  tokens with a settled meaning (all of them for a store that hands out content addresses).
\<close>

locale event_writer =
  fixes S :: "(string, 'i) substrate" and i0 :: 'i
    and W :: "('s, 'm) writer_scheme"
    and evs :: "'s \<Rightarrow> (string, 'i) event list"
    and resolve :: "'s \<Rightarrow> string \<Rightarrow> string"
    and issued :: "'s \<Rightarrow> string set"
  assumes cell_event: "w_cell W p s = (t, s') \<Longrightarrow>
      evs s' = evs s @ [CellWrite p i0] \<and> resolve s' t = cell_ref S p i0
      \<and> issued s' = insert t (issued s) \<and> (\<forall>x \<in> issued s. resolve s' x = resolve s x)"
    and fact_event: "x \<in> issued s \<Longrightarrow> y \<in> issued s \<Longrightarrow>
      evs (w_fact W x p y s) = evs s @ [Relationship (resolve s x) (resolve s y) p]
      \<and> resolve (w_fact W x p y s) = resolve s \<and> issued (w_fact W x p y s) = issued s"
    and scope_event: "x \<in> issued s \<Longrightarrow> y \<in> issued s \<Longrightarrow>
      evs (w_scope W x y s) = evs s @ [Relationship (resolve s x) (resolve s y) (SCOPED_TO S)]
      \<and> resolve (w_scope W x y s) = resolve s \<and> issued (w_scope W x y s) = issued s"
begin

text \<open>
  \<open>adds x s s' es\<close>: the step from \<open>s\<close> to \<open>s'\<close> recorded \<open>es\<close> and kept the
  meaning of what was issued, of \<open>x\<close> in particular.
\<close>

definition adds :: "string \<Rightarrow> 's \<Rightarrow> 's \<Rightarrow> (string, 'i) event list \<Rightarrow> bool" where
  "adds x s s' es \<longleftrightarrow> evs s' = evs s @ es \<and> x \<in> issued s' \<and> resolve s' x = resolve s x"

lemma adds_refl: "x \<in> issued s \<Longrightarrow> adds x s s []"
  by (simp add: adds_def)

lemma adds_trans: "adds x s s' es \<Longrightarrow> adds x s' s'' es' \<Longrightarrow> adds x s s'' (es @ es')"
  by (simp add: adds_def)

lemma adds_issued: "adds x s s' es \<Longrightarrow> x \<in> issued s'"
  by (simp add: adds_def)

lemma scope_to_adds:
  assumes "x \<in> issued s"
  shows "adds x s (scope_to W x name s)
    [CellWrite name i0, Relationship (resolve s x) (cell_ref S name i0) (SCOPED_TO S)]"
proof -
  obtain c s1 where c: "w_cell W name s = (c, s1)" by (rule prod.exhaust)
  note e = cell_event [OF c]
  have "x \<in> issued s1" "c \<in> issued s1" using e assms by auto
  from scope_event [OF this] show ?thesis
    using e assms by (simp add: scope_to_def c adds_def)
qed

lemma fact_if_adds:
  assumes "x \<in> issued s"
  shows "adds x s (fact_if W x p v s) (fact_events S i0 (resolve s x) p v)"
proof (cases v)
  case None
  then show ?thesis using assms by (simp add: fact_if_def fact_events_def adds_refl)
next
  case (Some o')
  obtain c s1 where c: "w_cell W o' s = (c, s1)" by (rule prod.exhaust)
  note e = cell_event [OF c]
  have "x \<in> issued s1" "c \<in> issued s1" using e assms by auto
  from fact_event [OF this] show ?thesis
    using e assms by (simp add: fact_if_def Some c adds_def fact_events_def)
qed

lemma file_core_adds:
  assumes "file_core str_of W c s = (ref, s')"
  defines "r \<equiv> cell_ref S (content c) i0"
  shows "evs s' = evs s @ CellWrite (content c) i0 #
      scope_events S i0 r (''wing:'' @ wing c) @ scope_events S i0 r (''room:'' @ room c)
      @ fact_events S i0 r ''has_source'' (if source c = [] then None else Some (source c))
      @ fact_events S i0 r ''has_category'' (category c)
      @ fact_events S i0 r ''has_importance'' (map_option str_of (importance c))"
    "ref \<in> issued s'" "resolve s' ref = r"
proof -
  obtain ref' s1 where w: "w_cell W (content c) s = (ref', s1)" by (rule prod.exhaust)
  note e = cell_event [OF w]
  let ?s2 = "scope_to W ref (''wing:'' @ wing c) s1"
  let ?s3 = "scope_to W ref (''room:'' @ room c) ?s2"
  let ?s4 = "fact_if W ref ''has_source'' (if source c = [] then None else Some (source c)) ?s3"
  let ?s5 = "fact_if W ref ''has_category'' (category c) ?s4"
  have d: "ref' = ref" "s' = fact_if W ref ''has_importance'' (map_option str_of (importance c)) ?s5"
    using assms(1) by (auto simp: file_core_def w Let_def)
  have i1: "ref \<in> issued s1" and r1: "resolve s1 ref = r" using e by (simp_all add: r_def d(1))
  note a2 = scope_to_adds [OF i1, of "''wing:'' @ wing c"]
  note a3 = adds_trans [OF a2 scope_to_adds [OF adds_issued [OF a2]], of "''room:'' @ room c"]
  note a4 = adds_trans [OF a3 fact_if_adds [OF adds_issued [OF a3]],
      of "''has_source''" "if source c = [] then None else Some (source c)"]
  note a5 = adds_trans [OF a4 fact_if_adds [OF adds_issued [OF a4]], of "''has_category''" "category c"]
  note a6 = adds_trans [OF a5 fact_if_adds [OF adds_issued [OF a5]],
      of "''has_importance''" "map_option str_of (importance c)"]
  have "resolve ?s2 ref = r" "resolve ?s3 ref = r" "resolve ?s4 ref = r" "resolve ?s5 ref = r"
    using a2 a3 a4 a5 r1 by (simp_all add: adds_def)
  then show "evs s' = evs s @ CellWrite (content c) i0 #
      scope_events S i0 r (''wing:'' @ wing c) @ scope_events S i0 r (''room:'' @ room c)
      @ fact_events S i0 r ''has_source'' (if source c = [] then None else Some (source c))
      @ fact_events S i0 r ''has_category'' (category c)
      @ fact_events S i0 r ''has_importance'' (map_option str_of (importance c))"
    "ref \<in> issued s'" "resolve s' ref = r"
    using a6 e r1 unfolding d(2) by (simp_all add: adds_def scope_events_def)
qed

lemma diary_core_adds:
  assumes "diary_core W agent entry topic s = (ref, s')"
  defines "r \<equiv> cell_ref S entry i0"
  shows "evs s' = evs s @ CellWrite entry i0 #
      scope_events S i0 r (''agent:'' @ agent) @ scope_events S i0 r (''room:'' @ topic)
      @ fact_events S i0 r ''has_source'' (Some (''diary:'' @ agent))"
    "ref \<in> issued s'" "resolve s' ref = r"
proof -
  obtain ref' s1 where w: "w_cell W entry s = (ref', s1)" by (rule prod.exhaust)
  note e = cell_event [OF w]
  let ?s2 = "scope_to W ref (''agent:'' @ agent) s1"
  let ?s3 = "scope_to W ref (''room:'' @ topic) ?s2"
  have d: "ref' = ref" "s' = fact_if W ref ''has_source'' (Some (''diary:'' @ agent)) ?s3"
    using assms(1) by (auto simp: diary_core_def w Let_def)
  have i1: "ref \<in> issued s1" and r1: "resolve s1 ref = r" using e by (simp_all add: r_def d(1))
  note a2 = scope_to_adds [OF i1, of "''agent:'' @ agent"]
  note a3 = adds_trans [OF a2 scope_to_adds [OF adds_issued [OF a2]], of "''room:'' @ topic"]
  note a4 = adds_trans [OF a3 fact_if_adds [OF adds_issued [OF a3]],
      of "''has_source''" "Some (''diary:'' @ agent)"]
  have "resolve ?s2 ref = r" "resolve ?s3 ref = r" using a2 a3 r1 by (simp_all add: adds_def)
  then show "evs s' = evs s @ CellWrite entry i0 #
      scope_events S i0 r (''agent:'' @ agent) @ scope_events S i0 r (''room:'' @ topic)
      @ fact_events S i0 r ''has_source'' (Some (''diary:'' @ agent))"
    "ref \<in> issued s'" "resolve s' ref = r"
    using a4 e r1 unfolding d(2) by (simp_all add: adds_def scope_events_def)
qed

end

text \<open>
  A backend: the direct surface hands out content addresses; an open batch stages, and
  committing it appends what it staged and tells what its tokens stood for.  \<open>external\<close>
  are the refs a batch may name without having issued them.
\<close>

locale event_backend =
  direct: event_writer S i0 "direct B" lg "\<lambda>s x. x" "\<lambda>s. UNIV" +
  staged: event_writer S i0 "staged B" bevs resolve issued
  for S :: "(string, 'i) substrate" and i0 :: 'i and B :: "('s, 'b) backend"
    and lg :: "'s \<Rightarrow> (string, 'i) event list" and bevs :: "'b \<Rightarrow> (string, 'i) event list"
    and resolve :: "'b \<Rightarrow> string \<Rightarrow> string" and issued :: "'b \<Rightarrow> string set"
    and external :: "string \<Rightarrow> bool" and pack :: "real list \<Rightarrow> string" +
  assumes invalidate_event: "lg (s_invalidate (direct B) x p y s) =
      lg s @ [Relationship x y (INVALIDATE_PREFIX @ p)]"
    and embed_event: "lg (snd (s_embed (direct B) x v s)) = lg s
      @ [CellWrite (pack v) i0, Relationship (cell_ref S (pack v) i0) x (EMBEDDING_OF S)]"
    and relate_event: "x \<in> issued b \<Longrightarrow> y \<in> issued b \<Longrightarrow>
      bevs (b_relate (staged B) x y p b) = bevs b @ [Relationship (resolve b x) (resolve b y) p]
      \<and> resolve (b_relate (staged B) x y p b) = resolve b \<and> issued (b_relate (staged B) x y p b) = issued b"
    and open_batch: "bevs (write_batch B s) = []"
      "external x \<Longrightarrow> x \<in> issued (write_batch B s) \<and> resolve (write_batch B s) x = x"
    and commit_event: "commit B b s = (res, s') \<Longrightarrow> lg s' = lg s @ bevs b
      \<and> (\<forall>x \<in> issued b. bevs b \<noteq> [] \<longrightarrow> resolve_batch_ref res x = resolve b x)"

context event_backend
begin

lemma native_file_events:
  assumes "native_file B (EMBEDDING_OF S) str_of pack c st = (ref, st')"
  shows "ref = cell_ref S (content c) i0"
    "lg (ns_store st') = lg (ns_store st) @ drawer_events S i0 str_of pack c"
    "ns_filed st' = ns_filed st @ [(ref, c)]"
proof -
  let ?r = "cell_ref S (content c) i0"
  have "ref = ?r \<and> lg (ns_store st') = lg (ns_store st) @ drawer_events S i0 str_of pack c
     \<and> ns_filed st' = ns_filed st @ [(ref, c)]"
  proof (cases "batchable B")
    case False
    obtain r s1 where w: "file_core str_of (direct B) c (ns_store st) = (r, s1)" by (rule prod.exhaust)
    note e = direct.file_core_adds [OF w]
    show ?thesis
      using assms False e embed_event
      by (auto simp: native_file_def w Let_def drawer_events_def split: option.split)
  next
    case True
    obtain r b1 where w: "file_core str_of (staged B) c (write_batch B (ns_store st)) = (r, b1)"
      by (rule prod.exhaust)
    note e = staged.file_core_adds [OF w]
    define b2 where "b2 = (case embedding c of None \<Rightarrow> b1
        | Some v \<Rightarrow> (case w_cell (staged B) (pack v) b1 of (x, b) \<Rightarrow> b_relate (staged B) x r (EMBEDDING_OF S) b))"
    have b2: "bevs b2 = drawer_events S i0 str_of pack c \<and> r \<in> issued b2 \<and> resolve b2 r = ?r"
    proof (cases "embedding c")
      case None
      then show ?thesis using e open_batch(1) by (simp add: b2_def drawer_events_def Let_def)
    next
      case (Some v)
      obtain x b where x: "w_cell (staged B) (pack v) b1 = (x, b)" by (rule prod.exhaust)
      note c' = staged.cell_event [OF x]
      have "x \<in> issued b" "r \<in> issued b" using c' e by auto
      from relate_event [OF this] show ?thesis
        using c' e open_batch(1) by (simp add: b2_def Some x drawer_events_def Let_def)
    qed
    obtain res s1 where cm: "commit B b2 (ns_store st) = (res, s1)" by (rule prod.exhaust)
    have ne: "bevs b2 \<noteq> []" using b2 by (simp add: drawer_events_def Let_def)
    have "(ref, st') = (resolve_batch_ref res r, st\<lparr>ns_store := s1, ns_filed := ns_filed st @ [(resolve_batch_ref res r, c)]\<rparr>)"
      using assms True by (auto simp: native_file_def w cm b2_def [symmetric])
    then show ?thesis using commit_event [OF cm] ne b2 by simp
  qed
  then show "ref = ?r" "lg (ns_store st') = lg (ns_store st) @ drawer_events S i0 str_of pack c"
    "ns_filed st' = ns_filed st @ [(ref, c)]" by simp_all
qed

lemma file_diary_events:
  assumes "file_diary B agent entry topic st = (ref, st')"
  shows "ref = cell_ref S entry i0"
    "lg (ns_store st') = lg (ns_store st) @ CellWrite entry i0 #
       scope_events S i0 ref (''agent:'' @ agent) @ scope_events S i0 ref (''room:'' @ topic)
       @ fact_events S i0 ref ''has_source'' (Some (''diary:'' @ agent))"
proof -
  let ?r = "cell_ref S entry i0"
  let ?es = "CellWrite entry i0 #
       scope_events S i0 ?r (''agent:'' @ agent) @ scope_events S i0 ?r (''room:'' @ topic)
       @ fact_events S i0 ?r ''has_source'' (Some (''diary:'' @ agent))"
  have "ref = ?r \<and> lg (ns_store st') = lg (ns_store st) @ ?es"
  proof (cases "batchable B")
    case False
    obtain r s1 where w: "diary_core (direct B) agent entry topic (ns_store st) = (r, s1)" by (rule prod.exhaust)
    show ?thesis using assms False direct.diary_core_adds [OF w] by (auto simp: file_diary_def w)
  next
    case True
    obtain r b1 where w: "diary_core (staged B) agent entry topic (write_batch B (ns_store st)) = (r, b1)"
      by (rule prod.exhaust)
    obtain res s1 where cm: "commit B b1 (ns_store st) = (res, s1)" by (rule prod.exhaust)
    show ?thesis
      using assms True staged.diary_core_adds [OF w] commit_event [OF cm] open_batch(1)
      by (auto simp: file_diary_def w cm)
  qed
  then show "ref = ?r" "lg (ns_store st') = lg (ns_store st) @ CellWrite entry i0 #
       scope_events S i0 ref (''agent:'' @ agent) @ scope_events S i0 ref (''room:'' @ topic)
       @ fact_events S i0 ref ''has_source'' (Some (''diary:'' @ agent))" by simp_all
qed

lemma native_update_store:
  assumes "external (u_subject q)"
  shows "lg (ns_store (snd (native_update B str_of u now q st))) = lg (ns_store st) @ update_events S i0 str_of q"
proof -
  have eq: "ns_store (snd (native_update B str_of u now q st)) = (if batchable B
      then snd (commit B (update_staged str_of (staged B) q (write_batch B (ns_store st))) (ns_store st))
      else update_direct str_of (direct B) q (ns_store st))"
    by (simp add: native_update_def Let_def split: sum.split)
  show ?thesis
  proof (cases "batchable B")
    case False
    obtain n s1 where n: "w_cell (direct B) (str_of (u_new q)) (ns_store st) = (n, s1)" by (rule prod.exhaust)
    note cn = direct.cell_event [OF n]
    show ?thesis
    proof (cases "u_old q")
      case None
      then show ?thesis using False cn direct.fact_event
        by (simp add: eq update_direct_def n update_events_def)
    next
      case (Some x)
      obtain o' s2 where o': "w_cell (direct B) (str_of x) s1 = (o', s2)" by (rule prod.exhaust)
      show ?thesis using False cn direct.cell_event [OF o'] direct.fact_event invalidate_event
        by (simp add: eq update_direct_def n o' Some update_events_def)
    qed
  next
    case True
    let ?b0 = "write_batch B (ns_store st)"
    obtain n b1 where n: "w_cell (staged B) (str_of (u_new q)) ?b0 = (n, b1)" by (rule prod.exhaust)
    note cn = staged.cell_event [OF n]
    note ob = open_batch(1) [of "ns_store st"] open_batch(2) [OF assms, of "ns_store st"]
    have s1: "u_subject q \<in> issued b1" "n \<in> issued b1" "resolve b1 (u_subject q) = u_subject q"
      using cn ob by auto
    have "bevs (update_staged str_of (staged B) q ?b0) = update_events S i0 str_of q"
    proof (cases "u_old q")
      case None
      then show ?thesis using cn staged.fact_event [OF s1(1,2)] ob s1(3)
        by (simp add: update_staged_def n update_events_def)
    next
      case (Some x)
      obtain o' b2 where o': "w_cell (staged B) (str_of x) b1 = (o', b2)" by (rule prod.exhaust)
      note co = staged.cell_event [OF o']
      have s2: "u_subject q \<in> issued b2" "o' \<in> issued b2" "n \<in> issued b2" using co s1 by auto
      note rl = relate_event [OF s2(1,2)]
      show ?thesis using cn co rl ob s1 s2 staged.fact_event
        by (simp add: update_staged_def n o' Some update_events_def)
    qed
    then show ?thesis using True commit_event by (simp add: eq prod_eq_iff [symmetric]) (metis prod.collapse)
  qed
qed

end

section \<open>Valid facts\<close>

text \<open>A fact is valid when its last assertion comes after its last invalidation.\<close>

definition fact_step :: "string \<Rightarrow> string \<Rightarrow> string \<Rightarrow> (string, 'i) event \<Rightarrow> bool \<Rightarrow> bool" where
  "fact_step x p y ev v = (case ev of
     Relationship f t ty \<Rightarrow> if f = x \<and> t = y then (if ty = p then True
       else if ty = INVALIDATE_PREFIX @ p then False else v) else v
   | _ \<Rightarrow> v)"

definition valid_fact :: "(string, 'i) event list \<Rightarrow> string \<Rightarrow> string \<Rightarrow> string \<Rightarrow> bool" where
  "valid_fact es x p y = fold (fact_step x p y) es False"

lemma fact_step_simps [simp]:
  "fact_step x p y Other v = v"
  "fact_step x p y (CellWrite c i) v = v"
  "fact_step x p y (Relationship f t ty) v = (if f = x \<and> t = y then (if ty = p then True
     else if ty = INVALIDATE_PREFIX @ p then False else v) else v)"
  by (simp_all add: fact_step_def)

lemma valid_fact_append: "valid_fact (xs @ ys) x p y = fold (fact_step x p y) ys (valid_fact xs x p y)"
  by (simp add: valid_fact_def)

lemma invalidate_prefix_neq [simp]: "INVALIDATE_PREFIX @ p \<noteq> p" "p \<noteq> INVALIDATE_PREFIX @ p"
  by (simp_all add: INVALIDATE_PREFIX_def)

lemma invalidate_prefix_nonempty [simp]: "INVALIDATE_PREFIX \<noteq> []"
  by (simp add: INVALIDATE_PREFIX_def)

lemma native_update_Inr:
  assumes "native_update B str_of u now q st = (Inr r, st')"
  shows "delta r = \<lparr>dsubject = u_subject q, dpredicate = ''has_importance'',
           new_value = str_of (u_new q), old_value = map_option str_of (u_old q)\<rparr>"
    "ns_mutations st' = ns_mutations st @ [r]" "applied r" "atomic r = batchable B"
    "provenance r = u_provenance q" "source_outcome r = u_outcome q" "rollback_handle r = interaction_id r"
    "ns_filed st' = ns_filed st" "ns_rolled_back st' = ns_rolled_back st"
  using assms new_mutation_Inr unfolding native_update_def Let_def mark_applied_def
  by (force split: sum.splits)+

context event_backend
begin

lemma native_rollback_store:
  "lg (ns_store (native_rollback B r st)) = lg (ns_store st)
     @ [CellWrite (new_value (delta r)) i0,
        Relationship (dsubject (delta r)) (cell_ref S (new_value (delta r)) i0)
          (INVALIDATE_PREFIX @ dpredicate (delta r))]
     @ fact_events S i0 (dsubject (delta r)) (dpredicate (delta r)) (old_value (delta r))"
proof -
  obtain n s1 where n: "w_cell (direct B) (new_value (delta r)) (ns_store st) = (n, s1)" by (rule prod.exhaust)
  let ?s2 = "s_invalidate (direct B) (dsubject (delta r)) (dpredicate (delta r)) n s1"
  have "direct.adds (dsubject (delta r)) ?s2
      (fact_if (direct B) (dsubject (delta r)) (dpredicate (delta r)) (old_value (delta r)) ?s2)
      (fact_events S i0 (dsubject (delta r)) (dpredicate (delta r)) (old_value (delta r)))"
    by (rule direct.fact_if_adds) simp
  then show ?thesis
    using direct.cell_event [OF n] invalidate_event
    by (simp add: native_rollback_def n Let_def direct.adds_def)
qed

lemma update_rollback_valid:
  assumes "external (u_subject q)" "native_update B str_of u now q st = (Inr r, st')"
    and "\<And>v. u_old q = Some v \<Longrightarrow>
      valid_fact (lg (ns_store st)) (u_subject q) ''has_importance'' (cell_ref S (str_of v) i0)"
    and "\<not> valid_fact (lg (ns_store st)) (u_subject q) ''has_importance'' (cell_ref S (str_of (u_new q)) i0)
      \<or> (\<exists>v. u_old q = Some v \<and> cell_ref S (str_of v) i0 = cell_ref S (str_of (u_new q)) i0)"
    and np: "\<not> starts_with p INVALIDATE_PREFIX"
  shows "valid_fact (lg (ns_store (native_rollback B r st'))) x p y = valid_fact (lg (ns_store st)) x p y"
proof -
  note d = native_update_Inr(1) [OF assms(2)]
  have log: "lg (ns_store (native_rollback B r st')) = lg (ns_store st) @ update_events S i0 str_of q
     @ [CellWrite (str_of (u_new q)) i0,
        Relationship (u_subject q) (cell_ref S (str_of (u_new q)) i0) (INVALIDATE_PREFIX @ ''has_importance'')]
     @ fact_events S i0 (u_subject q) ''has_importance'' (map_option str_of (u_old q))"
    using native_update_store [OF assms(1), of str_of u now st] assms(2)
    by (simp add: native_rollback_store d)
  have hi: "''has_importance'' \<noteq> INVALIDATE_PREFIX @ p" "INVALIDATE_PREFIX @ ''has_importance'' \<noteq> p"
    using np by (auto simp: INVALIDATE_PREFIX_def starts_with_def)
  show ?thesis
  proof (cases "p = ''has_importance'' \<and> x = u_subject q")
    case False
    then show ?thesis
      using hi by (cases "u_old q") (auto simp: log valid_fact_append update_events_def fact_events_def)
  next
    case True
    then show ?thesis
      using assms(3,4) hi invalidate_prefix_neq
      by (cases "u_old q") (auto simp: log valid_fact_append update_events_def fact_events_def)
  qed
qed

end

section \<open>An event log as a backend\<close>

text \<open>The documented substrate over a bare list of events: refs are known before the commit.\<close>

definition log_cell :: "(string, 'i) substrate \<Rightarrow> 'i \<Rightarrow> string \<Rightarrow> (string, 'i) event list \<Rightarrow> string \<times> (string, 'i) event list" where
  "log_cell S i0 p s = (cell_ref S p i0, s @ [CellWrite p i0])"

definition log_relate :: "string \<Rightarrow> string \<Rightarrow> string \<Rightarrow> (string, 'i) event list \<Rightarrow> (string, 'i) event list" where
  "log_relate x y ty s = s @ [Relationship x y ty]"

definition log_backend ::
    "(string, 'i) substrate \<Rightarrow> 'i \<Rightarrow> (real list \<Rightarrow> string)
       \<Rightarrow> ((string, 'i) event list, (string, 'i) event list) backend" where
  "log_backend S i0 pack = \<lparr>batchable = True,
     direct = \<lparr>w_cell = log_cell S i0, w_fact = (\<lambda>x p y. log_relate x y p),
       w_scope = (\<lambda>x y. log_relate x y (SCOPED_TO S)),
       s_invalidate = (\<lambda>x p y. log_relate x y (INVALIDATE_PREFIX @ p)),
       s_embed = (\<lambda>x v s. case log_cell S i0 (pack v) s of
          (e, s1) \<Rightarrow> (e, log_relate e x (EMBEDDING_OF S) s1))\<rparr>,
     write_batch = (\<lambda>s. []),
     staged = \<lparr>w_cell = log_cell S i0, w_fact = (\<lambda>x p y. log_relate x y p),
       w_scope = (\<lambda>x y. log_relate x y (SCOPED_TO S)), b_relate = log_relate\<rparr>,
     commit = (\<lambda>b s. (None, s @ b))\<rparr>"

interpretation logb: event_backend S i0 "log_backend S i0 pack" id id "\<lambda>s x. x" "\<lambda>s. UNIV" "\<lambda>x. True" pack
  for S i0 pack
  by unfold_locales (auto simp: log_backend_def log_cell_def log_relate_def resolve_batch_ref_def)

interpretation nat_store: memory_store "\<lambda>c st. snd (native_file B eo str_of pack c st)" "\<lambda>st. map snd (ns_filed st)"
  for B eo str_of pack
  by unfold_locales (simp add: native_file_def case_prod_beta Let_def)

interpretation nat_plastic: plasticity_store "native_update B str_of u now" ns_mutations
  for B str_of u now
proof unfold_locales
  fix q :: update_request and s :: "'a native_store" and r s'
  assume h: "native_update B str_of u now q s = (Inr r, s')"
  note i = native_update_Inr [OF h]
  show "ns_mutations s' = ns_mutations s @ [r]" by (simp add: i)
  show "applied r \<and> provenance r = u_provenance q \<and> source_outcome r = u_outcome q
      \<and> dsubject (delta r) = u_subject q" by (simp add: i)
next
  fix q :: update_request and s :: "'a native_store"
  assume "u_provenance q \<noteq> []" "u_outcome q \<noteq> []"
  then show "\<exists>r s'. native_update B str_of u now q s = (Inr r, s')"
    by (simp add: native_update_def new_mutation_def Let_def)
qed

section \<open>Properties\<close>

text \<open>
  C5: filing refines its event list.  Over any backend that records what it is told,
  filing a drawer returns the content address of its text and appends exactly the drawer's
  events -- the cell, the wing and room scopes, the facts present and the embedding edge, in
  that order -- whether it goes through one atomic batch or call by call.
\<close>

theorem native_file_refines:
  assumes "event_backend S i0 B lg bevs resolve issued external pack"
    and "native_file B (EMBEDDING_OF S) str_of pack c st = (ref, st')"
  shows "ref = cell_ref S (content c) i0
    \<and> lg (ns_store st') = lg (ns_store st) @ drawer_events S i0 str_of pack c
    \<and> ns_filed st' = ns_filed st @ [(ref, c)]"
  using event_backend.native_file_events [OF assms] by blast

definition demo_cell :: cell where
  "demo_cell = \<lparr>wing = ''w'', room = ''r'', content = ''text'', source = '''', category = Some ''decision'',
     importance = None, embedding = None\<rparr>"

theorem native_file_refines_witness:
  "ns_store (snd (native_file (log_backend demo_substrate 0 (\<lambda>v. ''v'')) ''embedding_of'' (\<lambda>x. ''0.5'')
      (\<lambda>v. ''v'') demo_cell (native_init [])))
   = [CellWrite ''text'' 0, CellWrite ''wing:w'' 0, Relationship ''#text'' ''#wing:w'' ''scoped_to'',
      CellWrite ''room:r'' 0, Relationship ''#text'' ''#room:r'' ''scoped_to'',
      CellWrite ''decision'' 0, Relationship ''#text'' ''#decision'' ''has_category'']"
proof -
  let ?B = "log_backend demo_substrate (0 :: nat) (\<lambda>v. ''v'')"
  obtain ref st' where f: "native_file ?B (EMBEDDING_OF demo_substrate) (\<lambda>x. ''0.5'') (\<lambda>v. ''v'') demo_cell
      (native_init []) = (ref, st')" by (rule prod.exhaust)
  have "id (ns_store st') = id (ns_store (native_init []))
      @ drawer_events demo_substrate 0 (\<lambda>x. ''0.5'') (\<lambda>v. ''v'') demo_cell"
    using native_file_refines [OF logb.event_backend_axioms f] by blast
  moreover have "EMBEDDING_OF demo_substrate = ''embedding_of''" by (simp add: demo_substrate_def)
  ultimately show ?thesis using f
    by (simp add: native_init_def drawer_events_def scope_events_def fact_events_def demo_cell_def
        demo_substrate_def Let_def)
qed

text \<open>
  C28: an importance update can be rolled back on the log.  When the caller named the
  currently valid importance (or none) and the new one was not valid already, updating and
  rolling back leaves exactly the facts valid that were, for every subject, predicate and
  object; the record tells truly whether the update was atomic.
\<close>

theorem native_update_rollback:
  assumes "event_backend S i0 B lg bevs resolve issued external pack"
    and "external (u_subject q)" "native_update B str_of u now q st = (Inr r, st')"
    and "\<And>v. u_old q = Some v \<Longrightarrow>
      valid_fact (lg (ns_store st)) (u_subject q) ''has_importance'' (cell_ref S (str_of v) i0)"
    and "\<not> valid_fact (lg (ns_store st)) (u_subject q) ''has_importance'' (cell_ref S (str_of (u_new q)) i0)
      \<or> u_old q = Some (u_new q)"
    and "\<not> starts_with p INVALIDATE_PREFIX"
  shows "valid_fact (lg (ns_store (native_rollback B r st'))) x p y = valid_fact (lg (ns_store st)) x p y
    \<and> valid_fact (lg (ns_store st')) (u_subject q) ''has_importance'' (cell_ref S (str_of (u_new q)) i0)
    \<and> atomic r = batchable B"
proof (intro conjI)
  have new: "\<not> valid_fact (lg (ns_store st)) (u_subject q) ''has_importance'' (cell_ref S (str_of (u_new q)) i0)
      \<or> (\<exists>v. u_old q = Some v \<and> cell_ref S (str_of v) i0 = cell_ref S (str_of (u_new q)) i0)"
    using assms(5) by auto
  show "valid_fact (lg (ns_store (native_rollback B r st'))) x p y = valid_fact (lg (ns_store st)) x p y"
    by (rule event_backend.update_rollback_valid [OF assms(1-4) new assms(6)])
  have "lg (ns_store st') = lg (ns_store st) @ update_events S i0 str_of q"
    using event_backend.native_update_store [OF assms(1,2), of str_of u now st] assms(3) by simp
  then show "valid_fact (lg (ns_store st')) (u_subject q) ''has_importance'' (cell_ref S (str_of (u_new q)) i0)"
    by (simp add: valid_fact_append update_events_def)
  show "atomic r = batchable B" by (rule native_update_Inr(4) [OF assms(3)])
qed

definition demo_str :: "real \<Rightarrow> string" where
  "demo_str x = (if x = 1 / 2 then ''0.5'' else ''0.75'')"

definition demo_native :: "(string, nat) event list native_store" where
  "demo_native = native_init [CellWrite ''d'' 0, CellWrite ''0.5'' 0, Relationship ''d'' ''#0.5'' ''has_importance'']"

theorem native_update_rollback_witness:
  "\<exists>r st'. native_update (log_backend demo_substrate 0 (\<lambda>v. ''v'')) demo_str ''u'' ''t'' demo_update demo_native
      = (Inr r, st')
    \<and> valid_fact (ns_store st') ''d'' ''has_importance'' ''#0.75''
    \<and> valid_fact (ns_store (native_rollback (log_backend demo_substrate 0 (\<lambda>v. ''v'')) r st'))
        ''d'' ''has_importance'' ''#0.5''"
proof -
  let ?B = "log_backend demo_substrate (0 :: nat) (\<lambda>v. ''v'')"
  have "u_provenance demo_update \<noteq> []" "u_outcome demo_update \<noteq> []" by (simp_all add: demo_update_def)
  then obtain r st' where u: "native_update ?B demo_str ''u'' ''t'' demo_update demo_native = (Inr r, st')"
    using nat_plastic.update_accepts by blast
  have sub: "u_subject demo_update = ''d''" "u_old demo_update = Some (1 / 2)" "u_new demo_update = 3 / 4"
    by (simp_all add: demo_update_def)
  have refs: "cell_ref demo_substrate (demo_str (1 / 2)) 0 = ''#0.5''"
    "cell_ref demo_substrate (demo_str (3 / 4)) 0 = ''#0.75''"
    by (simp_all add: demo_substrate_def demo_str_def)
  have old: "valid_fact (id (ns_store demo_native)) ''d'' ''has_importance'' ''#0.5''"
    "\<not> valid_fact (id (ns_store demo_native)) ''d'' ''has_importance'' ''#0.75''"
    by (simp_all add: valid_fact_def demo_native_def native_init_def)
  have v: "valid_fact (id (ns_store demo_native)) (u_subject demo_update) ''has_importance''
      (cell_ref demo_substrate (demo_str w) 0)" if ow: "u_old demo_update = Some w" for w
  proof -
    have "Some (1 / 2) = Some w" using ow by (simp only: sub(2))
    then have "w = 1 / 2" by simp
    then show ?thesis using old(1) by (simp only: sub(1) refs(1))
  qed
  have np: "\<not> starts_with ''has_importance'' INVALIDATE_PREFIX"
    by (simp add: starts_with_def INVALIDATE_PREFIX_def)
  have "valid_fact (id (ns_store (native_rollback ?B r st'))) ''d'' ''has_importance'' ''#0.5''
      = valid_fact (id (ns_store demo_native)) ''d'' ''has_importance'' ''#0.5''
    \<and> valid_fact (id (ns_store st')) ''d'' ''has_importance'' ''#0.75'' \<and> atomic r = batchable ?B"
    using native_update_rollback [OF logb.event_backend_axioms _ u v _ np, of "''d''" "''#0.5''"] old
    by (simp add: sub refs)
  then show ?thesis using u old by simp
qed

text \<open>
  the mutation contract is checked too late.  A request without a provenance or a
  source outcome is rejected with an error, but its invalidation and assertion are already
  on the log, and no record of them reaches the ledger to roll them back.
\<close>

theorem rejected_update_is_written:
  assumes "event_backend S i0 B lg bevs resolve issued external pack"
    and "external (u_subject q)" "u_provenance q = [] \<or> u_outcome q = []"
  shows "\<exists>e st'. native_update B str_of u now q st = (Inl e, st')
    \<and> lg (ns_store st') = lg (ns_store st) @ update_events S i0 str_of q
    \<and> valid_fact (lg (ns_store st')) (u_subject q) ''has_importance'' (cell_ref S (str_of (u_new q)) i0)
    \<and> ns_mutations st' = ns_mutations st"
proof -
  have "\<exists>e. \<forall>d cf a i. new_mutation u now (u_provenance q) (u_outcome q) d cf a i = Inl e"
    using assms(3) by (cases "u_provenance q = []") (simp_all add: new_mutation_def)
  then obtain e st' where u: "native_update B str_of u now q st = (Inl e, st')" "ns_mutations st' = ns_mutations st"
    by (auto simp: native_update_def Let_def)
  have "lg (ns_store st') = lg (ns_store st) @ update_events S i0 str_of q"
    using event_backend.native_update_store [OF assms(1,2), of str_of u now st] u by simp
  then show ?thesis using u by (auto simp: valid_fact_append update_events_def)
qed

theorem rejected_update_is_written_witness:
  "\<exists>e st'. native_update (log_backend demo_substrate 0 (\<lambda>v. ''v'')) demo_str ''u'' ''t''
      (demo_update\<lparr>u_provenance := ''''\<rparr>) demo_native = (Inl e, st')
    \<and> ns_store st' = ns_store demo_native @ update_events demo_substrate 0 demo_str demo_update"
proof -
  have "update_events demo_substrate 0 demo_str (demo_update\<lparr>u_provenance := ''''\<rparr>)
      = update_events demo_substrate 0 demo_str demo_update"
    by (simp add: update_events_def demo_update_def)
  then show ?thesis
    using rejected_update_is_written [OF logb.event_backend_axioms, where
        q = "demo_update\<lparr>u_provenance := ''''\<rparr>" and S = demo_substrate and ?i0.0 = 0 and str_of = demo_str
        and u = "''u''" and now = "''t''" and st = demo_native and pack = "\<lambda>v. ''v''"]
    by auto
qed

end
