(* ===== verification/Lexical.thy ===== *)
theory Lexical
  imports Prelude
begin

text \<open>
  The local embedder's life cycle and the lexical score (\<open>embedder.py\<close>).  The model
  loader and the model are parameters: what loading answered, and what embedding a text
  gives.
\<close>

section \<open>The embedder\<close>

record 'm embedder =
  e_model :: "'m option"
  e_ready :: bool
  e_failed :: "string option"

definition new_embedder :: "'m embedder" where
  "new_embedder = \<lparr>e_model = None, e_ready = False, e_failed = None\<rparr>"

definition warm :: "string + 'm \<Rightarrow> 'm embedder \<Rightarrow> 'm embedder" where
  "warm loaded e = (
     if e_ready e \<or> e_failed e \<noteq> None then e
     else (case loaded of
         Inr m \<Rightarrow> e\<lparr>e_model := Some m, e_ready := True\<rparr>
       | Inl exc \<Rightarrow> e\<lparr>e_failed := Some exc\<rparr>))"

definition embed :: "('m \<Rightarrow> string \<Rightarrow> py_error + real list) \<Rightarrow> string \<Rightarrow> 'm embedder \<Rightarrow> py_error + real list" where
  "embed run t e = (case e_model e of
     Some m \<Rightarrow> if e_ready e then run m t
       else Inl (EmbedderUnavailable (case e_failed e of
         Some r \<Rightarrow> if r = [] then ''embedder not warmed yet'' else r | None \<Rightarrow> ''embedder not warmed yet''))
   | None \<Rightarrow> Inl (EmbedderUnavailable (case e_failed e of
         Some r \<Rightarrow> if r = [] then ''embedder not warmed yet'' else r | None \<Rightarrow> ''embedder not warmed yet'')))"

definition embedder_ok :: "'m embedder \<Rightarrow> bool" where
  "embedder_ok e \<longleftrightarrow> (e_ready e \<longleftrightarrow> e_model e \<noteq> None) \<and> \<not> (e_ready e \<and> e_failed e \<noteq> None)"

lemma new_embedder_ok: "embedder_ok new_embedder"
  by (simp add: new_embedder_def embedder_ok_def)

lemma warm_ok: "embedder_ok e \<Longrightarrow> embedder_ok (warm loaded e)"
  by (auto simp: warm_def embedder_ok_def split: sum.split)

lemma warm_settles: "e_ready (warm loaded e) \<or> e_failed (warm loaded e) \<noteq> None"
  by (auto simp: warm_def split: sum.split)

lemma warm_settled: "e_ready e \<or> e_failed e \<noteq> None \<Longrightarrow> warm loaded e = e"
  by (simp add: warm_def)

section \<open>The lexical score\<close>

text \<open>The class \<open>\w\<close> on the code points up to 255.\<close>

definition word_char :: "char \<Rightarrow> bool" where
  "word_char c \<longleftrightarrow> (let n = (of_char c :: nat) in
     48 \<le> n \<and> n \<le> 57 \<or> 65 \<le> n \<and> n \<le> 90 \<or> n = 95 \<or> 97 \<le> n \<and> n \<le> 122
     \<or> n \<in> {170, 178, 179, 181, 185, 186, 188, 189, 190} \<or> 192 \<le> n \<and> n \<noteq> 215 \<and> n \<noteq> 247)"

text \<open>\<open>re.findall\<close> of the maximal runs of a character class.\<close>

function runs :: "('a \<Rightarrow> bool) \<Rightarrow> 'a list \<Rightarrow> 'a list list" where
  "runs P s = (case dropWhile (\<lambda>c. \<not> P c) s of [] \<Rightarrow> []
     | c # r \<Rightarrow> (c # takeWhile P r) # runs P (dropWhile P r))"
  by pat_completeness auto
termination
proof (relation "measure (\<lambda>(P, s). length s)")
  fix P :: "'a \<Rightarrow> bool" and s c r
  assume "dropWhile (\<lambda>c. \<not> P c) s = c # r"
  then have "Suc (length r) \<le> length s" by (metis length_Cons length_dropWhile_le)
  then show "((P, dropWhile P r), (P, s)) \<in> measure (\<lambda>(P, s). length s)"
    using length_dropWhile_le [of P r] by simp
qed simp

declare runs.simps [simp del]

lemma runs_Nil [simp]: "runs P [] = []"
  by (simp add: runs.simps)

lemma runs_words: "w \<in> set (runs P s) \<Longrightarrow> w \<noteq> [] \<and> set w \<subseteq> Collect P \<inter> set s"
proof (induction P s rule: runs.induct)
  case (1 P s)
  show ?case
  proof (cases "dropWhile (\<lambda>c. \<not> P c) s")
    case Nil
    then show ?thesis using "1.prems" unfolding runs.simps [of P s] Nil by simp
  next
    case (Cons c r)
    have "set (dropWhile (\<lambda>c. \<not> P c) s) \<subseteq> set s" by (auto dest: set_dropWhileD)
    then have sub: "set (c # r) \<subseteq> set s" unfolding Cons .
    have pc: "P c" using Cons by (simp add: dropWhile_eq_Cons_conv)
    consider "w = c # takeWhile P r" | "w \<in> set (runs P (dropWhile P r))"
      using "1.prems" unfolding runs.simps [of P s] Cons by auto
    then show ?thesis
    proof cases
      case 1
      then show ?thesis using pc sub by (auto dest: set_takeWhileD)
    next
      case 2
      then show ?thesis using "1.IH" [OF Cons 2] sub by (auto dest: set_dropWhileD)
    qed
  qed
qed

definition tokenize :: "string \<Rightarrow> string list" where
  "tokenize t = remdups (runs word_char (py_lower t))"

definition lexical_score :: "string \<Rightarrow> string \<Rightarrow> real" where
  "lexical_score query t = (
     if query = [] \<or> t = [] then 0
     else let q = tokenize query in
       if q = [] then 0
       else of_nat (length (filter (\<lambda>w. w \<in> set (tokenize t)) q)) / of_nat (max 1 (length q)))"

lemma distinct_tokenize [simp]: "distinct (tokenize t)"
  by (simp add: tokenize_def)

lemma lexical_score_bounds: "0 \<le> lexical_score q t" "lexical_score q t \<le> 1"
  using length_filter_le [of "\<lambda>w. w \<in> set (tokenize t)" "tokenize q"]
  by (simp_all add: lexical_score_def Let_def divide_le_eq le_max_iff_disj)

section \<open>Properties\<close>

text \<open>
  warming settles the embedder for good.  After the first \<open>warm\<close> exactly one of ready
  and failed holds, whatever later warms would have loaded changes nothing, and embedding a
  text runs the loaded model or raises \<open>EmbedderUnavailable\<close> -- never anything of its own.
\<close>

theorem embedder_settles:
  "let e = fold warm (first # later) new_embedder in
     e = warm first new_embedder
   \<and> (e_ready e \<longleftrightarrow> e_failed e = None)
   \<and> (case first of Inr m \<Rightarrow> embed run t e = run m t
       | Inl exc \<Rightarrow> e_failed e = Some exc \<and> (\<exists>r. embed run t e = Inl (EmbedderUnavailable r)))"
proof -
  let ?e = "warm first new_embedder"
  have "fold warm later ?e = ?e"
    by (induction later) (simp_all add: warm_settled [OF warm_settles])
  moreover have "e_ready ?e \<longleftrightarrow> e_failed ?e = None"
    using warm_ok [OF new_embedder_ok, of first] warm_settles [of first new_embedder]
    by (auto simp: embedder_ok_def)
  ultimately show ?thesis
    by (cases first) (simp_all add: warm_def new_embedder_def embed_def)
qed

text \<open>
  the lexical score is the share of the query's words found in the text.  It lies in
  \<open>[0, 1]\<close>, ignores case on both sides, is 1 exactly when the query has a word and all its
  words occur in the (non-empty) text, and is 0 exactly when none does.
\<close>

theorem lexical_score_spec:
  "0 \<le> lexical_score q t \<and> lexical_score q t \<le> 1
   \<and> lexical_score (py_lower q) (py_lower t) = lexical_score q t
   \<and> (lexical_score q t = 1 \<longleftrightarrow> tokenize q \<noteq> [] \<and> set (tokenize q) \<subseteq> set (tokenize t))
   \<and> (lexical_score q t = 0 \<longleftrightarrow> set (tokenize q) \<inter> set (tokenize t) = {})"
proof (intro conjI)
  have low: "py_lower (py_lower s) = py_lower s" for s
    using lower_char_idem by (simp add: py_lower_def)
  then have tok: "tokenize (py_lower s) = tokenize s" for s by (simp add: tokenize_def)
  show "lexical_score (py_lower q) (py_lower t) = lexical_score q t"
    unfolding lexical_score_def tok by (simp add: Let_def py_lower_def)
  have empty: "tokenize [] = []" by (simp add: tokenize_def py_lower_def)
  let ?hits = "filter (\<lambda>w. w \<in> set (tokenize t)) (tokenize q)"
  show "lexical_score q t = 1 \<longleftrightarrow> tokenize q \<noteq> [] \<and> set (tokenize q) \<subseteq> set (tokenize t)"
  proof (cases "q = [] \<or> t = [] \<or> tokenize q = []")
    case True
    then show ?thesis using empty by (auto simp: lexical_score_def Let_def)
  next
    case False
    have "lexical_score q t = 1 \<longleftrightarrow> length ?hits = length (tokenize q)"
      using False by (cases "tokenize q") (auto simp: lexical_score_def Let_def)
    also have "\<dots> \<longleftrightarrow> set (tokenize q) \<subseteq> set (tokenize t)"
      by (metis (mono_tags, lifting) filter_id_conv filter_True length_filter_less less_irrefl subset_code(1))
    finally show ?thesis using False by simp
  qed
  show "lexical_score q t = 0 \<longleftrightarrow> set (tokenize q) \<inter> set (tokenize t) = {}"
    using empty by (auto simp: lexical_score_def Let_def filter_empty_conv)
qed (rule lexical_score_bounds)+

end
