(* ===== verification/Native_Read.thy ===== *)
theory Native_Read
  imports Native_Store Vector Lexical "HOL-Library.Char_ord" "HOL-Library.List_Lexorder"
begin

text \<open>
  The read side of \<open>NativeMemoryStore\<close> (\<open>store.py\<close>) over one fold snapshot: drawer
  listing, hybrid search, the diary, KG queries and the status counters.  The lenses of the
  substrate are a parameter (\<open>lenses\<close>): each is a function of the event list it reads.
  The lazy indexes a read fills are dropped, since they change no later answer
  (\<open>for_subject_ok\<close>, \<open>vector_view_ok\<close> in \<open>Fold\<close>).
\<close>

section \<open>Reading one ref\<close>

text \<open>
  \<open>lens_facts\<close> is \<open>TemporalLens\<close> (the valid facts matching a subject and a predicate),
  \<open>lens_neighbors\<close> \<open>GraphLens\<close>, \<open>lens_membership\<close> the scope fold, \<open>lens_vector\<close>
  the reference vector lens; \<open>regenerate\<close> is the store's own payload read and
  \<open>decode\<close> the decoding of a payload with replacement characters.
\<close>

record 'i lenses =
  lens_facts :: "(string, 'i) log \<Rightarrow> string option \<Rightarrow> string option \<Rightarrow> (string \<times> string \<times> string) list"
  lens_neighbors :: "(string, 'i) log \<Rightarrow> string \<Rightarrow> string \<Rightarrow> string list"
  lens_membership :: "(string, 'i) log \<Rightarrow> (string \<times> string list) list"
  lens_cells_in_scope :: "(string, 'i) log \<Rightarrow> string \<Rightarrow> string list"
  lens_in_scope :: "(string, 'i) log \<Rightarrow> string \<Rightarrow> string \<Rightarrow> bool"
  lens_vector :: "(string, 'i) log \<Rightarrow> real list \<Rightarrow> int \<Rightarrow> string option \<Rightarrow> py_error + (string \<times> real) list"
  regenerate :: "string \<Rightarrow> py_error + string"
  decode :: "string \<Rightarrow> string"
  decode_strict :: "string \<Rightarrow> py_error + string"
  float_of :: "string \<Rightarrow> real option"

definition slice :: "(string, 'i) fold \<Rightarrow> string \<Rightarrow> (string, 'i) log" where
  "slice f ref = fst (for_subject ref f)"

definition read_ref :: "(string, 'i) substrate \<Rightarrow> 'i \<Rightarrow> string \<Rightarrow> string" where
  "read_ref S i0 payload = cell_ref S payload i0"

definition payload_text :: "'i lenses \<Rightarrow> (string, 'i) fold \<Rightarrow> string \<Rightarrow> py_error + string" where
  "payload_text L f ref = (case payloads f ref of
     Some raw \<Rightarrow> Inr (decode L raw)
   | None \<Rightarrow> bind_err (regenerate L ref) (\<lambda>raw. Inr (decode L raw)))"

definition first_fact_value ::
    "'i lenses \<Rightarrow> (string, 'i) fold \<Rightarrow> string \<Rightarrow> string \<Rightarrow> py_error + string option" where
  "first_fact_value L f ref pred = (case lens_facts L (slice f ref) (Some ref) (Some pred) of
     [] \<Rightarrow> Inr None
   | (s, p, obj) # _ \<Rightarrow> bind_err (payload_text L f obj) (\<lambda>t. Inr (Some t)))"

fun scope_labels ::
    "(string \<Rightarrow> py_error + string) \<Rightarrow> string list \<Rightarrow> string option \<times> string option
       \<Rightarrow> py_error + (string option \<times> string option)" where
  "scope_labels txt [] wr = Inr wr"
| "scope_labels txt (n # ns) (w, r) = bind_err (txt n) (\<lambda>label.
     if starts_with label ''wing:'' then scope_labels txt ns (Some (drop 5 label), r)
     else if starts_with label ''room:'' then scope_labels txt ns (w, Some (drop 5 label))
     else scope_labels txt ns (w, r))"

definition resolve_wing_room ::
    "'i lenses \<Rightarrow> (string, 'i) fold \<Rightarrow> string \<Rightarrow> py_error + (string option \<times> string option)" where
  "resolve_wing_room L f ref =
     scope_labels (payload_text L f) (lens_neighbors L (slice f ref) ref ''scoped_to'') (None, None)"

section \<open>Listing drawers\<close>

record drawer =
  d_ref :: string
  d_content :: string
  d_wing :: "string option"
  d_room :: "string option"
  d_category :: "string option"
  d_importance :: "real option"

definition scope_ref_of ::
    "(string, 'i) substrate \<Rightarrow> 'i \<Rightarrow> string option \<Rightarrow> string option \<Rightarrow> string option" where
  "scope_ref_of S i0 wng rm = (case rm of
     Some r \<Rightarrow> Some (read_ref S i0 (''room:'' @ r))
   | None \<Rightarrow> map_option (\<lambda>w. read_ref S i0 (''wing:'' @ w)) wng)"

definition member_refs :: "'i lenses \<Rightarrow> (string, 'i) log \<Rightarrow> string option \<Rightarrow> string list" where
  "member_refs L evs scope = (case scope of
     Some sc \<Rightarrow> lens_cells_in_scope L evs sc
   | None \<Rightarrow> map fst (lens_membership L evs))"

text \<open>\<open>float(importance_raw)\<close>, unguarded.\<close>

definition to_importance :: "'i lenses \<Rightarrow> string option \<Rightarrow> py_error + real option" where
  "to_importance L v = (case v of None \<Rightarrow> Inr None
     | Some t \<Rightarrow> (case float_of L t of Some x \<Rightarrow> Inr (Some x) | None \<Rightarrow> Inl (ValueError t)))"

definition drawer_row :: "'i lenses \<Rightarrow> (string, 'i) fold \<Rightarrow> string \<Rightarrow> py_error + drawer" where
  "drawer_row L f ref =
     bind_err (payload_text L f ref) (\<lambda>txt.
     bind_err (resolve_wing_room L f ref) (\<lambda>(w, r).
     bind_err (first_fact_value L f ref ''has_category'') (\<lambda>cat.
     bind_err (first_fact_value L f ref ''has_importance'') (\<lambda>raw.
     bind_err (to_importance L raw) (\<lambda>imp.
       Inr \<lparr>d_ref = ref, d_content = txt, d_wing = w, d_room = r, d_category = cat, d_importance = imp\<rparr>)))))"

definition list_drawers ::
    "(string, 'i) substrate \<Rightarrow> 'i \<Rightarrow> 'i lenses \<Rightarrow> (string, 'i) fold \<Rightarrow> string option \<Rightarrow> string option \<Rightarrow> int
       \<Rightarrow> py_error + drawer list" where
  "list_drawers S i0 L f wng rm limit =
     mapM (drawer_row L f)
       (take (nat limit) (sorted_list_of_set (set (member_refs L (fevents f) (scope_ref_of S i0 wng rm)))))"

section \<open>Hybrid search\<close>

definition DEGRADED_SEARCH_SCAN_LIMIT :: int where "DEGRADED_SEARCH_SCAN_LIMIT = 1000"

definition vector_candidates ::
    "bool \<Rightarrow> (string \<Rightarrow> real) \<Rightarrow> (string, 'i) substrate \<Rightarrow> 'i lenses \<Rightarrow> (string, 'i) fold \<Rightarrow> real list \<Rightarrow> int
       \<Rightarrow> string option \<Rightarrow> py_error + (string \<times> real) list" where
  "vector_candidates numpy dec S L f v k scope =
     bind_err (fst (fast_vector_query numpy dec (lens_in_scope L) S v k scope f)) (\<lambda>res.
       case res of Some cs \<Rightarrow> Inr cs
       | None \<Rightarrow> lens_vector L (fst (vector_view S f)) v k scope)"

definition hybrid_score ::
    "'i lenses \<Rightarrow> (string, 'i) fold \<Rightarrow> string \<Rightarrow> string \<times> real \<Rightarrow> py_error + (string \<times> real)" where
  "hybrid_score L f lq rc = bind_err (payload_text L f (fst rc)) (\<lambda>txt.
     Inr (fst rc, 85 / 100 * snd rc + 15 / 100 * lexical_score lq txt))"

definition lexical_row :: "string \<Rightarrow> drawer \<Rightarrow> string \<times> real" where
  "lexical_row lq d = (d_ref d, lexical_score lq (d_content d))"

definition scored_hits ::
    "bool \<Rightarrow> (string \<Rightarrow> real) \<Rightarrow> (string, 'i) substrate \<Rightarrow> 'i \<Rightarrow> 'i lenses \<Rightarrow> (string, 'i) fold
       \<Rightarrow> real list option \<Rightarrow> int \<Rightarrow> string option \<Rightarrow> string option \<Rightarrow> string \<Rightarrow> py_error + (string \<times> real) list" where
  "scored_hits numpy dec S i0 L f qv k wng rm lq = (case qv of
     None \<Rightarrow> bind_err (list_drawers S i0 L f wng rm DEGRADED_SEARCH_SCAN_LIMIT) (\<lambda>ds.
         Inr (map (lexical_row lq) ds))
   | Some v \<Rightarrow>
       bind_err (vector_candidates numpy dec S L f v (max 1 (k * 3)) (scope_ref_of S i0 wng rm)) (\<lambda>cs.
       bind_err (mapM (hybrid_score L f lq) cs) (\<lambda>sc.
         if lens_facts L (fevents f) None (Some ''needs_embedding'') = [] then Inr sc
         else bind_err (list_drawers S i0 L f wng rm DEGRADED_SEARCH_SCAN_LIMIT) (\<lambda>ds.
           Inr (sc @ map (lexical_row lq) (filter (\<lambda>d. d_ref d \<notin> fst ` set sc) ds))))))"

record hit =
  h_ref :: string
  h_score :: real
  h_content :: string
  h_wing :: "string option"
  h_room :: "string option"
  h_category :: "string option"
  h_source :: "string option"
  h_importance :: "real option"

definition hit_row :: "'i lenses \<Rightarrow> (string, 'i) fold \<Rightarrow> string \<times> real \<Rightarrow> py_error + hit" where
  "hit_row L f rs = (let ref = fst rs in
     bind_err (payload_text L f ref) (\<lambda>txt.
     bind_err (resolve_wing_room L f ref) (\<lambda>(w, r).
     bind_err (first_fact_value L f ref ''has_category'') (\<lambda>cat.
     bind_err (first_fact_value L f ref ''has_source'') (\<lambda>src.
     bind_err (first_fact_value L f ref ''has_importance'') (\<lambda>raw.
       Inr \<lparr>h_ref = ref, h_score = snd rs, h_content = txt, h_wing = w, h_room = r, h_category = cat,
            h_source = src, h_importance = Option.bind raw (float_of L)\<rparr>))))))"

definition search ::
    "bool \<Rightarrow> (string \<Rightarrow> real) \<Rightarrow> (string, 'i) substrate \<Rightarrow> 'i \<Rightarrow> 'i lenses \<Rightarrow> (string, 'i) fold
       \<Rightarrow> real list option \<Rightarrow> int \<Rightarrow> string option \<Rightarrow> string option \<Rightarrow> string option \<Rightarrow> py_error + hit list" where
  "search numpy dec S i0 L f qv k wng rm lexq = (
     let lq = (case lexq of Some q \<Rightarrow> q | None \<Rightarrow> '''') in
     bind_err (scored_hits numpy dec S i0 L f qv k wng rm lq) (\<lambda>scored.
       mapM (hit_row L f) (top_k k scored)))"

section \<open>The diary\<close>

record diary_entry =
  de_ref :: string
  de_entry :: string
  de_topic :: string
  de_seq_pos :: int

definition first_pos :: "(string, 'i) fold \<Rightarrow> string \<Rightarrow> int" where
  "first_pos f r = (case filter (\<lambda>(pe, ref). ref = Some r) (zip (fevents f) (frefs f)) of
     [] \<Rightarrow> 0 | (pe, ref) # _ \<Rightarrow> fst pe)"

definition diary_row :: "'i lenses \<Rightarrow> (string, 'i) fold \<Rightarrow> string \<Rightarrow> py_error + diary_entry" where
  "diary_row L f ref =
     bind_err (payload_text L f ref) (\<lambda>txt.
     bind_err (resolve_wing_room L f ref) (\<lambda>(w, topic).
       Inr \<lparr>de_ref = ref, de_entry = txt,
            de_topic = (case topic of Some t \<Rightarrow> if t = [] then ''general'' else t | None \<Rightarrow> ''general''),
            de_seq_pos = first_pos f ref\<rparr>))"

definition diary_tail :: "int \<Rightarrow> 'a list \<Rightarrow> 'a list" where
  "diary_tail last_n xs = (if last_n > 0 then drop (length xs - nat last_n) xs else [])"

definition read_diary ::
    "(string, 'i) substrate \<Rightarrow> 'i \<Rightarrow> 'i lenses \<Rightarrow> (string, 'i) fold \<Rightarrow> string \<Rightarrow> int
       \<Rightarrow> py_error + diary_entry list" where
  "read_diary S i0 L f agent last_n = (
     let members = remdups (lens_cells_in_scope L (fevents f) (read_ref S i0 (''agent:'' @ agent)))
     in mapM (diary_row L f) (diary_tail last_n (sort_key (first_pos f) members)))"

section \<open>KG queries and counters\<close>

definition anchor_name :: "string \<Rightarrow> string" where
  "anchor_name payload = (if starts_with payload ''entity:'' then drop 7 payload else payload)"

definition resolve_anchor :: "'i lenses \<Rightarrow> (string, 'i) fold \<Rightarrow> string \<Rightarrow> py_error + string" where
  "resolve_anchor L f ref = bind_err
     (case payloads f ref of Some raw \<Rightarrow> Inr raw | None \<Rightarrow> regenerate L ref)
     (\<lambda>raw. bind_err (decode_strict L raw) (\<lambda>t. Inr (anchor_name t)))"

definition query_kg ::
    "(string, 'i) substrate \<Rightarrow> 'i \<Rightarrow> 'i lenses \<Rightarrow> (string, 'i) fold \<Rightarrow> string option \<Rightarrow> string option
       \<Rightarrow> py_error + (string \<times> string \<times> string) list" where
  "query_kg S i0 L f subj pred = (
     let sref = map_option (\<lambda>n. read_ref S i0 (''entity:'' @ n)) subj;
         view = (case sref of Some r \<Rightarrow> slice f r | None \<Rightarrow> fevents f)
     in mapM (\<lambda>(x, p, y).
          bind_err (resolve_anchor L f x) (\<lambda>xn. bind_err (resolve_anchor L f y) (\<lambda>yn. Inr (xn, p, yn))))
        (lens_facts L view sref pred))"

text \<open>The refs of one fact that are anchors; the fact counts when there is one.\<close>

definition fact_anchors :: "'i lenses \<Rightarrow> string \<times> string \<times> string \<Rightarrow> py_error + string list" where
  "fact_anchors L triple = (case triple of (x, p, y) \<Rightarrow>
     bind_err (regenerate L x) (\<lambda>xr. bind_err (regenerate L y) (\<lambda>yr.
       Inr ((if starts_with (decode L xr) ''entity:'' then [x] else [])
          @ (if starts_with (decode L yr) ''entity:'' then [y] else [])))))"

definition kg_stats :: "'i lenses \<Rightarrow> (string, 'i) log \<Rightarrow> py_error + (nat \<times> nat)" where
  "kg_stats L evs = bind_err (mapM (fact_anchors L) (lens_facts L evs None None)) (\<lambda>ass.
     Inr (length (filter (\<lambda>a. a \<noteq> []) ass), card (set (concat ass))))"

definition status :: "'i lenses \<Rightarrow> (string, 'i) log \<Rightarrow> py_error + (nat \<times> string list \<times> nat)" where
  "status L evs = (
     let mem = lens_membership L evs in
     bind_err (mapM (regenerate L) (concat (map snd mem))) (\<lambda>raws.
     bind_err (kg_stats L evs) (\<lambda>(facts, entities).
       let wings = map (drop 5) (filter (\<lambda>l. starts_with l ''wing:'') (map (decode L) raws))
       in Inr (length mem, sorted_list_of_set (set wings), facts))))"

section \<open>Lemmas\<close>

lemma bind_err_unit: "bind_err m (\<lambda>x. Inr (g x)) = Inr y \<Longrightarrow> \<exists>x. m = Inr x \<and> y = g x"
  by (cases m) simp_all

lemma mapM_Inr_map:
  assumes "mapM f xs = Inr ys" "\<And>x y. f x = Inr y \<Longrightarrow> g y = h x"
  shows "map g ys = map h xs"
  using assms by (induction xs arbitrary: ys) (auto split: sum.splits)

lemma hit_row_key: "hit_row L f rs = Inr h \<Longrightarrow> (h_ref h, h_score h) = rs"
  by (cases rs) (auto simp: hit_row_def Let_def bind_err_Inr)

lemma drawer_row_ref: "drawer_row L f ref = Inr d \<Longrightarrow> d_ref d = ref"
  by (auto simp: drawer_row_def bind_err_Inr)

lemma hybrid_score_ref: "hybrid_score L f lq rc = Inr x \<Longrightarrow> fst x = fst rc"
  by (auto simp: hybrid_score_def bind_err_Inr)

lemma list_drawers_refs:
  assumes "list_drawers S i0 L f wng rm limit = Inr ds"
  shows "map d_ref ds =
    take (nat limit) (sorted_list_of_set (set (member_refs L (fevents f) (scope_ref_of S i0 wng rm))))"
proof -
  let ?refs = "take (nat limit) (sorted_list_of_set (set (member_refs L (fevents f) (scope_ref_of S i0 wng rm))))"
  have "map d_ref ds = map id ?refs"
    by (rule mapM_Inr_map [OF assms [unfolded list_drawers_def]]) (simp add: drawer_row_ref)
  then show ?thesis by simp
qed

lemma list_drawers_distinct:
  "list_drawers S i0 L f wng rm limit = Inr ds \<Longrightarrow> distinct (map d_ref ds)"
  by (simp add: list_drawers_refs)

lemma malformed_row:
  assumes "first_fact_value L f ref ''has_importance'' = Inr (Some t)" "float_of L t = None"
  shows "\<exists>e. drawer_row L f ref = Inl e"
proof (cases "drawer_row L f ref")
  case (Inr d)
  then show ?thesis using assms by (auto simp: drawer_row_def bind_err_Inr to_importance_def)
qed simp

lemma filtered_disjoint: "X \<inter> set (map g (filter (\<lambda>d. g d \<notin> X) ds)) = {}"
  by auto

section \<open>Properties\<close>

text \<open>
  C17: search returns the best hits in order.  Of everything it scored it returns the first
  \<open>k\<close> by descending score and ascending ref: \<open>min k n\<close> of them, in order, none left out
  that ranks above one returned; each hit keeps the score it was ranked by.
\<close>

theorem search_returns_best:
  assumes "search numpy dec S i0 L f qv k wng rm lexq = Inr hits"
  shows "\<exists>scored rest.
      scored_hits numpy dec S i0 L f qv k wng rm (case lexq of Some q \<Rightarrow> q | None \<Rightarrow> '''') = Inr scored
    \<and> mset scored = mset (map (\<lambda>h. (h_ref h, h_score h)) hits) + mset rest
    \<and> length hits = min (nat k) (length scored)
    \<and> sorted_wrt (\<lambda>a b. h_score b < h_score a \<or> (h_score b = h_score a \<and> h_ref a \<le> h_ref b)) hits
    \<and> (\<forall>h \<in> set hits. \<forall>x \<in> set rest. snd x < h_score h \<or> (snd x = h_score h \<and> h_ref h \<le> fst x))"
proof -
  obtain scored where sc: "scored_hits numpy dec S i0 L f qv k wng rm (case lexq of Some q \<Rightarrow> q | None \<Rightarrow> '''')
      = Inr scored" and rows: "mapM (hit_row L f) (top_k k scored) = Inr hits"
    using assms by (auto simp: search_def Let_def bind_err_Inr)
  let ?key = "\<lambda>h. (h_ref h, h_score h)"
  have "map ?key hits = map id (top_k k scored)"
    by (rule mapM_Inr_map [OF rows]) (simp add: hit_row_key)
  then have keys: "map ?key hits = top_k k scored" by simp
  note r = top_k_rank [where k = k and scored = scored]
  obtain rest where rest: "mset scored = mset (top_k k scored) + mset rest"
    "\<forall>x \<in> set (top_k k scored). \<forall>y \<in> set rest. rank_key x \<le> rank_key y" using r(4) by blast
  have len: "length hits = min (nat k) (length scored)" using r(2) by (metis keys length_map)
  have "sorted_wrt (\<lambda>a b. rank_key (?key a) \<le> rank_key (?key b)) hits"
    using r(1) unfolding keys [symmetric] sorted_wrt_map .
  then have so: "sorted_wrt (\<lambda>a b. h_score b < h_score a \<or> (h_score b = h_score a \<and> h_ref a \<le> h_ref b)) hits"
    by (simp add: rank_key_le)
  have "\<forall>h \<in> set hits. \<forall>x \<in> set rest. snd x < h_score h \<or> (snd x = h_score h \<and> h_ref h \<le> fst x)"
  proof (intro ballI)
    fix h x assume "h \<in> set hits" "x \<in> set rest"
    then have "rank_key (?key h) \<le> rank_key x" using rest(2) keys by (metis (mono_tags) image_eqI list.set_map)
    then show "snd x < h_score h \<or> (snd x = h_score h \<and> h_ref h \<le> fst x)" by (simp add: rank_key_le)
  qed
  then show ?thesis using sc rest(1) len so unfolding keys by blast
qed

text \<open>A log with one drawer and lenses that read it.\<close>

definition one_log :: "(string, nat) log" where
  "one_log = [(0, CellWrite ''use tabs'' 0), (1, CellWrite ''wing:w'' 0),
     (2, Relationship ''#use tabs'' ''#wing:w'' ''scoped_to''), (3, CellWrite ''high'' 0),
     (4, Relationship ''#use tabs'' ''#high'' ''has_importance'')]"

definition one_lenses :: "string \<Rightarrow> real option \<Rightarrow> nat lenses" where
  "one_lenses pending high = \<lparr>
     lens_facts = (\<lambda>evs s p.
       if p = Some ''needs_embedding'' then (if pending = [] then [] else [(''#use tabs'', pending, ''#true'')])
       else if p = Some ''has_importance'' then [(''#use tabs'', ''has_importance'', ''#high'')] else []),
     lens_neighbors = (\<lambda>evs r ty. [''#wing:w'']),
     lens_membership = (\<lambda>evs. [(''#use tabs'', [''#wing:w''])]),
     lens_cells_in_scope = (\<lambda>evs sc. [''#use tabs'']),
     lens_in_scope = (\<lambda>evs r sc. True),
     lens_vector = (\<lambda>evs v k sc. Inr []),
     regenerate = (\<lambda>r. Inl (KeyError r)), decode = (\<lambda>p. p), decode_strict = Inr,
     float_of = (\<lambda>t. high)\<rparr>"

lemma one_lenses_sel:
  "lens_facts (one_lenses pending high) evs s p =
     (if p = Some ''needs_embedding'' then (if pending = [] then [] else [(''#use tabs'', pending, ''#true'')])
      else if p = Some ''has_importance'' then [(''#use tabs'', ''has_importance'', ''#high'')] else [])"
  "lens_neighbors (one_lenses pending high) evs r ty = [''#wing:w'']"
  "decode (one_lenses pending high) t = t" "float_of (one_lenses pending high) t = high"
  by (simp_all add: one_lenses_def)

definition one_fold :: "(string, nat) fold" where
  "one_fold = scratch_fold demo_substrate one_log"

lemma one_fold_payloads:
  "payloads one_fold ''#use tabs'' = Some ''use tabs''" "payloads one_fold ''#wing:w'' = Some ''wing:w''"
  "payloads one_fold ''#high'' = Some ''high''"
  by (simp_all add: one_fold_def scratch_fold_def new_fold_def Let_def one_log_def ref_of_def
      demo_substrate_def join_payloads_def)

lemma one_row:
  "drawer_row (one_lenses p (Some x)) one_fold ''#use tabs'' = Inr \<lparr>d_ref = ''#use tabs'',
     d_content = ''use tabs'', d_wing = Some ''w'', d_room = None, d_category = None, d_importance = Some x\<rparr>"
  by (simp add: drawer_row_def payload_text_def one_fold_payloads resolve_wing_room_def one_lenses_def
      starts_with_def first_fact_value_def to_importance_def)

lemma one_members: "set (member_refs (one_lenses p h) evs sc) = {''#use tabs''}"
  by (cases sc) (simp_all add: member_refs_def one_lenses_def)

lemma one_listing:
  assumes "drawer_row (one_lenses p h) one_fold ''#use tabs'' = Inr d"
  shows "list_drawers S i0 (one_lenses p h) one_fold wng rm DEGRADED_SEARCH_SCAN_LIMIT = Inr [d]"
  by (simp add: list_drawers_def one_members DEGRADED_SEARCH_SCAN_LIMIT_def assms)

theorem search_returns_best_witness:
  "\<exists>h. search True (\<lambda>w. 1) demo_substrate 0 (one_lenses '''' (Some 1)) one_fold None 5 (Some ''w'') None None
      = Inr [h] \<and> h_ref h = ''#use tabs''"
proof -
  let ?L = "one_lenses '''' (Some 1)"
  obtain h0 where row: "hit_row ?L one_fold (''#use tabs'', 0) = Inr h0"
    by (simp add: hit_row_def payload_text_def one_fold_payloads resolve_wing_room_def
        first_fact_value_def Let_def one_lenses_sel starts_with_def)
  obtain h where h: "search True (\<lambda>w. 1) demo_substrate 0 (one_lenses '''' (Some 1)) one_fold None 5 (Some ''w'')
      None None = Inr [h]" "(h_ref h, h_score h) = (''#use tabs'', 0)"
    using row hit_row_key [OF row]
    by (simp add: search_def scored_hits_def one_listing [OF one_row] lexical_row_def lexical_score_def top_k_def)
  then have "length [h] = min (nat 5) 1"
    using search_returns_best [OF h(1)]
    by (auto simp: scored_hits_def one_listing [OF one_row])
  then show ?thesis using h by simp
qed

text \<open>
  drawers without a vector stay searchable.  While a \<open>needs_embedding\<close> marker is
  valid, a vector search scores every drawer of the scoped listing, by its vector or else by
  its words, and scores none of them twice unless the vector index answered it twice.
\<close>

theorem pending_drawers_are_scored:
  assumes "lens_facts L (fevents f) None (Some ''needs_embedding'') \<noteq> []"
    and "scored_hits numpy dec S i0 L f (Some v) k wng rm lq = Inr scored"
  shows "\<exists>ds cs. list_drawers S i0 L f wng rm DEGRADED_SEARCH_SCAN_LIMIT = Inr ds
    \<and> vector_candidates numpy dec S L f v (max 1 (k * 3)) (scope_ref_of S i0 wng rm) = Inr cs
    \<and> set (map fst scored) = set (map fst cs) \<union> set (map d_ref ds)
    \<and> (distinct (map fst cs) \<longrightarrow> distinct (map fst scored))
    \<and> (\<forall>d \<in> set ds. d_ref d \<notin> set (map fst cs) \<longrightarrow> lexical_row lq d \<in> set scored)"
proof -
  obtain cs sc ds where cs: "vector_candidates numpy dec S L f v (max 1 (k * 3)) (scope_ref_of S i0 wng rm) = Inr cs"
    "mapM (hybrid_score L f lq) cs = Inr sc" "list_drawers S i0 L f wng rm DEGRADED_SEARCH_SCAN_LIMIT = Inr ds"
    and out: "scored = sc @ map (lexical_row lq) (filter (\<lambda>d. d_ref d \<notin> fst ` set sc) ds)"
    using assms by (auto simp: scored_hits_def bind_err_Inr split: if_splits)
  have refs: "map fst sc = map fst cs"
    by (rule mapM_Inr_map [OF cs(2)]) (rule hybrid_score_ref)
  then have sets: "fst ` set sc = set (map fst cs)" by (metis list.set_map)
  have lexrefs: "map fst (map (lexical_row lq) xs) = map d_ref xs" for xs
    by (simp add: lexical_row_def)
  have "set (map fst scored) = set (map fst cs) \<union> set (map d_ref ds)"
    unfolding out map_append lexrefs refs set_append sets by auto
  moreover have "distinct (map fst scored)" if dc: "distinct (map fst cs)"
    unfolding out map_append lexrefs refs
    using dc list_drawers_distinct [OF cs(3)] filtered_disjoint [where X = "set (map fst cs)" and g = d_ref and ds = ds]
    unfolding sets by (simp add: distinct_map_filter del: set_map)
  moreover have "\<forall>d \<in> set ds. d_ref d \<notin> set (map fst cs) \<longrightarrow> lexical_row lq d \<in> set scored"
    unfolding out sets by auto
  ultimately show ?thesis using cs by blast
qed

theorem pending_drawers_are_scored_witness:
  "scored_hits True (\<lambda>w. 1) demo_substrate 0 (one_lenses ''needs_embedding'' (Some 1)) one_fold (Some [1]) 5 None None
      ''tabs'' = Inr [(''#use tabs'', lexical_score ''tabs'' ''use tabs'')]
   \<and> ''#use tabs'' \<in> set (map fst [(''#use tabs'', lexical_score ''tabs'' ''use tabs'')])"
proof -
  let ?L = "one_lenses ''needs_embedding'' (Some 1)"
  have "matrix_rows (\<lambda>w. 1) (payloads one_fold) None (edges_of demo_substrate one_log) = Inr (Some ([], []))"
    by (simp add: edges_of_def one_log_def is_edge_def demo_substrate_def)
  then have v: "vector_candidates True (\<lambda>w. 1) demo_substrate ?L one_fold [1] (max 1 (5 * 3)) None = Inr []"
    by (simp add: vector_candidates_def fast_vector_query_def vector_matrix_def one_fold_def scratch_fold_def
        new_fold_def Let_def embedding_edges_def mat_dim_def query_matrix_def)
  have s: "scored_hits True (\<lambda>w. 1) demo_substrate 0 ?L one_fold (Some [1]) 5 None None ''tabs''
      = Inr [(''#use tabs'', lexical_score ''tabs'' ''use tabs'')]"
    using v by (simp add: scored_hits_def scope_ref_of_def one_listing [OF one_row] lexical_row_def)
      (simp add: one_lenses_def)
  have p: "lens_facts ?L (fevents one_fold) None (Some ''needs_embedding'') \<noteq> []"
    by (simp add: one_lenses_def)
  show ?thesis using pending_drawers_are_scored [OF p s] s by auto
qed

text \<open>
  one malformed importance takes a whole listing down.  When a drawer of the listed part
  of a scope carries a \<open>has_importance\<close> fact that is not a number, the listing raises, and so
  does every lexical-only search of that scope; the row of a vector hit reads the same fact
  as no importance.
\<close>

theorem malformed_importance_breaks_listing:
  assumes "ref \<in> set (take (nat limit) (sorted_list_of_set (set (member_refs L (fevents f) (scope_ref_of S i0 wng rm)))))"
    and "limit \<le> DEGRADED_SEARCH_SCAN_LIMIT"
    and "first_fact_value L f ref ''has_importance'' = Inr (Some t)" "float_of L t = None"
  shows "(\<exists>e. list_drawers S i0 L f wng rm limit = Inl e)
    \<and> (\<exists>e. search numpy dec S i0 L f None k wng rm lexq = Inl e)
    \<and> (\<forall>h s. hit_row L f (ref, s) = Inr h \<longrightarrow> h_importance h = None)"
proof (intro conjI)
  obtain e where bad: "drawer_row L f ref = Inl e" using malformed_row [OF assms(3,4)] by blast
  show l: "\<exists>e. list_drawers S i0 L f wng rm limit = Inl e"
    unfolding list_drawers_def by (rule mapM_error [where f = "drawer_row L f", OF assms(1) bad])
  have "ref \<in> set (take (nat DEGRADED_SEARCH_SCAN_LIMIT)
      (sorted_list_of_set (set (member_refs L (fevents f) (scope_ref_of S i0 wng rm)))))"
    by (rule subsetD [OF set_take_subset_set_take [OF nat_mono [OF assms(2)]] assms(1)])
  then obtain e' where "list_drawers S i0 L f wng rm DEGRADED_SEARCH_SCAN_LIMIT = Inl e'"
    unfolding list_drawers_def using mapM_error [where f = "drawer_row L f", OF _ bad] by blast
  then show "\<exists>e. search numpy dec S i0 L f None k wng rm lexq = Inl e"
    by (simp add: search_def Let_def scored_hits_def)
  show "\<forall>h s. hit_row L f (ref, s) = Inr h \<longrightarrow> h_importance h = None"
    using assms(3,4) by (auto simp: hit_row_def Let_def bind_err_Inr)
qed

theorem malformed_importance_breaks_listing_witness:
  "\<exists>e e'. list_drawers demo_substrate 0 (one_lenses '''' None) one_fold (Some ''w'') None 200 = Inl e
    \<and> search True (\<lambda>w. 1) demo_substrate 0 (one_lenses '''' None) one_fold None 5 (Some ''w'') None (Some ''tabs'') = Inl e'"
proof -
  let ?L = "one_lenses '''' None"
  have m: "''#use tabs'' \<in> set (take (nat 200) (sorted_list_of_set
      (set (member_refs ?L (fevents one_fold) (scope_ref_of demo_substrate 0 (Some ''w'') None)))))"
    by (simp add: one_members)
  have l: "200 \<le> DEGRADED_SEARCH_SCAN_LIMIT" by (simp add: DEGRADED_SEARCH_SCAN_LIMIT_def)
  have f: "first_fact_value ?L one_fold ''#use tabs'' ''has_importance'' = Inr (Some ''high'')"
    by (simp add: first_fact_value_def one_lenses_def payload_text_def one_fold_payloads)
  have n: "float_of ?L ''high'' = None" by (simp add: one_lenses_def)
  show ?thesis using malformed_importance_breaks_listing [OF m l f n] by blast
qed

definition embedded_cell :: cell where
  "embedded_cell = demo_cell\<lparr>embedding := Some [1]\<rparr>"

definition numbered :: "('r, 'i) event list \<Rightarrow> ('r, 'i) log" where
  "numbered es = zip (map int [0..<length es]) es"

text \<open>
  a drawer filed twice is found twice.  Filing the same embedded drawer again adds no
  cell but a second embedding edge, and the vector index answers the same ref once per edge.
\<close>

theorem refiled_drawer_is_found_twice:
  "let B = log_backend demo_substrate 0 (\<lambda>v. ''abcd'');
       refile = (\<lambda>st. snd (native_file B ''embedding_of'' (\<lambda>x. '''') (\<lambda>v. ''abcd'') embedded_cell st));
       f = scratch_fold demo_substrate (numbered (ns_store (refile (refile (native_init [])))))
   in vector_candidates True (\<lambda>w. 1) demo_substrate L f [1] 5 None
     = Inr [(''#text'', 1), (''#text'', 1)]"
proof -
  let ?B = "log_backend demo_substrate 0 (\<lambda>v. ''abcd'')"
  let ?refile = "\<lambda>st. snd (native_file ?B ''embedding_of'' (\<lambda>x. '''') (\<lambda>v. ''abcd'') embedded_cell st)"
  let ?es = "drawer_events demo_substrate 0 (\<lambda>x. '''') (\<lambda>v. ''abcd'') embedded_cell"
  have eo: "EMBEDDING_OF demo_substrate = ''embedding_of''" by (simp add: demo_substrate_def)
  have step: "ns_store (?refile st) = ns_store st @ ?es" for st
    using logb.native_file_events(2) [where S = demo_substrate, OF prod.collapse [symmetric], unfolded eo] by simp
  have log: "ns_store (?refile (?refile (native_init []))) = ?es @ ?es"
    by (simp add: step native_init_def)
  let ?f = "scratch_fold demo_substrate (numbered (?es @ ?es))"
  have f: "fold_ok demo_substrate ?f" "fevents ?f = numbered (?es @ ?es)"
    "\<not> matrix_computed ?f" "matrix_ok (\<lambda>w. 1) demo_substrate ?f"
    by (simp_all add: scratch_fold_ok) (simp_all add: scratch_fold_def new_fold_def Let_def matrix_ok_def)
  note events = drawer_events_def scope_events_def fact_events_def embedded_cell_def demo_cell_def
    demo_substrate_def Let_def
  have edges: "edges_of demo_substrate (numbered (?es @ ?es)) = [(''#abcd'', ''#text''), (''#abcd'', ''#text'')]"
    by (simp add: numbered_def events edges_of_def is_edge_def)
  have "payload_spec demo_substrate (numbered (?es @ ?es)) ''#abcd'' = Some ''abcd''"
    by (simp add: numbered_def events payload_spec_def refs_spec_def ref_of_def join_payloads_def)
  then have pay: "payloads ?f ''#abcd'' = Some ''abcd''" using f by (simp add: fold_ok_def)
  have rows: "matrix_rows (\<lambda>w. 1) (payloads ?f) None [(''#abcd'', ''#text''), (''#abcd'', ''#text'')]
      = Inr (Some ([''#text'', ''#text''], [[1], [1]]))"
    by (simp add: pay decode_row_def unpack_floats_def cons_row_def)
  obtain f1 where "vector_matrix True (\<lambda>w. 1) demo_substrate ?f = (Inr (Some ([''#text'', ''#text''], [[1], [1]])), f1)"
    using vector_matrix_fresh(1) [OF f(3,1,4), of True] rows unfolding f(2) edges
    by (cases "vector_matrix True (\<lambda>w. 1) demo_substrate ?f") simp
  then have "vector_candidates True (\<lambda>w. 1) demo_substrate L ?f [1] 5 None = Inr [(''#text'', 1), (''#text'', 1)]"
    by (simp add: vector_candidates_def fast_vector_query_def query_matrix_def in_scope_rows_def top_k_def
        cosine_score_def l2_norm_def dot_def)
  then show ?thesis unfolding Let_def log .
qed

text \<open>
  the diary answers its newest entries, oldest first.  Reading the last \<open>n\<close> entries of
  an agent gives, in log order, the \<open>n\<close> members of its scope written last (all of them when
  there are fewer): sorted by position, none skipped that is newer than one returned, and
  nothing for \<open>n \<le> 0\<close>.
\<close>

theorem diary_newest_last:
  assumes "read_diary S i0 L f agent n = Inr entries"
  defines "members \<equiv> remdups (lens_cells_in_scope L (fevents f) (read_ref S i0 (''agent:'' @ agent)))"
  shows "length entries = min (nat n) (length members)
    \<and> sorted_wrt (\<lambda>a b. de_seq_pos a \<le> de_seq_pos b) entries
    \<and> (\<exists>older. mset members = mset older + mset (map de_ref entries)
        \<and> (\<forall>r \<in> set older. \<forall>e \<in> set entries. first_pos f r \<le> de_seq_pos e))
    \<and> (\<forall>e \<in> set entries. de_seq_pos e = first_pos f (de_ref e) \<and> de_topic e \<noteq> [])"
proof -
  let ?ord = "sort_key (first_pos f) members"
  let ?m = "if n > 0 then length ?ord - nat n else length ?ord"
  have rows: "mapM (diary_row L f) (drop ?m ?ord) = Inr entries"
    using assms(1) by (simp add: read_diary_def diary_tail_def members_def Let_def split: if_splits)
  have row: "diary_row L f r = Inr e \<Longrightarrow> de_ref e = r \<and> de_seq_pos e = first_pos f r \<and> de_topic e \<noteq> []" for r e
  proof -
    assume a: "diary_row L f r = Inr e"
    obtain pt w tp where "payload_text L f r = Inr pt" "resolve_wing_room L f r = Inr (w, tp)"
      using a by (auto simp: diary_row_def bind_err_Inr)
    then show ?thesis using a by (cases tp) (auto simp: diary_row_def split: if_splits)
  qed
  have "map de_ref entries = map id (drop ?m ?ord)"
    by (rule mapM_Inr_map [OF rows]) (simp add: row)
  then have refs: "map de_ref entries = drop ?m ?ord" by simp
  have each: "\<forall>e \<in> set entries. de_seq_pos e = first_pos f (de_ref e) \<and> de_topic e \<noteq> []"
    using mapM_Inr_set [OF rows] row by blast
  have so: "sorted_wrt (\<lambda>a b. first_pos f a \<le> first_pos f b) (take ?m ?ord @ drop ?m ?ord)"
    using sorted_sort_key [of "first_pos f" members] by (simp add: sorted_map)
  then have "sorted_wrt (\<lambda>a b. first_pos f a \<le> first_pos f b) (map de_ref entries)"
    unfolding refs sorted_wrt_append by blast
  then have "sorted_wrt (\<lambda>a b. first_pos f (de_ref a) \<le> first_pos f (de_ref b)) entries"
    by (simp add: sorted_wrt_map)
  then have s: "sorted_wrt (\<lambda>a b. de_seq_pos a \<le> de_seq_pos b) entries"
    by (rule sorted_wrt_mono_rel [rotated]) (use each in simp)
  have "mset members = mset (take ?m ?ord) + mset (map de_ref entries)"
    unfolding refs by (metis append_take_drop_id mset_append mset_sort)
  moreover have "\<forall>r \<in> set (take ?m ?ord). \<forall>e \<in> set entries. first_pos f r \<le> de_seq_pos e"
    using so each unfolding sorted_wrt_append refs [symmetric] by auto
  moreover have "length entries = min (nat n) (length members)"
    using arg_cong [OF refs, of length] by (auto simp: min_def)
  ultimately show ?thesis using s each by blast
qed

theorem diary_newest_last_witness:
  "\<exists>e. read_diary demo_substrate 0 (one_lenses '''' None) one_fold ''a'' 3 = Inr [e]
    \<and> de_ref e = ''#use tabs'' \<and> de_topic e \<noteq> []"
proof -
  let ?L = "one_lenses '''' None"
  obtain e where e: "diary_row ?L one_fold ''#use tabs'' = Inr e" "de_ref e = ''#use tabs''"
    by (simp add: diary_row_def payload_text_def one_fold_payloads resolve_wing_room_def one_lenses_sel
        starts_with_def)
  have "lens_cells_in_scope ?L evs sc = [''#use tabs'']" for evs sc by (simp add: one_lenses_def)
  then have r: "read_diary demo_substrate 0 ?L one_fold ''a'' 3 = Inr [e]"
    by (simp add: read_diary_def diary_tail_def e(1))
  show ?thesis using diary_newest_last [OF r] r e(2) by simp
qed

end
