(* ===== verification/Gateway.thy ===== *)
theory Gateway
  imports Native_Read
begin

text \<open>
  The authenticated gateway (\<open>daemon.py\<close>): the generic tool dispatch over a store, the
  HTTP handler with its bearer-token check, the client and its write batch of pending
  tokens.  A request is its decoded tool and arguments; the JSON and base64 codecs between
  client and server are inverse library calls and are left out, as are transport errors.
\<close>

section \<open>Requests\<close>

datatype batch_op =
    OpCell (op_token: string) (op_payload: string)
  | OpRelate string string string
  | OpFact string string string
  | OpScope string string

text \<open>An op of a batch request: a known one, or the kind the server does not know.\<close>

type_synonym wire_op = "string + batch_op"

datatype 'x tool =
    WriteCell string
  | ScopeTool string string
  | AssertFact string string string
  | InvalidateFact string string string
  | AddEmbedding string "real list"
  | Batch "wire_op list"
  | OtherTool 'x

datatype reply = RRef string | ROk | RRefs "string \<rightharpoonup> string" | RBody string

section \<open>The server\<close>

definition resolve_token :: "(string \<rightharpoonup> string) \<Rightarrow> string \<Rightarrow> string" where
  "resolve_token tm ref = (case tm ref of Some r \<Rightarrow> r | None \<Rightarrow> ref)"

text \<open>The loop over the ops of a batch: the write batch and the token map.\<close>

fun run_op :: "'b batch_api \<Rightarrow> batch_op \<Rightarrow> 'b \<times> (string \<rightharpoonup> string) \<Rightarrow> 'b \<times> (string \<rightharpoonup> string)" where
  "run_op W (OpCell t p) (wb, tm) = (case w_cell W p wb of (ref, wb') \<Rightarrow> (wb', tm(t \<mapsto> ref)))"
| "run_op W (OpRelate x y ty) (wb, tm) = (b_relate W (resolve_token tm x) (resolve_token tm y) ty wb, tm)"
| "run_op W (OpFact x p y) (wb, tm) = (w_fact W (resolve_token tm x) p (resolve_token tm y) wb, tm)"
| "run_op W (OpScope c sc) (wb, tm) = (w_scope W (resolve_token tm c) (resolve_token tm sc) wb, tm)"

fun run_ops :: "'b batch_api \<Rightarrow> wire_op list \<Rightarrow> 'b \<times> (string \<rightharpoonup> string) \<Rightarrow> py_error + ('b \<times> (string \<rightharpoonup> string))" where
  "run_ops W [] st = Inr st"
| "run_ops W (Inl kind # ops) st = Inl (ValueError (''unknown batch op: '' @ kind))"
| "run_ops W (Inr x # ops) st = run_ops W ops (run_op W x st)"

text \<open>\<open>None\<close> where the tool is not one of the generic ones.\<close>

definition dispatch_generic ::
    "('s, 'b) backend \<Rightarrow> 'x tool \<Rightarrow> 's \<Rightarrow> (py_error + reply option) \<times> 's" where
  "dispatch_generic B tool s = (case tool of
     WriteCell p \<Rightarrow> (case w_cell (direct B) p s of (ref, s') \<Rightarrow> (Inr (Some (RRef ref)), s'))
   | ScopeTool c sc \<Rightarrow> (Inr (Some ROk), w_scope (direct B) c sc s)
   | AssertFact x p y \<Rightarrow> (Inr (Some ROk), w_fact (direct B) x p y s)
   | InvalidateFact x p y \<Rightarrow> (Inr (Some ROk), s_invalidate (direct B) x p y s)
   | AddEmbedding t v \<Rightarrow> (case s_embed (direct B) t v s of (ref, s') \<Rightarrow> (Inr (Some (RRef ref)), s'))
   | Batch ops \<Rightarrow> (case run_ops (staged B) ops (write_batch B s, Map.empty) of
       Inl e \<Rightarrow> (Inl e, s)
     | Inr (wb, tm) \<Rightarrow> (Inr (Some (RRefs tm)), snd (commit B wb s)))
   | OtherTool x \<Rightarrow> (Inr None, s))"

definition LOCALHOST :: "string set" where
  "LOCALHOST = {''127.0.0.1'', ''::1'', ''::ffff:127.0.0.1''}"

definition authorized :: "bool \<Rightarrow> string \<Rightarrow> string \<Rightarrow> string option \<Rightarrow> bool" where
  "authorized bypass token peer header = (
     if bypass \<and> peer \<in> LOCALHOST then True
     else let h = (case header of Some x \<Rightarrow> x | None \<Rightarrow> '''') in
       if starts_with h ''Bearer '' then drop 7 h = token else False)"

text \<open>\<open>do_POST\<close>: the status code, the reply where there is one, and the store afterwards.\<close>

definition handle_post ::
    "('tool \<Rightarrow> 's \<Rightarrow> (py_error + reply) \<times> 's) \<Rightarrow> bool \<Rightarrow> string \<Rightarrow> string \<Rightarrow> string \<Rightarrow> string option
       \<Rightarrow> py_error + 'tool \<Rightarrow> 's \<Rightarrow> nat \<times> reply option \<times> 's" where
  "handle_post dispatch bypass token path peer header body s = (
     if path \<noteq> ''/mcp'' then (404, None, s)
     else if \<not> authorized bypass token peer header then (401, None, s)
     else (case body of Inl e \<Rightarrow> (400, None, s)
       | Inr call \<Rightarrow> (case dispatch call s of
           (Inl e, s') \<Rightarrow> (400, None, s')
         | (Inr r, s') \<Rightarrow> (200, Some r, s'))))"

definition handle_get :: "string \<Rightarrow> string \<Rightarrow> nat \<times> reply option" where
  "handle_get service path = (if path = ''/health'' then (200, Some (RBody service)) else (404, None))"

definition gateway_dispatch :: "('s, 'b) backend \<Rightarrow> string tool \<Rightarrow> 's \<Rightarrow> (py_error + reply) \<times> 's" where
  "gateway_dispatch B tool s = (case dispatch_generic B tool s of
     (Inl e, s') \<Rightarrow> (Inl e, s')
   | (Inr (Some r), s') \<Rightarrow> (Inr r, s')
   | (Inr None, s') \<Rightarrow> (Inl (ValueError ''unknown tool''), s'))"

section \<open>The client\<close>

record gw_batch =
  gw_ops :: "batch_op list"
  gw_next :: nat

definition pending_token :: "nat \<Rightarrow> string" where
  "pending_token n = ''$pending:'' @ show_nat n"

definition gw_write_cell :: "string \<Rightarrow> gw_batch \<Rightarrow> string \<times> gw_batch" where
  "gw_write_cell p b = (let t = pending_token (gw_next b) in
     (t, b\<lparr>gw_ops := gw_ops b @ [OpCell t p], gw_next := gw_next b + 1\<rparr>))"

definition gw_stage :: "batch_op \<Rightarrow> gw_batch \<Rightarrow> gw_batch" where
  "gw_stage opn b = b\<lparr>gw_ops := gw_ops b @ [opn]\<rparr>"

definition gw_commit :: "('s, 'b) backend \<Rightarrow> gw_batch \<Rightarrow> 's \<Rightarrow> (string \<rightharpoonup> string) option \<times> 's" where
  "gw_commit B b s = (if gw_ops b = [] then (Some Map.empty, s)
     else (case dispatch_generic B (Batch (map Inr (gw_ops b)) :: string tool) s of
       (Inr (Some (RRefs tm)), s') \<Rightarrow> (Some tm, s')
     | (other, s') \<Rightarrow> (None, s')))"

text \<open>The client over the server's store, as a backend of the native store.\<close>

definition client_ref :: "('s, 'b) backend \<Rightarrow> string tool \<Rightarrow> 's \<Rightarrow> string \<times> 's" where
  "client_ref B tool s = (case dispatch_generic B tool s of
     (Inr (Some (RRef r)), s') \<Rightarrow> (r, s') | (other, s') \<Rightarrow> ('''', s'))"

definition client_do :: "('s, 'b) backend \<Rightarrow> string tool \<Rightarrow> 's \<Rightarrow> 's" where
  "client_do B tool s = snd (dispatch_generic B tool s)"

definition gateway_backend :: "('s, 'b) backend \<Rightarrow> ('s, gw_batch) backend" where
  "gateway_backend B = \<lparr>batchable = True,
     direct = \<lparr>w_cell = (\<lambda>p. client_ref B (WriteCell p)), w_fact = (\<lambda>x p y. client_do B (AssertFact x p y)),
       w_scope = (\<lambda>c sc. client_do B (ScopeTool c sc)),
       s_invalidate = (\<lambda>x p y. client_do B (InvalidateFact x p y)),
       s_embed = (\<lambda>t v. client_ref B (AddEmbedding t v))\<rparr>,
     write_batch = (\<lambda>s. \<lparr>gw_ops = [], gw_next = 0\<rparr>),
     staged = \<lparr>w_cell = gw_write_cell, w_fact = (\<lambda>x p y. gw_stage (OpFact x p y)),
       w_scope = (\<lambda>c sc. gw_stage (OpScope c sc)), b_relate = (\<lambda>x y ty. gw_stage (OpRelate x y ty))\<rparr>,
     commit = gw_commit B\<rparr>"

section \<open>What a staged batch means\<close>

text \<open>The token map and the events of a list of ops over a content-addressed store.\<close>

fun denote_op ::
    "(string, 'i) substrate \<Rightarrow> 'i \<Rightarrow> batch_op \<Rightarrow> (string, 'i) event list \<times> (string \<rightharpoonup> string)
       \<Rightarrow> (string, 'i) event list \<times> (string \<rightharpoonup> string)" where
  "denote_op S i0 (OpCell t p) (es, tm) = (es @ [CellWrite p i0], tm(t \<mapsto> cell_ref S p i0))"
| "denote_op S i0 (OpRelate x y ty) (es, tm) =
     (es @ [Relationship (resolve_token tm x) (resolve_token tm y) ty], tm)"
| "denote_op S i0 (OpFact x p y) (es, tm) =
     (es @ [Relationship (resolve_token tm x) (resolve_token tm y) p], tm)"
| "denote_op S i0 (OpScope c sc) (es, tm) =
     (es @ [Relationship (resolve_token tm c) (resolve_token tm sc) (SCOPED_TO S)], tm)"

definition denote ::
    "(string, 'i) substrate \<Rightarrow> 'i \<Rightarrow> batch_op list \<Rightarrow> (string, 'i) event list \<times> (string \<rightharpoonup> string)" where
  "denote S i0 ops = fold (denote_op S i0) ops ([], Map.empty)"

definition gw_evs :: "(string, 'i) substrate \<Rightarrow> 'i \<Rightarrow> gw_batch \<Rightarrow> (string, 'i) event list" where
  "gw_evs S i0 b = fst (denote S i0 (gw_ops b))"

definition gw_resolve :: "(string, 'i) substrate \<Rightarrow> 'i \<Rightarrow> gw_batch \<Rightarrow> string \<Rightarrow> string" where
  "gw_resolve S i0 b = resolve_token (snd (denote S i0 (gw_ops b)))"

definition not_pending :: "string \<Rightarrow> bool" where
  "not_pending x \<longleftrightarrow> \<not> starts_with x ''$pending:''"

definition gw_issued :: "gw_batch \<Rightarrow> string set" where
  "gw_issued b = pending_token ` {..<gw_next b} \<union> Collect not_pending"

lemma denote_snoc: "denote S i0 (ops @ [x]) = denote_op S i0 x (denote S i0 ops)"
  by (simp add: denote_def)

lemma pending_token_eq [simp]: "pending_token m = pending_token n \<longleftrightarrow> m = n"
  by (simp add: pending_token_def)

lemma pending_token_pending [simp]: "\<not> not_pending (pending_token n)"
  using starts_with_append [of "''$pending:''" "show_nat n"] by (simp add: not_pending_def pending_token_def)

lemma next_token_fresh: "pending_token (gw_next b) \<notin> gw_issued b"
  by (auto simp: gw_issued_def)

lemma run_ops_unknown: "Inl kind \<in> set ops \<Longrightarrow> \<exists>e. run_ops W ops st = Inl e"
  by (induction W ops st rule: run_ops.induct) auto

lemma run_ops_known: "run_ops W (map Inr ops) st = Inr (fold (run_op W) ops st)"
  by (induction ops arbitrary: st) simp_all

text \<open>
  A store whose write batch computes content addresses itself, as the direct one does: a
  ref staged is the ref committed.
\<close>

locale direct_backend =
  event_backend S i0 B lg bevs "\<lambda>b x. x" "\<lambda>b. UNIV" "\<lambda>x. True" pack
  for S :: "(string, 'i) substrate" and i0 :: 'i and B :: "('s, 'b) backend"
    and lg :: "'s \<Rightarrow> (string, 'i) event list" and bevs :: "'b \<Rightarrow> (string, 'i) event list"
    and pack :: "real list \<Rightarrow> string"
begin

text \<open>Running an op on the server stages what it denotes, with the same token map.\<close>

lemma run_op_denote:
  "denote_op S i0 x (bevs wb, tm) = map_prod bevs id (run_op (staged B) x (wb, tm))"
proof (cases x)
  case (OpCell t p)
  obtain ref wb1 where w: "w_cell (staged B) p wb = (ref, wb1)" by (rule prod.exhaust)
  show ?thesis using staged.cell_event [OF w] by (simp add: OpCell w)
qed (use relate_event staged.fact_event staged.scope_event in simp_all)

lemma run_ops_denote:
  "fold (denote_op S i0) ops (map_prod bevs id st) = map_prod bevs id (fold (run_op (staged B)) ops st)"
proof (induction ops arbitrary: st)
  case (Cons x ops)
  have "denote_op S i0 x (map_prod bevs id st) = map_prod bevs id (run_op (staged B) x st)"
    using run_op_denote by (cases st) simp
  then show ?case using Cons.IH [of "run_op (staged B) x st"] by (simp only: fold_simps)
qed simp

lemma batch_dispatch:
  "\<exists>s'. dispatch_generic B (Batch (map Inr ops) :: 'x tool) s = (Inr (Some (RRefs (snd (denote S i0 ops)))), s')
    \<and> lg s' = lg s @ fst (denote S i0 ops)"
proof -
  obtain wb tm where r: "fold (run_op (staged B)) ops (write_batch B s, Map.empty) = (wb, tm)"
    by (rule prod.exhaust)
  have d: "denote S i0 ops = (bevs wb, tm)"
    using run_ops_denote [of ops "(write_batch B s, Map.empty)"] r open_batch(1) by (simp add: denote_def)
  obtain res s' where c: "commit B wb s = (res, s')" by (rule prod.exhaust)
  show ?thesis using r d commit_event [OF c]
    by (simp add: dispatch_generic_def run_ops_known c)
qed

end

lemma gw_stage_sound:
  "gw_issued (gw_stage x b) = gw_issued b" "gw_ops (gw_stage x b) = gw_ops b @ [x]"
  by (simp_all add: gw_stage_def gw_issued_def)

text \<open>The client over such a store is a backend again.\<close>

sublocale direct_backend \<subseteq> gw: event_backend S i0 "gateway_backend B" lg "gw_evs S i0" "gw_resolve S i0"
  gw_issued not_pending pack
proof unfold_locales
  fix p t s s' assume w: "w_cell (direct (gateway_backend B)) p s = (t, s')"
  obtain r s1 where r: "w_cell (direct B) p s = (r, s1)" by (rule prod.exhaust)
  have "t = r" "s' = s1" using w by (simp_all add: gateway_backend_def client_ref_def dispatch_generic_def r)
  then show "lg s' = lg s @ [CellWrite p i0] \<and> t = cell_ref S p i0 \<and> UNIV = insert t UNIV \<and> (\<forall>x\<in>UNIV. x = x)"
    using direct.cell_event [OF r] by simp
next
  fix p t b b' assume w: "w_cell (staged (gateway_backend B)) p b = (t, b')"
  have t: "t = pending_token (gw_next b)" "b' = b\<lparr>gw_ops := gw_ops b @ [OpCell t p], gw_next := gw_next b + 1\<rparr>"
    using w by (auto simp: gateway_backend_def gw_write_cell_def Let_def)
  obtain es tm where d: "denote S i0 (gw_ops b) = (es, tm)" by (rule prod.exhaust)
  have i: "gw_issued b' = insert t (gw_issued b)"
    by (auto simp: gw_issued_def t lessThan_Suc)
  show "gw_evs S i0 b' = gw_evs S i0 b @ [CellWrite p i0] \<and> gw_resolve S i0 b' t = cell_ref S p i0
      \<and> gw_issued b' = insert t (gw_issued b) \<and> (\<forall>x\<in>gw_issued b. gw_resolve S i0 b' x = gw_resolve S i0 b x)"
    using i next_token_fresh [of b]
    by (auto simp: t gw_evs_def gw_resolve_def denote_snoc d resolve_token_def)
next
  fix x b y p
  show "gw_evs S i0 (w_fact (staged (gateway_backend B)) x p y b)
        = gw_evs S i0 b @ [Relationship (gw_resolve S i0 b x) (gw_resolve S i0 b y) p]
      \<and> gw_resolve S i0 (w_fact (staged (gateway_backend B)) x p y b) = gw_resolve S i0 b
      \<and> gw_issued (w_fact (staged (gateway_backend B)) x p y b) = gw_issued b"
    by (cases "denote S i0 (gw_ops b)")
      (simp add: gateway_backend_def gw_stage_sound gw_evs_def gw_resolve_def denote_snoc)
next
  fix x b y
  show "gw_evs S i0 (w_scope (staged (gateway_backend B)) x y b)
        = gw_evs S i0 b @ [Relationship (gw_resolve S i0 b x) (gw_resolve S i0 b y) (SCOPED_TO S)]
      \<and> gw_resolve S i0 (w_scope (staged (gateway_backend B)) x y b) = gw_resolve S i0 b
      \<and> gw_issued (w_scope (staged (gateway_backend B)) x y b) = gw_issued b"
    by (cases "denote S i0 (gw_ops b)")
      (simp add: gateway_backend_def gw_stage_sound gw_evs_def gw_resolve_def denote_snoc)
next
  fix x b y p
  show "gw_evs S i0 (b_relate (staged (gateway_backend B)) x y p b)
        = gw_evs S i0 b @ [Relationship (gw_resolve S i0 b x) (gw_resolve S i0 b y) p]
      \<and> gw_resolve S i0 (b_relate (staged (gateway_backend B)) x y p b) = gw_resolve S i0 b
      \<and> gw_issued (b_relate (staged (gateway_backend B)) x y p b) = gw_issued b"
    by (cases "denote S i0 (gw_ops b)")
      (simp add: gateway_backend_def gw_stage_sound gw_evs_def gw_resolve_def denote_snoc)
next
  fix b s res s' assume c: "commit (gateway_backend B) b s = (res, s')"
  obtain s1 where d: "dispatch_generic B (Batch (map Inr (gw_ops b)) :: string tool) s
      = (Inr (Some (RRefs (snd (denote S i0 (gw_ops b))))), s1)" "lg s1 = lg s @ fst (denote S i0 (gw_ops b))"
    using batch_dispatch by blast
  show "lg s' = lg s @ gw_evs S i0 b
      \<and> (\<forall>x\<in>gw_issued b. gw_evs S i0 b \<noteq> [] \<longrightarrow> resolve_batch_ref res x = gw_resolve S i0 b x)"
    using c d by (auto simp: gateway_backend_def gw_commit_def gw_evs_def gw_resolve_def denote_def
        resolve_batch_ref_def resolve_token_def split: if_splits)
next
  fix x s
  show "gw_evs S i0 (write_batch (gateway_backend B) s) = []"
    by (simp add: gateway_backend_def gw_evs_def denote_def)
  assume "not_pending x"
  then show "x \<in> gw_issued (write_batch (gateway_backend B) s) \<and> gw_resolve S i0 (write_batch (gateway_backend B) s) x = x"
    by (simp add: gateway_backend_def gw_issued_def gw_resolve_def denote_def resolve_token_def)
next
  fix x s y p
  have "w_fact (direct (gateway_backend B)) x p y s = w_fact (direct B) x p y s"
    by (simp add: gateway_backend_def client_do_def dispatch_generic_def)
  then show "lg (w_fact (direct (gateway_backend B)) x p y s) = lg s @ [Relationship x y p]
      \<and> (\<lambda>x. x) = (\<lambda>x. x) \<and> UNIV = UNIV"
    using direct.fact_event by simp
next
  fix x s y
  have "w_scope (direct (gateway_backend B)) x y s = w_scope (direct B) x y s"
    by (simp add: gateway_backend_def client_do_def dispatch_generic_def)
  then show "lg (w_scope (direct (gateway_backend B)) x y s) = lg s @ [Relationship x y (SCOPED_TO S)]
      \<and> (\<lambda>x. x) = (\<lambda>x. x) \<and> UNIV = UNIV"
    using direct.scope_event by simp
next
  fix x p y s
  have "s_invalidate (direct (gateway_backend B)) x p y s = s_invalidate (direct B) x p y s"
    by (simp add: gateway_backend_def client_do_def dispatch_generic_def)
  then show "lg (s_invalidate (direct (gateway_backend B)) x p y s)
      = lg s @ [Relationship x y (INVALIDATE_PREFIX @ p)]"
    by (simp only: invalidate_event)
next
  fix x v s
  have "s_embed (direct (gateway_backend B)) x v s = s_embed (direct B) x v s"
    by (simp add: gateway_backend_def client_ref_def dispatch_generic_def split: prod.split)
  then show "lg (snd (s_embed (direct (gateway_backend B)) x v s)) = lg s
      @ [CellWrite (pack v) i0, Relationship (cell_ref S (pack v) i0) x (EMBEDDING_OF S)]"
    by (simp only: embed_event)
qed

context direct_backend
begin

lemma gateway_laws:
  "event_backend S i0 (gateway_backend B) lg (gw_evs S i0) (gw_resolve S i0) gw_issued not_pending pack"
  by (rule gw.event_backend_axioms)

end

interpretation logd: direct_backend S i0 "log_backend S i0 pack" id id pack for S i0 pack
  by (rule direct_backend.intro) (rule logb.event_backend_axioms)

text \<open>Who is authorized.\<close>

lemma authorized_cases:
  "authorized bypass token peer header \<Longrightarrow> (bypass \<and> peer \<in> LOCALHOST) \<or> header = Some (''Bearer '' @ token)"
  by (auto simp: authorized_def Let_def drop_starts_with starts_with_iff_prefix prefix_def split: if_splits option.splits)

section \<open>Properties\<close>

text \<open>
  C7: filing through the gateway is filing directly.  A drawer filed by the client -- staged
  as ops on pending tokens, sent as one batch, resolved on the server -- gets the same ref
  and appends the same events as the same drawer filed on the store itself.
\<close>

theorem gateway_file_equals_direct:
  assumes "direct_backend S i0 B lg bevs pack" "lg (ns_store st) = lg (ns_store st')"
  shows "fst (native_file (gateway_backend B) (EMBEDDING_OF S) str_of pack c st)
      = fst (native_file B (EMBEDDING_OF S) str_of pack c st')
    \<and> lg (ns_store (snd (native_file (gateway_backend B) (EMBEDDING_OF S) str_of pack c st)))
      = lg (ns_store (snd (native_file B (EMBEDDING_OF S) str_of pack c st')))"
proof -
  obtain r1 s1 where g: "native_file (gateway_backend B) (EMBEDDING_OF S) str_of pack c st = (r1, s1)"
    by (rule prod.exhaust)
  obtain r2 s2 where d: "native_file B (EMBEDDING_OF S) str_of pack c st' = (r2, s2)"
    by (rule prod.exhaust)
  note gl = event_backend.native_file_events [OF direct_backend.axioms [OF assms(1)] d]
  note ggl = event_backend.native_file_events [OF direct_backend.gateway_laws [OF assms(1)] g]
  show ?thesis using assms(2) gl ggl by (simp add: g d)
qed

theorem gateway_file_equals_direct_witness:
  "fst (native_file (gateway_backend (log_backend demo_substrate 0 (\<lambda>v. ''v''))) ''embedding_of'' (\<lambda>x. ''1'')
      (\<lambda>v. ''v'') demo_cell (native_init [])) = ''#text''"
proof -
  have "EMBEDDING_OF demo_substrate = ''embedding_of''" by (simp add: demo_substrate_def)
  moreover have "fst (native_file (log_backend demo_substrate (0 :: nat) (\<lambda>v. ''v'')) (EMBEDDING_OF demo_substrate)
      (\<lambda>x. ''1'') (\<lambda>v. ''v'') demo_cell (native_init [])) = ''#text''"
    using logb.native_file_events(1) [OF prod.collapse [symmetric], where S = demo_substrate and c = demo_cell]
    by (simp add: demo_cell_def demo_substrate_def)
  ultimately show ?thesis
    using gateway_file_equals_direct [OF logd.direct_backend_axioms, of "native_init []" "native_init []"
        demo_substrate 0 "\<lambda>v. ''v''" "\<lambda>x. ''1''" demo_cell] by simp
qed

text \<open>
  no request writes without passing the gate, and a batch is all or nothing.  A POST
  to another path, without authorization or with an undecodable body leaves the store as it
  was; so does a batch with an op the server does not know, wherever in the batch it stands.
  A caller is authorized only from the local host (when the bypass is on) or with a header
  that is \<open>Bearer\<close> and the token.
\<close>

theorem post_guards_store:
  assumes "handle_post (gateway_dispatch B) bypass token path peer header body s = (code, r, s')"
    and "s' \<noteq> s"
  shows "path = ''/mcp''
    \<and> ((bypass \<and> peer \<in> LOCALHOST) \<or> header = Some (''Bearer '' @ token))
    \<and> (\<exists>call. body = Inr call \<and> code = 200
        \<and> (\<forall>ops kind. call = Batch ops \<longrightarrow> Inl kind \<notin> set ops))"
proof -
  have p: "path = ''/mcp''" "authorized bypass token peer header"
    using assms by (auto simp: handle_post_def split: if_splits)
  then obtain call where call: "body = Inr call"
    and post: "(case gateway_dispatch B call s of (Inl e, s1) \<Rightarrow> (400, None, s1) | (Inr r, s1) \<Rightarrow> (200, Some r, s1))
      = (code, r, s')"
    using assms by (cases body) (auto simp: handle_post_def)
  note a = authorized_cases [OF p(2)]
  have err: "Inl kind \<in> set ops \<Longrightarrow> call = Batch ops \<Longrightarrow> gateway_dispatch B call s = (Inl e, s1) \<longrightarrow> s1 = s"
    for ops kind e s1
    by (auto simp: gateway_dispatch_def dispatch_generic_def split: sum.splits option.splits prod.splits)
  have no: "\<forall>ops kind. call = Batch ops \<longrightarrow> Inl kind \<notin> set ops"
  proof (intro allI impI notI)
    fix ops kind assume c: "call = Batch ops" "Inl kind \<in> set ops"
    obtain e where "run_ops (staged B) ops (write_batch B s, Map.empty) = Inl e"
      using run_ops_unknown [OF c(2)] by blast
    then have "gateway_dispatch B call s = (Inl e, s)"
      by (simp add: c(1) gateway_dispatch_def dispatch_generic_def)
    then show False using post assms(2) by simp
  qed
  have "code = 200"
  proof (rule ccontr)
    assume "code \<noteq> 200"
    then obtain e where "gateway_dispatch B call s = (Inl e, s')"
      using post by (auto split: prod.splits sum.splits)
    then have "s' = s"
      by (auto simp: gateway_dispatch_def dispatch_generic_def split: tool.splits sum.splits option.splits prod.splits)
    then show False using assms(2) by simp
  qed
  then show ?thesis using p a call no by blast
qed

theorem post_guards_store_witness:
  "\<exists>code r s'. handle_post (gateway_dispatch (log_backend demo_substrate 0 (\<lambda>v. ''v''))) False ''t'' ''/mcp''
      ''10.0.0.1'' (Some ''Bearer t'') (Inr (WriteCell ''x'')) [] = (code, r, s') \<and> s' = [CellWrite ''x'' 0] \<and> code = 200"
proof -
  let ?B = "log_backend demo_substrate (0 :: nat) (\<lambda>v. ''v'')"
  have h: "handle_post (gateway_dispatch ?B) False ''t'' ''/mcp'' ''10.0.0.1'' (Some ''Bearer t'')
      (Inr (WriteCell ''x'')) [] = (200, Some (RRef ''#x''), [CellWrite ''x'' 0])"
    by (simp add: handle_post_def authorized_def starts_with_def gateway_dispatch_def dispatch_generic_def
        log_backend_def log_cell_def demo_substrate_def)
  show ?thesis using post_guards_store [OF h] h by blast
qed

end
