(* ===== verification/Snapshot.thy ===== *)
theory Snapshot
  imports Fold
begin

text \<open>
  The fold snapshot of the native store (\<open>_fold_snapshot\<close> and its helpers in
  \<open>store.py\<close>) under concurrent readers and appends.  Each locked region is a function on
  the shared state; the threads interleave them (\<open>snap_step\<close>).  A materialized fold is
  represented by the events it was built from, since it is a function of them
  (\<open>incremental_fold_equals_rebuild\<close>).  The kernel appends first and notifies its
  observers afterwards, as a separate step.
\<close>

section \<open>The shared state and its locked regions\<close>

record 'e snap =
  generation :: nat
  snapshot :: "(nat \<times> real \<times> 'e list) option"
  building :: "(nat \<times> nat) option"
  done_flags :: "nat set"
  next_flag :: nat
  prior_fold :: "'e list option"
  last_build_at :: real

definition snap_init :: "'e snap" where
  "snap_init = \<lparr>generation = 0, snapshot = None, building = None, done_flags = {}, next_flag = 0,
     prior_fold = None, last_build_at = 0\<rparr>"

definition SNAPSHOT_REUSE_S :: real where "SNAPSHOT_REUSE_S = 5"

definition on_append :: "'e snap \<Rightarrow> 'e snap" where
  "on_append s = s\<lparr>generation := generation s + 1, snapshot := None\<rparr>"

datatype 'e begin_result = Hit "'e list" | Wait nat nat | Own nat nat

text \<open>The first region: reuse the snapshot, join the build in progress, or own a new one.\<close>

definition begin_read :: "real \<Rightarrow> 'e snap \<Rightarrow> 'e begin_result \<times> 'e snap" where
  "begin_read now s = (
     let g = generation s;
         own = (Own g (next_flag s), s\<lparr>building := Some (g, next_flag s), next_flag := next_flag s + 1\<rparr>);
         miss = (case building s of
             Some (bg, flag) \<Rightarrow> if bg = g then (Wait g flag, s) else own
           | None \<Rightarrow> own)
     in case snapshot s of
          Some (sg, t, f) \<Rightarrow> if sg = g \<and> now - t < SNAPSHOT_REUSE_S then (Hit f, s) else miss
        | None \<Rightarrow> miss)"

text \<open>After the wait: the snapshot of the generation asked for, if it is there.\<close>

definition after_wait :: "nat \<Rightarrow> 'e snap \<Rightarrow> 'e list option" where
  "after_wait g s = (case snapshot s of
     Some (sg, t, f) \<Rightarrow> if sg = g then Some f else None | None \<Rightarrow> None)"

definition update_prior_fold :: "real \<Rightarrow> 'e list \<Rightarrow> 'e snap \<Rightarrow> 'e snap" where
  "update_prior_fold now f s = (
     let s1 = (case prior_fold s of
         None \<Rightarrow> s\<lparr>prior_fold := Some f\<rparr>
       | Some p \<Rightarrow> if length p \<le> length f then s\<lparr>prior_fold := Some f\<rparr> else s)
     in s1\<lparr>last_build_at := now\<rparr>)"

definition publish :: "nat \<Rightarrow> real \<Rightarrow> 'e list \<Rightarrow> 'e snap \<Rightarrow> 'e snap" where
  "publish g now f s = (if g = generation s then s\<lparr>snapshot := Some (g, now, f)\<rparr> else s)"

definition end_build :: "nat \<Rightarrow> 'e snap \<Rightarrow> 'e snap" where
  "end_build flag s = (
     let s1 = (case building s of
         Some (g, fl) \<Rightarrow> if fl = flag then s\<lparr>building := None\<rparr> else s
       | None \<Rightarrow> s)
     in s1\<lparr>done_flags := insert flag (done_flags s1)\<rparr>)"

definition expire_snapshot :: "real \<Rightarrow> 'e snap \<Rightarrow> 'e snap" where
  "expire_snapshot now s = (
     if last_build_at s = 0 then s
     else if now - last_build_at s \<ge> SNAPSHOT_REUSE_S then s\<lparr>snapshot := None, prior_fold := None\<rparr>
     else s)"

section \<open>Interleavings\<close>

text \<open>
  Where a reader stands.  The last number is the count of notified events when its read
  began, kept to state what it must have seen; an owner carries its flag.
\<close>

datatype 'e phase =
    Idle
  | Waiting nat nat nat
  | Building nat "nat option" real nat
  | Built nat "nat option" real "'e list" nat
  | Stored nat "nat option" real "'e list" nat
  | Closing nat "'e list" nat

record 'e world =
  log :: "'e list"
  notified :: nat
  shared :: "'e snap"
  readers :: "nat \<Rightarrow> 'e phase"

datatype 'e act = Tau | Returns nat "'e list" nat

inductive snap_step :: "'e world \<Rightarrow> 'e act \<Rightarrow> 'e world \<Rightarrow> bool" where
  append: "snap_step w Tau (w\<lparr>log := log w @ [e]\<rparr>)"
| notify: "notified w < length (log w) \<Longrightarrow>
    snap_step w Tau (w\<lparr>notified := notified w + 1, shared := on_append (shared w)\<rparr>)"
| hit: "readers w i = Idle \<Longrightarrow> begin_read now (shared w) = (Hit f, s') \<Longrightarrow>
    snap_step w (Returns i f (notified w)) (w\<lparr>shared := s'\<rparr>)"
| wait: "readers w i = Idle \<Longrightarrow> begin_read now (shared w) = (Wait g fl, s') \<Longrightarrow>
    snap_step w Tau (w\<lparr>shared := s', readers := (readers w)(i := Waiting g fl (notified w))\<rparr>)"
| own: "readers w i = Idle \<Longrightarrow> begin_read now (shared w) = (Own g fl, s') \<Longrightarrow>
    snap_step w Tau (w\<lparr>shared := s', readers := (readers w)(i := Building g (Some fl) now (notified w))\<rparr>)"
| wake_hit: "readers w i = Waiting g fl d \<Longrightarrow> fl \<in> done_flags (shared w) \<Longrightarrow>
    after_wait g (shared w) = Some f \<Longrightarrow>
    snap_step w (Returns i f d) (w\<lparr>readers := (readers w)(i := Idle)\<rparr>)"
| wake_miss: "readers w i = Waiting g fl d \<Longrightarrow> fl \<in> done_flags (shared w) \<Longrightarrow>
    after_wait g (shared w) = None \<Longrightarrow>
    snap_step w Tau (w\<lparr>readers := (readers w)(i := Building g None now d)\<rparr>)"
| materialize: "readers w i = Building g own now d \<Longrightarrow>
    snap_step w Tau (w\<lparr>readers := (readers w)(i := Built g own now (log w) d)\<rparr>)"
| store: "readers w i = Built g own now f d \<Longrightarrow>
    snap_step w Tau (w\<lparr>shared := update_prior_fold t f (shared w),
      readers := (readers w)(i := Stored g own now f d)\<rparr>)"
| fail: "readers w i = Building g (Some fl) now d \<Longrightarrow>
    snap_step w Tau (w\<lparr>shared := end_build fl (shared w), readers := (readers w)(i := Idle)\<rparr>)"
| publish: "readers w i = Stored g (Some fl) now f d \<Longrightarrow>
    snap_step w Tau (w\<lparr>shared := publish g now f (shared w), readers := (readers w)(i := Closing fl f d)\<rparr>)"
| finish_own: "readers w i = Closing fl f d \<Longrightarrow>
    snap_step w (Returns i f d) (w\<lparr>shared := end_build fl (shared w), readers := (readers w)(i := Idle)\<rparr>)"
| finish: "readers w i = Stored g None now f d \<Longrightarrow>
    snap_step w (Returns i f d) (w\<lparr>readers := (readers w)(i := Idle)\<rparr>)"
| expire: "snap_step w Tau (w\<lparr>shared := expire_snapshot t (shared w)\<rparr>)"

inductive_simps returns_simps: "snap_step w (Returns i f d) w'"

definition world_init :: "'e list \<Rightarrow> 'e world" where
  "world_init l = \<lparr>log = l, notified = length l, shared = snap_init, readers = (\<lambda>i. Idle)\<rparr>"

definition world_step :: "'e world \<Rightarrow> 'e world \<Rightarrow> bool" where
  "world_step w w' \<longleftrightarrow> (\<exists>a. snap_step w a w')"

abbreviation reach :: "'e list \<Rightarrow> 'e world \<Rightarrow> bool" where
  "reach l \<equiv> reachable (\<lambda>w. w = world_init l) world_step"

lemma reach_start: "reach l (world_init l)"
  by (rule reachable.start) simp

lemma reach_step: "reach l w \<Longrightarrow> snap_step w a w' \<Longrightarrow> reach l w'"
  by (rule reachable.step) (auto simp: world_step_def)

text \<open>A materialized log is current as far as \<open>n\<close> events go.\<close>

definition covers :: "'e list \<Rightarrow> nat \<Rightarrow> 'e list \<Rightarrow> bool" where
  "covers f n l \<longleftrightarrow> prefix f l \<and> n \<le> length f"

definition phase_ok :: "'e list \<Rightarrow> nat \<Rightarrow> nat \<Rightarrow> 'e phase \<Rightarrow> bool" where
  "phase_ok l n g ph \<longleftrightarrow> (case ph of
     Idle \<Rightarrow> True
   | Waiting g' fl d \<Rightarrow> g' \<le> g \<and> d \<le> n
   | Building g' own now d \<Rightarrow> g' \<le> g \<and> d \<le> n
   | Built g' own now f d \<Rightarrow> g' \<le> g \<and> d \<le> n \<and> covers f d l \<and> (g' = g \<longrightarrow> n \<le> length f)
   | Stored g' own now f d \<Rightarrow> g' \<le> g \<and> d \<le> n \<and> covers f d l \<and> (g' = g \<longrightarrow> n \<le> length f)
   | Closing fl f d \<Rightarrow> covers f d l)"

definition world_ok :: "'e world \<Rightarrow> bool" where
  "world_ok w \<longleftrightarrow> notified w \<le> length (log w)
     \<and> (\<forall>g t f. snapshot (shared w) = Some (g, t, f) \<longrightarrow> g = generation (shared w) \<and> covers f (notified w) (log w))
     \<and> (\<forall>p. prior_fold (shared w) = Some p \<longrightarrow> prefix p (log w))
     \<and> (\<forall>i. phase_ok (log w) (notified w) (generation (shared w)) (readers w i))"

lemma covers_append [simp]: "covers f n l \<Longrightarrow> covers f n (l @ l')"
  by (auto simp: covers_def)

lemma begin_read_keeps:
  assumes "begin_read now s = (r, s')"
  shows "generation s' = generation s" "snapshot s' = snapshot s" "prior_fold s' = prior_fold s"
    "r = Wait g fl \<or> r = Own g fl \<Longrightarrow> g = generation s"
    "r = Hit f \<Longrightarrow> \<exists>t. snapshot s = Some (generation s, t, f)"
  using assms unfolding begin_read_def Let_def
  by (auto split: option.splits prod.splits if_splits)

lemma helper_keeps [simp]:
  "generation (update_prior_fold t f s) = generation s" "snapshot (update_prior_fold t f s) = snapshot s"
  "generation (publish g now f s) = generation s" "prior_fold (publish g now f s) = prior_fold s"
  "generation (end_build fl s) = generation s" "snapshot (end_build fl s) = snapshot s"
  "prior_fold (end_build fl s) = prior_fold s" "generation (expire_snapshot t s) = generation s"
  "generation (on_append s) = Suc (generation s)" "snapshot (on_append s) = None"
  "prior_fold (on_append s) = prior_fold s"
  by (auto simp: update_prior_fold_def publish_def end_build_def expire_snapshot_def on_append_def Let_def
      split: option.split)

lemma phase_ok_append: "phase_ok l n g ph \<Longrightarrow> phase_ok (l @ l') n g ph"
  by (auto simp: phase_ok_def split: phase.splits)

lemma phase_ok_notify: "phase_ok l n g ph \<Longrightarrow> phase_ok l (Suc n) (Suc g) ph"
  by (auto simp: phase_ok_def split: phase.splits)

lemma world_ok_step: "snap_step w a w' \<Longrightarrow> world_ok w \<Longrightarrow> world_ok w'"
proof (induction rule: snap_step.induct)
  case (append w e)
  then show ?case by (auto simp: world_ok_def phase_ok_append)
next
  case (notify w)
  then show ?case by (auto simp: world_ok_def phase_ok_notify)
next
  case (hit w i now f s')
  note k = begin_read_keeps(1-3) [OF hit(2)]
  show ?case using hit(3) by (simp add: world_ok_def k)
next
  case (wait w i now g fl s')
  note k = begin_read_keeps(1-4) [OF wait(2)]
  show ?case using wait(3) k(4) by (simp add: world_ok_def k(1-3)) (simp add: phase_ok_def)
next
  case (own w i now g fl s')
  note k = begin_read_keeps(1-4) [OF own(2)]
  show ?case using own(3) k(4) by (simp add: world_ok_def k(1-3)) (simp add: phase_ok_def)
next
  case (wake_hit w i g fl d f)
  then show ?case by (simp add: world_ok_def) (simp add: phase_ok_def)
next
  case (wake_miss w i g fl d now)
  have "phase_ok (log w) (notified w) (generation (shared w)) (Waiting g fl d)"
    using wake_miss(1,4) by (metis world_ok_def)
  then show ?case using wake_miss(4) by (simp add: world_ok_def) (simp add: phase_ok_def)
next
  case (materialize w i g ow now d)
  have "phase_ok (log w) (notified w) (generation (shared w)) (Building g ow now d)"
    using materialize(1,2) by (metis world_ok_def)
  then show ?case using materialize(2)
    by (simp add: world_ok_def) (auto simp: phase_ok_def covers_def)
next
  case (store w i g ow now f d t)
  have b: "phase_ok (log w) (notified w) (generation (shared w)) (Built g ow now f d)"
    using store(1,2) by (metis world_ok_def)
  then have "\<forall>p. prior_fold (update_prior_fold t f (shared w)) = Some p \<longrightarrow> prefix p (log w)"
    using store(2) by (auto simp: world_ok_def phase_ok_def covers_def update_prior_fold_def Let_def
        split: option.splits if_splits)
  then show ?case using store(2) b by (simp add: world_ok_def) (simp add: phase_ok_def)
next
  case (fail w i g fl now d)
  then show ?case by (simp add: world_ok_def) (simp add: phase_ok_def)
next
  case (publish w i g fl now f d)
  have b: "phase_ok (log w) (notified w) (generation (shared w)) (Stored g (Some fl) now f d)"
    using publish(1,2) by (metis world_ok_def)
  have "\<forall>g' t f'. snapshot (Snapshot.publish g now f (shared w)) = Some (g', t, f')
      \<longrightarrow> g' = generation (shared w) \<and> covers f' (notified w) (log w)"
    using b publish(2) by (auto simp: publish_def world_ok_def phase_ok_def covers_def)
  then show ?case using publish(2) b by (simp add: world_ok_def) (simp add: phase_ok_def)
next
  case (finish_own w i fl f d)
  then show ?case by (simp add: world_ok_def) (simp add: phase_ok_def)
next
  case (finish w i g now f d)
  then show ?case by (simp add: world_ok_def) (simp add: phase_ok_def)
next
  case (expire w t)
  then show ?case by (auto simp: world_ok_def expire_snapshot_def)
qed

lemma world_ok_init: "world_ok (world_init l)"
  by (simp add: world_ok_def world_init_def snap_init_def phase_ok_def)

interpretation worlds: step_invariant "\<lambda>w. w = world_init l" world_step world_ok for l
  by unfold_locales (auto simp: world_step_def intro: world_ok_init world_ok_step)

section \<open>Properties\<close>

text \<open>
  C2: snapshot reads are fresh under concurrency.  However readers, builders, appends,
  notifications and expiries interleave, the fold a read returns is over an initial part of
  the log that holds at least every event notified when that read began; a cached snapshot
  that may be served holds every event notified so far, and the base of the next incremental
  fold is an initial part of the log.
\<close>

theorem snapshot_reads_are_fresh:
  assumes "reach l w" "snap_step w (Returns i f d) w'"
  shows "prefix f (log w) \<and> d \<le> length f
    \<and> (\<forall>g t s. snapshot (shared w') = Some (g, t, s) \<longrightarrow>
        g = generation (shared w') \<and> prefix s (log w') \<and> notified w' \<le> length s)
    \<and> (\<forall>p. prior_fold (shared w') = Some p \<longrightarrow> prefix p (log w'))"
proof -
  have ok: "world_ok w" "world_ok w'" using assms worlds.inv_reachable world_ok_step by blast+
  have built: "phase_ok (log w) (notified w) (generation (shared w)) (readers w j)" for j
    using ok(1) by (simp add: world_ok_def)
  have "prefix f (log w) \<and> d \<le> length f"
    using assms(2)
  proof cases
    case (hit now s')
    then show ?thesis using ok(1) by (auto dest: begin_read_keeps(5) simp: world_ok_def covers_def)
  next
    case (wake_hit g fl)
    have "d \<le> notified w" using built [of i] by (simp add: wake_hit(2) phase_ok_def)
    then show ?thesis using ok(1) wake_hit(4)
      by (auto simp: world_ok_def covers_def after_wait_def split: option.splits if_splits)
  next
    case (finish_own fl)
    then show ?thesis using built [of i] by (simp add: phase_ok_def covers_def)
  next
    case (finish g now)
    then show ?thesis using built [of i] by (simp add: phase_ok_def covers_def)
  qed
  then show ?thesis using ok(2) by (auto simp: world_ok_def covers_def)
qed

text \<open>The first read of a log with one event, step by step.\<close>

definition cold_reader :: "nat phase \<Rightarrow> nat snap \<Rightarrow> nat world" where
  "cold_reader ph sn = \<lparr>log = [7], notified = 1, shared = sn, readers = (\<lambda>i. Idle)(0 := ph)\<rparr>"

lemma cold_reader_reach:
  "reach [7] (cold_reader (Closing 0 [7] 1) \<lparr>generation = 0, snapshot = Some (0, 0, [7]),
     building = Some (0, 0), done_flags = {}, next_flag = 1, prior_fold = Some [7], last_build_at = 1\<rparr>)"
proof -
  let ?s1 = "\<lparr>generation = 0, snapshot = None, building = Some (0, 0), done_flags = {}, next_flag = 1,
     prior_fold = None, last_build_at = 0\<rparr> :: nat snap"
  let ?s2 = "?s1\<lparr>prior_fold := Some [7], last_build_at := 1\<rparr>"
  have r0: "reach [7] (cold_reader Idle snap_init)"
    using reach_start [of "[7 :: nat]"] by (simp add: world_init_def cold_reader_def fun_upd_def)
  have "snap_step (cold_reader Idle snap_init) Tau (cold_reader (Building 0 (Some 0) 0 1) ?s1)"
    using snap_step.own [of "cold_reader Idle snap_init" 0 0 0 0 ?s1]
    by (simp add: begin_read_def cold_reader_def snap_init_def Let_def)
  then have r1: "reach [7] (cold_reader (Building 0 (Some 0) 0 1) ?s1)" by (rule reach_step [OF r0])
  have "snap_step (cold_reader (Building 0 (Some 0) 0 1) ?s1) Tau (cold_reader (Built 0 (Some 0) 0 [7] 1) ?s1)"
    using snap_step.materialize [of "cold_reader (Building 0 (Some 0) 0 1) ?s1" 0]
    by (simp add: cold_reader_def)
  then have r2: "reach [7] (cold_reader (Built 0 (Some 0) 0 [7] 1) ?s1)" by (rule reach_step [OF r1])
  have "snap_step (cold_reader (Built 0 (Some 0) 0 [7] 1) ?s1) Tau (cold_reader (Stored 0 (Some 0) 0 [7] 1) ?s2)"
    using snap_step.store [of "cold_reader (Built 0 (Some 0) 0 [7] 1) ?s1" 0 0 "Some 0" 0 "[7]" 1 1]
    by (simp add: cold_reader_def update_prior_fold_def Let_def)
  then have r3: "reach [7] (cold_reader (Stored 0 (Some 0) 0 [7] 1) ?s2)" by (rule reach_step [OF r2])
  have "snap_step (cold_reader (Stored 0 (Some 0) 0 [7] 1) ?s2) Tau
      (cold_reader (Closing 0 [7] 1) (?s2\<lparr>snapshot := Some (0, 0, [7])\<rparr>))"
    using snap_step.publish [of "cold_reader (Stored 0 (Some 0) 0 [7] 1) ?s2" 0 0 0 0 "[7]" 1]
    by (simp add: cold_reader_def publish_def)
  then show ?thesis using reach_step [OF r3] by simp
qed

theorem snapshot_reads_are_fresh_witness:
  "\<exists>w w'. reach [7 :: nat] w \<and> snap_step w (Returns 0 [7] 1) w' \<and> prefix [7] (log w)
    \<and> prior_fold (shared w') = Some [7] \<and> prefix [7] (log w')"
proof -
  let ?w = "cold_reader (Closing 0 [7] 1) \<lparr>generation = 0, snapshot = Some (0, 0, [7]),
     building = Some (0, 0), done_flags = {}, next_flag = 1, prior_fold = Some [7], last_build_at = 1\<rparr>"
  have "snap_step ?w (Returns 0 [7] 1)
      (?w\<lparr>shared := end_build 0 (shared ?w), readers := (readers ?w)(0 := Idle)\<rparr>)" (is "snap_step _ _ ?w'")
    by (rule snap_step.finish_own) (simp add: cold_reader_def)
  moreover have "prior_fold (shared ?w') = Some [7]" by (simp add: cold_reader_def)
  ultimately show ?thesis
    using snapshot_reads_are_fresh [OF cold_reader_reach] cold_reader_reach by blast
qed

end
