(* ===== verification/Daemon.thy ===== *)
theory Daemon
  imports Gateway
begin

text \<open>
  The memory daemon's domain tools (\<open>daemon.py\<close>): remembering a drawer with or without a
  vector, the catch-up sweep over the \<open>needs_embedding\<close> markers and its three callers, the
  KG and diary tools and the degraded flag of search.  \<open>store_reads\<close> are the reads of the
  store's own surface; the embedder is the one of \<open>Lexical\<close> with a model \<open>run\<close>.
\<close>

section \<open>The catch-up sweep\<close>

record 's store_reads =
  query_facts :: "'s \<Rightarrow> string option \<Rightarrow> string option \<Rightarrow> bool \<times> (string \<times> string \<times> string) list"
  store_regenerate :: "'s \<Rightarrow> string \<Rightarrow> py_error + string"
  decode_replace :: "string \<Rightarrow> string"

definition NEEDS_EMBEDDING :: string where "NEEDS_EMBEDDING = ''needs_embedding''"

record 's sweep_state =
  swept :: nat
  failed :: nat
  sw_store :: 's

text \<open>The body of the loop: any exception of the read or of the embedder is counted.\<close>

definition sweep_fact ::
    "('s, 'b) backend \<Rightarrow> 's store_reads \<Rightarrow> (string \<Rightarrow> py_error + real list) \<Rightarrow> string \<times> string \<times> string
       \<Rightarrow> 's sweep_state \<Rightarrow> 's sweep_state" where
  "sweep_fact B R emb triple st = (case triple of (x, p, y) \<Rightarrow>
     (case bind_err (store_regenerate R (sw_store st) x) (\<lambda>raw. emb (decode_replace R raw)) of
        Inl e \<Rightarrow> st\<lparr>failed := failed st + 1\<rparr>
      | Inr v \<Rightarrow>
          let s1 = snd (s_embed (direct B) x v (sw_store st));
              s2 = s_invalidate (direct B) x p y s1
          in st\<lparr>sw_store := s2, swept := swept st + 1\<rparr>))"

definition sweep_needs_embedding ::
    "('s, 'b) backend \<Rightarrow> 's store_reads \<Rightarrow> (string \<Rightarrow> py_error + real list) \<Rightarrow> 's \<Rightarrow> 's sweep_state" where
  "sweep_needs_embedding B R emb s = (
     let pending = query_facts R s None (Some NEEDS_EMBEDDING);
         st0 = \<lparr>swept = 0, failed = 0, sw_store = s\<rparr>
     in if \<not> fst pending then st0 else fold (sweep_fact B R emb) (snd pending) st0)"

definition maybe_sweep ::
    "('s, 'b) backend \<Rightarrow> 's store_reads \<Rightarrow> ('m \<Rightarrow> string \<Rightarrow> py_error + real list) \<Rightarrow> 'm embedder option \<Rightarrow> 's \<Rightarrow> 's" where
  "maybe_sweep B R run emb s = (case emb of None \<Rightarrow> s
     | Some e \<Rightarrow> if \<not> e_ready e then s
         else (let pending = query_facts R s None (Some NEEDS_EMBEDDING)
           in if fst pending \<and> snd pending \<noteq> [] then sw_store (sweep_needs_embedding B R (\<lambda>t. embed run t e) s)
              else s))"

text \<open>
  The watcher thread over the embedder states it polls, with the store as it is at each
  poll: the store it leaves, or \<open>None\<close> while it still waits.
\<close>

fun watch_embedder ::
    "('s, 'b) backend \<Rightarrow> 's store_reads \<Rightarrow> ('m \<Rightarrow> string \<Rightarrow> py_error + real list)
       \<Rightarrow> ('m embedder \<times> 's) list \<Rightarrow> 's option" where
  "watch_embedder B R run [] = None"
| "watch_embedder B R run ((e, s) # polls) = (
     if e_ready e then Some (sw_store (sweep_needs_embedding B R (\<lambda>t. embed run t e) s))
     else if e_failed e \<noteq> None then Some s
     else watch_embedder B R run polls)"

section \<open>The domain tools\<close>

text \<open>The arguments of \<open>remember\<close>, \<open>None\<close> where absent.\<close>

record remember_args =
  r_content :: "string option"
  r_wing :: "string option"
  r_room :: "string option"
  r_source :: "string option"
  r_category :: "string option"
  r_importance :: "real option"

definition or_default :: "'a \<Rightarrow> 'a option \<Rightarrow> 'a" where
  "or_default d x = (case x of Some v \<Rightarrow> v | None \<Rightarrow> d)"

definition try_embed ::
    "('m \<Rightarrow> string \<Rightarrow> py_error + real list) \<Rightarrow> 'm embedder option \<Rightarrow> string \<Rightarrow> real list option" where
  "try_embed run emb t = (case emb of None \<Rightarrow> None
     | Some e \<Rightarrow> if e_ready e then (case embed run t e of Inr v \<Rightarrow> Some v | Inl _ \<Rightarrow> None) else None)"

definition remember_cell :: "remember_args \<Rightarrow> real list option \<Rightarrow> cell" where
  "remember_cell a v = \<lparr>wing = or_default ''general'' (r_wing a), room = or_default ''notes'' (r_room a),
     content = or_default '''' (r_content a), source = or_default '''' (r_source a), category = r_category a,
     importance = r_importance a, embedding = v\<rparr>"

definition remember ::
    "('s, 'b) backend \<Rightarrow> string \<Rightarrow> 's store_reads \<Rightarrow> (real \<Rightarrow> string) \<Rightarrow> (real list \<Rightarrow> string)
       \<Rightarrow> ('m \<Rightarrow> string \<Rightarrow> py_error + real list) \<Rightarrow> 'm embedder option \<Rightarrow> remember_args
       \<Rightarrow> 's native_store \<Rightarrow> string \<times> 's native_store" where
  "remember B eo R str_of pack run emb a st0 = (
     let st1 = st0\<lparr>ns_store := maybe_sweep B R run emb (ns_store st0)\<rparr>;
         v = try_embed run emb (or_default '''' (r_content a))
     in case native_file B eo str_of pack (remember_cell a v) st1 of (ref, st2) \<Rightarrow>
        (if v = None then
           (case w_cell (direct B) ''true'' (ns_store st2) of (t, s3) \<Rightarrow>
             (ref, st2\<lparr>ns_store := w_fact (direct B) ref NEEDS_EMBEDDING t s3\<rparr>))
         else (ref, st2)))"

text \<open>The search tool: the vector it searches with and the degraded flag it reports.\<close>

definition search_vector ::
    "('m \<Rightarrow> string \<Rightarrow> py_error + real list) \<Rightarrow> 'm embedder option \<Rightarrow> string \<Rightarrow> real list option \<times> string option" where
  "search_vector run emb query = (case emb of
     Some e \<Rightarrow> if e_ready e then (case embed run query e of
         Inr v \<Rightarrow> (Some v, None) | Inl _ \<Rightarrow> (None, Some ''lexical_only''))
       else (None, Some ''lexical_only'')
   | None \<Rightarrow> (None, Some ''lexical_only''))"

datatype domain_tool =
    Remember remember_args
  | KgAdd string string string
  | KgInvalidate string string string
  | Traverse string
  | DiaryWrite string string "string option"
  | ReadTool string

text \<open>
  The store effect of a domain tool, and the ref it answers where it answers one.  The
  reading tools (search, status, queries, listings) write nothing on a foldable kernel.
\<close>

definition dispatch_domain ::
    "('s, 'b) backend \<Rightarrow> string \<Rightarrow> 's store_reads \<Rightarrow> (real \<Rightarrow> string) \<Rightarrow> (real list \<Rightarrow> string)
       \<Rightarrow> ('m \<Rightarrow> string \<Rightarrow> py_error + real list) \<Rightarrow> 'm embedder option \<Rightarrow> domain_tool
       \<Rightarrow> 's native_store \<Rightarrow> string option \<times> 's native_store" where
  "dispatch_domain B eo R str_of pack run emb tool st = (case tool of
     Remember a \<Rightarrow> (case remember B eo R str_of pack run emb a st of (ref, st') \<Rightarrow> (Some ref, st'))
   | KgAdd x p y \<Rightarrow> (None, assert_kg B x p y st)
   | KgInvalidate x p y \<Rightarrow> (None, invalidate_kg B x p y st)
   | Traverse start \<Rightarrow> (None, st\<lparr>ns_store := snd (anchor B start (ns_store st))\<rparr>)
   | DiaryWrite agent entry topic \<Rightarrow>
       (case file_diary B agent entry (or_default ''general'' topic)
          (st\<lparr>ns_store := maybe_sweep B R run emb (ns_store st)\<rparr>) of (ref, st') \<Rightarrow> (Some ref, st'))
   | ReadTool name \<Rightarrow> (None, st))"

section \<open>Lemmas\<close>

text \<open>What reading the facts must answer: the valid ones of a predicate, each once.\<close>

definition reads_valid_facts :: "'s store_reads \<Rightarrow> ('s \<Rightarrow> (string, 'i) event list) \<Rightarrow> bool" where
  "reads_valid_facts R lg \<longleftrightarrow> (\<forall>s p. fst (query_facts R s None (Some p))
     \<and> distinct (snd (query_facts R s None (Some p)))
     \<and> set (snd (query_facts R s None (Some p))) = {(x, p', y). p' = p \<and> valid_fact (lg s) x p' y})"

text \<open>A sweep that can read and embed a fact's drawer.\<close>

definition sweepable :: "'s store_reads \<Rightarrow> (string \<Rightarrow> py_error + real list) \<Rightarrow> 's \<Rightarrow> string \<Rightarrow> bool" where
  "sweepable R emb s x \<longleftrightarrow> (\<exists>v. bind_err (store_regenerate R s x) (\<lambda>raw. emb (decode_replace R raw)) = Inr v)"

text \<open>A text that could be read and embedded can be again, whatever was recorded since.\<close>

definition sweeps_stably ::
    "'s store_reads \<Rightarrow> (string \<Rightarrow> py_error + real list) \<Rightarrow> ('s \<Rightarrow> (string, 'i) event list) \<Rightarrow> bool" where
  "sweeps_stably R emb lg \<longleftrightarrow>
     (\<forall>s s' z. prefix (lg s) (lg s') \<and> sweepable R emb s z \<longrightarrow> sweepable R emb s' z)"

definition has_vector :: "(string, 'i) substrate \<Rightarrow> (string, 'i) event list \<Rightarrow> string \<Rightarrow> bool" where
  "has_vector S es x \<longleftrightarrow> (\<exists>e. Relationship e x (EMBEDDING_OF S) \<in> set es)"

definition plain_embedding :: "(string, 'i) substrate \<Rightarrow> bool" where
  "plain_embedding S \<longleftrightarrow> EMBEDDING_OF S \<noteq> NEEDS_EMBEDDING \<and> EMBEDDING_OF S \<noteq> INVALIDATE_PREFIX @ NEEDS_EMBEDDING
     \<and> SCOPED_TO S \<noteq> NEEDS_EMBEDDING \<and> SCOPED_TO S \<noteq> INVALIDATE_PREFIX @ NEEDS_EMBEDDING"

lemma sweep_fact_counts:
  "swept (sweep_fact B R emb t st) + failed (sweep_fact B R emb t st) = Suc (swept st + failed st)"
  by (cases t) (auto simp: sweep_fact_def Let_def split: sum.split)

lemma sweep_counts:
  "swept (fold (sweep_fact B R emb) ts st) + failed (fold (sweep_fact B R emb) ts st)
     = length ts + swept st + failed st"
  by (induction ts arbitrary: st) (simp_all add: sweep_fact_counts)

context event_backend
begin

lemma sweep_fact_log:
  "lg (sw_store (sweep_fact B R emb (x, p, y) st)) =
     (case bind_err (store_regenerate R (sw_store st) x) (\<lambda>raw. emb (decode_replace R raw)) of
        Inl e \<Rightarrow> lg (sw_store st)
      | Inr v \<Rightarrow> lg (sw_store st) @ [CellWrite (pack v) i0,
          Relationship (cell_ref S (pack v) i0) x (EMBEDDING_OF S), Relationship x y (INVALIDATE_PREFIX @ p)])"
  by (auto simp: sweep_fact_def Let_def invalidate_event embed_event split: sum.split)

lemma sweep_fact_prefix: "prefix (lg (sw_store st)) (lg (sw_store (sweep_fact B R emb t st)))"
  by (cases t) (simp add: sweep_fact_log split: sum.split)

lemma sweep_prefix: "prefix (lg (sw_store st)) (lg (sw_store (fold (sweep_fact B R emb) ts st)))"
proof (induction ts arbitrary: st)
  case (Cons t ts)
  show ?case unfolding fold_simps by (rule prefix_order.trans [OF sweep_fact_prefix Cons.IH])
qed simp

lemma sweep_fact_valid:
  assumes "plain_embedding S"
  shows "valid_fact (lg (sw_store (sweep_fact B R emb (x, NEEDS_EMBEDDING, y) st))) x' NEEDS_EMBEDDING y' \<longleftrightarrow>
     valid_fact (lg (sw_store st)) x' NEEDS_EMBEDDING y'
     \<and> \<not> (sweepable R emb (sw_store st) x \<and> x' = x \<and> y' = y)"
  using assms unfolding sweep_fact_log sweepable_def plain_embedding_def
  by (auto simp: valid_fact_append split: sum.split)

lemma sweep_fact_vector:
  "sweepable R emb (sw_store st) x \<Longrightarrow> has_vector S (lg (sw_store (sweep_fact B R emb (x, p, y) st))) x"
  unfolding sweep_fact_log sweepable_def has_vector_def by (auto split: sum.split)

lemma sweep_fact_failed:
  "failed (sweep_fact B R emb (x, p, y) st) = failed st + (if sweepable R emb (sw_store st) x then 0 else 1)"
  by (auto simp: sweep_fact_def sweepable_def Let_def split: sum.split)

lemma sweep_valid_mono:
  assumes "plain_embedding S" "\<forall>(x, p, y) \<in> set ts. p = NEEDS_EMBEDDING"
    "valid_fact (lg (sw_store (fold (sweep_fact B R emb) ts st))) x NEEDS_EMBEDDING y"
  shows "valid_fact (lg (sw_store st)) x NEEDS_EMBEDDING y"
  using assms(2,3)
proof (induction ts arbitrary: st)
  case (Cons t ts)
  obtain a b where t: "t = (a, NEEDS_EMBEDDING, b)" using Cons.prems(1) by (cases t) auto
  have "valid_fact (lg (sw_store (sweep_fact B R emb t st))) x NEEDS_EMBEDDING y"
    by (rule Cons.IH) (use Cons.prems in simp_all)
  then show ?case unfolding t sweep_fact_valid [OF assms(1)] by blast
qed simp

text \<open>What a sweep does to each of its facts, and what its failures mean.\<close>

lemma sweep_each:
  assumes "plain_embedding S" "\<forall>(x, p, y) \<in> set ts. p = NEEDS_EMBEDDING"
    and stable: "sweeps_stably R emb lg"
    and st': "st' = fold (sweep_fact B R emb) ts st"
  shows "(x, NEEDS_EMBEDDING, y) \<in> set ts \<Longrightarrow> sweepable R emb (sw_store st) x \<Longrightarrow>
      \<not> valid_fact (lg (sw_store st')) x NEEDS_EMBEDDING y \<and> has_vector S (lg (sw_store st')) x"
    "failed st' = failed st \<Longrightarrow> (x, NEEDS_EMBEDDING, y) \<in> set ts \<Longrightarrow>
      \<not> valid_fact (lg (sw_store st')) x NEEDS_EMBEDDING y \<and> has_vector S (lg (sw_store st')) x"
    "failed st \<le> failed st'"
proof -
  have keep: "has_vector S (lg s) z \<Longrightarrow> prefix (lg s) (lg s') \<Longrightarrow> has_vector S (lg s') z" for s s' z
    by (auto simp: has_vector_def prefix_def)
  have main: "((x, NEEDS_EMBEDDING, y) \<in> set ts \<and> (sweepable R emb (sw_store st) x \<or> failed st' = failed st) \<longrightarrow>
      \<not> valid_fact (lg (sw_store st')) x NEEDS_EMBEDDING y \<and> has_vector S (lg (sw_store st')) x)
    \<and> failed st \<le> failed st'"
    unfolding st' using assms(2)
  proof (induction ts arbitrary: st)
    case (Cons t ts)
    obtain a b where t: "t = (a, NEEDS_EMBEDDING, b)" using Cons.prems by (cases t) auto
    let ?st1 = "sweep_fact B R emb t st" and ?fin = "fold (sweep_fact B R emb) (t # ts) st"
    have ts: "\<forall>(x, p, y) \<in> set ts. p = NEEDS_EMBEDDING" using Cons.prems by simp
    note ih = Cons.IH [OF ts, of ?st1]
    have f: "failed st \<le> failed ?st1" "failed ?st1 \<le> failed ?fin"
      using ih by (simp_all add: t sweep_fact_failed)
    show ?case
    proof (intro conjI impI)
      show "failed st \<le> failed ?fin" using f by simp
      assume h: "(x, NEEDS_EMBEDDING, y) \<in> set (t # ts) \<and> (sweepable R emb (sw_store st) x \<or> failed ?fin = failed st)"
      have sw: "sweepable R emb (sw_store ?st1) x \<or> failed ?fin = failed ?st1"
        using h f stable sweep_fact_prefix unfolding sweeps_stably_def by (metis le_antisym)
      have both: "\<not> valid_fact (lg (sw_store ?fin)) x NEEDS_EMBEDDING y \<and> has_vector S (lg (sw_store ?fin)) x"
      proof (cases "(x, NEEDS_EMBEDDING, y) \<in> set ts")
        case True
        then show ?thesis using ih sw by (auto simp del: split_paired_All)
      next
        case False
        then have xy: "a = x" "b = y" using h t by auto
        have sx: "sweepable R emb (sw_store st) x"
          using h f by (auto simp: t xy sweep_fact_failed split: if_splits)
        have "\<not> valid_fact (lg (sw_store ?st1)) x NEEDS_EMBEDDING y"
          unfolding t xy by (simp add: sweep_fact_valid [OF assms(1)] sx)
        moreover have "has_vector S (lg (sw_store ?st1)) x"
          unfolding t xy by (rule sweep_fact_vector [OF sx])
        ultimately show ?thesis
          using sweep_valid_mono [OF assms(1) ts] keep [OF _ sweep_prefix] by (metis fold_simps(2))
      qed
      then show "\<not> valid_fact (lg (sw_store ?fin)) x NEEDS_EMBEDDING y" "has_vector S (lg (sw_store ?fin)) x"
        by simp_all
    qed
  qed simp
  then show "(x, NEEDS_EMBEDDING, y) \<in> set ts \<Longrightarrow> sweepable R emb (sw_store st) x \<Longrightarrow>
      \<not> valid_fact (lg (sw_store st')) x NEEDS_EMBEDDING y \<and> has_vector S (lg (sw_store st')) x"
    "failed st' = failed st \<Longrightarrow> (x, NEEDS_EMBEDDING, y) \<in> set ts \<Longrightarrow>
      \<not> valid_fact (lg (sw_store st')) x NEEDS_EMBEDDING y \<and> has_vector S (lg (sw_store st')) x"
    "failed st \<le> failed st'" by simp_all
qed

lemma remember_findable:
  assumes "remember B (EMBEDDING_OF S) R str_of pack run emb a st = (ref, st')"
  shows "ref = cell_ref S (or_default '''' (r_content a)) i0"
    "case try_embed run emb (or_default '''' (r_content a)) of
       Some v \<Rightarrow> has_vector S (lg (ns_store st')) ref
     | None \<Rightarrow> valid_fact (lg (ns_store st')) ref NEEDS_EMBEDDING (cell_ref S ''true'' i0)"
proof -
  let ?t = "or_default '''' (r_content a)"
  let ?v = "try_embed run emb ?t"
  let ?st1 = "st\<lparr>ns_store := maybe_sweep B R run emb (ns_store st)\<rparr>"
  obtain r st2 where f: "native_file B (EMBEDDING_OF S) str_of pack (remember_cell a ?v) ?st1 = (r, st2)"
    by (rule prod.exhaust)
  note e = native_file_events [OF f]
  have r: "r = cell_ref S ?t i0" using e(1) by (simp add: remember_cell_def)
  have "ref = cell_ref S ?t i0 \<and> (case ?v of
       Some v \<Rightarrow> has_vector S (lg (ns_store st')) ref
     | None \<Rightarrow> valid_fact (lg (ns_store st')) ref NEEDS_EMBEDDING (cell_ref S ''true'' i0))"
  proof (cases ?v)
    case None
    obtain tr s3 where w: "w_cell (direct B) ''true'' (ns_store st2) = (tr, s3)" by (rule prod.exhaust)
    have "ref = r" "ns_store st' = w_fact (direct B) r NEEDS_EMBEDDING tr s3"
      using assms f None by (auto simp: remember_def Let_def w)
    then show ?thesis
      using None r direct.cell_event [OF w] direct.fact_event by (simp add: valid_fact_append)
  next
    case (Some v)
    then have "ref = r" "st' = st2" using assms f by (auto simp: remember_def Let_def)
    moreover have "Relationship (cell_ref S (pack v) i0) r (EMBEDDING_OF S) \<in> set (lg (ns_store st2))"
      using e(2) r Some by (simp add: drawer_events_def Let_def remember_cell_def)
    ultimately show ?thesis using Some r by (auto simp: has_vector_def)
  qed
  then show "ref = cell_ref S ?t i0" "case ?v of
       Some v \<Rightarrow> has_vector S (lg (ns_store st')) ref
     | None \<Rightarrow> valid_fact (lg (ns_store st')) ref NEEDS_EMBEDDING (cell_ref S ''true'' i0)" by simp_all
qed

end

section \<open>Properties\<close>

lemma card_markers:
  assumes "distinct ts" and "set ts = {(x, p, y). p = q \<and> P x p y}"
  shows "card {(x, y). P x q y} = length ts"
proof -
  have "set ts = (\<lambda>(x, y). (x, q, y)) ` {(x, y). P x q y}" using assms(2) by auto
  moreover have "inj_on (\<lambda>(x, y). (x, q, y)) A" for A by (auto simp: inj_on_def)
  ultimately show ?thesis using distinct_card [OF assms(1)] by (metis card_image)
qed

text \<open>
  C8: the sweep converges and says truly how far.  It tries every valid \<open>needs_embedding\<close>
  marker once and counts each as swept or failed; a drawer whose text it can read and embed
  ends with a vector and without its marker; no marker appears; and when nothing failed no
  marker is left and every marked drawer has a vector, so a further sweep, opportunistic or
  not, leaves the store as it is.
\<close>

theorem sweep_converges:
  assumes "event_backend S i0 B lg bevs resolve issued external pack"
    and "reads_valid_facts R lg" "plain_embedding S"
    and "sweeps_stably R emb lg"
    and "sweep_needs_embedding B R emb s = st"
  shows "swept st + failed st = card {(x, y). valid_fact (lg s) x NEEDS_EMBEDDING y}
    \<and> (\<forall>x y. valid_fact (lg s) x NEEDS_EMBEDDING y \<and> sweepable R emb s x \<longrightarrow>
        \<not> valid_fact (lg (sw_store st)) x NEEDS_EMBEDDING y \<and> has_vector S (lg (sw_store st)) x)
    \<and> (\<forall>x y. valid_fact (lg (sw_store st)) x NEEDS_EMBEDDING y \<longrightarrow> valid_fact (lg s) x NEEDS_EMBEDDING y)
    \<and> (failed st = 0 \<longrightarrow>
        (\<forall>x y. \<not> valid_fact (lg (sw_store st)) x NEEDS_EMBEDDING y)
      \<and> (\<forall>x y. valid_fact (lg s) x NEEDS_EMBEDDING y \<longrightarrow> has_vector S (lg (sw_store st)) x)
      \<and> sw_store (sweep_needs_embedding B R emb (sw_store st)) = sw_store st)"
proof -
  note eb = assms(1)
  let ?ts = "snd (query_facts R s None (Some NEEDS_EMBEDDING))"
  let ?st0 = "\<lparr>swept = 0, failed = 0, sw_store = s\<rparr>"
  have q: "fst (query_facts R s' None (Some NEEDS_EMBEDDING))"
    "distinct (snd (query_facts R s' None (Some NEEDS_EMBEDDING)))"
    "set (snd (query_facts R s' None (Some NEEDS_EMBEDDING)))
      = {(x, p, y). p = NEEDS_EMBEDDING \<and> valid_fact (lg s') x p y}" for s'
    using assms(2) by (simp_all add: reads_valid_facts_def)
  have st: "st = fold (sweep_fact B R emb) ?ts ?st0"
    using assms(5) q(1) by (simp add: sweep_needs_embedding_def Let_def)
  have ne: "\<forall>(x, p, y) \<in> set ?ts. p = NEEDS_EMBEDDING" using q(3) [of s] by auto
  have mem: "(x, NEEDS_EMBEDDING, y) \<in> set ?ts \<longleftrightarrow> valid_fact (lg s) x NEEDS_EMBEDDING y" for x y
    using q(3) [of s] by auto
  have "card {(x, y). valid_fact (lg s) x NEEDS_EMBEDDING y} = length ?ts"
    by (rule card_markers [OF q(2) q(3)])
  then have counts: "swept st + failed st = card {(x, y). valid_fact (lg s) x NEEDS_EMBEDDING y}"
    using sweep_counts [of B R emb ?ts ?st0] by (simp add: st)
  note each = event_backend.sweep_each [OF eb assms(3) ne assms(4) st]
  have mono: "\<forall>x y. valid_fact (lg (sw_store st)) x NEEDS_EMBEDDING y \<longrightarrow> valid_fact (lg s) x NEEDS_EMBEDDING y"
    using event_backend.sweep_valid_mono [OF eb assms(3) ne, where st = ?st0] unfolding st by auto
  have swept: "\<forall>x y. valid_fact (lg s) x NEEDS_EMBEDDING y \<and> sweepable R emb s x \<longrightarrow>
        \<not> valid_fact (lg (sw_store st)) x NEEDS_EMBEDDING y \<and> has_vector S (lg (sw_store st)) x"
    by (intro allI impI each(1)) (simp_all add: mem)
  have none: "failed st = 0 \<longrightarrow> (\<forall>x y. \<not> valid_fact (lg (sw_store st)) x NEEDS_EMBEDDING y)
      \<and> (\<forall>x y. valid_fact (lg s) x NEEDS_EMBEDDING y \<longrightarrow> has_vector S (lg (sw_store st)) x)"
    using each(2) mono unfolding mem by (simp, blast)
  have "failed st = 0 \<longrightarrow> sw_store (sweep_needs_embedding B R emb (sw_store st)) = sw_store st"
  proof
    assume "failed st = 0"
    then have "set (snd (query_facts R (sw_store st) None (Some NEEDS_EMBEDDING))) = {}"
      using none q(3) [of "sw_store st"] by auto
    then show "sw_store (sweep_needs_embedding B R emb (sw_store st)) = sw_store st"
      by (simp add: sweep_needs_embedding_def Let_def)
  qed
  then show ?thesis using counts swept mono none by blast
qed

text \<open>
  C14: a remembered drawer is findable.  \<open>remember\<close> answers the content address of the text,
  and afterwards that drawer either has a vector -- when the embedder is ready and embeds the
  text -- or carries a valid \<open>needs_embedding\<close> marker, which the search and the sweep look
  for; never neither.
\<close>

theorem remembered_drawer_is_findable:
  assumes "event_backend S i0 B lg bevs resolve issued external pack"
    and "remember B (EMBEDDING_OF S) R str_of pack run emb a st = (ref, st')"
  shows "ref = cell_ref S (or_default '''' (r_content a)) i0
    \<and> (if \<exists>e v. emb = Some e \<and> e_ready e \<and> embed run (or_default '''' (r_content a)) e = Inr v
       then has_vector S (lg (ns_store st')) ref
       else valid_fact (lg (ns_store st')) ref NEEDS_EMBEDDING (cell_ref S ''true'' i0))"
proof -
  note f = event_backend.remember_findable [OF assms]
  have "(\<exists>e v. emb = Some e \<and> e_ready e \<and> embed run (or_default '''' (r_content a)) e = Inr v)
      \<longleftrightarrow> try_embed run emb (or_default '''' (r_content a)) \<noteq> None"
    by (auto simp: try_embed_def split: option.splits sum.splits)
  then show ?thesis using f by (cases "try_embed run emb (or_default '''' (r_content a))") auto
qed

text \<open>A reader of an event log.\<close>

fun fact_triples :: "(string, 'i) event list \<Rightarrow> (string \<times> string \<times> string) list" where
  "fact_triples [] = []"
| "fact_triples (Relationship f t ty # es) = (f, ty, t) # fact_triples es"
| "fact_triples (_ # es) = fact_triples es"

lemma in_fact_triples: "(x, p, y) \<in> set (fact_triples es) \<longleftrightarrow> Relationship x y p \<in> set es"
  by (induction es rule: fact_triples.induct) auto

definition log_reads :: "(string, 'i) substrate \<Rightarrow> 'i \<Rightarrow> (string, 'i) event list store_reads" where
  "log_reads S i0 = \<lparr>
     query_facts = (\<lambda>es x p. (True, remdups (filter (\<lambda>(f, ty, t). Some ty = p \<and> valid_fact es f ty t)
        (fact_triples es)))),
     store_regenerate = (\<lambda>es x. case filter (\<lambda>ev. ref_of S ev = Some x) es of
        ev # _ \<Rightarrow> Inr (cell_payload ev) | [] \<Rightarrow> Inl (KeyError x)),
     decode_replace = (\<lambda>t. t)\<rparr>"

lemma valid_fact_asserted:
  "valid_fact es x p y \<Longrightarrow> Relationship x y p \<in> set es"
proof (induction es rule: rev_induct)
  case (snoc e es)
  then show ?case by (cases e) (auto simp: valid_fact_append split: if_splits)
qed (simp add: valid_fact_def)

lemma log_reads_valid: "reads_valid_facts (log_reads S i0) id"
  by (auto simp: reads_valid_facts_def log_reads_def in_fact_triples dest: valid_fact_asserted)

lemma log_reads_stable: "sweeps_stably (log_reads S i0) emb id"
  unfolding sweeps_stably_def
proof (intro allI impI)
  fix s s' z assume h: "prefix (id s) (id s') \<and> sweepable (log_reads S i0) emb s z"
  then obtain t where "s' = s @ t" by (auto simp: prefix_def)
  then show "sweepable (log_reads S i0) emb s' z" using h
    by (cases "filter (\<lambda>ev. ref_of S ev = Some z) s") (auto simp: sweepable_def log_reads_def)
qed

definition fresh_drawer :: remember_args where
  "fresh_drawer = \<lparr>r_content = Some ''hi'', r_wing = None, r_room = None, r_source = None,
     r_category = None, r_importance = None\<rparr>"

definition demo_daemon :: "(string, nat) event list native_store" where
  "demo_daemon = snd (remember (log_backend demo_substrate 0 (\<lambda>v. ''v'')) ''embedding_of''
     (log_reads demo_substrate 0) (\<lambda>x. '''') (\<lambda>v. ''v'') (\<lambda>m t. Inr [1]) (None :: unit embedder option)
     fresh_drawer (native_init []))"

theorem remembered_drawer_is_findable_witness:
  "valid_fact (ns_store demo_daemon) ''#hi'' NEEDS_EMBEDDING ''#true''"
proof -
  let ?B = "log_backend demo_substrate (0 :: nat) (\<lambda>v. ''v'')"
  have eo: "EMBEDDING_OF demo_substrate = ''embedding_of''" by (simp add: demo_substrate_def)
  obtain ref st' where r: "remember ?B (EMBEDDING_OF demo_substrate) (log_reads demo_substrate 0) (\<lambda>x. '''')
      (\<lambda>v. ''v'') (\<lambda>m t. Inr [1]) (None :: unit embedder option) fresh_drawer (native_init []) = (ref, st')"
    by (rule prod.exhaust)
  have "demo_daemon = st'" using r by (simp add: demo_daemon_def eo)
  then show ?thesis
    using remembered_drawer_is_findable [OF logb.event_backend_axioms r]
    by (auto simp: fresh_drawer_def or_default_def demo_substrate_def)
qed

theorem sweep_converges_witness:
  "failed (sweep_needs_embedding (log_backend demo_substrate 0 (\<lambda>v. ''v'')) (log_reads demo_substrate 0)
      (\<lambda>t. Inr [1]) (ns_store demo_daemon)) = 0
   \<and> has_vector demo_substrate (sw_store (sweep_needs_embedding (log_backend demo_substrate 0 (\<lambda>v. ''v''))
      (log_reads demo_substrate 0) (\<lambda>t. Inr [1]) (ns_store demo_daemon))) ''#hi''"
proof -
  let ?B = "log_backend demo_substrate (0 :: nat) (\<lambda>v. ''v'')" and ?R = "log_reads demo_substrate (0 :: nat)"
  let ?emb = "\<lambda>t :: string. Inr [1 :: real] :: py_error + real list"
  have pe: "plain_embedding demo_substrate"
    by (simp add: plain_embedding_def demo_substrate_def NEEDS_EMBEDDING_def INVALIDATE_PREFIX_def)
  have log: "ns_store demo_daemon = [CellWrite ''hi'' 0, CellWrite ''wing:general'' 0,
     Relationship ''#hi'' ''#wing:general'' ''scoped_to'', CellWrite ''room:notes'' 0,
     Relationship ''#hi'' ''#room:notes'' ''scoped_to'', CellWrite ''true'' 0,
     Relationship ''#hi'' ''#true'' ''needs_embedding'']"
    by (simp add: demo_daemon_def remember_def maybe_sweep_def try_embed_def remember_cell_def fresh_drawer_def
        or_default_def native_file_def log_backend_def log_cell_def log_relate_def file_core_def scope_to_def
        fact_if_def native_init_def resolve_batch_ref_def demo_substrate_def NEEDS_EMBEDDING_def Let_def)
  have v: "valid_fact (id (ns_store demo_daemon)) ''#hi'' NEEDS_EMBEDDING ''#true''"
    by (simp add: log valid_fact_def NEEDS_EMBEDDING_def)
  have s: "sweepable ?R ?emb (ns_store demo_daemon) ''#hi''"
    by (simp add: sweepable_def log log_reads_def ref_of_def demo_substrate_def)
  have f: "failed (sweep_needs_embedding ?B ?R ?emb (ns_store demo_daemon)) = 0"
    by (simp add: sweep_needs_embedding_def log log_reads_def valid_fact_def NEEDS_EMBEDDING_def Let_def
        sweep_fact_def ref_of_def demo_substrate_def INVALIDATE_PREFIX_def)
  note sw = sweep_converges [where B = ?B and R = ?R and emb = ?emb and s = "ns_store demo_daemon",
      OF logb.event_backend_axioms log_reads_valid pe log_reads_stable refl]
  have "has_vector demo_substrate (id (sw_store (sweep_needs_embedding ?B ?R ?emb (ns_store demo_daemon)))) ''#hi''"
    using conjunct1 [OF conjunct2 [OF sw], rule_format, OF conjI [OF v s]] by (rule conjunct2)
  then show ?thesis using f by simp
qed

section \<open>The watcher\<close>

text \<open>An embedder whose loading is over.\<close>

definition settled :: "'m embedder \<Rightarrow> bool" where
  "settled e \<longleftrightarrow> e_ready e \<or> e_failed e \<noteq> None"

text \<open>
  C25: the watcher ends.  Whatever the loader answers, the watcher returns at the first poll after the
  model was loaded or given up, and has then swept the store it finds, or left it when loading
  failed; while the model is still loading it waits, and it returns only once the embedder has settled.
\<close>
theorem watcher_terminates:
  "watch_embedder B R run (map (\<lambda>s. (new_embedder, s)) loading @ (warm loaded new_embedder, s1) # later) =
      Some (case loaded of Inr m \<Rightarrow> sw_store (sweep_needs_embedding B R (\<lambda>t. embed run t (warm loaded new_embedder)) s1) | Inl reason \<Rightarrow> s1)
    \<and> (watch_embedder B R run polls \<noteq> None \<longleftrightarrow> list_ex (settled \<circ> fst) polls)"
proof
  have "watch_embedder B R run (map (\<lambda>s. (new_embedder, s)) loading @ rest) = watch_embedder B R run rest" for rest
    by (induction loading) (simp_all add: new_embedder_def)
  then show "watch_embedder B R run (map (\<lambda>s. (new_embedder, s)) loading @ (warm loaded new_embedder, s1) # later) =
      Some (case loaded of Inr m \<Rightarrow> sw_store (sweep_needs_embedding B R (\<lambda>t. embed run t (warm loaded new_embedder)) s1) | Inl reason \<Rightarrow> s1)"
    by (simp add: warm_def new_embedder_def split: sum.split)
  show "watch_embedder B R run polls \<noteq> None \<longleftrightarrow> list_ex (settled \<circ> fst) polls"
    by (induction B R run polls rule: watch_embedder.induct) (auto simp: settled_def)
qed

end
