(* ===== verification/Client.thy ===== *)
theory Client
  imports Prelude
begin

text \<open>
  Finding, retiring and starting the daemon (\<open>client.py\<close>), and the daemon's own life
  cycle on its home directory (\<open>daemon.py\<close>).  What the file system, the network and the
  process table answer are parameters, in the order the code asks.
\<close>

section \<open>Versions\<close>

definition is_digit :: "char \<Rightarrow> bool" where
  "is_digit c \<longleftrightarrow> (let n = (of_char c :: nat) in 48 \<le> n \<and> n \<le> 57)"

text \<open>The match of \<open>(\d+(?:\.\d+)*)\<close> at the start of a text, as its numbers.\<close>

function dotted :: "string \<Rightarrow> nat list" where
  "dotted s = (let d = takeWhile is_digit s; r = dropWhile is_digit s in
     if d = [] then []
     else digits_value d # (case r of [] \<Rightarrow> []
       | c # r' \<Rightarrow> if c = CHR ''.'' then dotted r' else []))"
  by pat_completeness auto
termination
proof (relation "measure length")
  fix s :: string and x xa c r'
  assume "xa = dropWhile is_digit s" "xa = c # r'"
  then have "length (c # r') \<le> length s" by (metis length_dropWhile_le)
  then show "(r', s) \<in> measure length" by simp
qed simp

declare dotted.simps [simp del]

definition numeric_version :: "string \<Rightarrow> nat list option" where
  "numeric_version v = (case dotted (py_strip v) of [] \<Rightarrow> None | ns \<Rightarrow> Some ns)"

text \<open>Python's order on tuples of integers.\<close>

fun tuple_less :: "nat list \<Rightarrow> nat list \<Rightarrow> bool" where
  "tuple_less xs [] = False"
| "tuple_less [] (y # ys) = True"
| "tuple_less (x # xs) (y # ys) = (x < y \<or> (x = y \<and> tuple_less xs ys))"

definition DEV_VERSION :: string where "DEV_VERSION = ''0.0.0-dev''"

definition should_retire :: "string \<Rightarrow> string \<Rightarrow> bool" where
  "should_retire theirs mine = (
     if mine = DEV_VERSION then False
     else case (numeric_version theirs, numeric_version mine) of
       (Some t, Some m) \<Rightarrow> tuple_less t m | _ \<Rightarrow> False)"

text \<open>
  A health answer and a discovery file, as far as the decision reads them:
  \<open>started_at\<close> is the parsed time, \<open>None\<close> where it is absent or does not parse.
\<close>

record health =
  h_version :: string
  h_fingerprint :: "real option"
  h_ok :: bool

record info =
  url :: string
  pid :: "int option"
  started_at :: "real option"

definition should_retire_stale_code :: "real \<Rightarrow> health \<Rightarrow> info \<Rightarrow> bool" where
  "should_retire_stale_code mine_fp hc di = (
     if mine_fp \<le> 0 then False
     else case h_fingerprint hc of
       Some fp \<Rightarrow> fp < mine_fp
     | None \<Rightarrow> (case started_at di of None \<Rightarrow> False | Some t \<Rightarrow> t < mine_fp))"

definition retires :: "string \<Rightarrow> real \<Rightarrow> health \<Rightarrow> info \<Rightarrow> bool" where
  "retires mine mine_fp hc di = (
     let theirs = h_version hc;
         version_stale = (theirs \<noteq> mine \<and> should_retire theirs mine);
         code_stale = (\<not> version_stale \<and> theirs = mine \<and> should_retire_stale_code mine_fp hc di)
     in version_stale \<or> code_stale)"

section \<open>Discovery\<close>

datatype action = Shutdown string | Sigterm int

text \<open>
  What one evaluation of \<open>_discover\<close> meets: the discovery file, the first probe, whether
  the pid is alive, and the probes of the recovery loop.
\<close>

record sighting =
  g_info :: "info option"
  g_health :: "health option"
  g_alive :: bool
  g_recovery :: "health option list"

text \<open>
  A client (the discovery entry it is built from) or nothing, and the actions taken.
  \<open>recover\<close> is what is left to do for a daemon that is alive and does not answer.
\<close>

definition discover_with ::
    "string \<Rightarrow> real \<Rightarrow> sighting \<Rightarrow> info option \<times> action list \<Rightarrow> info option \<times> action list" where
  "discover_with mine fp g recover = (case g_info g of
     None \<Rightarrow> (None, [])
   | Some di \<Rightarrow> (case g_health g of
       Some hc \<Rightarrow> if \<not> retires mine fp hc di then (Some di, []) else (None, [Shutdown (url di)])
     | None \<Rightarrow> if pid di \<noteq> None \<and> \<not> g_alive g then (None, []) else recover))"

definition discover :: "string \<Rightarrow> real \<Rightarrow> sighting \<Rightarrow> sighting \<Rightarrow> info option \<times> action list" where
  "discover mine fp g g' = discover_with mine fp g
     (if \<exists>h \<in> set (take 3 (g_recovery g)). h \<noteq> None then discover_with mine fp g' (None, [])
      else (None, case g_info g of None \<Rightarrow> []
        | Some di \<Rightarrow> (case pid di of Some p \<Rightarrow> [Sigterm p] | None \<Rightarrow> [])))"

text \<open>The first healthy poll within the time limit gives the client.\<close>

fun poll_until_healthy :: "(info option \<times> health option) list \<Rightarrow> info option" where
  "poll_until_healthy [] = None"
| "poll_until_healthy ((di, hc) # polls) = (case (di, hc) of
     (Some i, Some h) \<Rightarrow> if h_ok h then Some i else poll_until_healthy polls
   | _ \<Rightarrow> poll_until_healthy polls)"

text \<open>
  The spawn lock.  \<open>lock_age\<close> is the age of an existing lock file, \<open>None\<close> where there is
  none; the second age is what the retry finds after clearing a stale lock.  The result says
  whether this process spawned, what it found, and whether it removed the lock.
\<close>

definition spawn_once :: "real option \<Rightarrow> bool \<Rightarrow> (info option \<times> health option) list
    \<Rightarrow> (bool \<times> info option \<times> bool) option" where
  "spawn_once lock_age retry polls = (case lock_age of
     None \<Rightarrow> Some (True, poll_until_healthy polls, True)
   | Some age \<Rightarrow> if age > 30 \<and> retry then None else Some (False, poll_until_healthy polls, False))"

definition spawn_and_wait :: "real option \<Rightarrow> real option \<Rightarrow> (info option \<times> health option) list
    \<Rightarrow> bool \<times> info option \<times> bool" where
  "spawn_and_wait age1 age2 polls = (case spawn_once age1 True polls of
     Some r \<Rightarrow> r
   | None \<Rightarrow> (case spawn_once age2 False polls of Some r \<Rightarrow> r | None \<Rightarrow> (False, None, False)))"

text \<open>
  \<open>ensure_daemon\<close> on what its two stages gave (\<open>Inl\<close> an exception): the client, the
  events emitted, and the per-process guard.
\<close>

definition ensure_daemon ::
    "py_error + info option \<Rightarrow> py_error + info option \<Rightarrow> bool \<Rightarrow> info option \<times> string list \<times> bool" where
  "ensure_daemon discovered spawned already = (
     let unavailable = (\<lambda>evs. (None, evs @ (if already then [] else [''daemon_unavailable'']), True))
     in case discovered of
          Inl e \<Rightarrow> unavailable [''daemon_ensure_error'']
        | Inr (Some c) \<Rightarrow> (Some c, [], already)
        | Inr None \<Rightarrow> (case spawned of
            Inl e \<Rightarrow> unavailable [''daemon_ensure_error'']
          | Inr (Some c) \<Rightarrow> (Some c, [], already)
          | Inr None \<Rightarrow> unavailable []))"

fun ensure_all :: "((py_error + info option) \<times> (py_error + info option)) list \<Rightarrow> bool \<Rightarrow> string list" where
  "ensure_all [] already = []"
| "ensure_all ((d, sp) # calls) already = (case ensure_daemon d sp already of
     (c, evs, already') \<Rightarrow> evs @ ensure_all calls already')"

section \<open>The daemon's home directory\<close>

text \<open>
  Daemons on one home: the kernel-owned lock file, the pid that \<open>daemon.json\<close> names, and
  where each process stands.  A killed process loses its lock and leaves the file.
\<close>

datatype dphase = Starting | Owning | Serving | Stopping | Removed | Exited

record home =
  owner :: "int option"
  json_pid :: "int option"
  procs :: "int \<Rightarrow> dphase"

definition remove_json_if_owned :: "int \<Rightarrow> int option \<Rightarrow> int option" where
  "remove_json_if_owned p file_pid = (if file_pid = Some p then None else file_pid)"

inductive home_step :: "home \<Rightarrow> home \<Rightarrow> bool" where
  acquire: "procs h p = Starting \<Longrightarrow> owner h = None \<Longrightarrow>
    home_step h (h\<lparr>owner := Some p, procs := (procs h)(p := Owning)\<rparr>)"
| give_up: "procs h p = Starting \<Longrightarrow> owner h \<noteq> None \<Longrightarrow>
    home_step h (h\<lparr>procs := (procs h)(p := Exited)\<rparr>)"
| serve: "procs h p = Owning \<Longrightarrow>
    home_step h (h\<lparr>json_pid := Some p, procs := (procs h)(p := Serving)\<rparr>)"
| stop: "procs h p = Serving \<Longrightarrow> home_step h (h\<lparr>procs := (procs h)(p := Stopping)\<rparr>)"
| remove: "procs h p = Stopping \<Longrightarrow>
    home_step h (h\<lparr>json_pid := remove_json_if_owned p (json_pid h), procs := (procs h)(p := Removed)\<rparr>)"
| release: "procs h p = Removed \<Longrightarrow>
    home_step h (h\<lparr>owner := None, procs := (procs h)(p := Exited)\<rparr>)"
| killed: "home_step h (h\<lparr>owner := (if owner h = Some p then None else owner h),
      procs := (procs h)(p := Exited)\<rparr>)"

definition home_start :: "home \<Rightarrow> bool" where
  "home_start h \<longleftrightarrow> owner h = None \<and> procs h = (\<lambda>p. Starting)"

abbreviation home_reach :: "home \<Rightarrow> bool" where
  "home_reach \<equiv> reachable home_start home_step"

lemma home_initial: "home_reach \<lparr>owner = None, json_pid = stale, procs = (\<lambda>p. Starting)\<rparr>"
  by (rule reachable.start) (simp add: home_start_def)

definition holds_lock :: "dphase \<Rightarrow> bool" where
  "holds_lock ph \<longleftrightarrow> ph \<in> {Owning, Serving, Stopping, Removed}"

definition home_ok :: "home \<Rightarrow> bool" where
  "home_ok h \<longleftrightarrow> (\<forall>p. holds_lock (procs h p) \<longleftrightarrow> owner h = Some p)
     \<and> (\<forall>p. procs h p \<in> {Serving, Stopping} \<longrightarrow> json_pid h = Some p)"

lemma sole_holder:
  assumes "home_ok h" "holds_lock (procs h p)"
  shows "owner h = Some p" "q \<noteq> p \<Longrightarrow> procs h q = Starting \<or> procs h q = Exited"
proof -
  show o: "owner h = Some p" using assms by (simp add: home_ok_def)
  assume "q \<noteq> p"
  then have "\<not> holds_lock (procs h q)" using assms(1) o by (simp add: home_ok_def)
  then show "procs h q = Starting \<or> procs h q = Exited" by (cases "procs h q") (simp_all add: holds_lock_def)
qed

lemma no_holder:
  "home_ok h \<Longrightarrow> owner h = None \<Longrightarrow> procs h q = Starting \<or> procs h q = Exited"
  by (cases "procs h q") (auto simp: home_ok_def holds_lock_def)

text \<open>A process that holds the lock moves on, or leaves.\<close>

lemma home_ok_move:
  assumes "home_ok h" "holds_lock (procs h p)" "holds_lock ph"
    and "ph = Serving \<or> ph = Stopping \<Longrightarrow> js = Some p"
  shows "home_ok (h\<lparr>json_pid := js, procs := (procs h)(p := ph)\<rparr>)"
proof -
  have "(holds_lock (if q = p then ph else procs h q) \<longleftrightarrow> owner h = Some q)
      \<and> ((if q = p then ph else procs h q) \<in> {Serving, Stopping} \<longrightarrow> js = Some q)" for q
    using sole_holder(1) [OF assms(1,2)] sole_holder(2) [OF assms(1,2), of q] assms(3,4)
    by (cases "q = p") (auto simp: holds_lock_def)
  then show ?thesis by (simp add: home_ok_def)
qed

lemma home_ok_leave:
  assumes "home_ok h" "holds_lock (procs h p)"
  shows "home_ok (h\<lparr>owner := None, procs := (procs h)(p := Exited)\<rparr>)"
proof -
  have "\<not> holds_lock (if q = p then Exited else procs h q)
      \<and> (if q = p then Exited else procs h q) \<notin> {Serving, Stopping}" for q
    using sole_holder(2) [OF assms, of q] by (cases "q = p") (auto simp: holds_lock_def)
  then show ?thesis by (simp add: home_ok_def)
qed

text \<open>A process that never held it leaves the rest alone.\<close>

lemma home_ok_exit:
  assumes "home_ok h" "\<not> holds_lock (procs h p)"
  shows "home_ok (h\<lparr>procs := (procs h)(p := Exited)\<rparr>)" "owner h \<noteq> Some p"
proof -
  show o: "owner h \<noteq> Some p" using assms by (simp add: home_ok_def)
  have "(holds_lock (if q = p then Exited else procs h q) \<longleftrightarrow> owner h = Some q)
      \<and> ((if q = p then Exited else procs h q) \<in> {Serving, Stopping} \<longrightarrow> json_pid h = Some q)" for q
    using assms(1) o by (cases "q = p") (auto simp: home_ok_def holds_lock_def)
  then show "home_ok (h\<lparr>procs := (procs h)(p := Exited)\<rparr>)" by (simp add: home_ok_def)
qed

lemma home_ok_step: "home_step h h' \<Longrightarrow> home_ok h \<Longrightarrow> home_ok h'"
proof (induction rule: home_step.induct)
  case (acquire h p)
  have "(holds_lock (if q = p then Owning else procs h q) \<longleftrightarrow> p = q)
      \<and> (if q = p then Owning else procs h q) \<notin> {Serving, Stopping}" for q
    using no_holder [OF acquire(3,2), of q] by (cases "q = p") (auto simp: holds_lock_def)
  then show ?case by (simp add: home_ok_def)
next
  case (give_up h p)
  then show ?case by (intro home_ok_exit) (simp_all add: holds_lock_def)
next
  case (serve h p)
  then show ?case by (intro home_ok_move) (simp_all add: holds_lock_def)
next
  case (stop h p)
  have "home_ok (h\<lparr>json_pid := json_pid h, procs := (procs h)(p := Stopping)\<rparr>)"
    by (rule home_ok_move [OF stop(2)]) (use stop in \<open>simp_all add: holds_lock_def home_ok_def\<close>)
  then show ?case by simp
next
  case (remove h p)
  then show ?case by (intro home_ok_move) (simp_all add: holds_lock_def)
next
  case (release h p)
  then show ?case by (intro home_ok_leave) (simp_all add: holds_lock_def)
next
  case (killed h p)
  show ?case
  proof (cases "holds_lock (procs h p)")
    case True
    then show ?thesis using home_ok_leave [OF killed True] sole_holder(1) [OF killed True] by simp
  next
    case False
    then show ?thesis using home_ok_exit [OF killed False] by simp
  qed
qed

interpretation homes: step_invariant home_start home_step home_ok
  by unfold_locales (simp add: home_start_def home_ok_def holds_lock_def, rule home_ok_step)

section \<open>Properties\<close>

text \<open>
  An installation is its version and its code fingerprint; a daemon reports those of the
  installation that started it.
\<close>

definition reported :: "string \<times> real \<Rightarrow> health" where
  "reported a = \<lparr>h_version = fst a, h_fingerprint = Some (snd a), h_ok = True\<rparr>"

definition retired_by :: "((string \<times> real) \<times> (string \<times> real)) set" where
  "retired_by = {(a, b). \<exists>di. retires (fst b) (snd b) (reported a) di}"

lemma tuple_less_irrefl [simp]: "\<not> tuple_less xs xs"
  by (induction xs) auto

lemma tuple_less_trans: "tuple_less xs ys \<Longrightarrow> tuple_less ys zs \<Longrightarrow> tuple_less xs zs"
proof (induction xs zs arbitrary: ys rule: tuple_less.induct)
  case (3 x xs z zs)
  then show ?case by (cases ys) auto
qed (auto elim: tuple_less.elims)

text \<open>What a retirement means: an older version, or the same version with older code.\<close>

lemma retired_by_iff:
  "(a, b) \<in> retired_by \<longleftrightarrow>
     (fst a = fst b \<and> 0 < snd b \<and> snd a < snd b)
   \<or> (fst a \<noteq> fst b \<and> fst b \<noteq> DEV_VERSION \<and> (\<exists>t m. numeric_version (fst a) = Some t
        \<and> numeric_version (fst b) = Some m \<and> tuple_less t m))"
  by (auto simp: retired_by_def retires_def reported_def should_retire_def should_retire_stale_code_def
      Let_def split: option.splits)

text \<open>
  daemons are never retired in a circle.  However many installations share a home, no
  chain of retirements -- each client retiring the daemon an earlier one started -- comes
  back to where it began; in particular two clients never retire each other's daemons.
\<close>

theorem no_retirement_cycle:
  "(a, a) \<notin> retired_by\<^sup>+"
proof
  have main: "(fst a = fst b \<and> snd a < snd b)
      \<or> (\<exists>t m. numeric_version (fst a) = Some t \<and> numeric_version (fst b) = Some m \<and> tuple_less t m)"
    if "(a, b) \<in> retired_by\<^sup>+" for a b
    using that
  proof (induction rule: trancl_induct)
    case (base b)
    then show ?case by (auto simp: retired_by_iff)
  next
    case (step b c)
    then show ?case unfolding retired_by_iff by (auto intro: tuple_less_trans)
  qed
  assume "(a, a) \<in> retired_by\<^sup>+"
  then show False using main by fastforce
qed

text \<open>
  discovery never harms a daemon that answers.  A shutdown goes only to a daemon that
  answered the probe and is strictly older (by version, or by code at the same version); a
  signal goes only to a live process whose daemon answered neither the first probe nor the
  three that follow; nothing else is done, and a client is returned only for a daemon that
  answered and is not to be retired.
\<close>

theorem discovery_is_safe:
  assumes "discover mine fp g g' = (c, acts)"
  shows "(\<forall>u. Shutdown u \<in> set acts \<longrightarrow> (\<exists>x \<in> {g, g'}. \<exists>di hc. g_info x = Some di \<and> g_health x = Some hc
        \<and> url di = u \<and> retires mine fp hc di))
    \<and> (\<forall>p. Sigterm p \<in> set acts \<longrightarrow> (\<exists>di. g_info g = Some di \<and> pid di = Some p \<and> g_alive g)
        \<and> g_health g = None \<and> (\<forall>h \<in> set (take 3 (g_recovery g)). h = None))
    \<and> (\<forall>di. c = Some di \<longrightarrow> acts = [] \<and> (\<exists>x \<in> {g, g'}. \<exists>hc. g_info x = Some di \<and> g_health x = Some hc
        \<and> \<not> retires mine fp hc di))
    \<and> length acts \<le> 1"
  using assms
  by (auto simp: discover_def discover_with_def split: option.splits if_splits)

theorem discovery_is_safe_witness:
  "discover ''2.1'' 0 \<lparr>g_info = Some \<lparr>url = ''u'', pid = Some 4, started_at = None\<rparr>,
      g_health = Some \<lparr>h_version = ''2.0'', h_fingerprint = None, h_ok = True\<rparr>, g_alive = True, g_recovery = []\<rparr>
      \<lparr>g_info = None, g_health = None, g_alive = False, g_recovery = []\<rparr> = (None, [Shutdown ''u'']) \<and> length [Shutdown ''u''] \<le> 1"
proof -
  let ?di = "\<lparr>url = ''u'', pid = Some 4, started_at = None\<rparr>"
  let ?hc = "\<lparr>h_version = ''2.0'', h_fingerprint = None, h_ok = True\<rparr>"
  let ?g = "\<lparr>g_info = Some ?di, g_health = Some ?hc, g_alive = True, g_recovery = []\<rparr>"
  let ?g' = "\<lparr>g_info = None, g_health = None, g_alive = False, g_recovery = []\<rparr>"
  have v: "numeric_version ''2.0'' = Some [2, 0]" "numeric_version ''2.1'' = Some [2, 1]"
    by (simp_all add: numeric_version_def py_strip_def is_space_def dotted.simps is_digit_def digits_value_def)
  have d: "discover ''2.1'' 0 ?g ?g' = (None, [Shutdown ''u''])"
    by (simp add: discover_def discover_with_def retires_def should_retire_def v DEV_VERSION_def Let_def)
  show ?thesis using discovery_is_safe [OF d] d by simp
qed

text \<open>
  C29: one daemon per home, and its discovery file is its own.  Whatever daemons start, serve,
  stop or are killed on a home, at most one is past the lock at a time, and as long as it
  serves the discovery file names it: a late finisher never removes a newer daemon's entry.
\<close>

theorem one_serving_daemon:
  assumes "home_reach h" "procs h p = Serving"
  shows "json_pid h = Some p \<and> owner h = Some p
    \<and> (\<forall>q. q \<noteq> p \<longrightarrow> procs h q = Starting \<or> procs h q = Exited)"
proof -
  have ok: "home_ok h" by (rule homes.inv_reachable [OF assms(1)])
  have "holds_lock (procs h p)" by (simp add: assms(2) holds_lock_def)
  from sole_holder [OF ok this] show ?thesis using ok assms(2) by (simp add: home_ok_def)
qed

theorem one_serving_daemon_witness:
  "\<exists>h. home_reach h \<and> procs h 1 = Serving \<and> json_pid h = Some 1"
proof -
  let ?h0 = "\<lparr>owner = None, json_pid = Some 9, procs = (\<lambda>p. Starting)\<rparr>"
  have "home_step ?h0 (?h0\<lparr>owner := Some 1, procs := (procs ?h0)(1 := Owning)\<rparr>)" (is "home_step _ ?h1")
    by (rule home_step.acquire) simp_all
  then have r1: "home_reach ?h1" by (rule reachable.step [OF home_initial])
  have "home_step ?h1 (?h1\<lparr>json_pid := Some 1, procs := (procs ?h1)(1 := Serving)\<rparr>)" (is "home_step _ ?h2")
    by (rule home_step.serve) simp
  then have r2: "home_reach ?h2" by (rule reachable.step [OF r1])
  have "procs ?h2 1 = Serving" by simp
  then show ?thesis using one_serving_daemon [OF r2] r2 by blast
qed

end
