(* ===== verification/Events.thy ===== *)
theory Events
  imports Prelude
begin

text \<open>
  The JSONL event log that all hooks share (\<open>event_emitter.py\<close>) and the automation
  opt-out (\<open>automation_gate.py\<close>).  A session's file is a list of lines, each represented
  by what \<open>json.loads\<close> makes of it; appending a record appends its own line.
\<close>

section \<open>Sessions and previews\<close>

text \<open>The fallback chain; the third string is the cached \<open>pid_..._date\<close> name.\<close>

definition resolve_session_id :: "string option \<Rightarrow> string option \<Rightarrow> string \<Rightarrow> string" where
  "resolve_session_id session env cached = (case session of Some s \<Rightarrow> s
     | None \<Rightarrow> (case env of Some e \<Rightarrow> if e \<noteq> [] then e else cached | None \<Rightarrow> cached))"

definition newline :: char where "newline = CHR 10"

definition truncate_text :: "string \<Rightarrow> string" where
  "truncate_text s = (let nl = length (takeWhile (\<lambda>c. c \<noteq> newline) s) in
     if nl < length s \<and> nl < 100 then take nl s @ ''...''
     else if length s > 100 then take 97 s @ ''...''
     else s)"

definition truncate_preview :: "string option \<Rightarrow> string option" where
  "truncate_preview t = map_option truncate_text t"

section \<open>The log\<close>

record 'd event_record =
  ev_sid :: string
  ev_hook :: string
  ev_name :: string
  ev_ok :: bool
  ev_preview :: "string option"
  ev_data :: 'd

text \<open>A line: blank, not JSON, a JSON value that is no object, or a record.\<close>

datatype 'd log_line = Blank | Corrupt | NonObject | Rec "'d event_record"

type_synonym 'd event_files = "string \<rightharpoonup> 'd log_line list"

definition log_of :: "'d event_files \<Rightarrow> string \<Rightarrow> 'd log_line list" where
  "log_of fs sid = (case fs sid of None \<Rightarrow> [] | Some ls \<Rightarrow> ls)"

text \<open>Every error of the write is swallowed; \<open>writable\<close> says whether there is one.\<close>

definition emit_event ::
    "bool \<Rightarrow> string \<Rightarrow> string \<Rightarrow> string \<Rightarrow> bool \<Rightarrow> string option \<Rightarrow> 'd \<Rightarrow> 'd event_files \<Rightarrow> 'd event_files" where
  "emit_event writable sid hook event ok preview d fs = (
     if \<not> writable then fs
     else let r = \<lparr>ev_sid = sid, ev_hook = hook, ev_name = event, ev_ok = ok,
                   ev_preview = truncate_preview preview, ev_data = d\<rparr>
          in fs(sid \<mapsto> log_of fs sid @ [Rec r]))"

text \<open>
  The loop over the lines.  \<open>None\<close> is the \<open>AttributeError\<close> of \<open>record.get\<close>, which only a
  filter calls; the count of corrupt lines goes on the way.
\<close>

definition wanted :: "string option \<Rightarrow> string option \<Rightarrow> 'd event_record \<Rightarrow> bool" where
  "wanted hook_filter event_filter r \<longleftrightarrow>
     (case hook_filter of Some h \<Rightarrow> h = [] \<or> ev_hook r = h | None \<Rightarrow> True) \<and>
     (case event_filter of Some e \<Rightarrow> e = [] \<or> ev_name r = e | None \<Rightarrow> True)"

definition filtering :: "string option \<Rightarrow> bool" where
  "filtering f \<longleftrightarrow> f \<noteq> None \<and> f \<noteq> Some []"

fun scan_lines ::
    "string option \<Rightarrow> string option \<Rightarrow> 'd log_line list \<Rightarrow> nat \<Rightarrow> 'd log_line list option \<times> nat" where
  "scan_lines hf ef [] n = (Some [], n)"
| "scan_lines hf ef (Blank # ls) n = scan_lines hf ef ls n"
| "scan_lines hf ef (Corrupt # ls) n = scan_lines hf ef ls (n + 1)"
| "scan_lines hf ef (NonObject # ls) n = (
     if filtering hf \<or> filtering ef then (None, n)
     else (case scan_lines hf ef ls n of (rs, m) \<Rightarrow> (map_option (Cons NonObject) rs, m)))"
| "scan_lines hf ef (Rec r # ls) n = (case scan_lines hf ef ls n of (rs, m) \<Rightarrow>
     (if wanted hf ef r then map_option (Cons (Rec r)) rs else rs, m))"

definition read_events_counting ::
    "'d event_files \<Rightarrow> string \<Rightarrow> string option \<Rightarrow> string option \<Rightarrow> int \<Rightarrow> bool \<Rightarrow> 'd log_line list \<times> nat" where
  "read_events_counting fs sid hf ef limit tail = (case fs sid of None \<Rightarrow> ([], 0)
     | Some ls \<Rightarrow> (case scan_lines hf ef ls 0 of
         (None, n) \<Rightarrow> ([], n)
       | (Some rs, n) \<Rightarrow>
           if tail then (if int (length rs) > limit then py_from rs (- limit) else rs, n)
           else (py_upto rs limit, n)))"

definition read_events ::
    "'d event_files \<Rightarrow> string \<Rightarrow> string option \<Rightarrow> string option \<Rightarrow> int \<Rightarrow> bool \<Rightarrow> 'd log_line list" where
  "read_events fs sid hf ef limit tail = fst (read_events_counting fs sid hf ef limit tail)"

section \<open>The automation opt-out\<close>

definition OFF_VALUES :: "string set" where
  "OFF_VALUES = {''off'', ''0'', ''false'', ''no''}"

text \<open>
  \<open>fnm\<close> is \<open>fnmatch.fnmatch\<close> on the working directory, \<open>cwd\<close> the result of \<open>os.getcwd()\<close>;
  an exception of either counts as not opted out.
\<close>

fun any_match :: "(string \<Rightarrow> string \<Rightarrow> py_error + bool) \<Rightarrow> string \<Rightarrow> string list \<Rightarrow> py_error + bool" where
  "any_match fnm dir [] = Inr False"
| "any_match fnm dir (p # ps) = bind_err (fnm dir p) (\<lambda>m. if m then Inr True else any_match fnm dir ps)"

definition automation_opt_out ::
    "(string \<Rightarrow> string \<Rightarrow> py_error + bool) \<Rightarrow> string option \<Rightarrow> string list \<Rightarrow> py_error + string \<Rightarrow> bool" where
  "automation_opt_out fnm env excluded cwd = (
     if py_lower (py_strip (case env of Some v \<Rightarrow> v | None \<Rightarrow> '''')) \<in> OFF_VALUES then True
     else if excluded = [] then False
     else (case bind_err cwd (\<lambda>dir. any_match fnm dir excluded) of Inr b \<Rightarrow> b | Inl _ \<Rightarrow> False))"

section \<open>Lemmas\<close>

lemma length_truncate_text: "length (truncate_text s) \<le> 102"
  by (auto simp: truncate_text_def Let_def)

lemma take_newline [simp]: "newline \<notin> set (takeWhile (\<lambda>c. c \<noteq> newline) s)"
  by (metis (mono_tags, lifting) set_takeWhileD)

lemma truncate_no_newline:
  assumes "newline \<notin> set s"
  shows "truncate_text s = (if length s > 100 then take 97 s @ ''...'' else s)"
proof -
  have "takeWhile (\<lambda>c. c \<noteq> newline) s = s" unfolding takeWhile_eq_all_conv using assms by blast
  then have "length (takeWhile (\<lambda>c. c \<noteq> newline) s) = length s" by (rule arg_cong)
  then show ?thesis by (simp add: truncate_text_def)
qed

lemma truncate_text_line: "100 \<le> length (takeWhile (\<lambda>c. c \<noteq> newline) s)
    \<Longrightarrow> truncate_text s = (if length s > 100 then take 97 s @ ''...'' else s)"
  by (simp add: truncate_text_def)

lemma dots_no_newline: "newline \<notin> set ''...''"
  by (simp add: newline_def)

lemma take_no_newline:
  "n \<le> length (takeWhile (\<lambda>c. c \<noteq> newline) s) \<Longrightarrow> newline \<notin> set (take n s)"
  by (metis take_newline takeWhile_eq_take take_take min.absorb1 in_set_takeD)

lemma truncate_text_no_newline: "newline \<notin> set (truncate_text s)"
proof -
  let ?nl = "length (takeWhile (\<lambda>c. c \<noteq> newline) s)"
  show ?thesis
  proof (cases "?nl < length s \<and> ?nl < 100")
    case True
    then show ?thesis using take_no_newline [of ?nl s] by (simp add: truncate_text_def newline_def)
  next
    case False
    then have "?nl = length s \<or> 100 \<le> ?nl" using length_takeWhile_le [of "\<lambda>c. c \<noteq> newline" s] by linarith
    then show ?thesis
    proof
      assume "?nl = length s"
      then have "newline \<notin> set s" by (metis take_newline takeWhile_eq_take take_all order_refl)
      then show ?thesis by (auto simp: truncate_no_newline newline_def dest: in_set_takeD)
    next
      assume h: "100 \<le> ?nl"
      have "length s \<le> 100 \<Longrightarrow> newline \<notin> set s"
        using h take_no_newline [of "length s" s] length_takeWhile_le [of "\<lambda>c. c \<noteq> newline" s] by simp
      then show ?thesis using h take_no_newline [of 97 s] by (auto simp: truncate_text_line newline_def)
    qed
  qed
qed

lemma scan_records: "scan_lines hf ef (map Rec rs) n = (Some (map Rec (filter (wanted hf ef) rs)), n)"
  by (induction rs) simp_all

lemma scan_append:
  "scan_lines hf ef (ls @ ks) n = (case scan_lines hf ef ls n of
     (None, m) \<Rightarrow> (None, m)
   | (Some rs, m) \<Rightarrow> (case scan_lines hf ef ks m of (qs, l) \<Rightarrow> (map_option (append rs) qs, l)))"
  by (induction hf ef ls n rule: scan_lines.induct)
     (auto split: option.splits prod.splits simp: map_option_case)

lemma scan_prefix_records:
  "scan_lines hf ef ls 0 = (Some rs, n) \<Longrightarrow>
   scan_lines hf ef (ls @ [Rec r]) 0 = (Some (rs @ (if wanted hf ef r then [Rec r] else [])), n)"
  by (simp add: scan_append)

lemma scan_sound:
  "fst (scan_lines hf ef ls n) = Some rs \<Longrightarrow> Rec r \<in> set rs \<Longrightarrow> Rec r \<in> set ls \<and> wanted hf ef r"
  by (induction hf ef ls n arbitrary: rs rule: scan_lines.induct)
     (auto split: prod.splits if_splits)

lemma read_events_sound:
  assumes "Rec r \<in> set (read_events fs sid hf ef limit tail)"
  shows "\<exists>ls. fs sid = Some ls \<and> Rec r \<in> set ls \<and> wanted hf ef r"
proof -
  obtain ls where ls: "fs sid = Some ls"
    using assms by (cases "fs sid") (simp_all add: read_events_def read_events_counting_def)
  obtain rs n where sc: "scan_lines hf ef ls 0 = (rs, n)" by (rule prod.exhaust)
  have "\<exists>xs. rs = Some xs \<and> Rec r \<in> set xs" using assms ls sc
    by (cases rs) (auto simp: read_events_def read_events_counting_def
      dest: in_set_takeD in_set_dropD simp: py_upto_def py_from_def split: if_splits)
  then show ?thesis using ls sc scan_sound [of hf ef ls 0 _ r] by auto
qed

text \<open>The records of all sessions.\<close>

definition event_set :: "'d event_files \<Rightarrow> (string \<times> 'd event_record) set" where
  "event_set fs = {(sid, r). \<exists>ls. fs sid = Some ls \<and> Rec r \<in> set ls}"

lemma event_set_emit: "event_set (emit_event wr sid hook event ok preview d fs) = event_set fs \<union>
   (if wr then {(sid, \<lparr>ev_sid = sid, ev_hook = hook, ev_name = event, ev_ok = ok,
      ev_preview = truncate_preview preview, ev_data = d\<rparr>)} else {})"
proof -
  have "(\<exists>ls. (if x = sid then Some (old @ [Rec y]) else fs x) = Some ls \<and> Rec r \<in> set ls)
      \<longleftrightarrow> (\<exists>ls. fs x = Some ls \<and> Rec r \<in> set ls) \<or> x = sid \<and> r = y"
    if "old = log_of fs sid" for x y r old
    using that by (cases "fs sid") (auto simp: log_of_def)
  then show ?thesis
    by (cases wr) (force simp: event_set_def emit_event_def Let_def fun_upd_def)+
qed

lemma emit_reads_back:
  assumes "scan_lines (Some hook) (Some event) (log_of fs sid) 0 = (Some rs, n)"
    and "int (length rs) < limit"
  shows "read_events (emit_event True sid hook event ok preview d fs) sid (Some hook) (Some event) limit tail
    = rs @ [Rec \<lparr>ev_sid = sid, ev_hook = hook, ev_name = event, ev_ok = ok,
        ev_preview = truncate_preview preview, ev_data = d\<rparr>]"
proof -
  let ?r = "\<lparr>ev_sid = sid, ev_hook = hook, ev_name = event, ev_ok = ok,
    ev_preview = truncate_preview preview, ev_data = d\<rparr>"
  have w: "wanted (Some hook) (Some event) ?r" by (simp add: wanted_def)
  show ?thesis
    using scan_prefix_records [OF assms(1), of ?r] w assms(2)
    by (auto simp: read_events_def read_events_counting_def emit_event_def Let_def py_upto_def py_bound_def)
qed

lemma emit_other: "sid' \<noteq> sid \<Longrightarrow> emit_event w sid hook event ok preview d fs sid' = fs sid'"
  by (simp add: emit_event_def Let_def)

section \<open>Properties\<close>

text \<open>
  The event log reads back.  What a hook emits to a readable log is the last record that a
  filtered read of its session returns, and no other session's log changes; the preview
  kept holds no newline and at most 102 characters -- two more than the documented 100, for a
  line break at position 99.
\<close>

theorem emitted_event_is_read:
  assumes "scan_lines (Some hook) (Some event) (log_of fs sid) 0 = (Some rs, n)"
    and "int (length rs) < limit"
  shows "\<exists>r. read_events (emit_event True sid hook event ok preview d fs) sid (Some hook) (Some event) limit tail
        = rs @ [Rec r] \<and> ev_data r = d \<and> ev_ok r = ok \<and> ev_preview r = truncate_preview preview
      \<and> (\<forall>p. ev_preview r = Some p \<longrightarrow> length p \<le> 102 \<and> newline \<notin> set p)
      \<and> (\<forall>sid'. sid' \<noteq> sid \<longrightarrow> emit_event True sid hook event ok preview d fs sid' = fs sid')"
proof -
  let ?r = "\<lparr>ev_sid = sid, ev_hook = hook, ev_name = event, ev_ok = ok,
    ev_preview = truncate_preview preview, ev_data = d\<rparr>"
  have "read_events (emit_event True sid hook event ok preview d fs) sid (Some hook) (Some event) limit tail
      = rs @ [Rec ?r]"
    by (rule emit_reads_back [OF assms])
  then show ?thesis
    by (intro exI [of _ ?r])
       (auto simp: truncate_preview_def length_truncate_text truncate_text_no_newline emit_other)
qed

theorem emitted_event_is_read_witness:
  "\<exists>r. read_events (emit_event True ''s'' ''memory-capture'' ''drawer_filed'' True (Some ''hi'') (1 :: nat) Map.empty)
      ''s'' (Some ''memory-capture'') (Some ''drawer_filed'') 200 False = [Rec r] \<and> ev_data r = 1"
  using emitted_event_is_read [of "''memory-capture''" "''drawer_filed''" "Map.empty" "''s''" "[]" 0 200
      True "Some ''hi''" "1 :: nat" False] by (auto simp: log_of_def)

text \<open>
  One line that is JSON but no object hides the whole log.  The documentation has corrupt
  lines skipped silently, and they are; but a filtered read of a session whose log holds a
  line such as \<open>3\<close> returns nothing at all, whatever else was recorded.
\<close>

theorem non_object_line_hides_log:
  assumes "fs sid = Some ls" and "NonObject \<in> set ls" and "filtering hf \<or> filtering ef"
  shows "read_events fs sid hf ef limit tail = []"
proof -
  have "fst (scan_lines hf ef ls n) = None" for n
    using assms(2,3) by (induction hf ef ls n rule: scan_lines.induct) (auto split: prod.splits)
  then obtain m where "scan_lines hf ef ls 0 = (None, m)" by (metis prod.collapse)
  then show ?thesis using assms(1) by (simp add: read_events_def read_events_counting_def)
qed

theorem non_object_line_hides_log_witness:
  "read_events (\<lambda>_. Some [Rec \<lparr>ev_sid = ''s'', ev_hook = ''h'', ev_name = ''e'', ev_ok = True,
      ev_preview = None, ev_data = ()\<rparr>, NonObject]) ''s'' (Some ''h'') None 200 False = []"
  by (rule non_object_line_hides_log [of _ _ "[Rec \<lparr>ev_sid = ''s'', ev_hook = ''h'', ev_name = ''e'', ev_ok = True,
      ev_preview = None, ev_data = ()\<rparr>, NonObject]"]) (simp_all add: filtering_def)

end
