(* ===== verification/Capture.thy ===== *)
theory Capture
  imports Events Manifest
begin

text \<open>
  The capture hook (\<open>hooks-memory-capture\<close>): the gate on the hot path, the spool, the
  bounded queue, the drain thread and the replay at mount.  What a step does outside the
  process is a list of effects, so that a crash is a cut of that list.
\<close>

section \<open>Tool payloads\<close>

text \<open>
  A Python value as the hook uses it: \<open>None\<close>, a string, or another value known by its truth,
  its \<open>json.dumps\<close> and its \<open>str\<close>.
\<close>

datatype py_any = PyNone | PyStr string | PyOther bool "py_error + string" string

fun py_truth :: "py_any \<Rightarrow> bool" where
  "py_truth PyNone = False"
| "py_truth (PyStr s) = (s \<noteq> [])"
| "py_truth (PyOther b d s) = b"

fun py_str :: "py_any \<Rightarrow> string" where
  "py_str PyNone = ''None''"
| "py_str (PyStr s) = s"
| "py_str (PyOther b d s) = s"

fun coerce_output :: "py_any \<Rightarrow> py_error + string" where
  "coerce_output (PyStr s) = Inr s"
| "coerce_output PyNone = Inr ''''"
| "coerce_output (PyOther b d s) = d"

text \<open>The shapes of \<open>data["result"]\<close>; a missing attribute or key reads as \<open>PyNone\<close>.\<close>

datatype result_val =
    NoResult
  | ResultDict "string \<rightharpoonup> py_any"
  | ResultStr string
  | ResultObj py_any py_any py_any

record payload =
  p_tool :: string
  p_input :: "string \<rightharpoonup> py_any"
  p_session :: "string option"
  p_result :: result_val
  p_flat :: "string \<rightharpoonup> py_any"

definition get_any :: "(string \<rightharpoonup> py_any) \<Rightarrow> string \<Rightarrow> py_any" where
  "get_any m key = (case m key of Some v \<Rightarrow> v | None \<Rightarrow> PyNone)"

definition extract_outcome :: "payload \<Rightarrow> py_error + (string \<times> bool)" where
  "extract_outcome p = (case p_result p of
     ResultDict m \<Rightarrow> bind_err (coerce_output (get_any m ''output'')) (\<lambda>out.
       Inr (out, case m ''success'' of Some v \<Rightarrow> py_truth v | None \<Rightarrow> \<not> py_truth (get_any m ''error'')))
   | ResultStr s \<Rightarrow> Inr (s, True)
   | ResultObj out suc err \<Rightarrow> bind_err (coerce_output out) (\<lambda>o1.
       Inr (o1, if suc \<noteq> PyNone then py_truth suc else \<not> py_truth err))
   | NoResult \<Rightarrow>
       (let m = p_flat p;
            is_error = (case m ''is_error'' of Some v \<Rightarrow> py_truth v | None \<Rightarrow> False)
        in Inr (case m ''tool_output'' of Some v \<Rightarrow> py_str v | None \<Rightarrow> '''',
                case m ''success'' of Some v \<Rightarrow> py_truth v | None \<Rightarrow> \<not> is_error)))"

section \<open>Wings and rooms\<close>

definition slash :: char where "slash = CHR ''/''"
definition dot :: char where "dot = CHR ''.''"

text \<open>\<open>s.replace(old, new)\<close> for a nonempty \<open>old\<close>.\<close>

fun py_replace :: "string \<Rightarrow> string \<Rightarrow> string \<Rightarrow> string" where
  "py_replace old new [] = []"
| "py_replace old new (c # s) = (if old \<noteq> [] \<and> starts_with (c # s) old
     then new @ py_replace old new (drop (length old - 1) s) else c # py_replace old new s)"

definition last_part :: "string \<Rightarrow> string" where
  "last_part s = rev (takeWhile (\<lambda>c. c \<noteq> slash) (rev s))"

definition rstrip_slash :: "string \<Rightarrow> string" where
  "rstrip_slash s = rev (dropWhile (\<lambda>c. c = slash) (rev s))"

text \<open>\<open>PurePath.name\<close>, \<open>suffix\<close> and \<open>stem\<close>.\<close>

fun path_parts :: "string \<Rightarrow> string \<Rightarrow> string list" where
  "path_parts cur [] = (if cur = [] \<or> cur = [dot] then [] else [cur])"
| "path_parts cur (c # s) = (if c = slash
     then (if cur = [] \<or> cur = [dot] then [] else [cur]) @ path_parts [] s
     else path_parts (cur @ [c]) s)"

definition path_name :: "string \<Rightarrow> string" where
  "path_name s = (case path_parts [] s of [] \<Rightarrow> [] | ps \<Rightarrow> last ps)"

text \<open>The name split at its last dot, when that dot is neither first nor last.\<close>

definition split_suffix :: "string \<Rightarrow> string \<times> string" where
  "split_suffix nm = (
     let suf = rev (takeWhile (\<lambda>c. c \<noteq> dot) (rev nm));
         i = length nm - length suf - 1
     in if length suf < length nm \<and> suf \<noteq> [] \<and> 0 < i then (take i nm, dot # suf) else (nm, []))"

definition CODE_SUFFIXES :: "string set" where
  "CODE_SUFFIXES = {''.py'', ''.ts'', ''.tsx'', ''.js'', ''.rs'', ''.go''}"

definition ROOM_MAP :: "string \<rightharpoonup> string" where
  "ROOM_MAP = map_of [(''bash'', ''shell-commands''), (''computer'', ''computer-use''),
     (''read_file'', ''file-reads''), (''write_file'', ''file-writes''), (''edit_file'', ''file-edits''),
     (''search'', ''search-results''), (''web_search'', ''search-results''),
     (''browser'', ''browser-actions''), (''delegate'', ''delegated-tasks'')]"

definition room_of_path :: "string \<Rightarrow> string option" where
  "room_of_path s = (let nm = path_name s in case split_suffix nm of (stem, suf) \<Rightarrow>
     if suf \<in> CODE_SUFFIXES then Some (stem @ ''-'' @ dropWhile (\<lambda>c. c = dot) suf)
     else if nm \<noteq> [] then Some (take 40 stem) else None)"

definition room_from_input :: "(string \<rightharpoonup> py_any) \<Rightarrow> string \<Rightarrow> string option" where
  "room_from_input m key = (case m key of None \<Rightarrow> None | Some v \<Rightarrow> room_of_path (py_str v))"

definition detect_room :: "string \<Rightarrow> (string \<rightharpoonup> py_any) \<Rightarrow> string" where
  "detect_room tool m = (
     let base = (case ROOM_MAP tool of Some r \<Rightarrow> r | None \<Rightarrow> py_replace ''_'' ''-'' tool)
     in case room_from_input m ''path'' of Some r \<Rightarrow> r
      | None \<Rightarrow> (case room_from_input m ''file_path'' of Some r \<Rightarrow> r
      | None \<Rightarrow> (case room_from_input m ''filename'' of Some r \<Rightarrow> r | None \<Rightarrow> base)))"

text \<open>
  \<open>git\<close> is the run of \<open>git remote get-url origin\<close>: an exception, or whether it exited with 0
  and its output; \<open>cwd\<close> the working directory, which may be gone.
\<close>

definition detect_wing :: "(bool \<times> string) option \<Rightarrow> py_error + string \<Rightarrow> py_error + string" where
  "detect_wing git cwd = (
     let fallback = bind_err cwd (\<lambda>d. Inr (''wing_'' @ path_name d)) in
     case git of
       Some (True, out) \<Rightarrow>
         (let nm = py_replace ''.git'' '''' (last_part (rstrip_slash (py_strip out)))
          in Inr (if nm \<noteq> [] then ''wing_'' @ nm else ''wing_general''))
     | _ \<Rightarrow> fallback)"

section \<open>The gate\<close>

definition SKIP_TOOLS :: "string set" where
  "SKIP_TOOLS = {''memory_status'', ''memory_reconnect'', ''memory_hook_settings''}"

definition is_memory_worthy :: "string \<Rightarrow> string \<Rightarrow> bool" where
  "is_memory_worthy tool out = (
     if out = [] \<or> length out < 50 then False
     else if tool \<in> SKIP_TOOLS then False
     else if length out > 8192 then False
     else True)"

definition skip_reason :: "string \<Rightarrow> string \<Rightarrow> string" where
  "skip_reason tool out = (
     if out = [] \<or> length out < 50 then ''too_short''
     else if tool \<in> SKIP_TOOLS then ''skip_tool''
     else if length out > 8192 then ''too_long''
     else ''too_short'')"

text \<open>The fallback table of signals, and the one the hook uses: the manifest's when it loads.\<close>

definition CATEGORY_SIGNALS :: "(string \<times> string list) list" where
  "CATEGORY_SIGNALS = [
     (''decision'', [''decided'', ''decision'', ''we will'', ''going with'', ''chosen'', ''agreed'']),
     (''architecture'', [''architecture'', ''design'', ''pattern'', ''structure'', ''component'', ''module'']),
     (''blocker'', [''blocked'', ''blocking'', ''cannot'', ''failed'', ''error'', ''issue'', ''problem'']),
     (''resolved_blocker'', [''fixed'', ''resolved'', ''workaround'', ''solution found'', ''now works'']),
     (''dependency'', [''depends on'', ''requires'', ''dependency'', ''import'', ''package'']),
     (''pattern'', [''pattern'', ''convention'', ''always'', ''never'', ''best practice'', ''rule'']),
     (''lesson_learned'', [''learned'', ''lesson'', ''turns out'', ''discovered'', ''realized'', ''note:''])]"

definition hook_signals :: "py_error + manifest \<Rightarrow> (string \<times> string list) list" where
  "hook_signals loaded = (case loaded of Inr m \<Rightarrow> category_signals m | Inl _ \<Rightarrow> CATEGORY_SIGNALS)"

definition detect_category_in :: "string \<Rightarrow> (string \<times> string list) list option \<Rightarrow> string option" where
  "detect_category_in t signals = detect_category t (case signals of Some sg \<Rightarrow> sg | None \<Rightarrow> CATEGORY_SIGNALS)"

text \<open>Without a manifest the hook detects what it detects with the default one.\<close>

lemma fallback_is_default: "hook_signals (Inl e) = hook_signals (Inr DEFAULT_MANIFEST)"
  by (simp add: hook_signals_def CATEGORY_SIGNALS_def category_signals_def DEFAULT_MANIFEST_def)

section \<open>Jobs and the state of the hook\<close>

record capture_job =
  j_id :: string
  j_tool :: string
  j_input :: "string \<rightharpoonup> py_any"
  j_output :: string
  j_source :: string
  j_category :: "string option"
  j_session :: "string option"
  j_at :: string
  j_auto_wing :: bool
  j_auto_room :: bool
  j_wing :: string
  j_room :: string
  j_emits :: bool
  j_success :: bool
  j_path :: "(string \<times> string) option"
  j_wired :: bool

datatype capture_data =
    SkipData string
  | FiledData string string string "string option" nat string bool
  | FailData string string
  | OverflowData string nat
  | QueuedData string string "string option" nat bool
  | ReplayData nat

fun data_capture_id :: "capture_data \<Rightarrow> string option" where
  "data_capture_id (FiledData c w r cat n src ok) = Some c"
| "data_capture_id (FailData c reason) = Some c"
| "data_capture_id (OverflowData c n) = Some c"
| "data_capture_id (QueuedData c t cat n sp) = Some c"
| "data_capture_id _ = None"

text \<open>
  The spool is keyed by the session directory and the file's stem; a file that cannot be
  decoded holds an error.  \<open>cs_drawers\<close> is what reached the memory daemon, \<open>cs_bridged\<close> what
  the coordinator was sent.
\<close>

record capture_state =
  cs_queue :: "capture_job list"
  cs_spool :: "string \<times> string \<Rightarrow> (py_error + capture_job) option"
  cs_events :: "capture_data event_files"
  cs_drawers :: "(string \<times> string \<times> string \<times> string \<times> string option) list"
  cs_bridged :: "(string \<times> capture_data) list"

definition QUEUE_MAXSIZE :: nat where "QUEUE_MAXSIZE = 1024"

datatype effect =
    FileDrawer string string string string "string option"
  | Emit "string option" string bool "string option" capture_data
  | Bridge string capture_data
  | SpoolWrite capture_job
  | SpoolDelete "(string \<times> string) option"
  | Enqueue capture_job

definition utf8_len :: "string \<Rightarrow> nat" where
  "utf8_len s = sum_list (map (\<lambda>c. if (of_char c :: nat) < 128 then 1 else 2) s)"

text \<open>\<open>rs\<close> resolves the session, \<open>wr\<close> says whether the event log can be written.\<close>

definition emit_capture ::
    "bool \<Rightarrow> (string option \<Rightarrow> string) \<Rightarrow> string option \<Rightarrow> string \<Rightarrow> bool \<Rightarrow> string option \<Rightarrow> capture_data
       \<Rightarrow> capture_state \<Rightarrow> capture_state" where
  "emit_capture wr rs sid event ok prev d s =
     s\<lparr>cs_events := emit_event wr (rs sid) ''memory-capture'' event ok prev d (cs_events s)\<rparr>"

definition spool_key :: "(string option \<Rightarrow> string) \<Rightarrow> capture_job \<Rightarrow> string \<times> string" where
  "spool_key rs j = (rs (j_session j), j_id j)"

definition payload_of :: "capture_job \<Rightarrow> capture_job" where
  "payload_of j = j\<lparr>j_path := None, j_wired := False\<rparr>"

definition spool_write :: "(string option \<Rightarrow> string) \<Rightarrow> capture_job \<Rightarrow> capture_state \<Rightarrow> capture_state" where
  [simp]: "spool_write rs j s = s\<lparr>cs_spool := (cs_spool s)(spool_key rs j \<mapsto> Inr (payload_of j))\<rparr>"

definition spool_delete :: "(string \<times> string) option \<Rightarrow> capture_state \<Rightarrow> capture_state" where
  "spool_delete p s = (case p of None \<Rightarrow> s | Some k \<Rightarrow> s\<lparr>cs_spool := (cs_spool s)(k := None)\<rparr>)"

definition enqueue :: "bool \<Rightarrow> (string option \<Rightarrow> string) \<Rightarrow> capture_job \<Rightarrow> capture_state \<Rightarrow> capture_state" where
  "enqueue wr rs j s = (
     if length (cs_queue s) < QUEUE_MAXSIZE then
       (let s1 = s\<lparr>cs_queue := cs_queue s @ [j]\<rparr> in
        if j_emits j then emit_capture wr rs (j_session j) ''capture_queued'' True
            (truncate_preview (Some (j_output j)))
            (QueuedData (j_id j) (j_tool j) (j_category j) (utf8_len (j_output j)) (j_path j \<noteq> None)) s1
        else s1)
     else if j_emits j then emit_capture wr rs (j_session j) ''capture_overflowed'' False
            (truncate_preview (Some (j_output j))) (OverflowData (j_id j) QUEUE_MAXSIZE) s
     else s)"

fun apply_effect :: "bool \<Rightarrow> (string option \<Rightarrow> string) \<Rightarrow> effect \<Rightarrow> capture_state \<Rightarrow> capture_state" where
  "apply_effect wr rs (FileDrawer w r t src cat) s = s\<lparr>cs_drawers := cs_drawers s @ [(w, r, t, src, cat)]\<rparr>"
| "apply_effect wr rs (Emit sid event ok prev d) s = emit_capture wr rs sid event ok prev d s"
| "apply_effect wr rs (Bridge event d) s = s\<lparr>cs_bridged := cs_bridged s @ [(event, d)]\<rparr>"
| "apply_effect wr rs (SpoolWrite j) s = spool_write rs j s"
| "apply_effect wr rs (SpoolDelete p) s = spool_delete p s"
| "apply_effect wr rs (Enqueue j) s = enqueue wr rs j s"

definition run_effects ::
    "bool \<Rightarrow> (string option \<Rightarrow> string) \<Rightarrow> effect list \<Rightarrow> capture_state \<Rightarrow> capture_state" where
  "run_effects wr rs es s = fold (apply_effect wr rs) es s"

section \<open>The hot path\<close>

record capture_hook =
  h_auto_wing :: bool
  h_auto_room :: bool
  h_emits :: bool
  h_categories :: "string list"
  h_signals :: "(string \<times> string list) list"
  h_wing :: string
  h_room :: string

text \<open>What the environment decides: the opt-out, the uuid, the clock, whether the spool can be written.\<close>

record post_env =
  e_opt_out :: bool
  e_id :: string
  e_now :: string
  e_spools :: bool

definition source_of :: "payload \<Rightarrow> string" where
  "source_of p = (case p_input p ''path'' of Some v \<Rightarrow> py_str v
     | None \<Rightarrow> (case p_input p ''file_path'' of Some v \<Rightarrow> py_str v | None \<Rightarrow> p_tool p))"

definition new_job :: "capture_hook \<Rightarrow> post_env \<Rightarrow> payload \<Rightarrow> string \<Rightarrow> bool \<Rightarrow> string option \<Rightarrow> capture_job" where
  "new_job h e p out ok cat = \<lparr>j_id = e_id e, j_tool = p_tool p, j_input = p_input p, j_output = out,
     j_source = source_of p, j_category = cat, j_session = p_session p, j_at = e_now e,
     j_auto_wing = h_auto_wing h, j_auto_room = h_auto_room h, j_wing = h_wing h, j_room = h_room h,
     j_emits = h_emits h, j_success = ok, j_path = None, j_wired = False\<rparr>"

definition skip_effects :: "capture_hook \<Rightarrow> payload \<Rightarrow> string option \<Rightarrow> string \<Rightarrow> effect list" where
  "skip_effects h p prev reason = (if h_emits h then
     [Emit (p_session p) ''capture_skipped'' False prev (SkipData reason),
      Bridge ''memory:capture_skipped'' (SkipData reason)] else [])"

definition post_effects ::
    "(string option \<Rightarrow> string) \<Rightarrow> capture_hook \<Rightarrow> post_env \<Rightarrow> payload \<Rightarrow> py_error + effect list" where
  "post_effects rs h e p = (
     if e_opt_out e then Inr (if h_emits h
         then [Emit (p_session p) ''capture_skipped'' False None (SkipData ''automation_opt_out'')] else [])
     else bind_err (extract_outcome p) (\<lambda>(out, ok).
       if \<not> is_memory_worthy (p_tool p) out then
         Inr (skip_effects h p (if out = [] then None else truncate_preview (Some out)) (skip_reason (p_tool p) out))
       else let cat = detect_category_in out (Some (h_signals h)) in
         if h_categories h \<noteq> [] \<and> cat \<notin> Some ` set (h_categories h) then
           Inr (skip_effects h p (truncate_preview (Some out)) ''category_filtered'')
         else let j = new_job h e p out ok cat;
                  path = (if e_spools e then Some (spool_key rs j) else None)
              in Inr ((if e_spools e then [SpoolWrite j] else [])
                  @ [Enqueue (j\<lparr>j_path := path, j_wired := h_emits h\<rparr>)])))"

section \<open>The drain thread\<close>

text \<open>
  How \<open>_file_drawer\<close> can end: the drawer stored; the drawer stored but the call raised, as a
  lost reply does; or nothing stored.
\<close>

datatype file_outcome = Filed | StoredButRaised | NotStored

definition process_job ::
    "py_error + string \<Rightarrow> file_outcome \<Rightarrow> capture_job \<Rightarrow> py_error + effect list" where
  "process_job detected outcome j =
     bind_err (if j_auto_wing j then detected else Inr (j_wing j)) (\<lambda>wing.
       let base = (if j_auto_room j then detect_room (j_tool j) (j_input j) else j_room j);
           room = (case j_category j of Some c \<Rightarrow> if c \<noteq> [] then base @ ''-'' @ c else base | None \<Rightarrow> base);
           store = FileDrawer wing room (j_output j) (j_source j) (j_category j);
           done = FiledData (j_id j) wing room (j_category j) (utf8_len (j_output j)) (j_source j) (j_success j);
           lost = FailData (j_id j) ''mcp_error''
       in Inr (if outcome = Filed then
            [store]
            @ (if j_emits j then [Emit (j_session j) ''drawer_filed'' True (truncate_preview (Some (j_output j))) done] else [])
            @ (if j_wired j then [Bridge ''memory:drawer_filed'' done] else [])
            @ [SpoolDelete (j_path j)]
          else (if outcome = StoredButRaised then [store] else [])
            @ (if j_emits j then [Emit (j_session j) ''capture_failed'' False (truncate_preview (Some (j_output j))) lost] else [])
            @ (if j_wired j then [Bridge ''memory:capture_failed'' lost] else [])))"

text \<open>The body of \<open>_drain_loop\<close>: an exception that \<open>_process_job\<close> lets out ends the capture.\<close>

definition drain_effects :: "py_error + string \<Rightarrow> file_outcome \<Rightarrow> capture_job \<Rightarrow> effect list" where
  "drain_effects detected outcome j = (case process_job detected outcome j of Inr es \<Rightarrow> es
     | Inl err \<Rightarrow>
         (let lost = FailData (j_id j) ''worker_exception'' in
          (if j_emits j then [Emit (j_session j) ''capture_failed'' False (truncate_preview (Some (j_output j))) lost] else [])
          @ (if j_wired j then [Bridge ''memory:capture_failed'' lost] else [])
          @ [SpoolDelete (j_path j)]))"

section \<open>Replay at mount\<close>

definition COMPLETION_EVENTS :: "string set" where
  "COMPLETION_EVENTS = {''drawer_filed'', ''capture_failed''}"

definition completed_ids :: "string \<Rightarrow> capture_state \<Rightarrow> string set" where
  "completed_ids sid s = {c. c \<noteq> [] \<and> (\<exists>ev \<in> COMPLETION_EVENTS. \<exists>r.
     Rec r \<in> set (read_events (cs_events s) sid (Some ''memory-capture'') (Some ev) 100000 False)
     \<and> data_capture_id (ev_data r) = Some c)}"

text \<open>The loop over the spool files in the order \<open>glob\<close> gives them, with the ids completed.\<close>

fun replay_loop :: "string \<Rightarrow> string set \<Rightarrow> string list \<Rightarrow> capture_state \<times> nat \<Rightarrow> capture_state \<times> nat" where
  "replay_loop sid completed [] st = st"
| "replay_loop sid completed (c # cs) (s, n) = (
     if c \<in> completed then replay_loop sid completed cs (spool_delete (Some (sid, c)) s, n)
     else (case cs_spool s (sid, c) of
         None \<Rightarrow> replay_loop sid completed cs (s, n)
       | Some (Inl err) \<Rightarrow> replay_loop sid completed cs (spool_delete (Some (sid, c)) s, n)
       | Some (Inr j) \<Rightarrow>
           if length (cs_queue s) < QUEUE_MAXSIZE
           then replay_loop sid completed cs
             (s\<lparr>cs_queue := cs_queue s @ [j\<lparr>j_path := Some (sid, c), j_wired := j_emits j\<rparr>]\<rparr>, n + 1)
           else (s, n)))"

definition replay_orphans ::
    "bool \<Rightarrow> (string option \<Rightarrow> string) \<Rightarrow> string option \<Rightarrow> bool \<Rightarrow> string list \<Rightarrow> capture_state \<Rightarrow> capture_state \<times> nat" where
  "replay_orphans wr rs session emits files s = (
     let sid = rs session;
         (s1, n) = replay_loop sid (completed_ids sid s) files (s, 0)
     in (if n \<noteq> 0 \<and> emits then emit_capture wr rs session ''replay_enqueued'' True None (ReplayData n) s1 else s1, n))"

text \<open>The files \<open>glob\<close> may list: those of the session's directory, each once.\<close>

definition lists_spool :: "string \<Rightarrow> capture_state \<Rightarrow> string list \<Rightarrow> bool" where
  "lists_spool sid s files \<longleftrightarrow> distinct files \<and> (\<forall>c. c \<in> set files \<longleftrightarrow> cs_spool s (sid, c) \<noteq> None)"

section \<open>Steps\<close>

text \<open>The captures whose end is recorded under an event name, and the ids never used.\<close>

definition recorded :: "string \<Rightarrow> capture_state \<Rightarrow> (string \<times> string) set" where
  "recorded event s = {(sid, c). \<exists>r. (sid, r) \<in> event_set (cs_events s)
     \<and> ev_hook r = ''memory-capture'' \<and> ev_name r = event \<and> data_capture_id (ev_data r) = Some c}"

definition fresh_id :: "string \<Rightarrow> capture_state \<Rightarrow> bool" where
  "fresh_id c s \<longleftrightarrow> c \<noteq> [] \<and> (\<forall>sid. cs_spool s (sid, c) = None) \<and> (\<forall>j \<in> set (cs_queue s). j_id j \<noteq> c \<and> (\<forall>k. j_path j = Some k \<longrightarrow> snd k \<noteq> c))
     \<and> (\<forall>sid. \<forall>ev \<in> COMPLETION_EVENTS. (sid, c) \<notin> recorded ev s)"

inductive capture_step ::
    "bool \<Rightarrow> (string option \<Rightarrow> string) \<Rightarrow> capture_state \<Rightarrow> capture_state \<Rightarrow> bool" for wr rs where
  post: "post_effects rs h e p = Inr es \<Longrightarrow> fresh_id (e_id e) s \<Longrightarrow>
    capture_step wr rs s (run_effects wr rs es s)"
| crash_in_post: "post_effects rs h e p = Inr es \<Longrightarrow> fresh_id (e_id e) s \<Longrightarrow>
    capture_step wr rs s ((run_effects wr rs (take n es) s)\<lparr>cs_queue := []\<rparr>)"
| drain: "cs_queue s = j # q \<Longrightarrow> es = drain_effects detected outcome j \<Longrightarrow>
    capture_step wr rs s (run_effects wr rs es (s\<lparr>cs_queue := q\<rparr>))"
| crash: "cs_queue s = j # q \<Longrightarrow> es = drain_effects detected outcome j \<Longrightarrow>
    capture_step wr rs s ((run_effects wr rs (take n es) s)\<lparr>cs_queue := []\<rparr>)"
| mount: "lists_spool (rs session) s files \<Longrightarrow>
    capture_step wr rs s (fst (replay_orphans wr rs session emits files s))"

inductive capture_steps ::
    "bool \<Rightarrow> (string option \<Rightarrow> string) \<Rightarrow> capture_state \<Rightarrow> capture_state \<Rightarrow> bool" for wr rs where
  refl: "capture_steps wr rs s s"
| step: "capture_steps wr rs s s' \<Longrightarrow> capture_step wr rs s' s'' \<Longrightarrow> capture_steps wr rs s s''"

definition capture_init :: capture_state where
  "capture_init = \<lparr>cs_queue = [], cs_spool = (\<lambda>k. None), cs_events = Map.empty, cs_drawers = [], cs_bridged = []\<rparr>"

section \<open>What becomes of a capture\<close>

definition stored :: "capture_job \<Rightarrow> capture_state \<Rightarrow> bool" where
  "stored j s \<longleftrightarrow> (\<exists>w r. (w, r, j_output j, j_source j, j_category j) \<in> set (cs_drawers s))"

definition settled :: "(string option \<Rightarrow> string) \<Rightarrow> capture_job \<Rightarrow> capture_state \<Rightarrow> bool" where
  "settled rs j s \<longleftrightarrow> stored j s \<or> spool_key rs j \<in> recorded ''capture_failed'' s"

text \<open>The files of the spool are named by their jobs.\<close>

definition spool_named :: "(string option \<Rightarrow> string) \<Rightarrow> capture_state \<Rightarrow> bool" where
  "spool_named rs s \<longleftrightarrow> (\<forall>k j. cs_spool s k = Some (Inr j) \<longrightarrow> k = spool_key rs j \<and> payload_of j = j)"

text \<open>Still to do: the capture is in the spool, and what is queued under its name is it.\<close>

definition owns :: "(string option \<Rightarrow> string) \<Rightarrow> string \<times> string \<Rightarrow> capture_job \<Rightarrow> bool" where
  "owns rs k q \<longleftrightarrow> spool_key rs q = k \<or> j_path q = Some k"

definition held :: "(string option \<Rightarrow> string) \<Rightarrow> capture_job \<Rightarrow> capture_state \<Rightarrow> bool" where
  "held rs j s \<longleftrightarrow> cs_spool s (spool_key rs j) = Some (Inr j) \<and> spool_named rs s
     \<and> (\<forall>q \<in> set (cs_queue s). owns rs (spool_key rs j) q \<longrightarrow> payload_of q = j)
     \<and> (\<forall>ev \<in> COMPLETION_EVENTS. spool_key rs j \<notin> recorded ev s)"

lemma recorded_union:
  assumes "event_set (cs_events s') = event_set (cs_events s) \<union> X"
  shows "recorded ev s' = recorded ev s \<union> {(sid, c). \<exists>r. (sid, r) \<in> X
    \<and> ev_hook r = ''memory-capture'' \<and> ev_name r = ev \<and> data_capture_id (ev_data r) = Some c}"
  using assms unfolding recorded_def by blast

lemma recorded_emit:
  "recorded ev (emit_capture wr rs sid event ok prev d s) = recorded ev s \<union>
     (if wr \<and> event = ev then (case data_capture_id d of Some c \<Rightarrow> {(rs sid, c)} | None \<Rightarrow> {}) else {})"
proof -
  have "event_set (cs_events (emit_capture wr rs sid event ok prev d s)) = event_set (cs_events s) \<union>
     (if wr then {(rs sid, \<lparr>ev_sid = rs sid, ev_hook = ''memory-capture'', ev_name = event, ev_ok = ok,
        ev_preview = truncate_preview prev, ev_data = d\<rparr>)} else {})"
    by (simp add: emit_capture_def event_set_emit)
  from recorded_union [OF this, of ev] show ?thesis
    by (cases wr; cases "data_capture_id d") auto
qed

lemma emit_capture_simps [simp]:
  "cs_queue (emit_capture wr rs sid event ok prev d s) = cs_queue s"
  "cs_spool (emit_capture wr rs sid event ok prev d s) = cs_spool s"
  "cs_drawers (emit_capture wr rs sid event ok prev d s) = cs_drawers s"
  by (simp_all add: emit_capture_def)

lemma recorded_cong [simp]:
  "recorded ev (s\<lparr>cs_queue := q\<rparr>) = recorded ev s" "recorded ev (s\<lparr>cs_spool := sp\<rparr>) = recorded ev s"
  "recorded ev (s\<lparr>cs_drawers := ds\<rparr>) = recorded ev s" "recorded ev (s\<lparr>cs_bridged := bs\<rparr>) = recorded ev s"
  by (simp_all add: recorded_def)

lemma payload_key [simp]: "spool_key rs (payload_of j) = spool_key rs j" "payload_of (payload_of j) = payload_of j"
  "payload_of (j\<lparr>j_path := p, j_wired := w\<rparr>) = payload_of j" "spool_key rs (j\<lparr>j_path := p, j_wired := w\<rparr>) = spool_key rs j"
  by (simp_all add: payload_of_def spool_key_def)

text \<open>Nothing takes an outcome back.\<close>

lemma settled_effect: "settled rs j s \<Longrightarrow> settled rs j (apply_effect wr rs' e s)"
  by (cases e) (auto simp: settled_def stored_def recorded_emit spool_delete_def enqueue_def Let_def
    split: option.splits)

lemma settled_run: "settled rs j s \<Longrightarrow> settled rs j (run_effects wr rs' es s)"
  unfolding run_effects_def by (induction es arbitrary: s) (auto simp: settled_effect)

lemma settled_queue [simp]: "settled rs j (s\<lparr>cs_queue := q\<rparr>) = settled rs j s"
  by (simp add: settled_def stored_def)

text \<open>Effects that concern other captures only.\<close>

fun spares :: "(string option \<Rightarrow> string) \<Rightarrow> string \<times> string \<Rightarrow> effect \<Rightarrow> bool" where
  "spares rs k (Emit sid event ok prev d) \<longleftrightarrow> event \<in> COMPLETION_EVENTS
     \<longrightarrow> data_capture_id d \<noteq> None \<longrightarrow> (rs sid, the (data_capture_id d)) \<noteq> k"
| "spares rs k (SpoolWrite q) \<longleftrightarrow> spool_key rs q \<noteq> k"
| "spares rs k (SpoolDelete p) \<longleftrightarrow> p \<noteq> Some k"
| "spares rs k (Enqueue q) \<longleftrightarrow> \<not> owns rs k q"
| "spares rs k _ \<longleftrightarrow> True"

lemma enqueue_spool [simp]: "cs_spool (enqueue wr rs q s) = cs_spool s"
  by (simp add: enqueue_def Let_def)

lemma named_cong: "cs_spool s' = cs_spool s \<Longrightarrow> spool_named rs s \<Longrightarrow> spool_named rs s'"
  by (simp add: spool_named_def)

lemma named_effect: "spool_named rs s \<Longrightarrow> spool_named rs (apply_effect wr rs e s)"
proof (cases e)
  case (SpoolDelete p)
  then show "spool_named rs s \<Longrightarrow> ?thesis" by (cases p) (simp_all add: spool_named_def spool_delete_def)
next
  case (SpoolWrite q)
  then show "spool_named rs s \<Longrightarrow> ?thesis" by (simp add: spool_named_def)
qed (simp_all add: spool_named_def)

lemma named_run: "spool_named rs s \<Longrightarrow> spool_named rs (run_effects wr rs es s)"
  unfolding run_effects_def by (induction es arbitrary: s) (auto simp: named_effect)

lemma held_emit: "held rs j s \<Longrightarrow> spares rs (spool_key rs j) (Emit sid event ok prev d)
    \<Longrightarrow> held rs j (emit_capture wr rs sid event ok prev d s)"
  by (cases "data_capture_id d") (auto simp: held_def recorded_emit spool_named_def)

lemma held_enqueue:
  assumes "held rs j s" and "owns rs (spool_key rs j) q \<longrightarrow> payload_of q = j"
  shows "held rs j (enqueue wr rs q s)"
proof -
  have "held rs j (s\<lparr>cs_queue := cs_queue s @ [q]\<rparr>)" using assms by (auto simp: held_def spool_named_def)
  then show ?thesis using assms(1) by (auto simp: enqueue_def Let_def COMPLETION_EVENTS_def intro!: held_emit)
qed

lemma held_effect:
  assumes "held rs j s" and "spares rs (spool_key rs j) e"
  shows "held rs j (apply_effect wr rs e s)"
proof (cases e)
  case (SpoolWrite q)
  then show ?thesis using assms named_effect [of rs s wr e] by (auto simp: held_def)
next
  case (SpoolDelete p)
  then show ?thesis using assms named_effect [of rs s wr e] by (cases p) (auto simp: held_def spool_delete_def)
next
  case (Emit sid event ok prev d)
  then show ?thesis using assms held_emit by simp
next
  case (Enqueue q)
  then show ?thesis using assms held_enqueue by simp
qed (use assms in \<open>auto simp: held_def spool_named_def\<close>)

lemma held_run:
  "held rs j s \<Longrightarrow> \<forall>e \<in> set es. spares rs (spool_key rs j) e \<Longrightarrow> held rs j (run_effects wr rs es s)"
  unfolding run_effects_def by (induction es arbitrary: s) (auto simp: held_effect)

lemma held_queue: "held rs j s \<Longrightarrow> set q \<subseteq> set (cs_queue s) \<Longrightarrow> held rs j (s\<lparr>cs_queue := q\<rparr>)"
  by (auto simp: held_def spool_named_def)

section \<open>Every step keeps what is held\<close>

lemma drain_forms:
  assumes "e \<in> set (drain_effects detected outcome q)"
  shows "(\<exists>w r. e = FileDrawer w r (j_output q) (j_source q) (j_category q)) \<or> (\<exists>ev d. e = Bridge ev d)
    \<or> (\<exists>ev ok pv d. e = Emit (j_session q) ev ok pv d \<and> data_capture_id d = Some (j_id q))
    \<or> e = SpoolDelete (j_path q)"
proof (cases "process_job detected outcome q")
  case (Inl err)
  then show ?thesis using assms by (simp add: drain_effects_def Let_def split: if_splits) auto
next
  case (Inr es)
  then have "e \<in> set es" using assms by (simp add: drain_effects_def)
  then show ?thesis using Inr
    by (cases "if j_auto_wing q then detected else Inr (j_wing q)"; cases outcome)
       (simp_all add: process_job_def Let_def split: if_splits, auto)
qed

lemma held_other_job:
  assumes "held rs j s" and "q \<in> set (cs_queue s)" and "payload_of q \<noteq> j"
  shows "\<forall>e \<in> set (drain_effects detected outcome q). spares rs (spool_key rs j) e"
proof
  fix e assume e: "e \<in> set (drain_effects detected outcome q)"
  have "\<not> owns rs (spool_key rs j) q" using assms by (auto simp: held_def)
  then show "spares rs (spool_key rs j) e"
    using drain_forms [OF e] by (auto simp: owns_def spool_key_def)
qed

text \<open>The first effect of draining the capture itself settles it.\<close>

lemma drain_settles:
  assumes "payload_of q = j" and "j_emits j"
  shows "\<exists>e es. drain_effects detected outcome q = e # es \<and> settled rs j (apply_effect True rs e s)"
proof -
  have q: "j_emits q" "j_output j = j_output q" "j_source j = j_source q" "j_category j = j_category q"
      "j_session j = j_session q" "j_id j = j_id q"
    using assms by (auto simp: payload_of_def)
  let ?lost = "\<lambda>r. Emit (j_session q) ''capture_failed'' False (truncate_preview (Some (j_output q))) (FailData (j_id q) r)"
  have f: "settled rs j (apply_effect True rs (?lost r) s)" for r
    by (simp add: settled_def recorded_emit q spool_key_def)
  have g: "settled rs j (apply_effect True rs (FileDrawer w r (j_output q) (j_source q) (j_category q)) s)" for w r
    by (auto simp: settled_def stored_def q)
  show ?thesis
    by (cases "process_job detected outcome q"; cases outcome)
       (use q(1) f g in \<open>auto simp: drain_effects_def process_job_def Let_def bind_err_def split: sum.splits if_splits\<close>)
qed

lemma drain_keeps:
  assumes "settled rs j s \<or> held rs j s" and "j_emits j" and "q \<in> set (cs_queue s)" and "set qs \<subseteq> set (cs_queue s)"
    and "es = drain_effects detected outcome q"
  shows "let s' = run_effects True rs (take n es) (s\<lparr>cs_queue := qs\<rparr>) in settled rs j s' \<or> held rs j s'"
proof -
  let ?s = "s\<lparr>cs_queue := qs\<rparr>"
  have start: "settled rs j ?s \<or> held rs j ?s" using assms(1,4) held_queue by auto
  then consider (fin) "settled rs j ?s" | (own) "payload_of q = j" "held rs j ?s" | (other) "payload_of q \<noteq> j" "held rs j s" "held rs j ?s"
    using assms(1) by fastforce
  then show ?thesis
  proof cases
    case fin
    then show ?thesis by (simp add: settled_run Let_def)
  next
    case own
    obtain e es' where e: "es = e # es'" "settled rs j (apply_effect True rs e ?s)"
      using drain_settles [OF own(1) assms(2), of detected outcome rs ?s] assms(5) by auto
    show ?thesis
    proof (cases n)
      case 0
      then show ?thesis using own(2) by (simp add: run_effects_def)
    next
      case (Suc m)
      have "run_effects True rs (take n es) ?s = run_effects True rs (take m es') (apply_effect True rs e ?s)"
        by (simp add: Suc e(1) run_effects_def)
      then show ?thesis using settled_run [OF e(2)] by simp
    qed
  next
    case other
    have "\<forall>e \<in> set (take n es). spares rs (spool_key rs j) e"
      using held_other_job [OF other(2) assms(3) other(1)] assms(5) by (meson in_set_takeD)
    then show ?thesis using held_run [OF other(3)] by simp
  qed
qed

text \<open>What the hot path does: it skips, or it spools and queues one job.\<close>

definition skips :: "effect list \<Rightarrow> bool" where
  "skips es \<longleftrightarrow> (\<forall>x \<in> set es. (\<exists>sid pv d. x = Emit sid ''capture_skipped'' False pv d) \<or> (\<exists>ev d. x = Bridge ev d))"

definition job_effects :: "(string option \<Rightarrow> string) \<Rightarrow> capture_hook \<Rightarrow> post_env \<Rightarrow> capture_job \<Rightarrow> effect list" where
  "job_effects rs h e k = (if e_spools e then [SpoolWrite k] else [])
     @ [Enqueue (k\<lparr>j_path := if e_spools e then Some (spool_key rs k) else None, j_wired := h_emits h\<rparr>)]"

definition captures :: "capture_hook \<Rightarrow> post_env \<Rightarrow> payload \<Rightarrow> string \<Rightarrow> bool" where
  "captures h e p out \<longleftrightarrow> \<not> e_opt_out e \<and> 50 \<le> length out \<and> length out \<le> 8192 \<and> p_tool p \<notin> SKIP_TOOLS
     \<and> (h_categories h = [] \<or> detect_category_in out (Some (h_signals h)) \<in> Some ` set (h_categories h))"

lemma worthy_iff: "is_memory_worthy tool out \<longleftrightarrow> 50 \<le> length out \<and> length out \<le> 8192 \<and> tool \<notin> SKIP_TOOLS"
  by (auto simp: is_memory_worthy_def)

lemma skips_skip: "skips (skip_effects h p pv r)"
  unfolding skips_def skip_effects_def by auto

lemma post_captures:
  assumes "captures h e p out" and "extract_outcome p = Inr (out, ok)"
  shows "post_effects rs h e p = Inr (job_effects rs h e (new_job h e p out ok (detect_category_in out (Some (h_signals h)))))"
  using assms by (simp add: post_effects_def captures_def worthy_iff job_effects_def Let_def) metis

lemma post_skips:
  assumes "post_effects rs h e p = Inr es" and "e_opt_out e \<or> (\<exists>out ok. extract_outcome p = Inr (out, ok) \<and> \<not> captures h e p out)"
  shows "skips es"
proof (cases "e_opt_out e")
  case True
  then show ?thesis using assms(1) by (auto simp: post_effects_def skips_def split: if_splits)
next
  case False
  then obtain out ok where x: "extract_outcome p = Inr (out, ok)" "\<not> captures h e p out" using assms(2) by blast
  then have "\<exists>pv r. es = skip_effects h p pv r"
    using assms(1) False by (simp add: post_effects_def captures_def worthy_iff Let_def split: if_split_asm) blast+
  then show ?thesis using skips_skip by blast
qed

lemma post_forms:
  assumes "post_effects rs h e p = Inr es"
  shows "skips es \<or> (\<exists>out ok. es = job_effects rs h e (new_job h e p out ok (detect_category_in out (Some (h_signals h)))))"
proof (cases "extract_outcome p")
  case (Inl err)
  then have "e_opt_out e" using assms by (auto simp: post_effects_def split: if_splits)
  then show ?thesis using post_skips [OF assms] by blast
next
  case (Inr r)
  obtain out ok where "r = (out, ok)" by (rule prod.exhaust)
  then show ?thesis using Inr post_skips [OF assms] post_captures [of h e p out ok rs] assms by auto
qed

lemma post_spares:
  assumes "held rs j s" and "fresh_id (e_id e) s" and "post_effects rs h e p = Inr es"
  shows "\<forall>x \<in> set es. spares rs (spool_key rs j) x"
  using post_forms [OF assms(3)]
proof
  assume "skips es"
  then show ?thesis by (auto simp: skips_def COMPLETION_EVENTS_def)
next
  assume "\<exists>out ok. es = job_effects rs h e (new_job h e p out ok (detect_category_in out (Some (h_signals h))))"
  then obtain k where k: "es = job_effects rs h e k" "j_id k = e_id e" by (auto simp: new_job_def)
  then have "spool_key rs k \<noteq> spool_key rs j"
    using assms(1,2) by (cases "spool_key rs j") (auto simp: held_def fresh_id_def spool_key_def)
  then show ?thesis by (auto simp: k(1) job_effects_def owns_def split: if_splits)
qed

lemma completed_ids_recorded: "c \<in> completed_ids sid s \<Longrightarrow> \<exists>ev \<in> COMPLETION_EVENTS. (sid, c) \<in> recorded ev s"
proof -
  assume "c \<in> completed_ids sid s"
  then obtain ev r where h: "ev \<in> COMPLETION_EVENTS" "data_capture_id (ev_data r) = Some c"
      "Rec r \<in> set (read_events (cs_events s) sid (Some ''memory-capture'') (Some ev) 100000 False)"
    unfolding completed_ids_def by blast
  obtain ls where "cs_events s sid = Some ls" "Rec r \<in> set ls" "wanted (Some ''memory-capture'') (Some ev) r"
    using read_events_sound [OF h(3)] by blast
  moreover have "ev \<noteq> []" using h(1) by (auto simp: COMPLETION_EVENTS_def)
  ultimately have "(sid, c) \<in> recorded ev s"
    using h(2) by (auto simp: recorded_def event_set_def wanted_def)
  then show ?thesis using h(1) by blast
qed

lemma replay_loop_keeps:
  assumes "held rs j (fst st)" and "fst (spool_key rs j) = sid \<longrightarrow> snd (spool_key rs j) \<notin> completed"
  shows "held rs j (fst (replay_loop sid completed cs st))"
  using assms
proof (induction sid completed cs st rule: replay_loop.induct)
  case (2 sid completed c cs s n)
  have del: "held rs j (spool_delete (Some (sid, c)) s)" if "(sid, c) \<noteq> spool_key rs j"
    using held_effect [of rs j s "SpoolDelete (Some (sid, c))" True] 2(5) that by simp
  have push: "held rs j (s\<lparr>cs_queue := cs_queue s @ [j'\<lparr>j_path := Some (sid, c), j_wired := w\<rparr>]\<rparr>)"
    if "cs_spool s (sid, c) = Some (Inr j')" for j' w
  proof -
    have "(sid, c) = spool_key rs j'" "payload_of j' = j'" using 2(5) that by (auto simp: held_def spool_named_def)
    moreover have "(sid, c) = spool_key rs j \<Longrightarrow> j' = j" using 2(5) that by (simp add: held_def)
    ultimately show ?thesis using 2(5) by (auto simp: held_def spool_named_def owns_def)
  qed
  have here: "(sid, c) = spool_key rs j \<Longrightarrow> cs_spool s (sid, c) = Some (Inr j)"
    using 2(5) by (simp add: held_def)
  have nc: "c \<in> completed \<Longrightarrow> (sid, c) \<noteq> spool_key rs j" using 2(6) by (metis fst_conv snd_conv)
  note IH = 2(1-4) and keep = 2(6)
  show ?case
  proof (cases "c \<in> completed")
    case True
    then show ?thesis using IH(1) [OF True] del nc keep by simp
  next
    case c: False
    show ?thesis
    proof (cases "cs_spool s (sid, c)")
      case None
      then show ?thesis using IH(2) [OF c None] c 2(5) keep by simp
    next
      case (Some v)
      show ?thesis
      proof (cases v)
        case (Inl err)
        then have "(sid, c) \<noteq> spool_key rs j" using here Some by auto
        then show ?thesis using IH(3) [OF c Some Inl] c Some Inl del keep by simp
      next
        case (Inr j')
        have p: "held rs j (s\<lparr>cs_queue := cs_queue s @ [j'\<lparr>j_path := Some (sid, c), j_wired := j_emits j'\<rparr>]\<rparr>)"
          by (rule push) (simp add: Some Inr)
        show ?thesis
        proof (cases "length (cs_queue s) < QUEUE_MAXSIZE")
          case True
          show ?thesis using IH(4) [OF c Some Inr True] c Some Inr True p keep by simp
        next
          case False
          then show ?thesis using c Some Inr 2(5) by simp
        qed
      qed
    qed
  qed
qed simp

lemma capture_step_keeps:
  assumes "capture_step True rs s s'" and "settled rs j s \<or> held rs j s" and "j_emits j"
  shows "settled rs j s' \<or> held rs j s'"
  using assms(1)
proof cases
  case (post h e p es)
  then show ?thesis using assms(2) held_run post_spares settled_run by blast
next
  case (crash_in_post h e p es n)
  have "settled rs j (run_effects True rs (take n es) s) \<or> held rs j (run_effects True rs (take n es) s)"
    using assms(2) held_run post_spares [OF _ crash_in_post(3,2)] settled_run by (meson in_set_takeD)
  then show ?thesis using crash_in_post(1) held_queue by auto
next
  case (drain q qs es detected outcome)
  then show ?thesis
    using drain_keeps [OF assms(2,3), of q qs es detected outcome "length es"] by (simp add: subset_insertI Let_def)
next
  case (crash q qs es detected outcome n)
  have "let s' = run_effects True rs (take n es) (s\<lparr>cs_queue := cs_queue s\<rparr>) in settled rs j s' \<or> held rs j s'"
    by (rule drain_keeps [OF assms(2,3)]) (use crash in simp_all)
  then show ?thesis using crash(1) held_queue by (auto simp: Let_def)
next
  case (mount session files emits)
  have fin: "settled rs j s \<Longrightarrow> settled rs j (fst (replay_loop sid comp cs (s, n)))" for sid comp cs s n
    by (induction sid comp cs "(s, n)" arbitrary: s n rule: replay_loop.induct)
       (auto simp: settled_def stored_def spool_delete_def split: option.splits sum.splits)
  have em: "settled rs j t \<or> held rs j t \<Longrightarrow>
      settled rs j (emit_capture True rs session ''replay_enqueued'' True None d t)
      \<or> held rs j (emit_capture True rs session ''replay_enqueued'' True None d t)" for t d
    using settled_effect [of rs j t True rs "Emit session ''replay_enqueued'' True None d"]
      held_emit [of rs j t session "''replay_enqueued''" True None d] by (auto simp: COMPLETION_EVENTS_def)
  have nc: "held rs j s \<Longrightarrow> fst (spool_key rs j) = rs session \<Longrightarrow> snd (spool_key rs j) \<notin> completed_ids (rs session) s"
    by (cases "spool_key rs j") (fastforce simp: held_def dest: completed_ids_recorded)
  obtain s1 n where l: "replay_loop (rs session) (completed_ids (rs session) s) files (s, 0) = (s1, n)"
    by (rule prod.exhaust)
  have "settled rs j s1 \<or> held rs j s1"
    using assms(2) fin [of s "rs session" "completed_ids (rs session) s" files 0] nc
      replay_loop_keeps [of rs j "(s, 0)" "rs session" "completed_ids (rs session) s" files] l by auto
  then show ?thesis unfolding mount(1)
    using em [of s1 "ReplayData n"] by (simp add: replay_orphans_def Let_def l)
qed

lemma capture_steps_keep:
  "capture_steps True rs s s' \<Longrightarrow> settled rs j s \<or> held rs j s \<Longrightarrow> j_emits j \<Longrightarrow> settled rs j s' \<or> held rs j s'"
  by (induction rule: capture_steps.induct) (auto dest: capture_step_keeps)

lemma capture_steps_named: "capture_steps wr rs s s' \<Longrightarrow> spool_named rs s \<Longrightarrow> spool_named rs s'"
proof (induction rule: capture_steps.induct)
  case (step s1 s2 s3)
  have cut: "spool_named rs (s\<lparr>cs_queue := q\<rparr>) = spool_named rs s" for s q by (simp add: spool_named_def)
  have loop: "spool_named rs (fst st) \<Longrightarrow> spool_named rs (fst (replay_loop sid done_ids cs st))" for sid done_ids cs st
    using named_effect [of rs _ True "SpoolDelete _"]
    by (induction sid done_ids cs st rule: replay_loop.induct) (auto simp: cut split: option.splits sum.splits)
  have "spool_named rs s2" by (rule step.IH) (fact step.prems)
  with step.hyps(2) show ?case
  proof cases
    case (mount session files emits)
    then show ?thesis using \<open>spool_named rs s2\<close> loop [of "(s2, 0)" "rs session" "completed_ids (rs session) s2" files]
      by (auto simp: replay_orphans_def Let_def spool_named_def split: prod.splits)
  qed (auto simp: cut intro: named_run)
qed simp

lemma replay_loop_bound:
  "length (cs_queue (fst st)) \<le> QUEUE_MAXSIZE \<Longrightarrow> length (cs_queue (fst (replay_loop sid done_ids cs st))) \<le> QUEUE_MAXSIZE"
  by (induction sid done_ids cs st rule: replay_loop.induct)
     (auto simp: spool_delete_def split: option.splits sum.splits)

lemma effect_bound: "length (cs_queue s) \<le> QUEUE_MAXSIZE \<Longrightarrow> length (cs_queue (apply_effect wr rs e s)) \<le> QUEUE_MAXSIZE"
  by (cases e) (auto simp: spool_delete_def enqueue_def Let_def split: option.splits)

lemma run_bound: "length (cs_queue s) \<le> QUEUE_MAXSIZE \<Longrightarrow> length (cs_queue (run_effects wr rs es s)) \<le> QUEUE_MAXSIZE"
  unfolding run_effects_def by (induction es arbitrary: s) (simp_all add: effect_bound)

lemma new_job_payload [simp]: "payload_of (new_job h e p out ok cat) = new_job h e p out ok cat"
  by (simp add: payload_of_def new_job_def)

text \<open>A spooled capture is written first, and then only it is queued.\<close>

lemma post_spools:
  assumes "post_effects rs h e p = Inr es" and "SpoolWrite j \<in> set es"
  shows "\<exists>q. es = [SpoolWrite j, Enqueue q] \<and> payload_of q = j \<and> payload_of j = j \<and> j_id j = e_id e
    \<and> j_emits j = h_emits h"
proof -
  have "\<not> skips es" using assms(2) by (auto simp: skips_def)
  then obtain out ok where "es = job_effects rs h e (new_job h e p out ok (detect_category_in out (Some (h_signals h))))"
    using post_forms [OF assms(1)] by blast
  moreover from this have "e_spools e" "j = new_job h e p out ok (detect_category_in out (Some (h_signals h)))"
    using assms(2) by (auto simp: job_effects_def split: if_splits)
  ultimately show ?thesis by (simp add: job_effects_def) (simp add: new_job_def)
qed

lemma post_held:
  assumes "spool_named rs s" and "fresh_id (e_id e) s" and "post_effects rs h e p = Inr es"
    and "SpoolWrite j \<in> set (take n es)"
  shows "held rs j (run_effects wr rs (take n es) s)" "j_emits j = h_emits h"
proof -
  obtain q where q: "es = [SpoolWrite j, Enqueue q]" "payload_of q = j" "payload_of j = j" "j_id j = e_id e"
      "j_emits j = h_emits h"
    using post_spools [OF assms(3)] assms(4) by (meson in_set_takeD)
  have h: "held rs j (apply_effect wr rs (SpoolWrite j) s)"
    using assms(1,2) q(3,4) by (fastforce simp: held_def spool_named_def fresh_id_def owns_def spool_key_def)
  have "n \<noteq> 0" using assms(4) by (cases n) simp_all
  then consider "take n es = [SpoolWrite j]" | "take n es = [SpoolWrite j, Enqueue q]"
    using q(1) by (cases n; cases "n - 1") auto
  then show "held rs j (run_effects wr rs (take n es) s)"
    using h held_enqueue [OF h, of q wr] q(2) by cases (simp_all add: run_effects_def)
  show "j_emits j = h_emits h" by (rule q(5))
qed

lemma replay_loop_completed:
  assumes "length (cs_queue (fst st)) + length cs \<le> QUEUE_MAXSIZE"
  shows "cs_drawers (fst (replay_loop sid done_ids cs st)) = cs_drawers (fst st)
    \<and> (c \<in> done_ids \<longrightarrow> (c \<in> set cs \<or> cs_spool (fst st) (sid, c) = None
        \<longrightarrow> cs_spool (fst (replay_loop sid done_ids cs st)) (sid, c) = None)
      \<and> (\<forall>x. j_path x = Some (sid, c) \<longrightarrow>
        count_list (cs_queue (fst (replay_loop sid done_ids cs st))) x = count_list (cs_queue (fst st)) x))"
  using assms
  by (induction sid done_ids cs st rule: replay_loop.induct)
     (auto simp: spool_delete_def split: option.splits sum.splits)

section \<open>Properties\<close>

text \<open>
  C1: With the hook's events on (\<open>h_emits\<close>, the default) and an event log that can be written (the first argument
  of \<open>capture_steps\<close>), no captured output is silently lost.  Once the hook has written a capture to the spool --
  even if it crashes right after -- every later state, over any interleaving of posts, drains,
  crashes in the middle of a drain and replays at mount, still has it in the spool, or has
  its text stored as a drawer, or has a recorded \<open>capture_failed\<close> for it.  Without events, or with a log that
  cannot be written, it can be lost without a trace: \<open>quiet_failure_loses_text\<close>.
\<close>

theorem captured_output_is_never_lost:
  assumes "capture_steps True rs capture_init s" and "fresh_id (e_id e) s"
    and "post_effects rs h e p = Inr es" and "h_emits h" and "SpoolWrite j \<in> set (take n es)"
    and "capture_steps True rs (run_effects True rs (take n es) s) s'"
  shows "cs_spool s' (spool_key rs j) = Some (Inr j)
    \<or> (\<exists>w r. (w, r, j_output j, j_source j, j_category j) \<in> set (cs_drawers s'))
    \<or> spool_key rs j \<in> recorded ''capture_failed'' s'"
proof -
  have "spool_named rs capture_init" by (simp add: spool_named_def capture_init_def)
  then have "spool_named rs s" using capture_steps_named [OF assms(1)] by simp
  from post_held [OF this assms(2,3,5)]
  have "settled rs j s' \<or> held rs j s'" using capture_steps_keep [OF assms(6)] assms(4) by simp
  then show ?thesis by (auto simp: settled_def stored_def held_def)
qed

definition demo_hook :: capture_hook where
  "demo_hook = \<lparr>h_auto_wing = False, h_auto_room = False, h_emits = True, h_categories = [], h_signals = [],
     h_wing = ''w'', h_room = ''r''\<rparr>"

definition demo_env :: post_env where
  "demo_env = \<lparr>e_opt_out = False, e_id = ''c1'', e_now = ''t'', e_spools = True\<rparr>"

definition demo_payload :: payload where
  "demo_payload = \<lparr>p_tool = ''bash'', p_input = Map.empty, p_session = Some ''s'',
     p_result = ResultStr (replicate 50 CHR ''a''), p_flat = Map.empty\<rparr>"

definition demo_job :: capture_job where
  "demo_job = new_job demo_hook demo_env demo_payload (replicate 50 CHR ''a'') True None"

lemma demo_post:
  "post_effects (case_option '''' id) demo_hook demo_env demo_payload
    = Inr [SpoolWrite demo_job, Enqueue (demo_job\<lparr>j_path := Some (''s'', ''c1''), j_wired := True\<rparr>)]"
  by (simp add: post_effects_def demo_hook_def demo_env_def demo_payload_def extract_outcome_def demo_job_def
    is_memory_worthy_def SKIP_TOOLS_def spool_key_def new_job_def detect_category_in_def Let_def)

lemma demo_fresh: "fresh_id ''c1'' capture_init"
  by (simp add: fresh_id_def capture_init_def recorded_def event_set_def)

theorem captured_output_is_never_lost_witness:
  "\<exists>s'. capture_steps True (case_option '''' id) (run_effects True (case_option '''' id)
        [SpoolWrite demo_job] capture_init) s'
    \<and> (cs_spool s' (''s'', ''c1'') = Some (Inr demo_job)
      \<or> (\<exists>w r. (w, r, j_output demo_job, j_source demo_job, j_category demo_job) \<in> set (cs_drawers s'))
      \<or> (''s'', ''c1'') \<in> recorded ''capture_failed'' s')"
proof -
  have "spool_key (case_option '''' id) demo_job = (''s'', ''c1'')"
    by (simp add: spool_key_def demo_job_def new_job_def demo_payload_def demo_env_def)
  then show ?thesis
    using captured_output_is_never_lost [OF capture_steps.refl _ demo_post _ _ capture_steps.refl, where n = 1 and j = demo_job]
      demo_fresh capture_steps.refl by (auto simp: demo_env_def demo_hook_def intro!: exI)
qed

text \<open>
  with the events off, or a log that cannot be written, an exception that \<open>_process_job\<close> lets out (the detection of the
  wing raising) deletes the spool entry of the capture with nothing stored and nothing recorded.
\<close>

theorem quiet_failure_loses_text:
  assumes "cs_queue s = j # q" and "j_auto_wing j" and "j_path j = Some (spool_key rs j)" and "\<not> j_emits j \<or> \<not> wr"
  shows "\<exists>s'. capture_step wr rs s s' \<and> cs_spool s' (spool_key rs j) = None \<and> cs_queue s' = q
    \<and> cs_drawers s' = cs_drawers s \<and> cs_events s' = cs_events s"
proof -
  define err where "err = FileNotFoundError []"
  define s' where "s' = run_effects wr rs (drain_effects (Inl err) NotStored j) (s\<lparr>cs_queue := q\<rparr>)"
  have "capture_step wr rs s s'" unfolding s'_def by (rule capture_step.drain [OF assms(1) HOL.refl])
  moreover have "cs_spool s' (spool_key rs j) = None \<and> cs_queue s' = q \<and> cs_drawers s' = cs_drawers s \<and> cs_events s' = cs_events s"
    using assms(2-4) by (auto simp: s'_def drain_effects_def process_job_def run_effects_def spool_delete_def emit_capture_def emit_event_def bind_err_def Let_def)
  ultimately show ?thesis by blast
qed

text \<open>What a silent hook queues for a capture.\<close>

definition quiet_job :: capture_job where
  "quiet_job = demo_job\<lparr>j_auto_wing := True, j_emits := False, j_path := Some (''s'', ''c1'')\<rparr>"

theorem quiet_failure_loses_text_witness:
  "\<exists>s'. capture_step True (case_option '''' id)
      (capture_init\<lparr>cs_queue := [quiet_job], cs_spool := [(''s'', ''c1'') \<mapsto> Inr (payload_of quiet_job)]\<rparr>) s'
    \<and> cs_spool s' (''s'', ''c1'') = None \<and> cs_drawers s' = []"
proof -
  let ?s = "capture_init\<lparr>cs_queue := [quiet_job], cs_spool := [(''s'', ''c1'') \<mapsto> Inr (payload_of quiet_job)]\<rparr>"
  have "spool_key (case_option '''' id) quiet_job = (''s'', ''c1'')"
    by (simp add: spool_key_def quiet_job_def demo_job_def new_job_def demo_payload_def demo_env_def)
  moreover have "cs_queue ?s = quiet_job # []" "cs_drawers ?s = []" by (simp_all add: capture_init_def)
  moreover have "j_auto_wing quiet_job" "\<not> j_emits quiet_job" "j_path quiet_job = Some (''s'', ''c1'')" by (simp_all add: quiet_job_def)
  ultimately show ?thesis using quiet_failure_loses_text [of ?s quiet_job "[]" "case_option '''' id" True] by auto
qed

text \<open>
  a capture that is still queued when its session is mounted again is queued a second time, since its spool entry has no
  completion event yet: it is filed twice, and reported to the session twice.
\<close>

theorem replayed_capture_is_filed_twice:
  "\<exists>s w r. capture_steps True (case_option '''' id) capture_init s
    \<and> cs_drawers s = [(w, r, j_output demo_job, j_source demo_job, j_category demo_job), (w, r, j_output demo_job, j_source demo_job, j_category demo_job)]
    \<and> length (cs_bridged s) = 2 \<and> cs_spool s (''s'', ''c1'') = None"
proof -
  let ?rs = "case_option '''' id :: string option \<Rightarrow> string"
  let ?q = "demo_job\<lparr>j_path := Some (''s'', ''c1''), j_wired := True\<rparr>"
  have d: "j_id demo_job = ''c1''" "j_session demo_job = Some ''s''" "j_emits demo_job" "\<not> j_auto_wing demo_job" "\<not> j_auto_room demo_job"
      "j_category demo_job = None" "payload_of demo_job = demo_job" "j_path demo_job = None"
    by (simp_all add: demo_job_def new_job_def demo_env_def demo_payload_def demo_hook_def payload_of_def)
  have key: "spool_key ?rs demo_job = (''s'', ''c1'')" by (simp add: spool_key_def d)
  define s1 where "s1 = run_effects True ?rs [SpoolWrite demo_job, Enqueue ?q] capture_init"
  have s1: "cs_queue s1 = [?q]" "cs_spool s1 = [(''s'', ''c1'') \<mapsto> Inr demo_job]" "cs_drawers s1 = []" "cs_bridged s1 = []"
    by (simp_all add: s1_def run_effects_def enqueue_def capture_init_def key d QUEUE_MAXSIZE_def emit_capture_def Let_def)
  have "capture_step True ?rs capture_init s1" unfolding s1_def
    by (rule capture_step.post [OF demo_post]) (use demo_fresh in \<open>simp add: demo_env_def\<close>)
  then have r1: "capture_steps True ?rs capture_init s1" by (rule capture_steps.step [OF capture_steps.refl])
  have "spool_named ?rs capture_init" by (simp add: spool_named_def capture_init_def)
  then have "held ?rs demo_job s1"
    using post_held(1) [OF _ _ demo_post, of capture_init demo_job 2 True] demo_fresh by (simp add: s1_def demo_env_def)
  then have open1: "''c1'' \<notin> completed_ids ''s'' s1"
    using completed_ids_recorded [of "''c1''" "''s''" s1] by (auto simp: held_def key)
  define s2 where "s2 = fst (replay_orphans True ?rs (Some ''s'') False [''c1''] s1)"
  have s2: "cs_queue s2 = [?q, ?q]" "cs_spool s2 = cs_spool s1" "cs_drawers s2 = []" "cs_bridged s2 = []"
    using open1 s1 by (simp_all add: s2_def replay_orphans_def QUEUE_MAXSIZE_def d Let_def)
  have "lists_spool (?rs (Some ''s'')) s1 [''c1'']" by (auto simp: lists_spool_def s1)
  then have r2: "capture_steps True ?rs capture_init s2" unfolding s2_def by (rule capture_steps.step [OF r1 capture_step.mount])
  let ?dr = "\<lambda>s. run_effects True ?rs (drain_effects (Inr []) Filed ?q) (s\<lparr>cs_queue := tl (cs_queue s)\<rparr>)"
  have dr: "cs_queue (?dr s) = tl (cs_queue s)" "cs_drawers (?dr s) = cs_drawers s @ [(j_wing demo_job, j_room demo_job, j_output demo_job, j_source demo_job, None)]"
      "length (cs_bridged (?dr s)) = length (cs_bridged s) + 1" "cs_spool (?dr s) (''s'', ''c1'') = None" for s
    by (simp_all add: run_effects_def drain_effects_def process_job_def d emit_capture_def spool_delete_def bind_err_def Let_def)
  have st: "capture_step True ?rs s (?dr s)" if "cs_queue s = ?q # r" for s r
    using capture_step.drain [OF that HOL.refl, where wr = True and rs = ?rs and detected = "Inr []" and outcome = Filed] that by simp
  have r3: "capture_steps True ?rs capture_init (?dr s2)"
    by (rule capture_steps.step [OF r2 st [where r = "[?q]"]]) (simp only: s2)
  have "capture_steps True ?rs capture_init (?dr (?dr s2))"
    by (rule capture_steps.step [OF r3 st [where r = "[]"]]) (subst dr(1), simp add: s2)
  moreover have "cs_drawers (?dr (?dr s2)) = replicate 2 (j_wing demo_job, j_room demo_job, j_output demo_job, j_source demo_job, j_category demo_job)"
    unfolding dr(2) s2(3) by (simp add: numeral_2_eq_2 d)
  moreover have "length (cs_bridged (?dr (?dr s2))) = 2" unfolding dr(3) s2(4) by simp
  moreover have "cs_spool (?dr (?dr s2)) (''s'', ''c1'') = None" by (rule dr(4))
  ultimately show ?thesis
    by (intro exI [of _ "?dr (?dr s2)"] exI [of _ "j_wing demo_job"] exI [of _ "j_room demo_job"] conjI)
       (simp_all only: numeral_2_eq_2 replicate.simps)
qed

text \<open>
  The gate.  A tool output is queued exactly when automation has not opted out, the output
  has 50 to 8192 characters, the tool is no memory tool and the category passes the filter;
  then the job holds the output verbatim.  Otherwise nothing but skip events leaves the hook.
\<close>

theorem capture_gate:
  assumes "extract_outcome p = Inr (out, ok)"
  shows "\<exists>es. post_effects rs h e p = Inr es
    \<and> ((\<exists>q. Enqueue q \<in> set es) \<longleftrightarrow> captures h e p out)
    \<and> (\<forall>q. Enqueue q \<in> set es \<longrightarrow> j_output q = out \<and> j_id q = e_id e \<and> j_success q = ok
        \<and> j_category q = detect_category_in out (Some (h_signals h)) \<and> (e_spools e \<longleftrightarrow> SpoolWrite (payload_of q) \<in> set es))
    \<and> (\<not> captures h e p out \<longrightarrow> skips es)"
proof (cases "captures h e p out")
  case True
  then show ?thesis using post_captures [OF True assms, of rs]
    by (auto simp: job_effects_def) (simp_all add: new_job_def payload_of_def)
next
  case False
  obtain es where es: "post_effects rs h e p = Inr es"
    using assms by (cases "post_effects rs h e p") (auto simp: post_effects_def Let_def split: if_splits)
  have "skips es" using post_skips [OF es] assms False by blast
  then show ?thesis using es False by (auto simp: skips_def)
qed

theorem capture_gate_witness:
  "captures demo_hook demo_env demo_payload (replicate 50 CHR ''a'') \<and> SpoolWrite demo_job \<in>
     set (case post_effects (case_option '''' id) demo_hook demo_env demo_payload of Inr es \<Rightarrow> es | Inl _ \<Rightarrow> [])"
proof -
  have "extract_outcome demo_payload = Inr (replicate 50 CHR ''a'', True)"
    by (simp add: extract_outcome_def demo_payload_def)
  from capture_gate [OF this, of "case_option '''' id" demo_hook demo_env] show ?thesis
    unfolding demo_post by auto
qed

text \<open>
  C37: A failed capture is not retried.  A drawer write that fails leaves the spool entry in place,
  which the code comments on as left for a later replay; but it has recorded \<open>capture_failed\<close>,
  which the replay counts as completed: at the next mount the entry is deleted and no job is
  queued for it, and its text is gone.
\<close>

theorem failed_capture_is_not_retried:
  assumes "cs_queue s = q # qs" and "j_emits q" and "j_path q = Some (spool_key rs q)" and "j_id q \<noteq> []"
    and "cs_spool s (spool_key rs q) = Some (Inr (payload_of q))"
    and "run_effects True rs (drain_effects (Inr w) NotStored q) (s\<lparr>cs_queue := qs\<rparr>) = s1"
    and "scan_lines (Some ''memory-capture'') (Some ''capture_failed'')
          (log_of (cs_events s) (rs (j_session q))) 0 = (Some rcs, n)" "length rcs < 100000"
    and "lists_spool (rs (j_session q)) s1 files" and "length qs + length files \<le> QUEUE_MAXSIZE"
  shows "cs_spool s1 (spool_key rs q) = Some (Inr (payload_of q))
    \<and> cs_drawers s1 = cs_drawers s
    \<and> (let s2 = fst (replay_orphans True rs (j_session q) emits files s1) in
        cs_spool s2 (spool_key rs q) = None \<and> cs_drawers s2 = cs_drawers s
        \<and> (\<forall>x. j_path x = Some (spool_key rs q) \<longrightarrow> count_list (cs_queue s2) x = count_list qs x))"
proof -
  let ?sid = "rs (j_session q)"
  let ?d = "FailData (j_id q) ''mcp_error''"
  have room: "drain_effects (Inr w) NotStored q
      = Emit (j_session q) ''capture_failed'' False (truncate_preview (Some (j_output q))) ?d
        # (if j_wired q then [Bridge ''memory:capture_failed'' ?d] else [])"
    using assms(2) by (cases "j_auto_wing q") (simp_all add: drain_effects_def process_job_def Let_def)
  have s1: "cs_spool s1 = cs_spool s" "cs_drawers s1 = cs_drawers s" "cs_queue s1 = qs"
      "cs_events s1 = emit_event True ?sid ''memory-capture'' ''capture_failed'' False
        (truncate_preview (Some (j_output q))) ?d (cs_events s)"
    using assms(6) by (auto simp: room run_effects_def emit_capture_def)
  have len: "int (length rcs) < 100000" using assms(8) by simp
  have "j_id q \<in> completed_ids ?sid s1"
    using emit_reads_back [OF assms(7) len, of False "truncate_preview (Some (j_output q))" ?d False] assms(4)
    by (auto simp: completed_ids_def s1(4) COMPLETION_EVENTS_def)
  moreover have "j_id q \<in> set files" using assms(5,9) by (auto simp: lists_spool_def s1(1) spool_key_def)
  ultimately have "let s2 = fst (replay_loop ?sid (completed_ids ?sid s1) files (s1, 0)) in
      cs_spool s2 (spool_key rs q) = None \<and> cs_drawers s2 = cs_drawers s
        \<and> (\<forall>x. j_path x = Some (spool_key rs q) \<longrightarrow> count_list (cs_queue s2) x = count_list qs x)"
    using replay_loop_completed [of "(s1, 0)" files ?sid "completed_ids ?sid s1" "j_id q"] assms(10)
    by (simp add: s1 spool_key_def Let_def)
  then show ?thesis using assms(5) s1
    by (auto simp: replay_orphans_def Let_def split: prod.splits)
qed

theorem failed_capture_is_not_retried_witness:
  "\<exists>s1. cs_spool s1 (''s'', ''c1'') = Some (Inr demo_job)
    \<and> cs_spool (fst (replay_orphans True (case_option '''' id) (Some ''s'') True [''c1''] s1)) (''s'', ''c1'') = None"
proof -
  let ?rs = "case_option '''' id" and ?q = "demo_job\<lparr>j_path := Some (''s'', ''c1''), j_wired := False\<rparr>"
  let ?s = "capture_init\<lparr>cs_queue := [?q], cs_spool := (\<lambda>k. if k = (''s'', ''c1'') then Some (Inr demo_job) else None)\<rparr>"
  have q: "j_session ?q = Some ''s''" "j_id ?q = ''c1''" "j_emits ?q" "payload_of ?q = demo_job" "\<not> j_auto_wing ?q"
    by (simp_all add: demo_job_def new_job_def demo_payload_def demo_env_def demo_hook_def payload_of_def)
  have k: "spool_key ?rs ?q = (''s'', ''c1'')" by (simp add: spool_key_def q)
  obtain s1 where s1: "run_effects True ?rs (drain_effects (Inr ''w'') NotStored ?q) (?s\<lparr>cs_queue := []\<rparr>) = s1"
    by simp
  have "cs_spool s1 = cs_spool ?s"
    using q(3,5) s1 [symmetric] by (simp add: drain_effects_def process_job_def Let_def run_effects_def)
  then have ls: "lists_spool (?rs (j_session ?q)) s1 [''c1'']" by (auto simp: lists_spool_def q)
  have "cs_spool s1 (spool_key ?rs ?q) = Some (Inr (payload_of ?q))
    \<and> cs_spool (fst (replay_orphans True ?rs (j_session ?q) True [''c1''] s1)) (spool_key ?rs ?q) = None"
    using failed_capture_is_not_retried [where s = ?s and q = ?q and qs = "[]" and rs = ?rs and rcs = "[]"
        and n = 0 and emits = True, OF _ q(3) _ _ _ s1 _ _ ls] q k
    by (simp add: capture_init_def QUEUE_MAXSIZE_def Let_def log_of_def)
  then show ?thesis unfolding k q by blast
qed

end
