(* ===== verification/Clusters.thy ===== *)
theory Clusters
  imports Lexical Vector "HOL-Library.Char_ord" "HOL-Library.List_Lexorder"
begin

text \<open>
  The pure half of the memory garden (\<open>garden.py\<close>): breadth-first clustering of an adjacency
  list, cluster identifiers, term extraction and labels.  A dict keyed in insertion order is
  an association list.  Python does not fix the iteration order of a set, so what iterates
  over the members of a cluster takes them as a list in some order.
\<close>

section \<open>Clustering\<close>

type_synonym adjacency = "(string \<times> string list) list"

definition neighbours :: "adjacency \<Rightarrow> string \<Rightarrow> string list" where
  "neighbours a x = (case map_of a x of Some ns \<Rightarrow> ns | None \<Rightarrow> [])"

definition adj_nodes :: "adjacency \<Rightarrow> string set" where
  "adj_nodes a = \<Union> (set ` snd ` set a)"

lemma finite_adj_nodes [simp]: "finite (adj_nodes a)"
  by (simp add: adj_nodes_def)

lemma neighbours_nodes: "set (neighbours a x) \<subseteq> adj_nodes a"
  by (cases "map_of a x") (auto simp: neighbours_def adj_nodes_def dest!: map_of_SomeD)

text \<open>
  The inner loop: the queue, the visited nodes and the component so far.  A node enters the
  visited set at most once; nodes already visited leave the queue.
\<close>

function bfs :: "adjacency \<Rightarrow> string list \<Rightarrow> string set \<Rightarrow> string list \<Rightarrow> string set \<times> string list" where
  "bfs a [] visited component = (visited, component)"
| "bfs a (x # queue) visited component = (
     if x \<in> visited then bfs a queue visited component
     else bfs a (queue @ filter (\<lambda>n. n \<notin> insert x visited) (neighbours a x)) (insert x visited) (component @ [x]))"
  by pat_completeness auto
termination
proof (relation "measures [\<lambda>(a, q, v, c). card ((adj_nodes a \<union> set q) - v), \<lambda>(a, q, v, c). length q]")
  fix a :: adjacency and x :: string and q c :: "string list" and v assume x: "x \<in> v"
  have "(adj_nodes a \<union> set (x # q)) - v = (adj_nodes a \<union> set q) - v" using x by auto
  then show "((a, q, v, c), (a, x # q, v, c)) \<in> measures [\<lambda>(a, q, v, c). card ((adj_nodes a \<union> set q) - v),
      \<lambda>(a, q, v, c). length q]" by simp
next
  fix a :: adjacency and x :: string and q c :: "string list" and v assume x: "x \<notin> v"
  let ?q = "q @ filter (\<lambda>n. n \<notin> insert x v) (neighbours a x)"
  have "(adj_nodes a \<union> set ?q) - insert x v \<subset> (adj_nodes a \<union> set (x # q)) - v"
    using x neighbours_nodes [of a x] by auto
  then have "card ((adj_nodes a \<union> set ?q) - insert x v) < card ((adj_nodes a \<union> set (x # q)) - v)"
    by (intro psubset_card_mono) simp_all
  then show "((a, ?q, insert x v, c @ [x]), (a, x # q, v, c))
      \<in> measures [\<lambda>(a, q, v, c). card ((adj_nodes a \<union> set q) - v), \<lambda>(a, q, v, c). length q]" by simp
qed simp

fun cluster_loop :: "adjacency \<Rightarrow> nat \<Rightarrow> string list \<Rightarrow> string set \<Rightarrow> string set list" where
  "cluster_loop a min_size [] visited = []"
| "cluster_loop a min_size (start # keys) visited = (
     if start \<in> visited then cluster_loop a min_size keys visited
     else (case bfs a [start] visited [] of (v', component) \<Rightarrow>
       (if min_size \<le> card (set component) then [set component] else []) @ cluster_loop a min_size keys v'))"

definition find_clusters :: "adjacency \<Rightarrow> nat \<Rightarrow> string set list" where
  "find_clusters a min_size = cluster_loop a min_size (map fst a) {}"

section \<open>Identifiers and labels\<close>

text \<open>\<open>sha\<close> is the hexadecimal SHA-256 of the library.\<close>

definition cluster_id :: "(string \<Rightarrow> string) \<Rightarrow> string set \<Rightarrow> string" where
  "cluster_id sha members = take 12 (sha (join ''|'' (sorted_list_of_set members)))"

definition STOPWORDS :: "string set" where
  "STOPWORDS = {''a'', ''an'', ''and'', ''are'', ''as'', ''at'', ''be'', ''been'', ''being'', ''but'', ''by'',
     ''do'', ''for'', ''from'', ''had'', ''has'', ''have'', ''he'', ''her'', ''him'', ''his'', ''how'', ''i'',
     ''if'', ''in'', ''is'', ''it'', ''its'', ''me'', ''my'', ''no'', ''not'', ''of'', ''on'', ''or'', ''our'',
     ''out'', ''she'', ''so'', ''the'', ''their'', ''them'', ''then'', ''there'', ''they'', ''this'', ''to'',
     ''up'', ''was'', ''we'', ''were'', ''what'', ''when'', ''which'', ''who'', ''why'', ''will'', ''with'',
     ''would'', ''you'', ''your'', ''that'', ''these'', ''those'', ''into'', ''also'', ''just'', ''now'',
     ''can'', ''all'', ''any'', ''via'', ''per'', ''than'', ''about'', ''each'', ''use'', ''used'', ''using'',
     ''set'', ''get'', ''add'', ''new'', ''one'', ''two'', ''after'', ''before'', ''during'', ''over'', ''under''}"

definition term_char :: "char \<Rightarrow> bool" where
  "term_char c \<longleftrightarrow> (let n = (of_char c :: nat) in 97 \<le> n \<and> n \<le> 122 \<or> 48 \<le> n \<and> n \<le> 57)"

text \<open>\<open>Counter\<close>: the keys in the order first met, and \<open>most_common(n)\<close>, stable on ties.\<close>

definition first_met :: "'a list \<Rightarrow> 'a list" where
  "first_met xs = rev (remdups (rev xs))"

definition most_common :: "int \<Rightarrow> 'a list \<Rightarrow> 'a list" where
  "most_common n xs = py_upto (sorted_desc (\<lambda>t. of_nat (count_list xs t)) (first_met xs)) (max 0 n)"

definition text_terms :: "string \<Rightarrow> string list" where
  "text_terms t = filter (\<lambda>w. 3 \<le> length w \<and> w \<notin> STOPWORDS) (runs term_char (py_lower t))"

definition extract_common_terms :: "string list \<Rightarrow> int \<Rightarrow> string list" where
  "extract_common_terms texts top_n = (if texts = [] then [] else most_common top_n (concat (map text_terms texts)))"

definition votes :: "(string \<rightharpoonup> string) \<Rightarrow> string list \<Rightarrow> string list" where
  "votes categories members = concat (map (\<lambda>m. case categories m of Some c \<Rightarrow> if c \<noteq> [] then [c] else [] | None \<Rightarrow> []) members)"

definition dominant_category :: "(string \<rightharpoonup> string) \<Rightarrow> string list \<Rightarrow> string" where
  "dominant_category categories members = (let vs = votes categories members in
     if vs = [] then ''uncategorized''
     else let top = Max (count_list vs ` set vs) in hd (sorted_list_of_set {c \<in> set vs. count_list vs c = top}))"

definition classify_cluster ::
    "string list \<Rightarrow> (string \<rightharpoonup> string) \<Rightarrow> (string \<rightharpoonup> string) \<Rightarrow> string \<times> string" where
  "classify_cluster members categories texts = (
     let dominant = dominant_category categories members;
         terms = extract_common_terms (map (\<lambda>m. case texts m of Some t \<Rightarrow> t | None \<Rightarrow> '''') members) 3;
         terms_str = (if terms \<noteq> [] then join '', '' terms else ''mixed'')
     in (dominant @ '' cluster: '' @ terms_str @ '' -- '' @ show_nat (length members) @ '' drawers'', dominant))"

section \<open>What the search reaches\<close>

definition edges_rel :: "adjacency \<Rightarrow> (string \<times> string) set" where
  "edges_rel a = {(x, y). y \<in> set (neighbours a x)}"

definition reached :: "adjacency \<Rightarrow> string set \<Rightarrow> string set" where
  "reached a X = (edges_rel a)\<^sup>* `` X"

lemma reached_subset: "X \<subseteq> reached a X"
  by (auto simp: reached_def)

lemma reached_Un: "reached a (X \<union> Y) = reached a X \<union> reached a Y"
  by (auto simp: reached_def)

lemma reached_empty [simp]: "reached a {} = {}"
  by (simp add: reached_def)

lemma reached_closed: "edges_rel a `` reached a X \<subseteq> reached a X"
  by (auto simp: reached_def intro: rtrancl_into_rtrancl)

lemma closed_reached: "edges_rel a `` V \<subseteq> V \<Longrightarrow> X \<subseteq> V \<Longrightarrow> reached a X \<subseteq> V"
  unfolding reached_def using Image_closed_trancl [of "edges_rel a" V] by (metis Image_mono order_refl)

lemma bfs_finds:
  assumes "bfs a q V C = (V', C')"
  shows "\<exists>D. C' = C @ D \<and> distinct D \<and> set D \<inter> V = {} \<and> V' = V \<union> set D \<and> set q \<subseteq> V'
    \<and> set D \<subseteq> reached a (set q) \<and> (edges_rel a `` V \<subseteq> V \<union> set q \<longrightarrow> edges_rel a `` V' \<subseteq> V')"
  using assms
proof (induction a q V C rule: bfs.induct)
  case (2 a x q V C)
  show ?case
  proof (cases "x \<in> V")
    case True
    obtain D where "C' = C @ D" "distinct D" "set D \<inter> V = {}" "V' = V \<union> set D" "set q \<subseteq> V'"
        "set D \<subseteq> reached a (set q)" "edges_rel a `` V \<subseteq> V \<union> set q \<longrightarrow> edges_rel a `` V' \<subseteq> V'"
      using 2(1) [OF True] 2(3) True by auto
    moreover have "reached a (set q) \<subseteq> reached a (set (x # q))" by (auto simp: reached_def)
    ultimately show ?thesis using True by (intro exI [of _ D]) auto
  next
    case False
    let ?ns = "filter (\<lambda>n. n \<notin> insert x V) (neighbours a x)"
    obtain D where D: "C' = (C @ [x]) @ D" "distinct D" "set D \<inter> insert x V = {}" "V' = insert x V \<union> set D"
        "set (q @ ?ns) \<subseteq> V'" "set D \<subseteq> reached a (set (q @ ?ns))"
        "edges_rel a `` insert x V \<subseteq> insert x V \<union> set (q @ ?ns) \<longrightarrow> edges_rel a `` V' \<subseteq> V'"
      using 2(2) [OF False] 2(3) False by auto
    have "set ?ns \<subseteq> reached a {x}" by (auto simp: reached_def edges_rel_def)
    then have "reached a (set ?ns) \<subseteq> reached a {x}" by (rule closed_reached [OF reached_closed])
    then have sub: "reached a (set (q @ ?ns)) \<subseteq> reached a (set (x # q))"
      using reached_Un [of a "set q" "set ?ns"] reached_Un [of a "{x}" "set q"] by auto
    have x: "x \<in> reached a (set (x # q))" using reached_subset by fastforce
    have cl: "edges_rel a `` insert x V \<subseteq> insert x V \<union> set (q @ ?ns)" if "edges_rel a `` V \<subseteq> V \<union> set (x # q)"
      using that by (auto simp: edges_rel_def)
    have "set (x # D) \<subseteq> reached a (set (x # q))" using D(6) sub x by auto
    then show ?thesis
      using D False cl by (intro exI [of _ "x # D"]) auto
  qed
qed auto

lemma bfs_component:
  assumes "bfs a [x] V [] = (V', C)" and "edges_rel a `` V \<subseteq> V"
  shows "set C = reached a {x} - V" "V' = V \<union> reached a {x}" "edges_rel a `` V' \<subseteq> V'"
proof -
  obtain D where D: "C = D" "set D \<inter> V = {}" "V' = V \<union> set D" "set [x] \<subseteq> V'" "set D \<subseteq> reached a (set [x])"
      "edges_rel a `` V \<subseteq> V \<union> set [x] \<longrightarrow> edges_rel a `` V' \<subseteq> V'"
    using bfs_finds [OF assms(1)] by auto
  show c: "edges_rel a `` V' \<subseteq> V'" using D(6) assms(2) by blast
  then have "reached a {x} \<subseteq> V'" using closed_reached D(4) by simp
  then show "set C = reached a {x} - V" "V' = V \<union> reached a {x}" using D by auto
qed

lemma finite_reached: "finite X \<Longrightarrow> finite (reached a X)"
proof -
  assume "finite X"
  have "edges_rel a `` (X \<union> adj_nodes a) \<subseteq> X \<union> adj_nodes a"
    using neighbours_nodes by (fastforce simp: edges_rel_def)
  then have "reached a X \<subseteq> X \<union> adj_nodes a" using closed_reached by blast
  then show "finite (reached a X)" by (rule finite_subset) (simp add: \<open>finite X\<close>)
qed

text \<open>The component of each key: what it reaches and no earlier key does.\<close>

definition components :: "adjacency \<Rightarrow> string list \<Rightarrow> string set list" where
  "components a keys = map (\<lambda>i. reached a {keys ! i} - reached a (set (take i keys))) [0..<length keys]"

lemma cluster_loop_spec:
  assumes "0 < k"
  shows "cluster_loop a k keys (reached a P)
    = filter (\<lambda>C. k \<le> card C) (map (\<lambda>i. reached a {keys ! i} - reached a (P \<union> set (take i keys))) [0..<length keys])"
proof (induction keys arbitrary: P)
  case (Cons x keys)
  have up: "[0..<length (x # keys)] = 0 # map Suc [0..<length keys]" by (simp add: map_Suc_upt upt_conv_Cons del: upt_Suc)
  have ins: "reached a (insert x P) = reached a {x} \<union> reached a P" using reached_Un [of a "{x}" P] by simp
  have rest: "cluster_loop a k keys (reached a (insert x P)) = filter (\<lambda>C. k \<le> card C)
      (map (\<lambda>i. reached a {(x # keys) ! Suc i} - reached a (P \<union> set (take (Suc i) (x # keys)))) [0..<length keys])"
    using Cons [of "insert x P"] by simp
  show ?case
  proof (cases "x \<in> reached a P")
    case True
    have "reached a {x} \<subseteq> reached a P" by (rule closed_reached [OF reached_closed]) (simp add: True)
    then have e: "reached a (insert x P) = reached a P" and "reached a {x} - reached a P = {}" using ins by auto
    then have "card (reached a {x} - reached a P) = 0" by (metis card.empty)
    then show ?thesis using True rest assms e unfolding up by (simp add: comp_def)
  next
    case False
    obtain V' C where b: "bfs a [x] (reached a P) [] = (V', C)" by (rule prod.exhaust)
    note bc = bfs_component [OF b reached_closed]
    have "V' = reached a (insert x P)" using bc(2) ins by auto
    then show ?thesis using False rest b bc(1) unfolding up by (simp add: comp_def)
  qed
qed simp

lemma find_clusters_components: "0 < k \<Longrightarrow> find_clusters a k = filter (\<lambda>C. k \<le> card C) (components a (map fst a))"
  using cluster_loop_spec [of k a "map fst a" "{}"] by (simp add: find_clusters_def components_def)

lemma sym_reached: "sym (edges_rel a) \<Longrightarrow> y \<in> reached a {x} \<Longrightarrow> reached a {y} = reached a {x}"
proof -
  assume s: "sym (edges_rel a)" and y: "y \<in> reached a {x}"
  then have "x \<in> reached a {y}" unfolding reached_def using symD [OF sym_rtrancl [OF s]] by blast
  then show ?thesis
    using y closed_reached [OF reached_closed, of "{x}" a "{y}"] closed_reached [OF reached_closed, of "{y}" a "{x}"] by blast
qed

lemma sym_component:
  assumes "sym (edges_rel a)"
  shows "reached a {ks ! i} - reached a (set (take i ks))
    = (if ks ! i \<in> reached a (set (take i ks)) then {} else reached a {ks ! i})"
proof -
  have "ks ! i \<in> reached a (set (take i ks))"
    if y: "y \<in> reached a {ks ! i}" "y \<in> reached a (set (take i ks))" for y
  proof -
    have "reached a {y} \<subseteq> reached a (set (take i ks))" using y(2) by (intro closed_reached [OF reached_closed]) simp
    then show ?thesis using sym_reached [OF assms y(1)] reached_subset [of "{ks ! i}" a] by auto
  qed
  moreover have "reached a {ks ! i} \<subseteq> reached a (set (take i ks))" if "ks ! i \<in> reached a (set (take i ks))"
    using that by (intro closed_reached [OF reached_closed]) simp
  ultimately show ?thesis by auto
qed

text \<open>A component is reported for its first key.\<close>

lemma sym_first:
  assumes "sym (edges_rel a)" and "x \<in> set ks"
  shows "\<exists>i < length ks. reached a {ks ! i} - reached a (set (take i ks)) = reached a {x}"
proof -
  obtain k where "k < length ks" "ks ! k = x" using assms(2) by (auto simp: in_set_conv_nth)
  then have "\<exists>i. i < length ks \<and> ks ! i \<in> reached a {x}" using reached_subset [of "{x}" a] by blast
  then obtain i where i: "i < length ks" "ks ! i \<in> reached a {x}"
      and "\<forall>j < i. \<not> (j < length ks \<and> ks ! j \<in> reached a {x})"
    unfolding exists_least_iff [of "\<lambda>i. i < length ks \<and> ks ! i \<in> reached a {x}"] by blast
  then have least: "\<forall>j < i. ks ! j \<notin> reached a {x}" by auto
  have eq: "reached a {ks ! i} = reached a {x}" by (rule sym_reached [OF assms(1) i(2)])
  have "ks ! i \<notin> reached a (set (take i ks))"
  proof
    assume "ks ! i \<in> reached a (set (take i ks))"
    then obtain y where y: "y \<in> set (take i ks)" "ks ! i \<in> reached a {y}" by (auto simp: reached_def)
    then have "y \<in> reached a {x}" using sym_reached [OF assms(1) y(2)] eq reached_subset [of "{y}" a] by auto
    then show False using least i(1) y(1) by (auto simp: in_set_conv_nth)
  qed
  then show ?thesis using sym_component [OF assms(1), of ks i] i(1) eq by auto
qed

lemma count_first_met: "set (first_met xs) = set xs" "distinct (first_met xs)"
  by (simp_all add: first_met_def)

lemma dominant_mset:
  assumes "mset vs = mset vs'"
  shows "count_list vs = count_list vs'" "set vs = set vs'"
  using assms by (auto simp: fun_eq_iff count_mset [symmetric] dest: mset_eq_setD)

lemma votes_mset: "mset ms = mset ms' \<Longrightarrow> mset (votes cats ms) = mset (votes cats ms')"
proof -
  have e: "mset (votes cats xs) = \<Sum>\<^sub># (image_mset (\<lambda>m. mset (case cats m of Some c \<Rightarrow> if c \<noteq> [] then [c] else [] | None \<Rightarrow> []))
      (mset xs))" for xs
    by (induction xs) (auto simp: votes_def split: option.splits)
  assume "mset ms = mset ms'"
  then show ?thesis by (simp add: e)
qed

lemma hd_sorted_Min:
  assumes "finite A" and "A \<noteq> {}"
  shows "hd (sorted_list_of_set A) = Min A"
proof -
  have "sorted_list_of_set A = Min A # sorted_list_of_set (A - {Min A})"
    using assms by (rule sorted_list_of_set_nonempty)
  then show ?thesis by simp
qed

lemma dominant_is_majority:
  assumes "votes categories members \<noteq> []"
  defines "vs \<equiv> votes categories members" and "d \<equiv> dominant_category categories members"
  shows "d \<in> set vs \<and> (\<forall>c. count_list vs c < count_list vs d \<or> count_list vs c = count_list vs d \<and> d \<le> c)"
proof -
  let ?top = "Max (count_list vs ` set vs)" and ?A = "{c \<in> set vs. count_list vs c = Max (count_list vs ` set vs)}"
  have ne: "vs \<noteq> []" using assms by simp
  have "?top \<in> count_list vs ` set vs" using ne by (intro Max_in) simp_all
  then have A: "?A \<noteq> {}" "finite ?A" by auto
  have d: "d = Min ?A"
    using ne A by (simp add: d_def dominant_category_def vs_def [symmetric] Let_def hd_sorted_Min)
  then have dA: "d \<in> ?A" using Min_in [OF A(2,1)] by simp
  have "count_list vs c < count_list vs d \<or> count_list vs c = count_list vs d \<and> d \<le> c" for c
  proof (cases "c \<in> set vs")
    case True
    then have le: "count_list vs c \<le> ?top" by (intro Max_ge) simp_all
    show ?thesis
    proof (cases "count_list vs c = ?top")
      case top: True
      then have "c \<in> ?A" using True by simp
      then have "d \<le> c" unfolding d by (rule Min_le [OF A(2)])
      then show ?thesis using top dA by simp
    next
      case False
      then have "count_list vs c < ?top" using le by (rule le_neq_implies_less [rotated])
      then show ?thesis using dA by simp
    qed
  next
    case False
    then have "count_list vs c = 0" by (simp add: count_list_0_iff)
    moreover have "count_list vs d \<noteq> 0" using dA by (metis (no_types, lifting) count_list_0_iff mem_Collect_eq)
    ultimately show ?thesis by simp
  qed
  then show ?thesis using dA by simp
qed

section \<open>Properties\<close>

text \<open>
  C22: The clusters, exactly.  Whatever the adjacency, the loop ends and the clusters are, in the
  order of the keys, the nodes that a key reaches and no earlier key does, where there are
  \<open>min_size\<close> of them or more.
\<close>

theorem find_clusters_spec:
  assumes "0 < min_size"
  shows "find_clusters a min_size = filter (\<lambda>C. min_size \<le> card C)
      (map (\<lambda>i. (edges_rel a)\<^sup>* `` {map fst a ! i} - (edges_rel a)\<^sup>* `` set (take i (map fst a))) [0..<length a])
    \<and> (\<forall>C \<in> set (find_clusters a min_size). finite C)"
proof -
  have "finite (reached a {x} - Y)" for x Y using finite_reached [of "{x}" a] by simp
  then show ?thesis
    using find_clusters_components [OF assms, of a] by (auto simp: components_def reached_def [symmetric])
qed

definition triangle :: adjacency where
  "triangle = [(''a'', [''b'']), (''b'', [''a'', ''c'']), (''c'', [''b''])]"

lemma triangle_clusters: "find_clusters triangle 3 = [{''a'', ''b'', ''c''}]"
  by (simp add: find_clusters_def triangle_def neighbours_def)

theorem find_clusters_spec_witness:
  "[{''a'', ''b'', ''c''}] = filter (\<lambda>C. 3 \<le> card C)
      (map (\<lambda>i. (edges_rel triangle)\<^sup>* `` {map fst triangle ! i}
        - (edges_rel triangle)\<^sup>* `` set (take i (map fst triangle))) [0..<length triangle])"
  using find_clusters_spec [of 3 triangle, THEN conjunct1] unfolding triangle_clusters by simp

text \<open>
  Connected components, when similarity is symmetric.  If every edge has its reverse, the
  clusters are exactly the connected components of the keys with \<open>min_size\<close> members or
  more, each reported once, and they do not depend on the order of the keys.
\<close>

theorem clusters_of_symmetric:
  assumes "0 < min_size" and "sym (edges_rel a)"
  shows "set (find_clusters a min_size) = {C. min_size \<le> card C \<and> (\<exists>x \<in> fst ` set a. C = (edges_rel a)\<^sup>* `` {x})}"
proof -
  let ?ks = "map fst a"
  note comp = sym_component [OF assms(2), where ks = ?ks] and first = sym_first [OF assms(2), where ks = ?ks]
  have e0: "C = {} \<Longrightarrow> \<not> min_size \<le> card C" for C :: "string set" using assms(1) by simp
  have "C \<in> set (find_clusters a min_size) \<longleftrightarrow> min_size \<le> card C \<and> (\<exists>x \<in> set ?ks. C = reached a {x})" for C
  proof
    assume "C \<in> set (find_clusters a min_size)"
    then obtain i where i: "i < length ?ks" "C = reached a {?ks ! i} - reached a (set (take i ?ks))" "min_size \<le> card C"
      by (auto simp: find_clusters_components [OF assms(1)] components_def)
    then have "C = reached a {?ks ! i}" using comp [of i] e0 [of C] by (auto split: if_splits)
    then show "min_size \<le> card C \<and> (\<exists>x \<in> set ?ks. C = reached a {x})" using i(1,3) nth_mem by blast
  next
    assume r: "min_size \<le> card C \<and> (\<exists>x \<in> set ?ks. C = reached a {x})"
    then obtain i where "i < length ?ks" "C = reached a {?ks ! i} - reached a (set (take i ?ks))" using first by metis
    then show "C \<in> set (find_clusters a min_size)"
      using r by (auto simp: find_clusters_components [OF assms(1)] components_def)
  qed
  then show ?thesis by (auto simp: reached_def)
qed

theorem clusters_of_symmetric_witness:
  "{{''a'', ''b'', ''c''}} = {C. 3 \<le> card C \<and> (\<exists>x \<in> {''a'', ''b'', ''c''}. C = (edges_rel triangle)\<^sup>* `` {x})}"
proof -
  have "sym (edges_rel triangle)"
    by (auto simp: sym_def edges_rel_def triangle_def neighbours_def split: if_splits)
  then show ?thesis using clusters_of_symmetric [of 3 triangle] unfolding triangle_clusters
    by (simp add: triangle_def)
qed

text \<open>
  The clusters depend on the order of the drawers.  Similarity by search rank is not
  symmetric, and where an edge lacks its reverse the same edges in another order give other
  clusters, although they are documented as connected components: three drawers in a chain
  are one cluster or none.
\<close>

theorem clusters_depend_on_order:
  "find_clusters [(''c'', [''b'']), (''b'', [''a'']), (''a'', [])] 3 = [{''a'', ''b'', ''c''}]
   \<and> find_clusters [(''a'', []), (''b'', [''a'']), (''c'', [''b''])] 3 = []"
  by (auto simp: find_clusters_def neighbours_def)

text \<open>
  The dominant category of a cluster is a majority vote with an alphabetical tie-break, for
  every iteration order of the members: it is one of the members' categories, no category
  has more votes, and none with as many comes before it; without any category it is
  \<open>uncategorized\<close>.
\<close>

theorem dominant_category_majority:
  assumes "classify_cluster members categories texts = (label, dominant)"
  shows "(votes categories members = [] \<longrightarrow> dominant = ''uncategorized'')
    \<and> (votes categories members \<noteq> [] \<longrightarrow> dominant \<in> set (votes categories members)
       \<and> (\<forall>c. count_list (votes categories members) c < count_list (votes categories members) dominant
            \<or> count_list (votes categories members) c = count_list (votes categories members) dominant \<and> dominant \<le> c))
    \<and> (\<forall>members'. mset members' = mset members \<longrightarrow> snd (classify_cluster members' categories texts) = dominant)"
proof -
  let ?vs = "votes categories members"
  have d: "dominant = dominant_category categories members" using assms by (simp add: classify_cluster_def Let_def)
  have maj: "dominant \<in> set ?vs \<and> (\<forall>c. count_list ?vs c < count_list ?vs dominant
      \<or> count_list ?vs c = count_list ?vs dominant \<and> dominant \<le> c)" if "?vs \<noteq> []"
    using that unfolding d by (rule dominant_is_majority)
  have inv: "dominant_category categories members' = dominant" if "mset members' = mset members" for members'
    using dominant_mset [OF votes_mset [OF that], of categories] votes_mset [OF that, of categories]
    by (auto simp: d dominant_category_def Let_def)
  have "?vs = [] \<longrightarrow> dominant = ''uncategorized''" by (simp add: d dominant_category_def)
  moreover have "snd (classify_cluster members' categories texts) = dominant" if "mset members' = mset members" for members'
    using inv [OF that] by (simp add: classify_cluster_def Let_def)
  ultimately show ?thesis using maj by blast
qed

theorem dominant_category_majority_witness:
  "snd (classify_cluster [''2'', ''1'', ''3''] (\<lambda>m. Some (if m = ''3'' then ''a'' else ''b'')) Map.empty)
    = snd (classify_cluster [''1'', ''2'', ''3''] (\<lambda>m. Some (if m = ''3'' then ''a'' else ''b'')) Map.empty)"
proof -
  let ?c = "\<lambda>m. Some (if m = ''3'' then ''a'' else ''b'')"
  have m: "mset [''2'', ''1'', ''3''] = mset [''1'', ''2'', ''3'']" by (simp add: add_mset_commute)
  from dominant_category_majority [OF prod.collapse [symmetric], THEN conjunct2, THEN conjunct2, rule_format, OF m]
  show ?thesis by simp
qed

text \<open>
  The label is not determined by the cluster.  Its terms are ranked by frequency with ties in
  the order the members are iterated, which Python leaves open for a set: the same two
  drawers can be labelled \<open>alpha, beta\<close> or \<open>beta, alpha\<close>.
\<close>

theorem label_depends_on_iteration:
  "fst (classify_cluster [''1'', ''2''] Map.empty [''1'' \<mapsto> ''alpha'', ''2'' \<mapsto> ''beta''])
    = ''uncategorized cluster: alpha, beta -- 2 drawers''
   \<and> fst (classify_cluster [''2'', ''1''] Map.empty [''1'' \<mapsto> ''alpha'', ''2'' \<mapsto> ''beta''])
    = ''uncategorized cluster: beta, alpha -- 2 drawers''"
  by code_simp

end
