(* ===== verification/Garden.thy ===== *)
theory Garden
  imports Daemon Clusters Phase3
begin

text \<open>
  The memory garden (\<open>garden.py\<close>): enumeration of a scope, the near-duplicate adjacency, and
  the run that clusters, labels, writes KG edges, backfills importances and files a diary
  entry.  The client's write calls are those of the daemon over the native store; what its
  \<open>list_drawers\<close> and \<open>search\<close> answer is an argument.  \<open>iter\<close> is the order in which Python
  iterates a set.
\<close>

section \<open>Enumeration and adjacency\<close>

record garden_drawer =
  gd_id :: string
  gd_text :: string
  gd_room :: string
  gd_category :: "string option"
  gd_importance :: "real option"

definition get_drawers_in_scope :: "string option \<Rightarrow> drawer list \<Rightarrow> garden_drawer list" where
  "get_drawers_in_scope rm raw = map (\<lambda>d. \<lparr>gd_id = d_ref d, gd_text = d_content d,
     gd_room = (case d_room d of Some r \<Rightarrow> if r \<noteq> [] then r else (case rm of Some x \<Rightarrow> if x \<noteq> [] then x else ''unknown'' | None \<Rightarrow> ''unknown'')
        | None \<Rightarrow> (case rm of Some x \<Rightarrow> if x \<noteq> [] then x else ''unknown'' | None \<Rightarrow> ''unknown'')),
     gd_category = d_category d, gd_importance = d_importance d\<rparr>) raw"

definition PROGRESS_EVERY :: nat where "PROGRESS_EVERY = 50"
definition SEARCH_K :: int where "SEARCH_K = 20"

text \<open>The hits of one search; converting a score may raise, outside the guarded call.\<close>

fun scan_hits :: "string \<Rightarrow> string set \<Rightarrow> real \<Rightarrow> (string \<times> (py_error + real)) list \<Rightarrow> string list \<Rightarrow> py_error + string list" where
  "scan_hits self scope thr [] ns = Inr ns"
| "scan_hits self scope thr ((hid, sc) # hits) ns = (
     if hid = [] \<or> hid = self \<or> hid \<notin> scope then scan_hits self scope thr hits ns
     else bind_err sc (\<lambda>score. scan_hits self scope thr hits
       (if thr \<le> score \<and> hid \<notin> set ns then ns @ [hid] else ns)))"

definition set_row :: "adjacency \<Rightarrow> string \<Rightarrow> string list \<Rightarrow> adjacency" where
  "set_row a x ns = map (\<lambda>(y, old). (y, if y = x then ns else old)) a"

text \<open>
  The loop over the drawers with their numbers: a search that raises leaves the drawer without
  edges, an answer that is no dict (\<open>None\<close>) has no hits.  The progress marks go with it.
\<close>

type_synonym garden_search = "string \<Rightarrow> int \<Rightarrow> py_error + (string \<times> (py_error + real)) list option"

fun adjacency_loop ::
    "garden_search \<Rightarrow> string set \<Rightarrow> real \<Rightarrow> nat \<Rightarrow> (nat \<times> garden_drawer) list \<Rightarrow> adjacency \<times> (nat \<times> nat) list
       \<Rightarrow> py_error + (adjacency \<times> (nat \<times> nat) list)" where
  "adjacency_loop srch scope thr tot [] st = Inr st"
| "adjacency_loop srch scope thr tot ((i, d) # ds) (a, marks) = (
     let marks' = (if 0 < i \<and> i mod PROGRESS_EVERY = 0 then marks @ [(i, tot)] else marks) in
     case srch (take 1000 (gd_text d)) SEARCH_K of
       Inl err \<Rightarrow> adjacency_loop srch scope thr tot ds (a, marks')
     | Inr hits \<Rightarrow> bind_err (scan_hits (gd_id d) scope thr (case hits of Some hs \<Rightarrow> hs | None \<Rightarrow> []) (neighbours a (gd_id d)))
         (\<lambda>ns. adjacency_loop srch scope thr tot ds (set_row a (gd_id d) ns, marks')))"

definition build_adjacency ::
    "garden_search \<Rightarrow> real \<Rightarrow> garden_drawer list \<Rightarrow> py_error + (adjacency \<times> (nat \<times> nat) list)" where
  "build_adjacency srch thr ds = (let ids = first_met (map gd_id ds) in
     adjacency_loop srch (set ids) thr (length ds) (zip [0..<length ds] ds) (map (\<lambda>x. (x, [])) ids, []))"

section \<open>The run\<close>

record cluster_result =
  cr_cid :: string
  cr_label :: string
  cr_size :: nat
  cr_dominant :: string
  cr_rooms :: "string list"
  cr_members :: "string list"

definition dict_of :: "('a \<times> 'b) list \<Rightarrow> ('a \<rightharpoonup> 'b)" where
  "dict_of kvs = map_of (rev kvs)"

definition garden_categories :: "garden_drawer list \<Rightarrow> (string \<rightharpoonup> string)" where
  "garden_categories ds = dict_of (concat (map (\<lambda>d. case gd_category d of
     Some c \<Rightarrow> if c \<noteq> [] then [(gd_id d, c)] else [] | None \<Rightarrow> []) ds))"

definition cluster_row ::
    "(string \<Rightarrow> string) \<Rightarrow> (string set \<Rightarrow> string list) \<Rightarrow> garden_drawer list \<Rightarrow> string set \<Rightarrow> cluster_result" where
  "cluster_row sha iter ds members = (
     let rooms = dict_of (map (\<lambda>d. (gd_id d, gd_room d)) ds);
         (label, dominant) = classify_cluster (iter members) (garden_categories ds)
            (dict_of (map (\<lambda>d. (gd_id d, gd_text d)) ds))
     in \<lparr>cr_cid = cluster_id sha members, cr_label = label, cr_size = card members, cr_dominant = dominant,
         cr_rooms = sorted_list_of_set {r. r \<noteq> [] \<and> (\<exists>m \<in> members. rooms m = Some r)}, cr_members = iter members\<rparr>)"

definition cluster_name :: "cluster_result \<Rightarrow> string" where "cluster_name cr = ''cluster:'' @ cr_cid cr"
definition drawer_name :: "string \<Rightarrow> string" where "drawer_name m = ''drawer:'' @ m"

text \<open>Steps 5 and 6 for one cluster, with the count of edges.\<close>

definition add_member ::
    "('s, 'b) backend \<Rightarrow> string \<Rightarrow> string \<Rightarrow> 's native_store \<times> nat \<Rightarrow> 's native_store \<times> nat" where
  "add_member B c m stn = (case stn of (st, n) \<Rightarrow> (assert_kg B (drawer_name m) ''part_of_cluster'' c st, n + 1))"

definition write_cluster ::
    "('s, 'b) backend \<Rightarrow> string option \<Rightarrow> cluster_result \<Rightarrow> 's native_store \<times> nat \<Rightarrow> 's native_store \<times> nat" where
  "write_cluster B rm cr stn = (case stn of (st, n) \<Rightarrow>
     let c = cluster_name cr;
         st1 = assert_kg B c ''is_a'' ''drawer_cluster'' st;
         st2 = assert_kg B c ''has_label'' (cr_label cr) st1;
         st3 = assert_kg B c ''has_size'' (show_nat (cr_size cr)) st2;
         (st4, n4) = fold (add_member B c) (cr_members cr) (st3, n + 3)
     in if rm = None \<and> length (cr_rooms cr) > 1
        then (assert_kg B c ''spans_rooms'' (join '', '' (cr_rooms cr)) st4, n4 + 1) else (st4, n4))"

text \<open>Step 8 for one drawer: a plain \<open>has_importance\<close> fact on the drawer's own ref.\<close>

definition backfill_one ::
    "('s, 'b) backend \<Rightarrow> (real \<Rightarrow> string) \<Rightarrow> (string \<rightharpoonup> string) \<Rightarrow> string \<Rightarrow> 's native_store \<times> nat \<Rightarrow> 's native_store \<times> nat" where
  "backfill_one B str_of cats ref stn = (case stn of (st, n) \<Rightarrow>
     case w_cell (direct B) (str_of (compute_importance (cats ref) Map.empty None)) (ns_store st) of (v, s1) \<Rightarrow>
       (st\<lparr>ns_store := w_fact (direct B) ref ''has_importance'' v s1\<rparr>, n + 1))"

definition show_int :: "int \<Rightarrow> string" where
  "show_int i = (if i < 0 then CHR ''-'' # show_nat (nat (- i)) else show_nat (nat i))"

definition largest_label :: "cluster_result list \<Rightarrow> string" where
  "largest_label crs = (if crs = [] then ''none''
     else cr_label (hd (filter (\<lambda>c. cr_size c = Max (cr_size ` set crs)) crs)))"

definition diary_text :: "string \<Rightarrow> int \<Rightarrow> nat \<Rightarrow> nat \<Rightarrow> string \<Rightarrow> nat \<Rightarrow> nat \<Rightarrow> string" where
  "diary_text wng days n k largest edges filled =
     ''Garden run on '' @ wng @ '' ('' @ show_int days @ ''-day lookback): analyzed '' @ show_nat n
     @ '' drawers, found '' @ show_nat k @ '' clusters. Largest: '' @ [CHR 39] @ largest @ [CHR 39]
     @ ''. Created '' @ show_nat edges @ '' KG edges. '' @ show_nat filled
     @ '' drawers had no importance tag (now tagged).''"

record garden_report =
  gr_analyzed :: nat
  gr_clusters :: "cluster_result list"
  gr_edges :: nat
  gr_backfilled :: nat
  gr_diary :: string
  gr_progress :: "(nat \<times> nat) list"

definition missing_importance :: "garden_drawer list \<Rightarrow> string set" where
  "missing_importance ds = gd_id ` set ds - gd_id ` {d \<in> set ds. gd_importance d \<noteq> None}"

text \<open>Steps 5, 6 and 8 over the classified clusters: the store and the two counts.\<close>

definition garden_writes ::
    "('s, 'b) backend \<Rightarrow> (real \<Rightarrow> string) \<Rightarrow> string option \<Rightarrow> cluster_result list \<Rightarrow> (string \<rightharpoonup> string) \<Rightarrow> string list
       \<Rightarrow> 's native_store \<Rightarrow> 's native_store \<times> nat \<times> nat" where
  "garden_writes B str_of rm crs cats missing st = (
     let (st1, n1) = fold (write_cluster B rm) crs (st, 0);
         (st2, n2) = fold (backfill_one B str_of cats) missing (st1, n1)
     in (st2, n2, length missing))"

text \<open>
  \<open>swp\<close> is the opportunistic sweep the daemon runs before a diary write
  (\<open>sweep_first\<close>), \<open>up\<close> whether there is a daemon.
\<close>

definition sweep_first ::
    "('s, 'b) backend \<Rightarrow> 's store_reads \<Rightarrow> ('m \<Rightarrow> string \<Rightarrow> py_error + real list) \<Rightarrow> 'm embedder option
       \<Rightarrow> 's native_store \<Rightarrow> 's native_store" where
  "sweep_first B R run emb st = st\<lparr>ns_store := maybe_sweep B R run emb (ns_store st)\<rparr>"

definition execute_garden ::
    "('s, 'b) backend \<Rightarrow> (real \<Rightarrow> string) \<Rightarrow> (string \<Rightarrow> string) \<Rightarrow> (string set \<Rightarrow> string list)
       \<Rightarrow> ('s native_store \<Rightarrow> 's native_store) \<Rightarrow> bool \<Rightarrow> drawer list \<Rightarrow> garden_search \<Rightarrow> string option \<Rightarrow> string option \<Rightarrow> int \<Rightarrow> real
       \<Rightarrow> 's native_store \<Rightarrow> (py_error + garden_report) \<times> 's native_store" where
  "execute_garden B str_of sha iter swp up raw srch wng rm days thr st = (
     let w = (case wng of Some x \<Rightarrow> if x \<noteq> [] then x else ''unknown'' | None \<Rightarrow> ''unknown'');
         ds = get_drawers_in_scope rm raw
     in if \<not> up then (Inl (RuntimeError ''memory daemon unavailable''), st)
        else if ds = [] then (Inr \<lparr>gr_analyzed = 0, gr_clusters = [], gr_edges = 0, gr_backfilled = 0,
            gr_diary = ''skipped (no drawers found)'', gr_progress = []\<rparr>, st)
        else (case build_adjacency srch thr ds of
          Inl err \<Rightarrow> (Inl err, st)
        | Inr (a, marks) \<Rightarrow>
            let crs = map (cluster_row sha iter ds) (find_clusters a 3);
                (st1, edges, filled) = garden_writes B str_of rm crs (garden_categories ds) (iter (missing_importance ds)) st;
                (ref, st2) = file_diary B ''curator''
                  (diary_text w days (length ds) (length crs) (largest_label crs) edges filled) ''general''
                  (swp st1)
            in (Inr \<lparr>gr_analyzed = length ds, gr_clusters = crs, gr_edges = edges, gr_backfilled = filled,
                   gr_diary = ''written'', gr_progress = marks\<rparr>, st2)))"

section \<open>What a run writes\<close>

definition entity :: "(string, 'i) substrate \<Rightarrow> 'i \<Rightarrow> string \<Rightarrow> string" where
  "entity S i0 x = cell_ref S (''entity:'' @ x) i0"

definition cluster_triples ::
    "(string, 'i) substrate \<Rightarrow> 'i \<Rightarrow> string option \<Rightarrow> cluster_result \<Rightarrow> (string \<times> string \<times> string) list" where
  "cluster_triples S i0 rm cr = (let c = cluster_name cr; e = entity S i0 in
     [(e c, ''is_a'', e ''drawer_cluster''), (e c, ''has_label'', e (cr_label cr)),
      (e c, ''has_size'', e (show_nat (cr_size cr)))]
     @ map (\<lambda>m. (e (drawer_name m), ''part_of_cluster'', e c)) (cr_members cr)
     @ (if rm = None \<and> length (cr_rooms cr) > 1 then [(e c, ''spans_rooms'', e (join '', '' (cr_rooms cr)))] else []))"

definition importance_triple ::
    "(string, 'i) substrate \<Rightarrow> 'i \<Rightarrow> (real \<Rightarrow> string) \<Rightarrow> (string \<rightharpoonup> string) \<Rightarrow> string \<Rightarrow> string \<times> string \<times> string" where
  "importance_triple S i0 str_of cats ref =
     (ref, ''has_importance'', cell_ref S (str_of (compute_importance (cats ref) Map.empty None)) i0)"

lemma fact_triples_append [simp]: "fact_triples (xs @ ys) = fact_triples xs @ fact_triples ys"
  by (induction xs rule: fact_triples.induct) simp_all

context event_backend
begin

abbreviation triples :: "'s native_store \<Rightarrow> (string \<times> string \<times> string) list" where
  "triples st \<equiv> fact_triples (lg (ns_store st))"

lemma assert_kg_triples:
  "triples (assert_kg B x p y st) = triples st @ [(entity S i0 x, p, entity S i0 y)]"
proof -
  obtain a s1 where a: "anchor B x (ns_store st) = (a, s1)" by (rule prod.exhaust)
  obtain b s2 where b: "anchor B y s1 = (b, s2)" by (rule prod.exhaust)
  note ea = direct.cell_event [OF a [unfolded anchor_def]] and eb = direct.cell_event [OF b [unfolded anchor_def]]
  show ?thesis using ea eb direct.fact_event by (simp add: assert_kg_def a b entity_def)
qed

lemma fold_triples:
  assumes "\<And>x st n. triples (fst (f x (st, n))) = triples st @ g x \<and> snd (f x (st, n)) = n + length (g x)"
  shows "triples (fst (fold f xs (st, n))) = triples st @ concat (map g xs)
    \<and> snd (fold f xs (st, n)) = n + length (concat (map g xs))"
proof (induction xs arbitrary: st n)
  case (Cons x xs)
  obtain st1 n1 where "f x (st, n) = (st1, n1)" by (rule prod.exhaust)
  then show ?case using assms [of x st n] Cons [of st1 n1] by simp
qed simp

lemma write_cluster_triples:
  "triples (fst (write_cluster B rm cr (st, n))) = triples st @ cluster_triples S i0 rm cr
   \<and> snd (write_cluster B rm cr (st, n)) = n + length (cluster_triples S i0 rm cr)"
proof -
  let ?c = "cluster_name cr"
  let ?st3 = "assert_kg B ?c ''has_size'' (show_nat (cr_size cr)) (assert_kg B ?c ''has_label'' (cr_label cr)
      (assert_kg B ?c ''is_a'' ''drawer_cluster'' st))"
  obtain st4 n4 where f: "fold (add_member B ?c) (cr_members cr) (?st3, n + 3) = (st4, n4)" by (rule prod.exhaust)
  have "triples st4 = triples ?st3 @ concat (map (\<lambda>m. [(entity S i0 (drawer_name m), ''part_of_cluster'', entity S i0 ?c)]) (cr_members cr))
      \<and> n4 = n + 3 + length (concat (map (\<lambda>m. [(entity S i0 (drawer_name m), ''part_of_cluster'', entity S i0 ?c)]) (cr_members cr)))"
    using fold_triples [of "add_member B ?c" "\<lambda>m. [(entity S i0 (drawer_name m), ''part_of_cluster'', entity S i0 ?c)]"
        "cr_members cr" ?st3 "n + 3"] f by (simp add: add_member_def assert_kg_triples)
  then show ?thesis
    by (auto simp: write_cluster_def Let_def f cluster_triples_def assert_kg_triples)
qed

lemma backfill_one_triples:
  "triples (fst (backfill_one B str_of cats ref (st, n))) = triples st @ [importance_triple S i0 str_of cats ref]
   \<and> snd (backfill_one B str_of cats ref (st, n)) = n + 1"
proof -
  obtain v s1 where v: "w_cell (direct B) (str_of (compute_importance (cats ref) Map.empty None)) (ns_store st) = (v, s1)"
    by (rule prod.exhaust)
  show ?thesis using direct.cell_event [OF v] direct.fact_event
    by (simp add: backfill_one_def v importance_triple_def)
qed

lemma garden_writes_triples:
  assumes "garden_writes B str_of rm crs cats missing st = (st', edges, filled)"
  shows "triples st' = triples st @ concat (map (cluster_triples S i0 rm) crs) @ map (importance_triple S i0 str_of cats) missing"
    "edges = length (concat (map (cluster_triples S i0 rm) crs)) + length missing" "filled = length missing"
proof -
  obtain st1 n1 where w: "fold (write_cluster B rm) crs (st, 0) = (st1, n1)" by (rule prod.exhaust)
  obtain st2 n2 where b: "fold (backfill_one B str_of cats) missing (st1, n1) = (st2, n2)" by (rule prod.exhaust)
  have d: "st' = st2" "edges = n2" "filled = length missing" using assms by (auto simp: garden_writes_def w b)
  have "triples st1 = triples st @ concat (map (cluster_triples S i0 rm) crs)
      \<and> n1 = length (concat (map (cluster_triples S i0 rm) crs))"
    using fold_triples [of "write_cluster B rm" "cluster_triples S i0 rm" crs st 0] write_cluster_triples w by simp
  moreover have "triples st2 = triples st1 @ concat (map (\<lambda>x. [importance_triple S i0 str_of cats x]) missing)
      \<and> n2 = n1 + length missing"
    using fold_triples [of "backfill_one B str_of cats" "\<lambda>x. [importance_triple S i0 str_of cats x]" missing st1 n1]
      backfill_one_triples b by (simp add: length_concat comp_def sum_list_triv)
  ultimately show "triples st' = triples st @ concat (map (cluster_triples S i0 rm) crs) @ map (importance_triple S i0 str_of cats) missing"
    "edges = length (concat (map (cluster_triples S i0 rm) crs)) + length missing" "filled = length missing"
    by (simp_all add: d)
qed

lemma sweep_first_prefix: "prefix (lg (ns_store st)) (lg (ns_store (sweep_first B R run emb st)))"
proof (cases "ns_store (sweep_first B R run emb st) = ns_store st")
  case False
  then obtain e ts where "ns_store (sweep_first B R run emb st)
      = sw_store (fold (sweep_fact B R (\<lambda>t. embed run t e)) ts \<lparr>swept = 0, failed = 0, sw_store = ns_store st\<rparr>)"
    by (auto simp: sweep_first_def maybe_sweep_def sweep_needs_embedding_def Let_def split: option.splits if_splits)
  then show ?thesis using sweep_prefix [of "\<lparr>swept = 0, failed = 0, sw_store = ns_store st\<rparr>"] by simp
qed simp

lemma execute_garden_triples:
  assumes "execute_garden B str_of sha iter (sweep_first B R run emb) up raw srch wng rm days thr st = (Inr r, st')"
    and "raw \<noteq> []"
  defines "ds \<equiv> get_drawers_in_scope rm raw"
  shows "\<exists>rest. triples st' = triples st @ concat (map (cluster_triples S i0 rm) (gr_clusters r))
      @ map (importance_triple S i0 str_of (garden_categories ds)) (iter (missing_importance ds)) @ rest"
    "gr_edges r = length (concat (map (cluster_triples S i0 rm) (gr_clusters r))) + gr_backfilled r"
    "gr_backfilled r = length (iter (missing_importance ds))"
    "\<exists>a marks. build_adjacency srch thr ds = Inr (a, marks) \<and> gr_progress r = marks
      \<and> gr_clusters r = map (cluster_row sha iter ds) (find_clusters a 3)" "gr_analyzed r = length raw"
proof -
  have ne: "ds \<noteq> []" and len: "length ds = length raw" using assms(2) by (simp_all add: ds_def get_drawers_in_scope_def)
  obtain a marks where a: "build_adjacency srch thr ds = Inr (a, marks)" and up: up
    using assms(1) ne by (cases "build_adjacency srch thr ds") (auto simp: execute_garden_def ds_def Let_def split: if_splits)
  let ?crs = "map (cluster_row sha iter ds) (find_clusters a 3)" and ?miss = "iter (missing_importance ds)"
  obtain st1 edges filled where w: "garden_writes B str_of rm ?crs (garden_categories ds) ?miss st = (st1, edges, filled)"
    by (metis prod.collapse)
  note wt = garden_writes_triples [OF w]
  let ?w = "case wng of Some x \<Rightarrow> if x \<noteq> [] then x else ''unknown'' | None \<Rightarrow> ''unknown''"
  obtain ref st2 where f: "file_diary B ''curator'' (diary_text ?w days (length ds) (length ?crs) (largest_label ?crs) edges filled)
      ''general'' (sweep_first B R run emb st1) = (ref, st2)" by (rule prod.exhaust)
  have r: "st' = st2" "gr_edges r = edges" "gr_backfilled r = filled" "gr_clusters r = ?crs" "gr_progress r = marks"
      "gr_analyzed r = length ds"
    using assms(1) ne a w f up by (auto simp: execute_garden_def Let_def ds_def [symmetric] simp del: map_map)
  have "prefix (lg (ns_store st1)) (lg (ns_store st2))"
    unfolding file_diary_events(2) [OF f] using sweep_first_prefix by (rule prefix_prefix)
  then obtain more where "triples st2 = triples st1 @ more" by (auto simp: prefix_def)
  then show "\<exists>rest. triples st' = triples st @ concat (map (cluster_triples S i0 rm) (gr_clusters r))
      @ map (importance_triple S i0 str_of (garden_categories ds)) ?miss @ rest"
    unfolding r wt(1) by auto
  show "gr_edges r = length (concat (map (cluster_triples S i0 rm) (gr_clusters r))) + gr_backfilled r"
    "gr_backfilled r = length ?miss" "gr_analyzed r = length raw"
    using wt(2,3) by (simp_all only: r len)
  show "\<exists>a marks. build_adjacency srch thr ds = Inr (a, marks) \<and> gr_progress r = marks
      \<and> gr_clusters r = map (cluster_row sha iter ds) (find_clusters a 3)" using a r by blast
qed

end

section \<open>The adjacency\<close>

lemma scan_hits_sound:
  assumes "scan_hits self scope thr hits ns = Inr ns'" and "distinct ns"
  shows "distinct ns' \<and> set ns \<subseteq> set ns'
    \<and> (\<forall>y \<in> set ns' - set ns. y \<noteq> self \<and> y \<in> scope \<and> (\<exists>sc \<ge> thr. (y, Inr sc) \<in> set hits))"
  using assms
proof (induction self scope thr hits ns arbitrary: ns' rule: scan_hits.induct)
  case (2 self scope thr hid sc hits ns)
  show ?case
  proof (cases "hid = [] \<or> hid = self \<or> hid \<notin> scope")
    case True
    have "distinct ns' \<and> set ns \<subseteq> set ns'
        \<and> (\<forall>y \<in> set ns' - set ns. y \<noteq> self \<and> y \<in> scope \<and> (\<exists>sc \<ge> thr. (y, Inr sc) \<in> set hits))"
      by (rule 2(1) [OF True]) (use 2(3,4) True in simp_all)
    then show ?thesis by auto
  next
    case False
    then obtain x where x: "sc = Inr x" using 2(3) by (cases sc) auto
    let ?ns = "if thr \<le> x \<and> hid \<notin> set ns then ns @ [hid] else ns"
    have "distinct ?ns" using 2(4) by auto
    then have "distinct ns' \<and> set ?ns \<subseteq> set ns'
        \<and> (\<forall>y \<in> set ns' - set ?ns. y \<noteq> self \<and> y \<in> scope \<and> (\<exists>sc \<ge> thr. (y, Inr sc) \<in> set hits))"
      using 2(2) [OF False, of x ns'] 2(3) False x by simp
    then show ?thesis using False x by (auto split: if_splits)
  qed
qed simp

definition row_ok :: "garden_search \<Rightarrow> string set \<Rightarrow> real \<Rightarrow> garden_drawer list \<Rightarrow> string \<times> string list \<Rightarrow> bool" where
  "row_ok srch scope thr ds row \<longleftrightarrow> (case row of (x, ns) \<Rightarrow> distinct ns \<and> x \<notin> set ns \<and> set ns \<subseteq> scope
     \<and> (\<forall>y \<in> set ns. \<exists>d \<in> set ds. gd_id d = x \<and> (\<exists>hits. srch (take 1000 (gd_text d)) SEARCH_K = Inr (Some hits)
          \<and> (\<exists>sc \<ge> thr. (y, Inr sc) \<in> set hits))))"

lemma row_ok_scan:
  assumes "scan_hits (gd_id d) scope thr (case hits of Some hs \<Rightarrow> hs | None \<Rightarrow> []) old = Inr ns"
    and "row_ok srch scope thr ds (gd_id d, old)" and "d \<in> set ds"
    and "srch (take 1000 (gd_text d)) SEARCH_K = Inr hits"
  shows "row_ok srch scope thr ds (gd_id d, ns)"
proof -
  have o: "distinct old" "gd_id d \<notin> set old" "set old \<subseteq> scope" using assms(2) by (simp_all add: row_ok_def)
  note h = scan_hits_sound [OF assms(1) o(1)]
  have "\<exists>d' \<in> set ds. gd_id d' = gd_id d \<and> (\<exists>hits. srch (take 1000 (gd_text d')) SEARCH_K = Inr (Some hits)
      \<and> (\<exists>sc \<ge> thr. (y, Inr sc) \<in> set hits))" if y: "y \<in> set ns" for y
  proof (cases "y \<in> set old")
    case True
    then show ?thesis using assms(2) by (simp add: row_ok_def)
  next
    case False
    then obtain sc where "sc \<ge> thr" "(y, Inr sc) \<in> set (case hits of Some hs \<Rightarrow> hs | None \<Rightarrow> [])" using h y by blast
    then show ?thesis using assms(3,4) by (cases hits) auto
  qed
  moreover have "gd_id d \<notin> set ns" "set ns \<subseteq> scope" using h o by blast+
  ultimately show ?thesis using h by (simp add: row_ok_def)
qed

lemma adjacency_loop_sound:
  assumes "adjacency_loop srch scope thr tot ids (a, marks) = Inr (a', marks')"
    and "\<forall>row \<in> set a. row_ok srch scope thr ds row" and "snd ` set ids \<subseteq> set ds"
  shows "map fst a' = map fst a \<and> (\<forall>row \<in> set a'. row_ok srch scope thr ds row)
    \<and> marks' = marks @ map (\<lambda>i. (i, tot)) (filter (\<lambda>i. 0 < i \<and> i mod PROGRESS_EVERY = 0) (map fst ids))"
  using assms
proof (induction ids arbitrary: a marks)
  case (Cons p ids)
  obtain i d where p: "p = (i, d)" by (rule prod.exhaust)
  let ?m = "if 0 < i \<and> i mod PROGRESS_EVERY = 0 then marks @ [(i, tot)] else marks"
  have sub: "snd ` set ids \<subseteq> set ds" "d \<in> set ds" using Cons.prems(3) p by auto
  show ?case
  proof (cases "srch (take 1000 (gd_text d)) SEARCH_K")
    case (Inl e)
    then show ?thesis using Cons.IH [of a ?m] Cons.prems sub by (simp add: p)
  next
    case (Inr hits)
    let ?hs = "case hits of Some hs \<Rightarrow> hs | None \<Rightarrow> []"
    obtain ns where ns: "scan_hits (gd_id d) scope thr ?hs (neighbours a (gd_id d)) = Inr ns"
        "adjacency_loop srch scope thr tot ids (set_row a (gd_id d) ns, ?m) = Inr (a', marks')"
      using Cons.prems(1) Inr
      by (cases "scan_hits (gd_id d) scope thr ?hs (neighbours a (gd_id d))") (auto simp: p Let_def)
    have old: "row_ok srch scope thr ds (gd_id d, neighbours a (gd_id d))"
      using Cons.prems(2) by (cases "map_of a (gd_id d)") (auto simp: neighbours_def row_ok_def dest!: map_of_SomeD)
    have "row_ok srch scope thr ds (gd_id d, ns)"
      by (rule row_ok_scan [where hits = hits and old = "neighbours a (gd_id d)", OF ns(1) old sub(2) Inr])
    then have "\<forall>row \<in> set (set_row a (gd_id d) ns). row_ok srch scope thr ds row"
      using Cons.prems(2) by (auto simp: set_row_def)
    moreover have "map fst (set_row a (gd_id d) ns) = map fst a" by (simp add: set_row_def comp_def case_prod_beta)
    ultimately show ?thesis using Cons.IH [OF ns(2)] sub(1) by (simp add: p)
  qed
qed simp

section \<open>Properties\<close>

text \<open>
  The adjacency holds what the searches answered.  Its keys are the drawers of the scope, each
  once; an edge goes to another drawer of the scope that the search for the drawer's text
  scored at the threshold or above, and is listed once; a search that raises aborts nothing
  and leaves its drawer without edges of its own; progress is marked every fifty drawers.
\<close>

theorem build_adjacency_sound:
  assumes "build_adjacency srch thr ds = Inr (a, marks)"
  shows "map fst a = first_met (map gd_id ds) \<and> distinct (map fst a)
    \<and> (\<forall>x ns. (x, ns) \<in> set a \<longrightarrow> distinct ns \<and> x \<notin> set ns \<and> set ns \<subseteq> gd_id ` set ds
        \<and> (\<forall>y \<in> set ns. \<exists>d \<in> set ds. gd_id d = x \<and> (\<exists>hits. srch (take 1000 (gd_text d)) SEARCH_K = Inr (Some hits)
            \<and> (\<exists>sc \<ge> thr. (y, Inr sc) \<in> set hits))))
    \<and> marks = map (\<lambda>i. (i, length ds)) (filter (\<lambda>i. 0 < i \<and> i mod 50 = 0) [0..<length ds])"
proof -
  let ?ids = "first_met (map gd_id ds)"
  have "adjacency_loop srch (set ?ids) thr (length ds) (zip [0..<length ds] ds) (map (\<lambda>x. (x, [])) ?ids, [])
      = Inr (a, marks)"
    using assms by (simp add: build_adjacency_def Let_def)
  moreover have "\<forall>row \<in> set (map (\<lambda>x. (x, [])) ?ids). row_ok srch (set ?ids) thr ds row" by (auto simp: row_ok_def)
  moreover have "snd ` set (zip [0..<length ds] ds) \<subseteq> set ds" by (auto dest: set_zip_rightD)
  ultimately have h0: "map fst a = map fst (map (\<lambda>x. (x, [] :: string list)) ?ids) \<and> (\<forall>row \<in> set a. row_ok srch (set ?ids) thr ds row)
    \<and> marks = [] @ map (\<lambda>i. (i, length ds)) (filter (\<lambda>i. 0 < i \<and> i mod PROGRESS_EVERY = 0) (map fst (zip [0..<length ds] ds)))"
    by (rule adjacency_loop_sound)
  then have h: "map fst a = ?ids" "\<forall>row \<in> set a. row_ok srch (set ?ids) thr ds row"
      "marks = map (\<lambda>i. (i, length ds)) (filter (\<lambda>i. 0 < i \<and> i mod PROGRESS_EVERY = 0) [0..<length ds])"
    by (simp_all add: comp_def)
  have "distinct ns \<and> x \<notin> set ns \<and> set ns \<subseteq> gd_id ` set ds
        \<and> (\<forall>y \<in> set ns. \<exists>d \<in> set ds. gd_id d = x \<and> (\<exists>hits. srch (take 1000 (gd_text d)) SEARCH_K = Inr (Some hits)
            \<and> (\<exists>sc \<ge> thr. (y, Inr sc) \<in> set hits)))" if "(x, ns) \<in> set a" for x ns
    using h(2) that by (auto simp: row_ok_def count_first_met)
  then show ?thesis using h(1,3) by (simp add: count_first_met PROGRESS_EVERY_def)
qed

definition two_drawers :: "garden_drawer list" where
  "two_drawers = map (\<lambda>x. \<lparr>gd_id = x, gd_text = ''t'', gd_room = ''r'', gd_category = None, gd_importance = None\<rparr>)
     [''a'', ''b'']"

lemma two_adjacency:
  "build_adjacency (\<lambda>t k. Inr (Some [(''b'', Inr 1), (''a'', Inr (1 / 4))])) (1 / 2) two_drawers
    = Inr ([(''a'', [''b'']), (''b'', [])], [])"
  by (simp add: build_adjacency_def two_drawers_def first_met_def upt_rec neighbours_def set_row_def PROGRESS_EVERY_def)

theorem build_adjacency_sound_witness:
  "[''a'', ''b''] = first_met (map gd_id two_drawers) \<and> ''b'' \<in> gd_id ` set two_drawers"
  using build_adjacency_sound [OF two_adjacency] by auto

text \<open>
  C13: A garden run writes what it reports.  On a backend that records what it is told, a run over
  a nonempty scope appends, in order, the edges of each cluster and one importance fact for
  each drawer without one -- the rubric's score for its category --, and what follows is the
  diary's.  The reported count of edges is the number appended: three for a cluster, one for
  each member, one more for a cluster over several rooms of an unscoped run, and one for each
  backfilled drawer.
\<close>

theorem garden_reports_its_writes:
  assumes "event_backend S i0 B lg bevs resolve issued external pack"
    and "execute_garden B str_of sha iter (sweep_first B R run emb) up raw srch wng rm days thr st = (Inr r, st')"
    and "raw \<noteq> []" and "\<forall>X. finite X \<longrightarrow> set (iter X) = X \<and> distinct (iter X)"
  shows "(\<exists>rest. fact_triples (lg (ns_store st')) = fact_triples (lg (ns_store st))
      @ concat (map (cluster_triples S i0 rm) (gr_clusters r))
      @ map (importance_triple S i0 str_of (garden_categories (get_drawers_in_scope rm raw)))
          (iter (missing_importance (get_drawers_in_scope rm raw))) @ rest)
    \<and> gr_backfilled r = card (missing_importance (get_drawers_in_scope rm raw))
    \<and> gr_edges r = (\<Sum>cr \<leftarrow> gr_clusters r. 3 + cr_size cr + (if rm = None \<and> 1 < length (cr_rooms cr) then 1 else 0))
        + gr_backfilled r
    \<and> gr_analyzed r = length raw \<and> (\<forall>cr \<in> set (gr_clusters r). 3 \<le> cr_size cr \<and> length (cr_members cr) = cr_size cr)"
proof -
  note e = event_backend.execute_garden_triples [OF assms(1,2,3)]
  let ?ds = "get_drawers_in_scope rm raw"
  have fin: "finite (missing_importance ?ds)" by (simp add: missing_importance_def)
  obtain a where a: "gr_clusters r = map (cluster_row sha iter ?ds) (find_clusters a 3)" using e(4) by blast
  have size: "3 \<le> cr_size cr \<and> length (cr_members cr) = cr_size cr" if cr: "cr \<in> set (gr_clusters r)" for cr
  proof -
    obtain C where C: "C \<in> set (find_clusters a 3)" "cr = cluster_row sha iter ?ds C" using cr a by auto
    then have "3 \<le> card C" by (simp add: find_clusters_components)
    moreover have "finite C" using calculation by (metis card.infinite not_numeral_le_zero)
    ultimately show ?thesis using assms(4) C(2) by (simp add: cluster_row_def case_prod_beta Let_def distinct_card [symmetric])
  qed
  have "length (concat (map (cluster_triples S i0 rm) (gr_clusters r)))
      = (\<Sum>cr \<leftarrow> gr_clusters r. 3 + cr_size cr + (if rm = None \<and> 1 < length (cr_rooms cr) then 1 else 0))"
    using size by (auto simp: length_concat comp_def cluster_triples_def Let_def intro!: arg_cong [where f = sum_list])
  moreover have "gr_backfilled r = card (missing_importance ?ds)"
    using e(3) assms(4) fin by (metis distinct_card)
  ultimately show ?thesis using e(1,2,5) size by simp
qed

definition untagged :: drawer where
  "untagged = \<lparr>d_ref = ''#hi'', d_content = ''hi'', d_wing = None, d_room = None, d_category = None, d_importance = None\<rparr>"

theorem garden_reports_its_writes_witness:
  "\<exists>r st'. execute_garden (log_backend demo_substrate (0 :: nat) (\<lambda>v. ''v'')) (\<lambda>x. ''0.5'') (\<lambda>t. t) sorted_list_of_set
      (sweep_first (log_backend demo_substrate 0 (\<lambda>v. ''v'')) (log_reads demo_substrate 0) (\<lambda>m t. Inr []) (None :: unit embedder option))
      True [untagged] (\<lambda>t k. Inr None) (Some ''w'') None 90 (4 / 5) (native_init []) = (Inr r, st')
    \<and> gr_edges r = 1 \<and> gr_backfilled r = 1"
proof -
  let ?B = "log_backend demo_substrate (0 :: nat) (\<lambda>v. ''v'')"
  let ?run = "execute_garden ?B (\<lambda>x. ''0.5'') (\<lambda>t. t) sorted_list_of_set
      (sweep_first ?B (log_reads demo_substrate 0) (\<lambda>m t. Inr []) (None :: unit embedder option))
      True [untagged] (\<lambda>t k. Inr None) (Some ''w'') None 90 (4 / 5) (native_init [])"
  have ds: "get_drawers_in_scope None [untagged]
      = [\<lparr>gd_id = ''#hi'', gd_text = ''hi'', gd_room = ''unknown'', gd_category = None, gd_importance = None\<rparr>]"
    by (simp add: get_drawers_in_scope_def untagged_def)
  have a: "build_adjacency (\<lambda>t k. Inr None) (4 / 5) (get_drawers_in_scope None [untagged]) = Inr ([(''#hi'', [])], [])"
    by (simp add: ds build_adjacency_def first_met_def neighbours_def set_row_def)
  have c: "find_clusters [(''#hi'', [])] 3 = []" by (simp add: find_clusters_def neighbours_def)
  have "\<exists>r. fst ?run = Inr r \<and> gr_clusters r = []"
    by (simp add: execute_garden_def Let_def a c ds [symmetric] case_prod_beta)
  then obtain r st' where run: "?run = (Inr r, st')" "gr_clusters r = []" by (metis prod.collapse)
  have it: "\<forall>X. finite X \<longrightarrow> set (sorted_list_of_set X) = X \<and> distinct (sorted_list_of_set (X :: string set))" by simp
  have m: "missing_importance (get_drawers_in_scope None [untagged]) = {''#hi''}"
    by (auto simp: ds missing_importance_def)
  show ?thesis
    using garden_reports_its_writes [OF logb.event_backend_axioms run(1) _ it] run by (simp add: m)
qed

end
