(* ===== verification/Interject.thy ===== *)
theory Interject
  imports Capture
begin

text \<open>
  The interjection hook (\<open>hooks-memory-interject\<close>): retrieval, the relevance gate with the
  optional judge, the cooldown and the loop guard, the injection text and the three handlers.
  The daemon's answer, the judge's reply and the opt-out are inputs of an event.  Texts are
  strings; what is injected is a list of code points, since its fixed parts lie above 255.
\<close>

section \<open>Retrieval\<close>

record memory =
  m_id :: string
  m_text :: string
  m_score :: real

text \<open>A hit of the daemon's answer; \<open>raw_score\<close> is what \<open>float\<close> makes of its score.\<close>

record raw_hit =
  raw_ref :: string
  raw_text :: string
  raw_path :: string
  raw_score :: "py_error + real"

text \<open>\<open>sha1\<close> is the hexadecimal digest of the library.\<close>

definition derive_memory_id :: "(string \<Rightarrow> string) \<Rightarrow> string \<Rightarrow> string \<Rightarrow> string" where
  "derive_memory_id sha1 path t = take 16 (sha1 (path @ '':'' @ take 200 t))"

definition memory_of :: "(string \<Rightarrow> string) \<Rightarrow> raw_hit \<Rightarrow> py_error + memory" where
  "memory_of sha1 h = bind_err (raw_score h) (\<lambda>sc.
     Inr \<lparr>m_id = (if raw_ref h \<noteq> [] then raw_ref h else derive_memory_id sha1 (raw_path h) (raw_text h)),
          m_text = raw_text h, m_score = sc\<rparr>)"

text \<open>
  The daemon's answer: \<open>None\<close> for a failed call or an answer of another shape, and in the list
  \<open>None\<close> for a hit that is no object.
\<close>

type_synonym answer = "string \<Rightarrow> int \<Rightarrow> raw_hit option list option"

definition mcp_search :: "(string \<Rightarrow> string) \<Rightarrow> answer \<Rightarrow> string \<Rightarrow> int \<Rightarrow> py_error + memory list" where
  "mcp_search sha1 ask query n = (if query = [] then Inr []
     else (case ask (take 250 query) n of None \<Rightarrow> Inr []
       | Some hits \<Rightarrow> mapM (memory_of sha1) (map the (filter (\<lambda>h. h \<noteq> None) hits))))"

text \<open>The judge: no reply, or what \<open>float\<close> makes of it, clamped; \<open>max(0.0, nan)\<close> is \<open>0.0\<close>.\<close>

definition llm_judge :: "py_number option \<Rightarrow> real" where
  "llm_judge reply = (case reply of Some (Fin x) \<Rightarrow> min 1 (max 0 x) | Some PInf \<Rightarrow> 1 | _ \<Rightarrow> 0)"

section \<open>The hook and its state\<close>

record interject_hook =
  cosine_threshold :: real
  uncertain_band :: real
  max_inject_chars :: int
  cooldown_turns :: int
  prompt_enabled :: bool
  tool_pre_enabled :: bool
  orc_enabled :: bool
  llm_judge_enabled :: bool
  ij_emits :: bool

record interject_state =
  injected_this_turn :: bool
  last_injected :: "string \<rightharpoonup> int"
  turn :: int
  briefed_ids :: "string set"

definition interject_init :: interject_state where
  "interject_init = \<lparr>injected_this_turn = False, last_injected = Map.empty, turn = 0, briefed_ids = {}\<rparr>"

definition is_on_cooldown :: "interject_hook \<Rightarrow> interject_state \<Rightarrow> string \<Rightarrow> bool" where
  "is_on_cooldown h s mid \<longleftrightarrow>
     turn s - (case last_injected s mid of Some t \<Rightarrow> t | None \<Rightarrow> - 999) < cooldown_turns h"

definition mark_injected :: "string list \<Rightarrow> interject_state \<Rightarrow> interject_state" where
  "mark_injected mids s = s\<lparr>last_injected := fold (\<lambda>m f. f(m \<mapsto> turn s)) mids (last_injected s)\<rparr>"

section \<open>The gate\<close>

datatype gate = Closed string bool | Opened "memory list" bool

definition relevance_gate :: "interject_hook \<Rightarrow> interject_state \<Rightarrow> (memory \<Rightarrow> real) \<Rightarrow> memory list \<Rightarrow> gate" where
  "relevance_gate h s judge cands = (
     if cands = [] then Closed ''retrieval_failed'' False
     else let fresh = filter (\<lambda>m. m_id m \<notin> briefed_ids s \<and> \<not> is_on_cooldown h s (m_id m)) cands in
       if fresh = [] then Closed ''cooldown'' False
       else let above = filter (\<lambda>m. cosine_threshold h \<le> m_score m) fresh;
                uncertain = filter (\<lambda>m. cosine_threshold h - uncertain_band h \<le> m_score m
                    \<and> m_score m < cosine_threshold h) fresh;
                judged = (uncertain \<noteq> [] \<and> llm_judge_enabled h);
                promoted = above @ (if judged then filter (\<lambda>m. 7 / 10 \<le> judge m) uncertain else [])
            in if promoted = [] then Closed ''below_threshold'' judged
               else Opened (take 2 (sorted_desc m_score promoted)) judged)"

definition retrieve_and_gate ::
    "(string \<Rightarrow> string) \<Rightarrow> interject_hook \<Rightarrow> interject_state \<Rightarrow> answer \<Rightarrow> (string \<Rightarrow> memory \<Rightarrow> py_number option)
       \<Rightarrow> string \<Rightarrow> py_error + gate" where
  "retrieve_and_gate sha1 h s ask reply query = bind_err (mcp_search sha1 ask query 5) (\<lambda>cands.
     Inr (relevance_gate h s (\<lambda>m. llm_judge (reply query m)) cands))"

section \<open>The injection\<close>

definition cps :: "string \<Rightarrow> ustr" where "cps s = map of_char s"

definition ELLIPSIS :: ustr where "ELLIPSIS = [8230]"

definition SEPARATOR :: ustr where "SEPARATOR = [10] @ cps ''---'' @ [10]"

datatype trigger = Prompt_Submit | Tool_Pre | Orchestrator_Complete

fun header :: "trigger \<Rightarrow> ustr" where
  "header Prompt_Submit = [128218] @ cps '' Relevant memory from a previous session:''"
| "header Tool_Pre = [128257] @ cps '' You'' @ [39] @ cps ''ve done something similar before '' @ [8212]
     @ cps '' here'' @ [39] @ cps ''s what happened:''"
| "header Orchestrator_Complete = [9888, 65039] @ cps '' Memory check '' @ [8212]
     @ cps '' this may be relevant to your current reasoning:''"

definition OVERHEAD :: int where "OVERHEAD = 1 + 5"

text \<open>The loop over the memories: the parts after the header.\<close>

fun format_parts :: "int \<Rightarrow> int \<Rightarrow> memory list \<Rightarrow> ustr list" where
  "format_parts cap tot [] = []"
| "format_parts cap tot (m # ms) = (
     let snippet = cps (py_strip (m_text m));
         fits = tot + OVERHEAD + int (length snippet) \<le> cap;
         room = cap - tot - OVERHEAD - int (length ELLIPSIS)
     in if \<not> fits \<and> room \<le> 0 then []
        else let sn = (if fits then snippet else py_upto snippet room @ ELLIPSIS);
                 tot' = tot + OVERHEAD + int (length sn)
             in (SEPARATOR @ sn) # (if cap \<le> tot' then [] else format_parts cap tot' ms))"

definition format_injection :: "memory list \<Rightarrow> trigger \<Rightarrow> int \<Rightarrow> ustr" where
  "format_injection ms t cap = (if ms = [] then []
     else join [10] (header t # format_parts cap (int (length (header t))) ms))"

section \<open>The handlers\<close>

datatype outcome = Skipped string | Surfaced ustr "string list" real bool

text \<open>What an event brings: the session's parent, the opt-out, the payload and the two replies.\<close>

record interject_event =
  ie_sub :: bool
  ie_opt_out :: bool
  ie_text :: string
  ie_tool :: string
  ie_input :: "string \<rightharpoonup> py_any"
  ie_answer :: answer
  ie_reply :: "string \<Rightarrow> memory \<Rightarrow> py_number option"

definition surface :: "interject_hook \<Rightarrow> trigger \<Rightarrow> memory list \<Rightarrow> bool \<Rightarrow> interject_state \<Rightarrow> outcome \<times> interject_state" where
  "surface h t ms judged s = (
     let s1 = mark_injected (map m_id ms) s
     in (Surfaced (format_injection ms t (max_inject_chars h)) (map m_id ms)
           (if ms = [] then 0 else Max (m_score ` set ms)) judged,
         if t = Tool_Pre then s1 else s1\<lparr>injected_this_turn := True\<rparr>))"

definition on_prompt_submit ::
    "(string \<Rightarrow> string) \<Rightarrow> interject_hook \<Rightarrow> interject_event \<Rightarrow> interject_state \<Rightarrow> (py_error + outcome) \<times> interject_state" where
  "on_prompt_submit sha1 h e s = (
     if ie_sub e then (Inr (Skipped ''sub_session''), s)
     else if ie_opt_out e then (Inr (Skipped ''automation_opt_out''), s)
     else if \<not> prompt_enabled h then (Inr (Skipped ''disabled''), s)
     else if ie_text e = [] \<or> length (ie_text e) < 20 then (Inr (Skipped ''too_short''), s)
     else let s1 = s\<lparr>injected_this_turn := False\<rparr> in
       case retrieve_and_gate sha1 h s1 (ie_answer e) (ie_reply e) (ie_text e) of
         Inl err \<Rightarrow> (Inl err, s1)
       | Inr (Closed reason judged) \<Rightarrow> (Inr (Skipped reason), s1)
       | Inr (Opened ms judged) \<Rightarrow> (case surface h Prompt_Submit ms judged s1 of (out, s2) \<Rightarrow> (Inr out, s2)))"

definition tool_query :: "interject_event \<Rightarrow> string" where
  "tool_query e = join '' '' ((''tool:'' @ ie_tool e) # concat (map (\<lambda>key. case ie_input e key of
     Some v \<Rightarrow> [take 200 (py_str v)] | None \<Rightarrow> []) [''path'', ''command'', ''query'', ''url'', ''file_path'']))"

definition on_tool_pre ::
    "(string \<Rightarrow> string) \<Rightarrow> interject_hook \<Rightarrow> interject_event \<Rightarrow> interject_state \<Rightarrow> (py_error + outcome) \<times> interject_state" where
  "on_tool_pre sha1 h e s = (
     if ie_sub e then (Inr (Skipped ''sub_session''), s)
     else if ie_opt_out e then (Inr (Skipped ''automation_opt_out''), s)
     else if \<not> tool_pre_enabled h then (Inr (Skipped ''disabled''), s)
     else if length (tool_query e) < 15 then (Inr (Skipped ''too_short''), s)
     else case retrieve_and_gate sha1 h s (ie_answer e) (ie_reply e) (tool_query e) of
         Inl err \<Rightarrow> (Inl err, s)
       | Inr (Closed reason judged) \<Rightarrow> (Inr (Skipped reason), s)
       | Inr (Opened ms judged) \<Rightarrow> (case surface h Tool_Pre ms judged s of (out, s2) \<Rightarrow> (Inr out, s2)))"

definition CONTRADICTION_KEYWORDS :: "string list" where
  "CONTRADICTION_KEYWORDS = [''failed'', ''error'', ''don'' @ [CHR 39] @ ''t'', ''avoid'', ''never'', ''broken'',
     ''deprecated'', ''removed'', ''changed'', ''wrong'', ''incorrect'']"

definition contradicts :: "memory \<Rightarrow> bool" where
  "contradicts m \<longleftrightarrow> (\<exists>kw \<in> set CONTRADICTION_KEYWORDS. contains kw (py_lower (m_text m)))"

definition on_orchestrator_complete ::
    "(string \<Rightarrow> string) \<Rightarrow> interject_hook \<Rightarrow> interject_event \<Rightarrow> interject_state \<Rightarrow> (py_error + outcome) \<times> interject_state" where
  "on_orchestrator_complete sha1 h e s0 = (let s = s0\<lparr>turn := turn s0 + 1\<rparr> in
     if ie_sub e then (Inr (Skipped ''sub_session''), s)
     else if ie_opt_out e then (Inr (Skipped ''automation_opt_out''), s)
     else if \<not> orc_enabled h then (Inr (Skipped ''disabled''), s)
     else if injected_this_turn s then (Inr (Skipped ''guard_flag''), s\<lparr>injected_this_turn := False\<rparr>)
     else if ie_text e = [] \<or> length (ie_text e) < 50 then (Inr (Skipped ''too_short''), s)
     else case retrieve_and_gate sha1 h s (ie_answer e) (ie_reply e) (ie_text e) of
         Inl err \<Rightarrow> (Inl err, s)
       | Inr (Closed reason judged) \<Rightarrow> (Inr (Skipped reason), s)
       | Inr (Opened ms judged) \<Rightarrow>
           (let cs = filter contradicts ms in
            if cs = [] then (Inr (Skipped ''below_threshold''), s)
            else (case surface h Orchestrator_Complete cs judged s of (out, s2) \<Rightarrow> (Inr out, s2))))"

text \<open>The listener for \<open>memory:briefing_assembled\<close>.\<close>

definition on_briefing_assembled :: "string list \<Rightarrow> interject_state \<Rightarrow> interject_state" where
  "on_briefing_assembled ids s = s\<lparr>briefed_ids := briefed_ids s \<union> {i \<in> set ids. i \<noteq> []}\<rparr>"

text \<open>What the coordinator gets, and what is logged.\<close>

datatype hook_result = Continue | Inject_Context ustr

fun hook_result_of :: "outcome \<Rightarrow> hook_result" where
  "hook_result_of (Skipped reason) = Continue"
| "hook_result_of (Surfaced block ids sc judged) = Inject_Context block"

datatype interject_record = Interject_Skipped trigger string | Memory_Surfaced trigger "ustr option" "string list" real bool

fun report :: "interject_hook \<Rightarrow> trigger \<Rightarrow> outcome \<Rightarrow> interject_record list" where
  "report h t (Skipped reason) = (if ij_emits h then [Interject_Skipped t reason] else [])"
| "report h t (Surfaced block ids sc judged) = (if ij_emits h
     then [Memory_Surfaced t (if block = [] then None else Some (take 100 block)) ids sc judged] else [])"

section \<open>Sequences of events\<close>

datatype session_event = Hook trigger interject_event | Briefed "string list"

text \<open>\<open>mount\<close> registers a handler only when its trigger is enabled.\<close>

fun registered :: "interject_hook \<Rightarrow> trigger \<Rightarrow> bool" where
  "registered h Prompt_Submit = prompt_enabled h"
| "registered h Tool_Pre = tool_pre_enabled h"
| "registered h Orchestrator_Complete = orc_enabled h"

fun handle ::
    "trigger \<Rightarrow> (string \<Rightarrow> string) \<Rightarrow> interject_hook \<Rightarrow> interject_event \<Rightarrow> interject_state \<Rightarrow> (py_error + outcome) \<times> interject_state" where
  "handle Prompt_Submit = on_prompt_submit"
| "handle Tool_Pre = on_tool_pre"
| "handle Orchestrator_Complete = on_orchestrator_complete"

fun interject_step ::
    "(string \<Rightarrow> string) \<Rightarrow> interject_hook \<Rightarrow> session_event \<Rightarrow> interject_state \<Rightarrow> (py_error + outcome) option \<times> interject_state" where
  "interject_step sha1 h (Hook t e) s = (if registered h t then apfst Some (handle t sha1 h e s) else (None, s))"
| "interject_step sha1 h (Briefed ids) s = (None, on_briefing_assembled ids s)"

text \<open>The injections of a run: the turn and the ids of each.\<close>

fun injections ::
    "(string \<Rightarrow> string) \<Rightarrow> interject_hook \<Rightarrow> session_event list \<Rightarrow> interject_state \<Rightarrow> (int \<times> string list) list" where
  "injections sha1 h [] s = []"
| "injections sha1 h (e # es) s = (case interject_step sha1 h e s of (out, s') \<Rightarrow>
     (case out of Some (Inr (Surfaced block ids sc j)) \<Rightarrow> [(turn s', ids)] | _ \<Rightarrow> []) @ injections sha1 h es s')"

fun run :: "(string \<Rightarrow> string) \<Rightarrow> interject_hook \<Rightarrow> session_event list \<Rightarrow> interject_state \<Rightarrow> interject_state" where
  "run sha1 h [] s = s"
| "run sha1 h (e # es) s = run sha1 h es (snd (interject_step sha1 h e s))"

section \<open>Lemmas\<close>

definition eligible :: "interject_hook \<Rightarrow> interject_state \<Rightarrow> (memory \<Rightarrow> real) \<Rightarrow> memory \<Rightarrow> bool" where
  "eligible h s judge m \<longleftrightarrow> m_id m \<notin> briefed_ids s \<and> \<not> is_on_cooldown h s (m_id m)
     \<and> (cosine_threshold h \<le> m_score m
        \<or> llm_judge_enabled h \<and> cosine_threshold h - uncertain_band h \<le> m_score m \<and> 7 / 10 \<le> judge m)"

lemma mset_filter_split:
  "(\<And>x. \<not> (P x \<and> Q x)) \<Longrightarrow> mset (filter P xs @ filter Q xs) = mset (filter (\<lambda>x. P x \<or> Q x) xs)"
  by (induction xs) auto

lemma gate_promoted:
  "\<exists>promoted. mset promoted = mset (filter (eligible h s judge) cands)
     \<and> (case relevance_gate h s judge cands of Closed reason judged \<Rightarrow> promoted = []
        | Opened ms judged \<Rightarrow> promoted \<noteq> [] \<and> ms = take 2 (sorted_desc m_score promoted))"
proof -
  let ?fresh = "filter (\<lambda>m. m_id m \<notin> briefed_ids s \<and> \<not> is_on_cooldown h s (m_id m)) cands"
  let ?above = "filter (\<lambda>m. cosine_threshold h \<le> m_score m) ?fresh"
  let ?unc = "filter (\<lambda>m. cosine_threshold h - uncertain_band h \<le> m_score m \<and> m_score m < cosine_threshold h) ?fresh"
  let ?p = "?above @ (if ?unc \<noteq> [] \<and> llm_judge_enabled h then filter (\<lambda>m. 7 / 10 \<le> judge m) ?unc else [])"
  have "(if u \<noteq> [] \<and> b then filter P u else []) = filter (\<lambda>m. b \<and> P m) u" for u :: "memory list" and b P
    by (cases u) simp_all
  then have "mset ?p = mset (?above @ filter (\<lambda>m. llm_judge_enabled h \<and> 7 / 10 \<le> judge m) ?unc)"
    by (simp only:)
  also have "\<dots> = mset (filter (eligible h s judge) cands)"
    unfolding filter_filter by (subst mset_filter_split) (auto simp: eligible_def intro!: filter_mset_cong)
  finally have m: "mset ?p = mset (filter (eligible h s judge) cands)" .
  have eq: "relevance_gate h s judge cands = (if cands = [] then Closed ''retrieval_failed'' False
      else if ?fresh = [] then Closed ''cooldown'' False
      else if ?p = [] then Closed ''below_threshold'' (?unc \<noteq> [] \<and> llm_judge_enabled h)
      else Opened (take 2 (sorted_desc m_score ?p)) (?unc \<noteq> [] \<and> llm_judge_enabled h))"
    by (simp only: relevance_gate_def Let_def)
  have gated: "case (if c then Closed a1 b1 else if f then Closed a2 b2 else if p = [] then Closed a3 b3
        else Opened (take 2 (sorted_desc m_score p)) b3) of Closed reason judged \<Rightarrow> p = []
      | Opened ms judged \<Rightarrow> p \<noteq> [] \<and> ms = take 2 (sorted_desc m_score p)"
    if "c \<longrightarrow> p = []" "f \<longrightarrow> p = []" for c f a1 b1 a2 b2 a3 b3 p
    using that by simp
  have "case relevance_gate h s judge cands of Closed reason judged \<Rightarrow> ?p = []
        | Opened ms judged \<Rightarrow> ?p \<noteq> [] \<and> ms = take 2 (sorted_desc m_score ?p)"
    unfolding eq by (rule gated) simp_all
  with m show ?thesis by blast
qed

lemma gate_opened_eligible:
  assumes "relevance_gate h s judge cands = Opened ms judged" and "m \<in> set ms"
  shows "m \<in> set cands" "eligible h s judge m"
proof -
  obtain p where p: "mset p = mset (filter (eligible h s judge) cands)" "ms = take 2 (sorted_desc m_score p)"
    using gate_promoted [of h s judge cands] assms(1) by auto
  then have "m \<in> set p" using assms(2) by (metis in_set_takeD set_sorted_desc)
  then have "m \<in> set (filter (eligible h s judge) cands)" using p(1) by (metis set_mset_mset)
  then show "m \<in> set cands" "eligible h s judge m" by simp_all
qed

lemma last_mark: "last_injected (mark_injected ids s) m = (if m \<in> set ids then Some (turn s) else last_injected s m)"
proof -
  have "fold (\<lambda>m f. f(m \<mapsto> t)) ids f m = (if m \<in> set ids then Some t else f m)" for t :: int and f
    by (induction ids arbitrary: f) auto
  then show ?thesis by (simp add: mark_injected_def)
qed

lemma mark_simps [simp]:
  "turn (mark_injected ids s) = turn s" "briefed_ids (mark_injected ids s) = briefed_ids s"
  by (simp_all add: mark_injected_def)

text \<open>
  What a step does: it injects nothing and remembers what was injected, or it injects memories
  that were neither briefed nor on cooldown and marks them with the turn.
\<close>

definition quiet :: "interject_state \<Rightarrow> interject_state \<Rightarrow> bool" where
  "quiet s s' \<longleftrightarrow> last_injected s' = last_injected s \<and> turn s \<le> turn s' \<and> briefed_ids s \<subseteq> briefed_ids s'"

definition injects :: "interject_hook \<Rightarrow> interject_state \<Rightarrow> string list \<Rightarrow> interject_state \<Rightarrow> bool" where
  "injects h s ids s' \<longleftrightarrow> turn s \<le> turn s' \<and> briefed_ids s' = briefed_ids s
     \<and> (\<forall>m. last_injected s' m = (if m \<in> set ids then Some (turn s') else last_injected s m))
     \<and> (\<forall>m \<in> set ids. m \<notin> briefed_ids s \<and> \<not> is_on_cooldown h (s\<lparr>turn := turn s'\<rparr>) m)"

lemma surface_injects:
  assumes "surface h t ms judged s = (out, s')"
    and "\<forall>m \<in> set ms. m_id m \<notin> briefed_ids s \<and> \<not> is_on_cooldown h s (m_id m)"
  shows "\<exists>block sc. out = Surfaced block (map m_id ms) sc judged \<and> injects h s (map m_id ms) s'"
proof -
  have s': "last_injected s' = last_injected (mark_injected (map m_id ms) s)" "turn s' = turn s"
      "briefed_ids s' = briefed_ids s"
    using assms(1) by (auto simp: surface_def Let_def split: if_splits)
  have "is_on_cooldown h (s\<lparr>turn := turn s\<rparr>) m = is_on_cooldown h s m" for m by (simp add: is_on_cooldown_def)
  then have "injects h s (map m_id ms) s'" using assms(2) s' by (auto simp: injects_def last_mark)
  then show ?thesis using assms(1) by (auto simp: surface_def Let_def)
qed

lemma gate_fresh:
  "retrieve_and_gate sha1 h s ask reply q = Inr (Opened ms judged) \<Longrightarrow>
   \<forall>m \<in> set ms. m_id m \<notin> briefed_ids s \<and> \<not> is_on_cooldown h s (m_id m)"
  by (cases "mcp_search sha1 ask q 5")
     (auto simp: retrieve_and_gate_def eligible_def dest: gate_opened_eligible(2))

definition step_ok :: "interject_hook \<Rightarrow> interject_state \<Rightarrow> py_error + outcome \<Rightarrow> interject_state \<Rightarrow> bool" where
  "step_ok h s r s' \<longleftrightarrow> (\<exists>block ids sc j. r = Inr (Surfaced block ids sc j) \<and> injects h s ids s')
    \<or> (\<forall>block ids sc j. r \<noteq> Inr (Surfaced block ids sc j)) \<and> quiet s s'"

text \<open>A state that differs in the flag, or in a later turn.\<close>

definition moved :: "interject_state \<Rightarrow> interject_state \<Rightarrow> bool" where
  "moved s s1 \<longleftrightarrow> last_injected s1 = last_injected s \<and> briefed_ids s1 = briefed_ids s \<and> turn s \<le> turn s1"

lemma moved_simps [simp]:
  "moved s s" "moved s (s\<lparr>injected_this_turn := b\<rparr>)" "moved s (s\<lparr>turn := turn s + 1\<rparr>)"
  "moved s (s\<lparr>turn := turn s + 1, injected_this_turn := b\<rparr>)"
  by (simp_all add: moved_def)

lemma step_ok_skip: "moved s s' \<Longrightarrow> step_ok h s (Inr (Skipped reason)) s'" "moved s s' \<Longrightarrow> step_ok h s (Inl err) s'"
  by (simp_all add: step_ok_def moved_def quiet_def)

lemma step_ok_surface:
  assumes "moved s s1" and "surface h t ms judged s1 = (out, s')"
    and "\<forall>m \<in> set ms. m_id m \<notin> briefed_ids s1 \<and> \<not> is_on_cooldown h s1 (m_id m)"
  shows "step_ok h s (Inr out) s'"
proof -
  obtain block sc where o: "out = Surfaced block (map m_id ms) sc judged" "injects h s1 (map m_id ms) s'"
    using surface_injects [OF assms(2,3)] by blast
  have "is_on_cooldown h (s1\<lparr>turn := t\<rparr>) m = is_on_cooldown h (s\<lparr>turn := t\<rparr>) m" for t m
    using assms(1) by (simp add: is_on_cooldown_def moved_def)
  then have "injects h s (map m_id ms) s'" using o(2) assms(1) by (auto simp: injects_def moved_def)
  then show ?thesis using o(1) by (auto simp: step_ok_def)
qed

lemma step_ok_gated:
  assumes "moved s s1" and "retrieve_and_gate sha1 h s1 ask reply q = Inr (Opened ms judged)"
    and "surface h t (filter P ms) judged s1 = (out, s')"
  shows "step_ok h s (Inr out) s'"
  by (rule step_ok_surface [OF assms(1,3)]) (use gate_fresh [OF assms(2)] in auto)

lemmas step_ok_opened = step_ok_gated [where P = "\<lambda>_. True", simplified]

lemma prompt_ok: "on_prompt_submit sha1 h e s = (r, s') \<Longrightarrow> step_ok h s r s'"
  by (auto simp: on_prompt_submit_def Let_def step_ok_skip split: if_splits sum.splits gate.splits prod.splits)
     (rule step_ok_opened [rotated], assumption, assumption, simp)

lemma tool_ok: "on_tool_pre sha1 h e s = (r, s') \<Longrightarrow> step_ok h s r s'"
  by (auto simp: on_tool_pre_def step_ok_skip split: if_splits sum.splits gate.splits prod.splits)
     (rule step_ok_opened [rotated], assumption, assumption, simp)

lemma orc_ok: "on_orchestrator_complete sha1 h e s = (r, s') \<Longrightarrow> step_ok h s r s'"
  by (auto simp: on_orchestrator_complete_def Let_def step_ok_skip split: if_splits sum.splits gate.splits prod.splits)
     (rule step_ok_gated [rotated], assumption, assumption, simp)

lemma step_injects:
  assumes "interject_step sha1 h e s = (out, s')"
  shows "(\<exists>block ids sc j. out = Some (Inr (Surfaced block ids sc j)) \<and> injects h s ids s')
    \<or> (\<forall>block ids sc j. out \<noteq> Some (Inr (Surfaced block ids sc j))) \<and> quiet s s'"
proof (cases e)
  case (Hook t x)
  show ?thesis
  proof (cases "registered h t")
    case True
    then obtain r where "out = Some r" "step_ok h s r s'"
      using assms Hook by (cases t) (auto simp: apfst_def map_prod_def split: prod.splits dest: prompt_ok tool_ok orc_ok)
    then show ?thesis by (auto simp: step_ok_def)
  next
    case False
    then show ?thesis using assms Hook by (auto simp: quiet_def)
  qed
next
  case (Briefed ids)
  then show ?thesis using assms by (auto simp: on_briefing_assembled_def quiet_def)
qed

lemma injections_later:
  "(t, ids) \<in> set (injections sha1 h es s) \<Longrightarrow> turn s \<le> t
    \<and> (\<forall>m \<in> set ids. m \<notin> briefed_ids s \<and> (\<forall>t0. last_injected s m = Some t0 \<longrightarrow> cooldown_turns h \<le> t - t0))"
proof (induction es arbitrary: s)
  case (Cons e es)
  obtain out s' where st: "interject_step sha1 h e s = (out, s')" by (rule prod.exhaust)
  note ok = step_injects [OF st]
  show ?case
  proof (cases "(t, ids) \<in> set (injections sha1 h es s')")
    case True
    note IH = Cons.IH [OF True]
    show ?thesis
    proof (cases "\<exists>block ids' sc j. out = Some (Inr (Surfaced block ids' sc j))")
      case True
      then obtain ids' where i: "injects h s ids' s'" using ok by blast
      have "cooldown_turns h \<le> t - t0" if m: "m \<in> set ids" "last_injected s m = Some t0" for m t0
      proof (cases "m \<in> set ids'")
        case True
        then have "cooldown_turns h \<le> turn s' - t0" using i m(2) by (auto simp: injects_def is_on_cooldown_def)
        then show ?thesis using IH by linarith
      next
        case False
        then show ?thesis using i m IH by (auto simp: injects_def)
      qed
      then show ?thesis using IH i by (auto simp: injects_def)
    next
      case False
      then have "quiet s s'" using ok by blast
      then show ?thesis using IH by (auto simp: quiet_def)
    qed
  next
    case False
    then obtain block sc j where "out = Some (Inr (Surfaced block ids sc j))" "t = turn s'"
      using Cons.prems by (auto simp: st split: option.splits sum.splits outcome.splits)
    then have "injects h s ids s'" using ok by auto
    then show ?thesis using \<open>t = turn s'\<close> by (auto simp: injects_def is_on_cooldown_def)
  qed
qed simp

section \<open>Properties\<close>

definition demo_hook :: interject_hook where
  "demo_hook = \<lparr>cosine_threshold = 72 / 100, uncertain_band = 1 / 10, max_inject_chars = 800, cooldown_turns = 3,
     prompt_enabled = True, tool_pre_enabled = False, orc_enabled = True, llm_judge_enabled = False, ij_emits = True\<rparr>"

definition demo_capped :: interject_hook where "demo_capped = demo_hook\<lparr>max_inject_chars := 60\<rparr>"

definition demo_long :: memory where
  "demo_long = \<lparr>m_id = ''a'', m_text = ''a memory with a text of some length'', m_score = 9 / 10\<rparr>"

definition demo_short :: memory where
  "demo_short = \<lparr>m_id = ''b'', m_text = ''another thing that was changed, a memory with a text of more than fifty characters'', m_score = 8 / 10\<rparr>"

text \<open>A session in which every response brings the same memory.\<close>

definition demo_event :: interject_event where
  "demo_event = \<lparr>ie_sub = False, ie_opt_out = False, ie_text = m_text demo_short, ie_tool = [], ie_input = Map.empty,
     ie_answer = (\<lambda>q n. Some [Some \<lparr>raw_ref = ''b'', raw_text = m_text demo_short, raw_path = [], raw_score = Inr (8 / 10)\<rparr>]),
     ie_reply = (\<lambda>q m. None)\<rparr>"

definition demo_eager :: interject_hook where "demo_eager = demo_hook\<lparr>cooldown_turns := 2\<rparr>"

abbreviation demo_orc :: "interject_state \<Rightarrow> (py_error + outcome) \<times> interject_state" where
  "demo_orc \<equiv> on_orchestrator_complete (\<lambda>_. []) demo_eager demo_event"

lemma demo_gate: "retrieve_and_gate sha1 h s (ie_answer demo_event) (ie_reply demo_event) (ie_text demo_event)
   = Inr (relevance_gate h s (\<lambda>m. 0) [demo_short])"
  by (simp add: retrieve_and_gate_def mcp_search_def demo_event_def memory_of_def demo_short_def llm_judge_def
      bind_err_def)

lemma demo_gate_opens:
  assumes "briefed_ids s = {}" and "\<not> is_on_cooldown h s ''b''" and "cosine_threshold h = 72 / 100"
  shows "relevance_gate h s (\<lambda>m. 0) [demo_short] = Opened [demo_short] False"
  using assms by (simp add: relevance_gate_def demo_short_def sorted_desc_def)

lemma demo_contradicts: "contradicts demo_short"
proof -
  have "contains ''changed'' (py_lower (m_text demo_short))" by (simp add: demo_short_def) code_simp
  then show ?thesis by (auto simp: contradicts_def CONTRADICTION_KEYWORDS_def)
qed

lemma demo_orc_opens:
  assumes "\<not> injected_this_turn s" and "briefed_ids s = {}" and "\<not> is_on_cooldown demo_eager (s\<lparr>turn := turn s + 1\<rparr>) ''b''"
  shows "demo_orc s = apfst Inr (surface demo_eager Orchestrator_Complete [demo_short] False (s\<lparr>turn := turn s + 1\<rparr>))"
proof -
  have "relevance_gate demo_eager (s\<lparr>turn := turn s + 1\<rparr>) (\<lambda>m. 0) [demo_short] = Opened [demo_short] False"
    by (rule demo_gate_opens) (use assms in \<open>simp_all add: demo_eager_def demo_hook_def\<close>)
  moreover have "ie_text demo_event \<noteq> []" "\<not> length (ie_text demo_event) < 50" "\<not> ie_sub demo_event" "\<not> ie_opt_out demo_event"
    by (simp_all add: demo_event_def demo_short_def)
  moreover have "orc_enabled demo_eager" by (simp add: demo_eager_def demo_hook_def)
  ultimately show ?thesis
    using assms(1) by (simp add: on_orchestrator_complete_def demo_gate demo_contradicts Let_def split: prod.split)
qed

lemma demo_orc_guarded:
  "injected_this_turn s \<Longrightarrow> demo_orc s = (Inr (Skipped ''guard_flag''), s\<lparr>turn := turn s + 1, injected_this_turn := False\<rparr>)"
  by (simp add: on_orchestrator_complete_def demo_event_def demo_eager_def demo_hook_def Let_def)

definition demo_marked :: interject_state where
  "demo_marked = \<lparr>injected_this_turn = True, last_injected = [''b'' \<mapsto> 1], turn = 1, briefed_ids = {}\<rparr>"

lemma demo_turns:
  "demo_orc interject_init = (Inr (Surfaced (format_injection [demo_short] Orchestrator_Complete 800) [''b''] (8 / 10) False), demo_marked)"
  "\<exists>s. demo_orc (demo_marked\<lparr>turn := 2, injected_this_turn := False\<rparr>)
     = (Inr (Surfaced (format_injection [demo_short] Orchestrator_Complete 800) [''b''] (8 / 10) False), s) \<and> turn s = 3"
proof -
  have "max_inject_chars demo_eager = 800" "m_id demo_short = ''b''" "m_score demo_short = 8 / 10"
    by (simp_all add: demo_eager_def demo_hook_def demo_short_def)
  note d = this
  show "demo_orc interject_init = (Inr (Surfaced (format_injection [demo_short] Orchestrator_Complete 800) [''b''] (8 / 10) False), demo_marked)"
    by (subst demo_orc_opens)
       (simp_all add: interject_init_def is_on_cooldown_def demo_eager_def demo_hook_def surface_def mark_injected_def demo_marked_def d Let_def)
  show "\<exists>s. demo_orc (demo_marked\<lparr>turn := 2, injected_this_turn := False\<rparr>)
     = (Inr (Surfaced (format_injection [demo_short] Orchestrator_Complete 800) [''b''] (8 / 10) False), s) \<and> turn s = 3"
    by (subst demo_orc_opens)
       (simp_all add: is_on_cooldown_def demo_eager_def demo_hook_def surface_def mark_injected_def demo_marked_def d Let_def)
qed

lemma demo_injections:
  "injections (\<lambda>_. []) demo_eager (replicate 3 (Hook Orchestrator_Complete demo_event)) interject_init = [(1, [''b'']), (3, [''b''])]"
proof -
  have r: "registered demo_eager Orchestrator_Complete" by (simp add: demo_eager_def demo_hook_def)
  have "demo_orc demo_marked = (Inr (Skipped ''guard_flag''), demo_marked\<lparr>turn := 2, injected_this_turn := False\<rparr>)"
    by (simp add: demo_orc_guarded demo_marked_def)
  moreover obtain s where "demo_orc (demo_marked\<lparr>turn := 2, injected_this_turn := False\<rparr>)
     = (Inr (Surfaced (format_injection [demo_short] Orchestrator_Complete 800) [''b''] (8 / 10) False), s)" "turn s = 3"
    using demo_turns(2) by blast
  moreover have "turn demo_marked = 1" by (simp add: demo_marked_def)
  ultimately show ?thesis using r demo_turns(1) by (simp add: numeral_3_eq_3 del: registered.simps)
qed

lemma cooldown_over_session_facts:
  "sorted_wrt (\<lambda>(t, ids) (t', ids'). set ids \<inter> set ids' \<noteq> {} \<longrightarrow> cooldown_turns h \<le> t' - t)
     (injections sha1 h es s)
   \<and> (\<forall>(t, ids) \<in> set (injections sha1 h es s). set ids \<inter> briefed_ids s = {})"
proof (rule conjI)
  show "\<forall>(t, ids) \<in> set (injections sha1 h es s). set ids \<inter> briefed_ids s = {}"
    using injections_later [of _ _ sha1 h es s] by fastforce
  show "sorted_wrt (\<lambda>(t, ids) (t', ids'). set ids \<inter> set ids' \<noteq> {} \<longrightarrow> cooldown_turns h \<le> t' - t)
     (injections sha1 h es s)"
  proof (induction es arbitrary: s)
    case (Cons e es)
    obtain out s' where st: "interject_step sha1 h e s = (out, s')" by (rule prod.exhaust)
    show ?case
    proof (cases "\<exists>block ids sc j. out = Some (Inr (Surfaced block ids sc j))")
      case True
      then obtain block ids sc j where o: "out = Some (Inr (Surfaced block ids sc j))" by blast
      then have "injects h s ids s'" using step_injects [OF st] by auto
      then have "cooldown_turns h \<le> t - turn s'"
        if "(t, ids') \<in> set (injections sha1 h es s')" "m \<in> set ids" "m \<in> set ids'" for t ids' m
        using injections_later [OF that(1)] that(2,3) by (auto simp: injects_def)
      then show ?thesis using Cons.IH [of s'] o by (auto simp: st)
    next
      case False
      then have "injections sha1 h (e # es) s = injections sha1 h es s'"
        by (auto simp: st split: option.splits sum.splits outcome.splits)
      then show ?thesis using Cons.IH [of s'] by simp
    qed
  qed simp
qed

text \<open>
  over any sequence of events whose handlers run one after the other, no memory that was in the briefing before the sequence
  is injected, and between two injections of the same memory the turn counter advances by at least
  \<open>cooldown_turns\<close>.  Handlers that overlap are the subject of theory \<open>Overlap\<close>.
\<close>
theorem cooldown_over_session:
  "sorted_wrt (\<lambda>(t, ids) (t', ids'). set ids \<inter> set ids' \<noteq> {} \<longrightarrow> cooldown_turns h \<le> t' - t)
     (injections sha1 h es s)
   \<and> (\<forall>(t, ids) \<in> set (injections sha1 h es s). set ids \<inter> briefed_ids s = {})"
  by (rule cooldown_over_session_facts)

theorem cooldown_over_session_witness:
  "injections (\<lambda>_. []) demo_eager (replicate 3 (Hook Orchestrator_Complete demo_event)) interject_init = [(1, [''b'']), (3, [''b''])]
   \<and> cooldown_turns demo_eager \<le> 3 - 1"
  using cooldown_over_session [of demo_eager "\<lambda>_. []" "replicate 3 (Hook Orchestrator_Complete demo_event)" interject_init]
  by (simp add: demo_injections)

text \<open>
  C20: the gate opens exactly when some candidate is eligible (neither briefed nor on cooldown, and
  above the threshold or promoted by an enabled judge); it then passes at most two eligible
  memories, best first, and none it left out scores higher.  The uncertain band lies below the threshold: the judge
  can promote a memory of the band, and one above the threshold passes unjudged.  The README and the module's
  docstring describe the band as lying above the threshold.
\<close>
theorem relevance_gate_spec:
  "case relevance_gate h s judge cands of
     Closed reason judged \<Rightarrow> filter (eligible h s judge) cands = []
   | Opened ms judged \<Rightarrow> length ms = min 2 (length (filter (eligible h s judge) cands)) \<and> ms \<noteq> []
       \<and> set ms \<subseteq> {m \<in> set cands. eligible h s judge m} \<and> sorted_wrt (\<lambda>x y. m_score y \<le> m_score x) ms
       \<and> (\<forall>m \<in> set cands. eligible h s judge m \<and> m \<notin> set ms \<longrightarrow> (\<forall>x \<in> set ms. m_score m \<le> m_score x))"
proof (cases "relevance_gate h s judge cands")
  case (Closed reason judged)
  then show ?thesis using gate_promoted [of h s judge cands] by auto
next
  case (Opened ms judged)
  obtain p where p: "mset p = mset (filter (eligible h s judge) cands)" "p \<noteq> []" "ms = take 2 (sorted_desc m_score p)"
    using gate_promoted [of h s judge cands] Opened by auto
  have "length ms = min 2 (length (filter (eligible h s judge) cands))"
    using mset_eq_length [OF p(1)] p(3) by simp
  moreover have "set ms \<subseteq> {m \<in> set cands. eligible h s judge m}" using gate_opened_eligible [OF Opened] by auto
  moreover have "ms \<noteq> []" using p(2,3) by (metis length_0_conv length_sorted_desc take_eq_Nil zero_neq_numeral)
  moreover have "sorted_wrt (\<lambda>x y. m_score y \<le> m_score x) ms"
    unfolding p(3) by (rule sorted_wrt_take [OF sorted_desc_sorted])
  moreover have "m_score m \<le> m_score x" if "m \<in> set cands" "eligible h s judge m" "m \<notin> set ms" "x \<in> set ms" for m x
  proof -
    have "m \<in> set (filter (eligible h s judge) cands)" using that(1,2) by simp
    then have "m \<in> set p" using p(1) by (metis set_mset_mset)
    then have "m \<in> set (take 2 (sorted_desc m_score p) @ drop 2 (sorted_desc m_score p))" by simp
    then have "m \<in> set (drop 2 (sorted_desc m_score p))" using that(3) p(3) by (metis Un_iff set_append)
    then show ?thesis
      using sorted_desc_sorted [of m_score p] that(4) p(3)
      by (metis (mono_tags, lifting) append_take_drop_id sorted_wrt_append)
  qed
  ultimately show ?thesis by (simp add: Opened)
qed

lemma format_parts_length:
  "int (length (header t)) \<le> tot \<Longrightarrow>
     tot + (\<Sum>x \<leftarrow> format_parts cap tot ms. 1 + int (length x)) \<le> max cap tot"
proof (induction cap tot ms rule: format_parts.induct)
  case (2 cap tot m ms)
  define snippet where "snippet = cps (py_strip (m_text m))"
  define room where "room = cap - tot - OVERHEAD - int (length ELLIPSIS)"
  define fits where "fits \<longleftrightarrow> tot + OVERHEAD + int (length snippet) \<le> cap"
  define sn where "sn = (if fits then snippet else py_upto snippet room @ ELLIPSIS)"
  define tot' where "tot' = tot + OVERHEAD + int (length sn)"
  have eq: "format_parts cap tot (m # ms) = (if \<not> fits \<and> room \<le> 0 then []
      else (SEPARATOR @ sn) # (if cap \<le> tot' then [] else format_parts cap tot' ms))"
    by (simp add: snippet_def room_def fits_def sn_def tot'_def Let_def)
  have len: "int (length (SEPARATOR @ sn)) = 5 + int (length sn)" by (simp add: SEPARATOR_def cps_def)
  show ?case
  proof (cases "\<not> fits \<and> room \<le> 0")
    case False
    have t': "tot' \<le> cap"
      using False by (auto simp: tot'_def sn_def fits_def room_def py_upto_nonneg)
    have "tot' + (\<Sum>x \<leftarrow> format_parts cap tot' ms. 1 + int (length x)) \<le> max cap tot'" if "\<not> cap \<le> tot'"
      using 2(1)[OF snippet_def fits_def room_def False sn_def tot'_def that] 2(2)
      by (simp add: tot'_def OVERHEAD_def)
    then show ?thesis using t' False len unfolding eq by (auto simp: tot'_def OVERHEAD_def)
  qed (simp only: eq, simp)
qed simp

theorem relevance_gate_spec_witness:
  "relevance_gate demo_hook interject_init (\<lambda>m. 0) [demo_short] = Opened [demo_short] False
   \<and> eligible demo_hook interject_init (\<lambda>m. 0) demo_short"
proof -
  have "relevance_gate demo_hook interject_init (\<lambda>m. 0) [demo_short] = Opened [demo_short] False"
    by (rule demo_gate_opens) (simp_all add: interject_init_def is_on_cooldown_def demo_hook_def)
  then show ?thesis using relevance_gate_spec [of demo_hook interject_init "\<lambda>m. 0" "[demo_short]"] by simp
qed

text \<open>
  an injection is at most as long as the configured cap, or as its header where that is
  longer; nothing is injected for no memories.
\<close>
theorem injection_length:
  "int (length (format_injection ms t cap)) \<le> max cap (int (length (header t)))
   \<and> (format_injection ms t cap = [] \<longleftrightarrow> ms = [])"
proof -
  have "int (length (join [10] (x # ps))) = int (length x) + (\<Sum>x \<leftarrow> ps. 1 + int (length x))"
    for x :: ustr and ps
    by (subst length_join, simp) (induction ps; simp)
  moreover have "header t \<noteq> []" by (cases t) simp_all
  then have "join [10] (header t # ps) \<noteq> []" for ps by (cases ps) simp_all
  ultimately show ?thesis
    using format_parts_length [of t "int (length (header t))" cap ms] by (cases "ms = []") (simp_all add: format_injection_def le_max_iff_disj [of 0])
qed

lemma format_parts_stops:
  assumes "cap \<le> tot + OVERHEAD + int (length (py_strip (m_text m)))"
  shows "format_parts cap tot (m # ms) = format_parts cap tot [m]"
proof -
  have "tot + OVERHEAD + int (length (py_upto (cps (py_strip (m_text m))) room @ ELLIPSIS)) = cap"
    if "0 < room" "room = cap - tot - OVERHEAD - int (length ELLIPSIS)" for room
    using that assms by (auto simp: py_upto_nonneg ELLIPSIS_def cps_def)
  then show ?thesis using assms by (auto simp: Let_def cps_def)
qed

text \<open>
  the ids marked and reported are those of every memory passed on, also of the memories the
  length cap leaves out of the text: where the first snippet fills the cap the second is not
  shown, yet it is reported as surfaced and put on cooldown.
\<close>
theorem dropped_memory_is_on_cooldown:
  assumes "max_inject_chars h \<le> int (length (header t)) + OVERHEAD + int (length (py_strip (m_text m)))"
    and "0 < cooldown_turns h"
  shows "format_injection [m, m'] t (max_inject_chars h) = format_injection [m] t (max_inject_chars h)
    \<and> (\<exists>block sc s'. surface h t [m, m'] judged s = (Surfaced block [m_id m, m_id m'] sc judged, s')
        \<and> is_on_cooldown h s' (m_id m'))"
proof (rule conjI)
  show "format_injection [m, m'] t (max_inject_chars h) = format_injection [m] t (max_inject_chars h)"
    using format_parts_stops [OF assms(1), of "[m']"] by (simp add: format_injection_def del: format_parts.simps)
  show "\<exists>block sc s'. surface h t [m, m'] judged s = (Surfaced block [m_id m, m_id m'] sc judged, s')
      \<and> is_on_cooldown h s' (m_id m')"
    using assms(2) by (simp add: surface_def Let_def is_on_cooldown_def mark_injected_def)
qed

theorem dropped_memory_is_on_cooldown_witness:
  "format_injection [demo_long, demo_short] Prompt_Submit (max_inject_chars demo_capped)
     = format_injection [demo_long] Prompt_Submit (max_inject_chars demo_capped)
   \<and> is_on_cooldown demo_capped (snd (surface demo_capped Prompt_Submit [demo_long, demo_short] False interject_init)) ''b''"
proof -
  have "py_strip ''a memory with a text of some length'' = ''a memory with a text of some length''" by code_simp
  then have "max_inject_chars demo_capped \<le> int (length (header Prompt_Submit)) + OVERHEAD + int (length (py_strip (m_text demo_long)))"
    by (simp add: cps_def OVERHEAD_def demo_capped_def demo_long_def)
  note C = dropped_memory_is_on_cooldown [OF this, of demo_short False interject_init]
  have "m_id demo_short = ''b''" by (simp add: demo_short_def)
  moreover have "0 < cooldown_turns demo_capped" by (simp add: demo_capped_def demo_hook_def)
  ultimately show ?thesis using C by force
qed

text \<open>
  the loop guard.  After an injection of the prompt or the response handler the next
  response handler injects nothing, whatever tool calls and briefings come in between.
\<close>
theorem no_injection_after_injection:
  assumes "on_orchestrator_complete sha1 h e s = (Inr (Surfaced block ids sc j), s1)
      \<or> on_prompt_submit sha1 h e s = (Inr (Surfaced block ids sc j), s1)"
    and "\<forall>ev \<in> set evs. case ev of Hook t x \<Rightarrow> t = Tool_Pre | Briefed ids \<Rightarrow> True"
  shows "\<exists>reason. fst (on_orchestrator_complete sha1 h e' (run sha1 h evs s1)) = Inr (Skipped reason)"
proof -
  have "injected_this_turn s1"
    using assms(1)
    by (auto simp: on_orchestrator_complete_def on_prompt_submit_def surface_def Let_def
        split: if_splits sum.splits gate.splits)
  then have "injected_this_turn (run sha1 h evs s1)" using assms(2)
  proof (induction evs arbitrary: s1)
    case (Cons ev evs)
    have "injected_this_turn (snd (interject_step sha1 h ev s1))"
      using Cons.prems by (auto simp: on_tool_pre_def on_briefing_assembled_def surface_def mark_injected_def Let_def
          split: session_event.splits sum.splits gate.splits)
    then show ?case using Cons by simp
  qed simp
  then show ?thesis by (auto simp: on_orchestrator_complete_def Let_def)
qed

theorem no_injection_after_injection_witness:
  "\<exists>reason. fst (demo_orc (run (\<lambda>_. []) demo_eager [Briefed [''b'']] demo_marked)) = Inr (Skipped reason)"
  by (rule no_injection_after_injection [OF disjI1 [OF demo_turns(1)]]) simp

text \<open>
  the turn counter moves only in the response handler, which is registered only when its
  trigger is enabled.  With \<open>orc_enabled\<close> off and a positive \<open>cooldown_turns\<close> no memory is
  injected twice in a session: the cooldown never expires.
\<close>
theorem disabled_response_freezes_cooldown:
  assumes "\<not> orc_enabled h" and "0 < cooldown_turns h"
  shows "sorted_wrt (\<lambda>(t, ids) (t', ids'). set ids \<inter> set ids' = {}) (injections sha1 h es s)
    \<and> turn (run sha1 h es s) = turn s"
proof (rule conjI)
  have turn: "turn (snd (interject_step sha1 h e s)) = turn s" for e s
    using assms(1)
    by (cases "(sha1, h, e, s)" rule: interject_step.cases)
       (auto simp: on_prompt_submit_def on_tool_pre_def on_briefing_assembled_def surface_def Let_def
         elim!: registered.elims split: sum.splits gate.splits)
  show "turn (run sha1 h es s) = turn s" by (induction es arbitrary: s) (simp_all add: turn)
  have same: "t = turn s" if "(t, ids) \<in> set (injections sha1 h es s)" for t ids es s
    using that
  proof (induction es arbitrary: s)
    case (Cons e es)
    obtain out s' where st: "interject_step sha1 h e s = (out, s')" by (rule prod.exhaust)
    then have "turn s' = turn s" using turn [of e s] by simp
    moreover have "t = turn s' \<or> (t, ids) \<in> set (injections sha1 h es s')"
      using Cons.prems by (auto simp: st split: option.splits sum.splits outcome.splits)
    ultimately show ?case using Cons.IH [of s'] by auto
  qed simp
  note C = conjunct1 [OF cooldown_over_session_facts [of h sha1 es s]]
  show "sorted_wrt (\<lambda>(t, ids) (t', ids'). set ids \<inter> set ids' = {}) (injections sha1 h es s)"
  proof (rule sorted_wrt_mono_rel [OF _ C])
    fix x y assume "x \<in> set (injections sha1 h es s)" "y \<in> set (injections sha1 h es s)"
    then have "fst x = turn s" "fst y = turn s" using same by (metis prod.collapse)+
    moreover assume "(case x of (t, ids) \<Rightarrow> \<lambda>(t', ids'). set ids \<inter> set ids' \<noteq> {} \<longrightarrow> cooldown_turns h \<le> t' - t) y"
    ultimately show "(case x of (t, ids) \<Rightarrow> \<lambda>(t', ids'). set ids \<inter> set ids' = {}) y"
      using assms(2) by (auto simp: split_beta)
  qed
qed

theorem disabled_response_freezes_cooldown_witness:
  "turn (run (\<lambda>_. []) (demo_eager\<lparr>orc_enabled := False\<rparr>)
     (replicate 3 (Hook Orchestrator_Complete demo_event)) interject_init) = turn interject_init"
  by (rule conjunct2 [OF disabled_response_freezes_cooldown]) (simp_all add: demo_eager_def demo_hook_def)

end
