(* ===== verification/Briefing.thy ===== *)
theory Briefing
  imports Interject Usage
begin

text \<open>
  The briefing hook (\<open>hooks-memory-briefing\<close>): the rerank by importance, the sections with their
  token budget, the coordination files, the process-wide prefetch cache and the one-shot delivery.
  The daemon's answers, the run of git and the file system are inputs.
\<close>

section \<open>Rerank\<close>

definition RERANK_SCALE :: real where "RERANK_SCALE = 8 / 100"

definition DEFAULT_IMPORTANCE :: real where "DEFAULT_IMPORTANCE = 1 / 2"

text \<open>
  A hit of the daemon's answer.  The importance field is absent (an older daemon), null, or what
  \<open>float\<close> makes of it.
\<close>

datatype importance_field = Absent | Null | Given "py_error + real"

record brief_hit =
  bh_ref :: string
  bh_score :: "py_error + real"
  bh_room :: "string option"
  bh_content :: string
  bh_importance :: importance_field

record brief_result =
  r_id :: string
  r_score :: real
  r_room :: "string option"
  r_text :: string
  r_importance :: importance_field

definition rerank_final ::
    "(string \<rightharpoonup> real) \<Rightarrow> real \<Rightarrow> (string \<times> int) list \<Rightarrow> real \<Rightarrow> brief_result \<Rightarrow> real" where
  "rerank_final lookup weight usage usage_weight r = (
     let imp = (case lookup (r_id r) of Some i \<Rightarrow> i | None \<Rightarrow> DEFAULT_IMPORTANCE);
         score = r_score r + weight * (imp - DEFAULT_IMPORTANCE) * RERANK_SCALE
     in if 0 < usage_weight \<and> usage \<noteq> []
        then score + usage_adjustment (Some (case map_of usage (r_id r) of Some n \<Rightarrow> n | None \<Rightarrow> 0)) usage_weight 10
        else score)"

definition rerank_by_importance ::
    "brief_result list \<Rightarrow> (string \<rightharpoonup> real) \<Rightarrow> real \<Rightarrow> (string \<times> int) list \<Rightarrow> real \<Rightarrow> brief_result list" where
  "rerank_by_importance rs lookup weight usage usage_weight = (
     if rs = [] then []
     else if weight = 0 \<and> \<not> (0 < usage_weight \<and> usage \<noteq> []) then sorted_desc r_score rs
     else sorted_desc (rerank_final lookup weight usage usage_weight) rs)"

text \<open>The lookup from the hits: \<open>None\<close> when one lacks the field, an exception \<open>float\<close> may raise beside the two caught.\<close>

fun caught :: "py_error \<Rightarrow> bool" where
  "caught (TypeError m) = True" | "caught (ValueError m) = True" | "caught e = False"

fun hit_importance :: "importance_field \<Rightarrow> py_error + real" where
  "hit_importance (Given (Inr x)) = Inr x"
| "hit_importance (Given (Inl e)) = (if caught e then Inr DEFAULT_IMPORTANCE else Inl e)"
| "hit_importance i = Inr DEFAULT_IMPORTANCE"

fun importance_loop :: "(string \<rightharpoonup> real) \<Rightarrow> brief_result list \<Rightarrow> py_error + (string \<rightharpoonup> real) option" where
  "importance_loop m [] = Inr (Some m)"
| "importance_loop m (r # rs) = (if r_importance r = Absent then Inr None
     else bind_err (hit_importance (r_importance r)) (\<lambda>x. importance_loop (m(r_id r \<mapsto> x)) rs))"

definition importance_from_hits :: "brief_result list \<Rightarrow> py_error + (string \<rightharpoonup> real) option" where
  "importance_from_hits = importance_loop Map.empty"

text \<open>The older daemon: the fact of the drawer, the cell of its object and the float in it.\<close>

record fact_client =
  fc_up :: bool
  fc_facts :: "string \<Rightarrow> string list option"
  fc_value :: "string \<Rightarrow> real option"

definition query_importance :: "fact_client \<Rightarrow> string \<Rightarrow> real" where
  "query_importance c d = (if \<not> fc_up c then DEFAULT_IMPORTANCE
     else (case fc_facts c d of Some (obj # objs) \<Rightarrow>
         (case fc_value c obj of Some x \<Rightarrow> x | None \<Rightarrow> DEFAULT_IMPORTANCE)
       | _ \<Rightarrow> DEFAULT_IMPORTANCE))"

definition build_importance_lookup :: "fact_client \<Rightarrow> brief_result list \<Rightarrow> string \<rightharpoonup> real" where
  "build_importance_lookup c rs = map_of (map (\<lambda>r. (r_id r, query_importance c (r_id r))) rs)"

section \<open>The sections\<close>

definition detect_project_name :: "(bool \<times> string) option \<Rightarrow> py_error + string \<Rightarrow> py_error + string" where
  "detect_project_name git cwd = (case git of
       Some (True, out) \<Rightarrow> Inr (py_replace ''.git'' '''' (last_part (rstrip_slash (py_strip out))))
     | _ \<Rightarrow> bind_err cwd (\<lambda>d. Inr (path_name d)))"

definition brief_results :: "brief_hit option list \<Rightarrow> py_error + brief_result list" where
  "brief_results hits = mapM (\<lambda>h. bind_err (bh_score h) (\<lambda>sc.
       Inr \<lparr>r_id = bh_ref h, r_score = sc, r_room = bh_room h, r_text = bh_content h, r_importance = bh_importance h\<rparr>))
     (map the (filter (\<lambda>h. h \<noteq> None) hits))"

definition rank_results :: "fact_client \<Rightarrow> real \<Rightarrow> brief_result list \<Rightarrow> py_error + brief_result list" where
  "rank_results c weight rs = (if weight = 0 \<or> rs = [] then Inr (take 5 rs)
     else bind_err (importance_from_hits rs) (\<lambda>lookup. Inr (take 5 (rerank_by_importance rs
       (case lookup of Some m \<Rightarrow> m | None \<Rightarrow> build_importance_lookup c rs) weight [] 0))))"

definition result_line :: "brief_result \<Rightarrow> ustr" where
  "result_line r = cps (''- ['' @ (case r_room r of Some x \<Rightarrow> x | None \<Rightarrow> []) @ ''] '' @ take 300 (py_strip (r_text r)))"

text \<open>The answer is \<open>None\<close> for a failed call.\<close>

type_synonym brief_answer = "string \<Rightarrow> int \<Rightarrow> string \<Rightarrow> brief_hit option list option"

definition search_section ::
    "brief_answer \<Rightarrow> fact_client \<Rightarrow> string \<Rightarrow> string \<Rightarrow> real
       \<Rightarrow> py_error + ustr option \<times> brief_result list \<times> brief_result list" where
  "search_section ask c project query weight = (
     let hits = (case ask (if query \<noteq> [] then query else ''recent work on '' @ project) 8 (''wing_'' @ project) of
         Some hs \<Rightarrow> hs | None \<Rightarrow> [])
     in bind_err (brief_results hits) (\<lambda>rs. bind_err (rank_results c weight rs) (\<lambda>top.
       Inr (if top = [] then None
            else Some (join [10] (cps (''**Recent memories -- `'' @ project @ ''`:**'') # map result_line top)), rs, top))))"

definition CHECK_MARK :: ustr where "CHECK_MARK = [10003]"

definition kg_section :: "string \<Rightarrow> (string \<times> string \<times> string) list option \<Rightarrow> ustr option" where
  "kg_section project answer = (let facts = (case answer of Some fs \<Rightarrow> fs | None \<Rightarrow> []) in
     if facts = [] then None
     else Some (join [10] (cps (''**Knowledge graph -- `'' @ project @ ''`:**'') # map (\<lambda>(s, p, v).
       cps ''- '' @ CHECK_MARK @ cps ('' '' @ s @ '' '' @ p @ '' '' @ v)) (take 8 facts))))"

definition diary_section :: "(nat option \<times> string) option list option \<Rightarrow> ustr option" where
  "diary_section answer = (
     let entries = map the (filter (\<lambda>e. e \<noteq> None) (case answer of Some es \<Rightarrow> es | None \<Rightarrow> [])) in
     if entries = [] then None
     else Some (join [10] (cps ''**Recent agent diary:**'' # map (\<lambda>(pos, content).
       cps (''- [#'' @ (case pos of Some n \<Rightarrow> show_nat n | None \<Rightarrow> ''?'') @ ''] '' @ take 200 (py_strip content))) entries)))"

section \<open>Assembly under the token budget\<close>

definition tokens :: "ustr \<Rightarrow> int" where "tokens s = int (length s) div 4"

record memory_part =
  mp_sections :: "ustr list"
  mp_tokens :: int
  mp_fetched :: "brief_result list"
  mp_reranked :: "brief_result list"

text \<open>\<open>if sec and part.approx_tokens < token_budget\<close>: the next section is taken only under the budget.\<close>

definition add_section :: "int \<Rightarrow> ustr option \<Rightarrow> memory_part \<Rightarrow> memory_part" where
  "add_section budget sec p = (case sec of Some s \<Rightarrow>
       if s \<noteq> [] \<and> mp_tokens p < budget
       then p\<lparr>mp_sections := mp_sections p @ [s], mp_tokens := mp_tokens p + tokens s\<rparr> else p
     | None \<Rightarrow> p)"

record brief_config =
  token_budget :: int
  include_kg :: bool
  include_diary :: bool
  include_project_context :: bool
  importance_weight :: real
  br_emits :: bool
  brief_subsessions :: bool
  deliver_wait_s :: real
  cache_ttl_s :: real

text \<open>The daemon as the fetch sees it.\<close>

record brief_daemon =
  bd_search :: brief_answer
  bd_facts :: fact_client
  bd_kg :: "string \<Rightarrow> (string \<times> string \<times> string) list option"
  bd_diary :: "(nat option \<times> string) option list option"

definition fetch_memory_part :: "brief_config \<Rightarrow> brief_daemon \<Rightarrow> string \<Rightarrow> string \<Rightarrow> py_error + memory_part" where
  "fetch_memory_part cfg dm project query =
     bind_err (search_section (bd_search dm) (bd_facts dm) project query (importance_weight cfg)) (\<lambda>(sec, fetched, reranked).
       let p0 = \<lparr>mp_sections = [], mp_tokens = 0, mp_fetched = fetched, mp_reranked = reranked\<rparr>;
           p1 = (case sec of Some s \<Rightarrow> p0\<lparr>mp_sections := [s], mp_tokens := tokens s\<rparr> | None \<Rightarrow> p0);
           p2 = add_section (token_budget cfg) (if include_kg cfg then kg_section project (bd_kg dm project) else None) p1
       in Inr (add_section (token_budget cfg) (if include_diary cfg then diary_section (bd_diary dm) else None) p2))"

text \<open>
  The coordination files.  A candidate directory is the working directory or one of its parents,
  with the content of the files of its \<open>project-context\<close>, \<open>None\<close> for a file that does not exist.
\<close>

type_synonym context_files = "string \<Rightarrow> (py_error + ustr) option"

definition u_space :: "nat \<Rightarrow> bool" where
  "u_space n \<longleftrightarrow> 9 \<le> n \<and> n \<le> 13 \<or> 28 \<le> n \<and> n \<le> 32 \<or> n = 133 \<or> n = 160 \<or> n = 5760 \<or> 8192 \<le> n \<and> n \<le> 8202
     \<or> n = 8232 \<or> n = 8233 \<or> n = 8239 \<or> n = 8287 \<or> n = 12288"

definition u_strip :: "ustr \<Rightarrow> ustr" where
  "u_strip s = rev (dropWhile u_space (rev (dropWhile u_space s)))"

record candidate_dir =
  has_context :: bool
  has_git :: bool
  context_files :: context_files

fun find_project_context_dir :: "candidate_dir list \<Rightarrow> context_files option" where
  "find_project_context_dir [] = None"
| "find_project_context_dir (d # ds) = (if has_context d then Some (context_files d)
     else if has_git d then None else find_project_context_dir ds)"

definition TIER1 :: "(string \<times> string) list" where
  "TIER1 = [(''HANDOFF.md'', ''**Last session handoff:**''), (''PROJECT_CONTEXT.md'', ''**Project context:**''),
     (''GLOSSARY.md'', ''**Glossary (active terms):**'')]"

definition TRUNCATED :: ustr where "TRUNCATED = [10, 8230] @ cps ''(truncated)''"

definition coordination_section :: "int \<Rightarrow> string \<Rightarrow> ustr \<Rightarrow> ustr" where
  "coordination_section budget title content = cps title @ [10] @
     (if budget * 4 < int (length content) then py_upto content (budget * 4) @ TRUNCATED else content)"

fun coordination_loop :: "context_files \<Rightarrow> int \<Rightarrow> (string \<times> string) list \<Rightarrow> py_error + ustr list" where
  "coordination_loop fs budget [] = Inr []"
| "coordination_loop fs budget ((nm, title) # ts) = (if budget \<le> 0 then Inr []
     else case fs nm of None \<Rightarrow> coordination_loop fs budget ts
       | Some (Inl e) \<Rightarrow> Inl e
       | Some (Inr raw) \<Rightarrow> (if u_strip raw = [] then coordination_loop fs budget ts
           else let s = coordination_section budget title (u_strip raw)
             in bind_err (coordination_loop fs (budget - tokens s) ts) (\<lambda>ss. Inr (s # ss))))"

definition read_coordination_files :: "context_files \<Rightarrow> int \<Rightarrow> py_error + ustr" where
  "read_coordination_files fs budget = bind_err (coordination_loop fs budget TIER1) (\<lambda>ss.
     Inr (if ss = [] then [] else cps ''### Coordination Files'' @ [10, 10] @ join ([10, 10] @ cps ''---'' @ [10, 10]) ss))"

text \<open>The briefing: its text, its sections, the token estimate and the two lists of results.\<close>

record built =
  b_text :: ustr
  b_sections :: "ustr list"
  b_tokens :: int
  b_fetched :: "brief_result list"
  b_reranked :: "brief_result list"

definition assemble_briefing :: "brief_config \<Rightarrow> candidate_dir list \<Rightarrow> string \<Rightarrow> memory_part \<Rightarrow> py_error + built" where
  "assemble_briefing cfg dirs project p = bind_err
     (if include_project_context cfg \<and> mp_tokens p < token_budget cfg
      then (case find_project_context_dir dirs of Some fs \<Rightarrow> read_coordination_files fs (token_budget cfg - mp_tokens p) | None \<Rightarrow> Inr [])
      else Inr []) (\<lambda>coord.
     let sections = mp_sections p @ (if coord = [] then [] else [coord]);
         estimate = mp_tokens p + (if coord = [] then 0 else tokens coord)
     in Inr (if sections = [] then \<lparr>b_text = [], b_sections = [], b_tokens = 0, b_fetched = mp_fetched p, b_reranked = mp_reranked p\<rparr>
        else \<lparr>b_text = cps (''## Memory Briefing -- `'' @ project @ ''`'') @ [10] @ join [10, 10] sections @ [10]
               @ cps ''*Injected from memory for orientation -- not part of the user'' @ [39] @ cps ''s message.*'',
             b_sections = sections, b_tokens = estimate, b_fetched = mp_fetched p, b_reranked = mp_reranked p\<rparr>))"

section \<open>The prefetch\<close>

record prefetch =
  pf_ok :: bool
  pf_project :: string
  pf_part :: "memory_part option"
  pf_complete :: bool

datatype job = Running | Raised py_error | Fetched prefetch

text \<open>
  The job of the worker thread: the run of git, the working directory, whether a daemon answers,
  and the counter of failed calls before and after the lookups.
\<close>

definition prefetch_job ::
    "brief_config \<Rightarrow> brief_daemon \<Rightarrow> (bool \<times> string) option \<Rightarrow> py_error + string \<Rightarrow> bool \<Rightarrow> nat \<Rightarrow> nat \<Rightarrow> job" where
  "prefetch_job cfg dm git cwd up failures_before failures_after = (
     case detect_project_name git cwd of Inl e \<Rightarrow> Raised e
     | Inr project \<Rightarrow> (if \<not> up then Fetched \<lparr>pf_ok = False, pf_project = project, pf_part = None, pf_complete = True\<rparr>
         else (case fetch_memory_part cfg dm project [] of Inl e \<Rightarrow> Raised e
           | Inr part \<Rightarrow> Fetched \<lparr>pf_ok = True, pf_project = project, pf_part = Some part,
               pf_complete = (failures_after = failures_before)\<rparr>)))"

text \<open>The process: the futures in the order they were made, and the cache.\<close>

type_synonym cache_key = "string \<times> string \<times> int \<times> bool \<times> bool \<times> real"

record process =
  jobs :: "job list"
  prefetch_cache :: "cache_key \<rightharpoonup> real \<times> nat"

definition process_init :: process where
  "process_init = \<lparr>jobs = [], prefetch_cache = Map.empty\<rparr>"

fun poor :: "job \<Rightarrow> bool" where
  "poor Running = False"
| "poor (Raised e) = True"
| "poor (Fetched p) = (\<not> pf_ok p \<or> \<not> pf_complete p)"

definition prefetch_key :: "string \<Rightarrow> string \<Rightarrow> brief_config \<Rightarrow> cache_key" where
  "prefetch_key home cwd cfg = (home, cwd, token_budget cfg, include_kg cfg, include_diary cfg, importance_weight cfg)"

definition start_prefetch :: "string \<Rightarrow> string \<Rightarrow> brief_config \<Rightarrow> real \<Rightarrow> process \<Rightarrow> nat \<times> process" where
  "start_prefetch home cwd cfg now p = (
     let key = prefetch_key home cwd cfg;
         fresh = (length (jobs p), p\<lparr>jobs := jobs p @ [Running], prefetch_cache := (prefetch_cache p)(key \<mapsto> (now, length (jobs p)))\<rparr>)
     in case prefetch_cache p key of None \<Rightarrow> fresh
      | Some (started, i) \<Rightarrow> (if now - started < cache_ttl_s cfg \<and> \<not> poor (jobs p ! i) then (i, p) else fresh))"

section \<open>The hook\<close>

record brief_hook =
  bf_future :: "nat option"
  bf_armed :: bool
  bf_delivered :: bool
  bf_deferred :: bool

definition brief_init :: brief_hook where
  "brief_init = \<lparr>bf_future = None, bf_armed = False, bf_delivered = False, bf_deferred = False\<rparr>"

text \<open>Where and when a handler runs: the home, the working directory, the clock and the opt-out.\<close>

record brief_env =
  be_home :: string
  be_cwd :: "py_error + string"
  be_now :: real
  be_opt_out :: bool
  be_dirs :: "candidate_dir list"

definition prefetch_now :: "brief_config \<Rightarrow> brief_env \<Rightarrow> brief_hook \<times> process \<Rightarrow> brief_hook \<times> process" where
  "prefetch_now cfg env st = (case st of (h, p) \<Rightarrow>
     case bf_future h of Some i \<Rightarrow> (h, p)
     | None \<Rightarrow> (case be_cwd env of Inl e \<Rightarrow> (h, p)
         | Inr cwd \<Rightarrow> (case start_prefetch (be_home env) cwd cfg (be_now env) p of (i, p') \<Rightarrow> (h\<lparr>bf_future := Some i\<rparr>, p'))))"

definition mount_briefing :: "brief_config \<Rightarrow> brief_env \<Rightarrow> process \<Rightarrow> brief_hook \<times> process" where
  "mount_briefing cfg env p = (if be_opt_out env then (brief_init, p) else prefetch_now cfg env (brief_init, p))"

definition on_session_start :: "brief_config \<Rightarrow> brief_env \<Rightarrow> bool \<Rightarrow> brief_hook \<times> process \<Rightarrow> brief_hook \<times> process" where
  "on_session_start cfg env sub st = (case st of (h, p) \<Rightarrow>
     if sub \<and> \<not> brief_subsessions cfg then (h, p)
     else if be_opt_out env then (h, p)
     else prefetch_now cfg env (h\<lparr>bf_armed := True\<rparr>, p))"

datatype deliver_event = Prompt | Provider_Request "nat option"

datatype brief_emit = Briefing_Deferred deliver_event | Briefing_Skipped string | Briefing_Assembled nat int "string list"

definition emits :: "brief_config \<Rightarrow> brief_emit \<Rightarrow> brief_emit list" where
  "emits cfg e = (if br_emits cfg then [e] else [])"

definition briefing_result :: "brief_config \<Rightarrow> built \<Rightarrow> brief_emit list \<times> hook_result" where
  "briefing_result cfg b = (if b_text b \<noteq> []
     then (emits cfg (Briefing_Assembled (length (b_sections b)) (b_tokens b) (map r_id (b_reranked b))), Inject_Context (b_text b))
     else (emits cfg (Briefing_Skipped ''no_content''), Continue))"

definition daemon_unavailable_result :: "brief_config \<Rightarrow> candidate_dir list \<Rightarrow> brief_emit list \<times> (py_error + hook_result)" where
  "daemon_unavailable_result cfg dirs = (emits cfg (Briefing_Skipped ''daemon_unavailable''),
     (case (if include_project_context cfg then find_project_context_dir dirs else None) of
        None \<Rightarrow> Inr Continue
      | Some fs \<Rightarrow> bind_err (read_coordination_files fs (token_budget cfg)) (\<lambda>section.
          Inr (if section = [] then Continue else Inject_Context (cps ''## Session Briefing (coordination files only)'' @ [10]
            @ section @ [10] @ cps ''*Memory daemon not available -- semantic search skipped.*'')))))"

text \<open>What a delivery hands out once the job is done.\<close>

definition hand_out :: "brief_config \<Rightarrow> candidate_dir list \<Rightarrow> job \<Rightarrow> brief_emit list \<times> (py_error + hook_result)" where
  "hand_out cfg dirs j = (case j of
       Fetched pre \<Rightarrow> (case (if pf_ok pre then pf_part pre else None) of
           None \<Rightarrow> daemon_unavailable_result cfg dirs
         | Some part \<Rightarrow> (case assemble_briefing cfg dirs (pf_project pre) part of
               Inl e \<Rightarrow> ([], Inl e)
             | Inr b \<Rightarrow> apsnd Inr (briefing_result cfg b)))
     | _ \<Rightarrow> (emits cfg (Briefing_Skipped ''prefetch_failed''), Inr Continue))"

text \<open>
  A delivery point.  \<open>landed\<close> is the outcome of the job when it ends within the wait; only the
  first prompt waits.
\<close>

definition on_deliver ::
    "brief_config \<Rightarrow> brief_env \<Rightarrow> deliver_event \<Rightarrow> job option \<Rightarrow> brief_hook \<times> process
       \<Rightarrow> (brief_emit list \<times> (py_error + hook_result)) \<times> brief_hook \<times> process" where
  "on_deliver cfg env ev landed st = (case st of (h, p) \<Rightarrow>
     if \<not> bf_armed h \<or> bf_delivered h then (([], Inr Continue), h, p)
     else if ev = Provider_Request (Some 0) then (([], Inr Continue), h, p)
     else (case prefetch_now cfg env (h, p) of (h1, p1) \<Rightarrow>
       case bf_future h1 of None \<Rightarrow> (([], Inr Continue), h1\<lparr>bf_delivered := True\<rparr>, p1)
       | Some i \<Rightarrow>
         (let waits = (ev = Prompt \<and> \<not> bf_deferred h1 \<and> 0 < deliver_wait_s cfg);
              p2 = (case landed of Some j \<Rightarrow> (if waits \<and> jobs p1 ! i = Running then p1\<lparr>jobs := (jobs p1)[i := j]\<rparr> else p1)
                    | None \<Rightarrow> p1)
          in if jobs p2 ! i = Running
             then ((if bf_deferred h1 then [] else emits cfg (Briefing_Deferred ev), Inr Continue), h1\<lparr>bf_deferred := True\<rparr>, p2)
             else (hand_out cfg (be_dirs env) (jobs p2 ! i), h1\<lparr>bf_delivered := True\<rparr>, p2))))"

text \<open>The direct entry point.\<close>

definition brief_call ::
    "brief_config \<Rightarrow> brief_env \<Rightarrow> brief_daemon \<Rightarrow> (bool \<times> string) option \<Rightarrow> bool \<Rightarrow> string \<Rightarrow> brief_emit list \<times> (py_error + hook_result)" where
  "brief_call cfg env dm git up query = (if \<not> up then daemon_unavailable_result cfg (be_dirs env)
     else case detect_project_name git (be_cwd env) of Inl e \<Rightarrow> ([], Inl e)
       | Inr project \<Rightarrow> (case bind_err (fetch_memory_part cfg dm project query) (assemble_briefing cfg (be_dirs env) project) of
           Inl e \<Rightarrow> ([], Inl e) | Inr b \<Rightarrow> apsnd Inr (briefing_result cfg b)))"

text \<open>The events of a session: the start, a delivery point, and a job that ends by itself.\<close>

datatype brief_event = Session_Start brief_env bool | Deliver brief_env deliver_event "job option" | Job_Ends nat job

fun brief_step ::
    "brief_config \<Rightarrow> brief_event \<Rightarrow> brief_hook \<times> process \<Rightarrow> (brief_emit list \<times> (py_error + hook_result)) \<times> brief_hook \<times> process" where
  "brief_step cfg (Session_Start env sub) st = (([], Inr Continue), on_session_start cfg env sub st)"
| "brief_step cfg (Deliver env ev landed) st = on_deliver cfg env ev landed st"
| "brief_step cfg (Job_Ends i j) (h, p) = (([], Inr Continue), h,
     if i < length (jobs p) \<and> jobs p ! i = Running then p\<lparr>jobs := (jobs p)[i := j]\<rparr> else p)"

fun brief_run ::
    "brief_config \<Rightarrow> brief_event list \<Rightarrow> brief_hook \<times> process \<Rightarrow> (brief_emit list \<times> (py_error + hook_result)) list \<times> brief_hook \<times> process" where
  "brief_run cfg [] st = ([], st)"
| "brief_run cfg (e # es) st = (case brief_step cfg e st of (out, st1) \<Rightarrow>
     case brief_run cfg es st1 of (outs, st2) \<Rightarrow> (out # outs, st2))"

text \<open>What the bridge carries to the interjection hook.\<close>

definition briefed_events :: "brief_emit list \<Rightarrow> session_event list" where
  "briefed_events es = concat (map (\<lambda>e. case e of Briefing_Assembled n k ids \<Rightarrow> [Briefed ids] | _ \<Rightarrow> []) es)"

section \<open>Ranking and naming\<close>

lemma importance_term:
  fixes i w :: real
  assumes "0 \<le> i" "i \<le> 1" "0 \<le> w"
  shows "\<bar>w * (i - DEFAULT_IMPORTANCE) * RERANK_SCALE\<bar> \<le> w * RERANK_SCALE / 2"
proof -
  have "\<bar>i - 1 / 2\<bar> \<le> 1 / 2" using assms by linarith
  then have "w * \<bar>i - 1 / 2\<bar> \<le> w * (1 / 2)" by (rule mult_left_mono) (use assms in simp)
  then show ?thesis using assms(3) by (simp add: DEFAULT_IMPORTANCE_def RERANK_SCALE_def abs_mult)
qed

lemma usage_term: "0 \<le> usage_adjustment rc w s" "0 \<le> w \<Longrightarrow> usage_adjustment rc w s \<le> round10 (w * USAGE_SCALE)"
proof -
  have scale: "0 < USAGE_SCALE" by (simp add: USAGE_SCALE_def)
  show "0 \<le> usage_adjustment rc w s"
    using scale by (auto simp: usage_adjustment_def Let_def intro!: round10_nonneg mult_nonneg_nonneg)
  show "usage_adjustment rc w s \<le> round10 (w * USAGE_SCALE)" if "0 \<le> w"
    using scale that by (auto simp: usage_adjustment_def Let_def intro!: round10_nonneg round10_mono mult_left_le)
qed

lemma final_range:
  assumes "\<forall>i \<in> ran lookup. 0 \<le> i \<and> i \<le> 1" and "0 \<le> weight" and "0 \<le> usage_weight"
  shows "r_score r - weight * RERANK_SCALE / 2 \<le> rerank_final lookup weight usage usage_weight r"
    "rerank_final lookup weight usage usage_weight r \<le> r_score r + weight * RERANK_SCALE / 2
       + round10 (usage_weight * USAGE_SCALE)"
proof -
  define imp where "imp = (case lookup (r_id r) of Some i \<Rightarrow> i | None \<Rightarrow> DEFAULT_IMPORTANCE)"
  have "0 \<le> imp \<and> imp \<le> 1"
    using assms(1) by (auto simp: imp_def ran_def DEFAULT_IMPORTANCE_def split: option.splits)
  then have i: "\<bar>weight * (imp - DEFAULT_IMPORTANCE) * RERANK_SCALE\<bar> \<le> weight * RERANK_SCALE / 2"
    using importance_term assms(2) by blast
  define u where "u = (if 0 < usage_weight \<and> usage \<noteq> []
    then usage_adjustment (Some (case map_of usage (r_id r) of Some n \<Rightarrow> n | None \<Rightarrow> 0)) usage_weight 10 else 0)"
  have u: "0 \<le> u" "u \<le> round10 (usage_weight * USAGE_SCALE)"
    using usage_term assms(3) by (auto simp: u_def USAGE_SCALE_def intro!: round10_nonneg)
  have "rerank_final lookup weight usage usage_weight r = r_score r + weight * (imp - DEFAULT_IMPORTANCE) * RERANK_SCALE + u"
    by (simp add: rerank_final_def Let_def imp_def u_def)
  then show "r_score r - weight * RERANK_SCALE / 2 \<le> rerank_final lookup weight usage usage_weight r"
    "rerank_final lookup weight usage usage_weight r \<le> r_score r + weight * RERANK_SCALE / 2 + round10 (usage_weight * USAGE_SCALE)"
    using i u by linarith+
qed

text \<open>
  the rerank permutes the results, and with importances in the unit interval and weights that
  are not negative it moves none ahead of another whose semantic score is more than
  \<open>weight * 0.08\<close> (plus the rounded usage cap) higher.  With both weights zero it is the stable
  sort by score.
\<close>
theorem rerank_displacement:
  assumes "\<forall>i \<in> ran lookup. 0 \<le> i \<and> i \<le> 1" and "0 \<le> weight" and "0 \<le> usage_weight"
  shows "mset (rerank_by_importance rs lookup weight usage usage_weight) = mset rs
    \<and> sorted_wrt (\<lambda>x y. r_score y \<le> r_score x + weight * RERANK_SCALE + round10 (usage_weight * USAGE_SCALE))
        (rerank_by_importance rs lookup weight usage usage_weight)
    \<and> rerank_by_importance rs lookup 0 usage 0 = sorted_desc r_score rs"
proof (intro conjI)
  let ?ys = "rerank_by_importance rs lookup weight usage usage_weight"
  have w: "0 \<le> weight * RERANK_SCALE" "0 \<le> round10 (usage_weight * USAGE_SCALE)"
    using assms by (auto simp: RERANK_SCALE_def USAGE_SCALE_def intro!: round10_nonneg)
  show "mset ?ys = mset rs" by (simp add: rerank_by_importance_def)
  show "rerank_by_importance rs lookup 0 usage 0 = sorted_desc r_score rs"
    by (simp add: rerank_by_importance_def sorted_desc_def)
  have "r_score y \<le> r_score x + weight * RERANK_SCALE + round10 (usage_weight * USAGE_SCALE)"
    if "rerank_final lookup weight usage usage_weight y \<le> rerank_final lookup weight usage usage_weight x" for x y
    using that final_range [OF assms, where r = y and usage = usage] final_range [OF assms, where r = x and usage = usage] by linarith
  moreover have "r_score y \<le> r_score x + weight * RERANK_SCALE + round10 (usage_weight * USAGE_SCALE)"
    if "r_score y \<le> r_score x" for x y
    using that w by linarith
  ultimately show "sorted_wrt (\<lambda>x y. r_score y \<le> r_score x + weight * RERANK_SCALE + round10 (usage_weight * USAGE_SCALE)) ?ys"
    using sorted_desc_sorted [of r_score rs] sorted_desc_sorted [of "rerank_final lookup weight usage usage_weight" rs]
    by (auto simp: rerank_by_importance_def elim!: sorted_wrt_mono_rel [rotated])
qed

definition demo_result :: "string \<Rightarrow> real \<Rightarrow> brief_result" where
  "demo_result i sc = \<lparr>r_id = i, r_score = sc, r_room = None, r_text = i, r_importance = Null\<rparr>"

theorem rerank_displacement_witness:
  "mset (rerank_by_importance [demo_result ''a'' (1 / 2), demo_result ''b'' (6 / 10)] [''a'' \<mapsto> 1] 1 [] 0)
     = mset [demo_result ''a'' (1 / 2), demo_result ''b'' (6 / 10)]"
  by (rule conjunct1 [OF rerank_displacement]) simp_all

text \<open>
  the briefing of a project searches the wing the capture hook files under: for one run of git
  and one working directory the two names agree, except for a remote whose last part is nothing but
  \<open>.git\<close>, where captures go to \<open>wing_general\<close> and the briefing searches \<open>wing_\<close>.
\<close>
theorem briefing_searches_captured_wing:
  "detect_project_name git cwd = Inr project \<Longrightarrow>
   detect_wing git cwd = Inr (if project = [] \<and> (\<exists>out. git = Some (True, out)) then ''wing_general'' else ''wing_'' @ project)"
  by (cases cwd) (auto simp: detect_project_name_def detect_wing_def Let_def split: option.splits prod.splits bool.splits)

theorem briefing_searches_captured_wing_witness:
  "detect_wing (Some (True, ''https://github.com/user/repo.git'')) (Inr ''/home'') = Inr ''wing_repo''
   \<and> detect_wing (Some (True, ''https://host/.git'')) (Inr ''/home'') = Inr ''wing_general''"
proof -
  have "detect_project_name (Some (True, ''https://github.com/user/repo.git'')) (Inr ''/home'') = Inr ''repo''" by code_simp
  moreover have "detect_project_name (Some (True, ''https://host/.git'')) (Inr ''/home'') = Inr ''''" by code_simp
  ultimately show ?thesis using briefing_searches_captured_wing by force
qed

section \<open>The token budget\<close>

abbreviation tokens_of :: "ustr list \<Rightarrow> int" where
  "tokens_of ss \<equiv> (\<Sum>s \<leftarrow> ss. tokens s)"

lemma tokens_nonneg [simp]: "0 \<le> tokens s" by (simp add: tokens_def)

lemma tokens_of_nonneg [simp]: "0 \<le> tokens_of ss" by (induction ss) simp_all

lemma length_tokens: "int (length s) \<le> 4 * tokens s + 3" by (simp add: tokens_def)

lemma length_all_tokens: "int (sum_list (map length ss)) \<le> 4 * tokens_of ss + 3 * int (length ss)"
proof (induction ss)
  case (Cons s ss)
  then show ?case using length_tokens [of s] by simp
qed simp

text \<open>A section is written only while those before it leave room.\<close>

definition within_budget :: "int \<Rightarrow> ustr list \<Rightarrow> bool" where
  "within_budget budget ss \<longleftrightarrow> (\<forall>i. 0 < i \<and> i < length ss \<longrightarrow> tokens_of (take i ss) < budget)"

lemma within_budget_simps [simp]: "within_budget budget []" "within_budget budget [s]"
  by (simp_all add: within_budget_def)

lemma within_budget_snoc:
  assumes "within_budget budget ss" and "ss = [] \<or> tokens_of ss < budget"
  shows "within_budget budget (ss @ [s])"
  unfolding within_budget_def
proof (intro allI impI)
  fix i assume i: "0 < i \<and> i < length (ss @ [s])"
  show "tokens_of (take i (ss @ [s])) < budget"
  proof (cases "i = length ss")
    case True
    then show ?thesis using assms(2) i by auto
  next
    case False
    then show ?thesis using assms(1) i by (simp add: within_budget_def)
  qed
qed

definition accounted :: "int \<Rightarrow> memory_part \<Rightarrow> bool" where
  "accounted budget p \<longleftrightarrow> mp_tokens p = tokens_of (mp_sections p) \<and> within_budget budget (mp_sections p)"

lemma accounted_add: "accounted budget p \<Longrightarrow> accounted budget (add_section budget sec p)"
  by (auto simp: accounted_def add_section_def intro!: within_budget_snoc split: option.split)

lemma fetch_accounted:
  assumes "fetch_memory_part cfg dm project query = Inr p"
  shows "accounted (token_budget cfg) p"
proof -
  obtain sec fetched reranked sec1 sec2 where "p = add_section (token_budget cfg) sec1 (add_section (token_budget cfg) sec2
      (let p0 = \<lparr>mp_sections = [], mp_tokens = 0, mp_fetched = fetched, mp_reranked = reranked\<rparr>
       in case sec of Some s \<Rightarrow> p0\<lparr>mp_sections := [s], mp_tokens := tokens s\<rparr> | None \<Rightarrow> p0))"
    using assms by (auto simp: fetch_memory_part_def bind_err_Inr Let_def)
  then show ?thesis
    by (simp only:) (intro accounted_add, simp add: accounted_def Let_def split: option.split)
qed

lemma coordination_section_tokens:
  assumes "0 < budget" and "length title \<le> 28"
  shows "tokens (coordination_section budget title content) \<le> budget + 10"
proof -
  have "int (length (coordination_section budget title content)) \<le> 4 * budget + 42"
    using assms by (auto simp: coordination_section_def cps_def TRUNCATED_def py_upto_nonneg)
  then show ?thesis by (simp add: tokens_def)
qed

lemma coordination_loop_tokens:
  "coordination_loop fs budget ts = Inr ss \<Longrightarrow> \<forall>t \<in> set ts. length (snd t) \<le> 28 \<Longrightarrow> 0 < budget
   \<Longrightarrow> tokens_of ss \<le> budget + 10 \<and> length ss \<le> length ts"
proof (induction fs budget ts arbitrary: ss rule: coordination_loop.induct)
  case (2 fs budget nm title ts)
  show ?case
  proof (cases "fs nm")
    case None
    then show ?thesis using 2(1) [OF _ None] 2(4-6) by auto
  next
    case (Some r)
    then obtain raw where raw: "fs nm = Some (Inr raw)" using 2(4,6) by (cases r) auto
    show ?thesis
    proof (cases "u_strip raw = []")
      case True
      then show ?thesis using 2(2) [OF _ raw HOL.refl True] 2(4-6) raw by auto
    next
      case False
      let ?s = "coordination_section budget title (u_strip raw)"
      obtain rest where rest: "coordination_loop fs (budget - tokens ?s) ts = Inr rest" "ss = ?s # rest"
        using 2(4,6) raw False by (auto simp: Let_def bind_err_Inr)
      have s: "tokens ?s \<le> budget + 10" using coordination_section_tokens 2(5,6) by auto
      show ?thesis
      proof (cases "0 < budget - tokens ?s")
        case True
        then show ?thesis using 2(3) [OF _ raw HOL.refl False HOL.refl rest(1)] 2(4-6) rest(2) by simp
      next
        case le: False
        then have "rest = []" using rest(1) by (cases ts) (auto split: if_splits)
        then show ?thesis using s rest(2) by simp
      qed
    qed
  qed
qed simp

lemma read_coordination_tokens:
  assumes "read_coordination_files fs budget = Inr coord" and "0 < budget"
  shows "tokens coord \<le> budget + 21"
proof -
  obtain ss where ss: "coordination_loop fs budget TIER1 = Inr ss"
      "coord = (if ss = [] then [] else cps ''### Coordination Files'' @ [10, 10] @ join ([10, 10] @ cps ''---'' @ [10, 10]) ss)"
    using assms(1) by (auto simp: read_coordination_files_def bind_err_Inr)
  have t: "tokens_of ss \<le> budget + 10" "length ss \<le> 3"
    using coordination_loop_tokens [OF ss(1)] assms(2) by (auto simp: TIER1_def)
  show ?thesis
  proof (cases "ss = []")
    case False
    then have "length coord = 24 + sum_list (map length ss) + 7 * (length ss - 1)"
      using ss(2) by (simp add: length_join cps_def)
    then have "int (length coord) \<le> 4 * tokens_of ss + 47"
      using length_all_tokens [of ss] t(2) False by (cases ss) auto
    then show ?thesis using t(1) by (simp add: tokens_def)
  qed (use ss assms in \<open>simp add: tokens_def\<close>)
qed

text \<open>
  the token estimate of a briefing is the sum over its sections; a section after the first is
  written only while those before it are under the budget, and where the memory part leaves room the
  whole estimate exceeds the budget by at most 21 tokens, the titles and separators of the
  coordination files.
\<close>
theorem briefing_token_budget:
  assumes "fetch_memory_part cfg dm project query = Inr p" and "assemble_briefing cfg dirs project p = Inr b"
  shows "b_tokens b = tokens_of (b_sections b) \<and> within_budget (token_budget cfg) (b_sections b)
    \<and> b_tokens b \<le> max (mp_tokens p) (token_budget cfg + 21)"
proof -
  have p: "mp_tokens p = tokens_of (mp_sections p)" "within_budget (token_budget cfg) (mp_sections p)"
    using fetch_accounted [OF assms(1)] by (simp_all add: accounted_def)
  let ?room = "include_project_context cfg \<and> mp_tokens p < token_budget cfg"
  obtain coord where c: "(if ?room then (case find_project_context_dir dirs of
        Some fs \<Rightarrow> read_coordination_files fs (token_budget cfg - mp_tokens p) | None \<Rightarrow> Inr []) else Inr []) = Inr coord"
    and secs: "b_sections b = mp_sections p @ (if coord = [] then [] else [coord])"
    and est: "b_tokens b = mp_tokens p + (if coord = [] then 0 else tokens coord)"
    using assms(2) p(1) by (auto simp: assemble_briefing_def bind_err_Inr Let_def split: if_splits)
  have "coord = [] \<or> mp_tokens p < token_budget cfg \<and> tokens coord \<le> token_budget cfg - mp_tokens p + 21"
    using c read_coordination_tokens [of _ "token_budget cfg - mp_tokens p" coord]
    by (auto split: if_splits option.splits)
  then show ?thesis using p secs est by (auto intro!: within_budget_snoc)
qed

section \<open>Delivery\<close>

fun injected_text :: "brief_emit list \<times> (py_error + hook_result) \<Rightarrow> ustr option" where
  "injected_text (es, Inr (Inject_Context t)) = Some t"
| "injected_text (es, r) = None"

lemma prefetch_now_flags:
  "prefetch_now cfg env (h, p) = (h1, p1) \<Longrightarrow> bf_delivered h1 = bf_delivered h \<and> bf_armed h1 = bf_armed h"
  by (auto simp: prefetch_now_def split: option.splits sum.splits prod.splits)

lemma session_start_flags:
  "on_session_start cfg env sub (h, p) = (h1, p1) \<Longrightarrow> bf_delivered h1 = bf_delivered h
     \<and> (bf_armed h1 \<longrightarrow> bf_armed h \<or> (sub \<longrightarrow> brief_subsessions cfg) \<and> \<not> be_opt_out env)"
  by (auto simp: on_session_start_def split: if_splits dest!: prefetch_now_flags)

lemma on_deliver_flags:
  assumes "on_deliver cfg env ev landed (h, p) = (out, h1, p1)"
  shows "bf_armed h1 = bf_armed h" "bf_delivered h \<longrightarrow> bf_delivered h1"
    "injected_text out \<noteq> None \<longrightarrow> bf_armed h \<and> \<not> bf_delivered h \<and> bf_delivered h1"
  using assms
  by (auto simp: on_deliver_def Let_def split: if_splits prod.splits option.splits dest!: prefetch_now_flags)

lemma brief_step_flags:
  assumes "brief_step cfg e (h, p) = (out, h1, p1)"
  shows "bf_delivered h \<longrightarrow> bf_delivered h1" "injected_text out \<noteq> None \<longrightarrow> bf_armed h \<and> \<not> bf_delivered h \<and> bf_delivered h1"
    "bf_armed h1 \<longrightarrow> bf_armed h \<or> (\<exists>env sub. e = Session_Start env sub \<and> (sub \<longrightarrow> brief_subsessions cfg) \<and> \<not> be_opt_out env)"
  using assms by (cases e; auto dest: session_start_flags on_deliver_flags)+

definition injected_in :: "(brief_emit list \<times> (py_error + hook_result)) list \<Rightarrow> ustr list" where
  "injected_in outs = concat (map (\<lambda>o'. case injected_text o' of Some t \<Rightarrow> [t] | None \<Rightarrow> []) outs)"

definition arms :: "brief_config \<Rightarrow> brief_event \<Rightarrow> bool" where
  "arms cfg e \<longleftrightarrow> (case e of Session_Start env sub \<Rightarrow> (sub \<longrightarrow> brief_subsessions cfg) \<and> \<not> be_opt_out env | _ \<Rightarrow> False)"

lemma delivered_once_facts:
  "length (injected_in (fst (brief_run cfg evs (h, p)))) \<le> (if bf_delivered h then 0 else 1)
   \<and> (bf_armed h \<or> list_ex (arms cfg) evs \<or> injected_in (fst (brief_run cfg evs (h, p))) = [])"
proof (induction evs arbitrary: h p)
  case (Cons e evs)
  obtain out h1 p1 where st: "brief_step cfg e (h, p) = (out, h1, p1)" by (metis prod.exhaust)
  obtain outs st2 where rest: "brief_run cfg evs (h1, p1) = (outs, st2)" by (rule prod.exhaust)
  have split: "injected_in (fst (brief_run cfg (e # evs) (h, p)))
      = (case injected_text out of Some t \<Rightarrow> [t] | None \<Rightarrow> []) @ injected_in outs"
    by (simp add: st rest injected_in_def)
  have IH: "length (injected_in outs) \<le> (if bf_delivered h1 then 0 else 1)"
      "bf_armed h1 \<or> list_ex (arms cfg) evs \<or> injected_in outs = []"
    using Cons.IH [of h1 p1] rest by simp_all
  note flags = brief_step_flags [OF st]
  have "bf_armed h1 \<longrightarrow> bf_armed h \<or> arms cfg e" using flags(3) by (auto simp: arms_def)
  then show ?case using IH flags(1,2) unfolding split
    by (cases "injected_text out") (auto split: if_splits)
qed (simp add: injected_in_def)

text \<open>
  whatever happens in a session (starts, prompts, provider requests, jobs that end or fail), the
  briefing is injected at most once, and never in a session that nothing armed: a sub-session where
  those are not briefed, or an automated run.
\<close>
theorem briefing_is_delivered_once:
  "length (injected_in (fst (brief_run cfg evs (h, p)))) \<le> (if bf_delivered h then 0 else 1)
   \<and> (bf_armed h \<or> list_ex (arms cfg) evs \<or> injected_in (fst (brief_run cfg evs (h, p))) = [])"
  by (rule delivered_once_facts)

text \<open>
  a ready briefing is handed out at the next delivery point.  In an armed session whose job has
  ended, or ends within the wait of the first prompt, with something to show, the next prompt or
  provider request that is no side call of the orchestrator (iteration 0) injects it.
\<close>
theorem ready_briefing_is_delivered:
  assumes "bf_armed h" and "\<not> bf_delivered h" and "bf_future h = Some i" and "i < length (jobs p)"
    and "jobs p ! i = Fetched pre
      \<or> jobs p ! i = Running \<and> landed = Some (Fetched pre) \<and> ev = Prompt \<and> \<not> bf_deferred h \<and> 0 < deliver_wait_s cfg"
    and "pf_ok pre" and "pf_part pre = Some part" and "ev \<noteq> Provider_Request (Some 0)"
    and "assemble_briefing cfg (be_dirs env) (pf_project pre) part = Inr b" and "b_sections b \<noteq> []"
  shows "injected_text (fst (on_deliver cfg env ev landed (h, p))) = Some (b_text b)
    \<and> bf_delivered (fst (snd (on_deliver cfg env ev landed (h, p))))"
proof -
  have "b_text b \<noteq> []"
    using assms(9,10) by (auto simp: assemble_briefing_def bind_err_Inr Let_def cps_def split: if_splits)
  then have "hand_out cfg (be_dirs env) (Fetched pre)
      = (emits cfg (Briefing_Assembled (length (b_sections b)) (b_tokens b) (map r_id (b_reranked b))), Inr (Inject_Context (b_text b)))"
    using assms(6,7,9) by (simp add: hand_out_def briefing_result_def)
  moreover have "prefetch_now cfg env (h, p) = (h, p)" using assms(3) by (simp add: prefetch_now_def)
  ultimately show ?thesis
    using assms(1-5,8) by (auto simp: on_deliver_def Let_def split: option.split)
qed

text \<open>
  an unreadable coordination file costs the session its briefing.  The delivery is spent before
  the files are read, so the exception leaves the handler with nothing injected, and every later
  delivery point is silent, also once the file can be read again.
\<close>
theorem unreadable_file_loses_briefing:
  assumes "bf_armed h" and "\<not> bf_delivered h" and "bf_future h = Some i"
    and "jobs p ! i = Fetched pre" and "pf_ok pre" and "pf_part pre = Some part" and "ev \<noteq> Provider_Request (Some 0)"
    and "include_project_context cfg" and "mp_tokens part < token_budget cfg"
    and "find_project_context_dir (be_dirs env) = Some fs" and "fs ''HANDOFF.md'' = Some (Inl e)"
  shows "\<exists>h'. on_deliver cfg env ev landed (h, p) = (([], Inl e), h', p)
    \<and> (\<forall>evs. injected_in (fst (brief_run cfg evs (h', p))) = [])"
proof -
  have "read_coordination_files fs (token_budget cfg - mp_tokens part) = Inl e"
    using assms(9,11) by (simp add: read_coordination_files_def TIER1_def)
  then have "hand_out cfg (be_dirs env) (Fetched pre) = ([], Inl e)"
    using assms(5,6,8-10) by (simp add: hand_out_def assemble_briefing_def)
  moreover have "prefetch_now cfg env (h, p) = (h, p)" using assms(3) by (simp add: prefetch_now_def)
  ultimately have "on_deliver cfg env ev landed (h, p) = (([], Inl e), h\<lparr>bf_delivered := True\<rparr>, p)"
    using assms(1-4,7) by (auto simp: on_deliver_def Let_def split: option.split)
  moreover have "injected_in (fst (brief_run cfg evs (h\<lparr>bf_delivered := True\<rparr>, p))) = []" for evs
    using delivered_once_facts [of cfg evs "h\<lparr>bf_delivered := True\<rparr>" p] by simp
  ultimately show ?thesis by blast
qed

section \<open>The briefing and the interjection\<close>

text \<open>
  what a briefing showed is not injected again.  Once the briefing has been handed out with
  events on, the interjection hook injects in the rest of the session none of its results that have
  an id, for every sequence of prompts, tool calls and responses.
\<close>
theorem briefed_results_are_not_injected:
  assumes "hand_out cfg dirs (Fetched pre) = (es, Inr (Inject_Context t))"
    and "pf_ok pre" and "pf_part pre = Some part" and "br_emits cfg"
    and "r \<in> set (mp_reranked part)" and "r_id r \<noteq> []"
  shows "r_id r \<notin> (\<Union>(n, ids) \<in> set (injections sha1 h evs (run sha1 h (briefed_events es) s)). set ids)"
proof -
  obtain b where b: "assemble_briefing cfg dirs (pf_project pre) part = Inr b"
      "apsnd Inr (briefing_result cfg b) = (es, Inr (Inject_Context t) :: py_error + hook_result)"
    using assms(1-3) by (auto simp: hand_out_def split: sum.splits)
  then have "es = [Briefing_Assembled (length (b_sections b)) (b_tokens b) (map r_id (b_reranked b))]"
    using assms(4) by (auto simp: briefing_result_def emits_def split: if_splits)
  moreover have "b_reranked b = mp_reranked part"
    using b(1) by (auto simp: assemble_briefing_def bind_err_Inr Let_def split: if_splits)
  ultimately have "r_id r \<in> briefed_ids (run sha1 h (briefed_events es) s)"
    using assms(5,6) by (simp add: briefed_events_def on_briefing_assembled_def)
  then show ?thesis using injections_later [of _ _ sha1 h evs] by fastforce
qed

text \<open>A daemon with one drawer, the one the demonstration session of the interjection hook meets.\<close>

definition demo_config :: brief_config where
  "demo_config = \<lparr>token_budget = 1500, include_kg = True, include_diary = True, include_project_context = True,
     importance_weight = 1, br_emits = True, brief_subsessions = False, deliver_wait_s = 2, cache_ttl_s = 300\<rparr>"

definition demo_drawer :: brief_result where
  "demo_drawer = \<lparr>r_id = ''b'', r_score = 8 / 10, r_room = None, r_text = m_text demo_short, r_importance = Null\<rparr>"

definition demo_daemon_answers :: brief_daemon where
  "demo_daemon_answers = \<lparr>bd_search = (\<lambda>q k w. Some [Some \<lparr>bh_ref = ''b'', bh_score = Inr (8 / 10), bh_room = None,
       bh_content = m_text demo_short, bh_importance = Null\<rparr>]),
     bd_facts = \<lparr>fc_up = True, fc_facts = (\<lambda>d. None), fc_value = (\<lambda>v. None)\<rparr>, bd_kg = (\<lambda>p. None), bd_diary = None\<rparr>"

definition demo_section :: ustr where
  "demo_section = join [10] (cps ''**Recent memories -- `repo`:**'' # [result_line demo_drawer])"

definition demo_part :: memory_part where
  "demo_part = \<lparr>mp_sections = [demo_section], mp_tokens = tokens demo_section, mp_fetched = [demo_drawer], mp_reranked = [demo_drawer]\<rparr>"

lemma demo_fetch: "fetch_memory_part demo_config demo_daemon_answers ''repo'' [] = Inr demo_part"
  by (simp add: fetch_memory_part_def search_section_def brief_results_def rank_results_def importance_from_hits_def
      rerank_by_importance_def sorted_desc_def demo_daemon_answers_def demo_config_def demo_part_def demo_section_def
      demo_drawer_def add_section_def kg_section_def diary_section_def Let_def)

lemma demo_assembled: "\<exists>b. assemble_briefing (demo_config\<lparr>br_emits := v\<rparr>) [] ''repo'' demo_part = Inr b
    \<and> b_sections b = [demo_section] \<and> b_text b \<noteq> [] \<and> b_reranked b = [demo_drawer]"
  by (simp add: assemble_briefing_def demo_part_def cps_def Let_def)

lemma demo_config_emits: "demo_config\<lparr>br_emits := True\<rparr> = demo_config"
  by (simp add: demo_config_def)

theorem briefing_token_budget_witness:
  "\<exists>b. assemble_briefing demo_config [] ''repo'' demo_part = Inr b \<and> b_sections b = [demo_section]
     \<and> b_tokens b = tokens demo_section"
proof -
  obtain b where b: "assemble_briefing demo_config [] ''repo'' demo_part = Inr b" "b_sections b = [demo_section]"
    using demo_assembled [of True] by (auto simp: demo_config_emits)
  then show ?thesis using briefing_token_budget [OF demo_fetch b(1)] by simp
qed

definition demo_prefetch :: prefetch where
  "demo_prefetch = \<lparr>pf_ok = True, pf_project = ''repo'', pf_part = Some demo_part, pf_complete = True\<rparr>"

definition demo_env :: "candidate_dir list \<Rightarrow> brief_env" where
  "demo_env dirs = \<lparr>be_home = ''/home'', be_cwd = Inr ''/repo'', be_now = 0, be_opt_out = False, be_dirs = dirs\<rparr>"

definition demo_armed :: brief_hook where
  "demo_armed = \<lparr>bf_future = Some 0, bf_armed = True, bf_delivered = False, bf_deferred = False\<rparr>"

definition demo_process :: process where
  "demo_process = \<lparr>jobs = [Running], prefetch_cache = Map.empty\<rparr>"

theorem ready_briefing_is_delivered_witness:
  "bf_delivered (fst (snd (on_deliver demo_config (demo_env []) Prompt (Some (Fetched demo_prefetch)) (demo_armed, demo_process))))"
proof -
  obtain b where b: "assemble_briefing demo_config [] ''repo'' demo_part = Inr b" "b_sections b = [demo_section]"
    using demo_assembled [of True] by (auto simp: demo_config_emits)
  have "bf_armed demo_armed" "\<not> bf_delivered demo_armed" "bf_future demo_armed = Some 0" "0 < length (jobs demo_process)"
    "jobs demo_process ! 0 = Fetched demo_prefetch
      \<or> jobs demo_process ! 0 = Running \<and> Some (Fetched demo_prefetch) = Some (Fetched demo_prefetch) \<and> Prompt = Prompt
        \<and> \<not> bf_deferred demo_armed \<and> 0 < deliver_wait_s demo_config"
    "pf_ok demo_prefetch" "pf_part demo_prefetch = Some demo_part" "Prompt \<noteq> Provider_Request (Some 0)"
    "assemble_briefing demo_config (be_dirs (demo_env [])) (pf_project demo_prefetch) demo_part = Inr b" "b_sections b \<noteq> []"
    using b by (simp_all add: demo_armed_def demo_process_def demo_prefetch_def demo_config_def demo_env_def)
  from conjunct2 [OF ready_briefing_is_delivered [OF this]] show ?thesis .
qed

definition demo_context_dir :: "py_error + ustr \<Rightarrow> candidate_dir" where
  "demo_context_dir handoff = \<lparr>has_context = True, has_git = True, context_files = [''HANDOFF.md'' \<mapsto> handoff]\<rparr>"

theorem unreadable_file_loses_briefing_witness:
  "\<exists>h'. on_deliver (demo_config\<lparr>token_budget := 100000\<rparr>) (demo_env [demo_context_dir (Inl (ValueError ''utf-8''))]) Prompt None
      (demo_armed, demo_process\<lparr>jobs := [Fetched demo_prefetch]\<rparr>)
    = (([], Inl (ValueError ''utf-8'')), h', demo_process\<lparr>jobs := [Fetched demo_prefetch]\<rparr>)"
proof -
  have "length demo_section \<le> 400"
    by (simp add: demo_section_def cps_def result_line_def demo_drawer_def)
  then have "tokens demo_section < 100000" by (simp add: tokens_def)
  then show ?thesis
    using unreadable_file_loses_briefing [where h = demo_armed and i = 0 and p = "demo_process\<lparr>jobs := [Fetched demo_prefetch]\<rparr>"
        and pre = demo_prefetch and part = demo_part and ev = Prompt and cfg = "demo_config\<lparr>token_budget := 100000\<rparr>"
        and env = "demo_env [demo_context_dir (Inl (ValueError ''utf-8''))]" and e = "ValueError ''utf-8''"
        and fs = "[''HANDOFF.md'' \<mapsto> Inl (ValueError ''utf-8'')]" and landed = None]
    by (simp add: demo_armed_def demo_prefetch_def demo_config_def demo_env_def demo_context_dir_def demo_part_def) blast
qed

lemma demo_hand_out:
  "\<exists>es t. hand_out (demo_config\<lparr>br_emits := v\<rparr>) [] (Fetched demo_prefetch) = (es, Inr (Inject_Context t))
     \<and> (v \<or> briefed_events es = [])"
proof -
  obtain b where "assemble_briefing (demo_config\<lparr>br_emits := v\<rparr>) [] ''repo'' demo_part = Inr b" "b_text b \<noteq> []"
    using demo_assembled by blast
  then show ?thesis by (simp add: hand_out_def demo_prefetch_def briefing_result_def emits_def briefed_events_def)
qed

theorem briefed_results_are_not_injected_witness:
  "\<exists>es t. hand_out demo_config [] (Fetched demo_prefetch) = (es, Inr (Inject_Context t))
     \<and> ''b'' \<notin> (\<Union>(n, ids) \<in> set (injections (\<lambda>_. []) demo_eager (replicate 3 (Hook Orchestrator_Complete demo_event))
          (run (\<lambda>_. []) demo_eager (briefed_events es) interject_init)). set ids)"
proof -
  obtain es t where out: "hand_out demo_config [] (Fetched demo_prefetch) = (es, Inr (Inject_Context t))"
    using demo_hand_out [of True] by (auto simp: demo_config_emits)
  have pre: "pf_ok demo_prefetch" "pf_part demo_prefetch = Some demo_part" "br_emits demo_config"
    "demo_drawer \<in> set (mp_reranked demo_part)" "r_id demo_drawer \<noteq> []"
    by (simp_all add: demo_prefetch_def demo_config_def demo_part_def demo_drawer_def)
  have "r_id demo_drawer = ''b''" by (simp add: demo_drawer_def)
  then show ?thesis using briefed_results_are_not_injected [OF out pre] out by metis
qed

text \<open>
  with \<open>emit_events\<close> off the briefing does not tell the interjection hook what it showed, and a
  memory of the briefing is injected again by the next response that matches it.
\<close>
theorem silent_briefing_is_repeated:
  "\<exists>es t. hand_out (demo_config\<lparr>br_emits := False\<rparr>) [] (Fetched demo_prefetch) = (es, Inr (Inject_Context t))
     \<and> map r_id (mp_reranked demo_part) = [''b'']
     \<and> injections (\<lambda>_. []) demo_eager (replicate 3 (Hook Orchestrator_Complete demo_event))
          (run (\<lambda>_. []) demo_eager (briefed_events es) interject_init) = [(1, [''b'']), (3, [''b''])]"
proof -
  obtain es t where "hand_out (demo_config\<lparr>br_emits := False\<rparr>) [] (Fetched demo_prefetch) = (es, Inr (Inject_Context t))"
      "briefed_events es = []"
    using demo_hand_out [of False] by auto
  moreover have "map r_id (mp_reranked demo_part) = [''b'']" by (simp add: demo_part_def demo_drawer_def)
  ultimately show ?thesis using demo_injections by auto
qed

end
