(* ===== verification/Context_Sleep.thy ===== *)
theory Context_Sleep
  imports Prelude
begin

text \<open>
  The sleep-time context manager (\<open>context-sleep\<close>): the two buffers, the token estimate, the
  consolidation pass with the provider call and its verbatim fallback, and the wiring.  The
  tokenizer and the provider are inputs.
\<close>

section \<open>Messages\<close>

text \<open>
  A block that is no object, or the text of one (\<open>block.get("text") or block.get("content") or ""\<close>,
  as a string).  A content that is missing, null or empty is \<open>Absent\<close>.
\<close>

datatype block = Opaque | Block string

datatype content = Absent | Text string | Blocks "block list"

record message =
  msg_role :: "string option"
  msg_content :: content

definition block_texts :: "block list \<Rightarrow> string list" where
  "block_texts bs = concat (map (\<lambda>b. case b of Opaque \<Rightarrow> [] | Block t \<Rightarrow> if t = [] then [] else [t]) bs)"

text \<open>The tokenizer gives \<open>None\<close> where it is not installed or fails.\<close>

definition estimate_tokens :: "(string \<Rightarrow> nat option) \<Rightarrow> message list \<Rightarrow> nat" where
  "estimate_tokens encode msgs = (
     let parts = concat (map (\<lambda>m. case msg_content m of Absent \<Rightarrow> [[]] | Text t \<Rightarrow> [t]
           | Blocks bs \<Rightarrow> if bs = [] then [[]] else block_texts bs) msgs);
         combined = join '' '' parts
     in case encode combined of Some n \<Rightarrow> n | None \<Rightarrow> max 1 (length combined div 4))"

definition message_text :: "message \<Rightarrow> string" where
  "message_text m = ''['' @ (case msg_role m of Some r \<Rightarrow> r | None \<Rightarrow> ''unknown'') @ '']: '' @
     (case msg_content m of Absent \<Rightarrow> [] | Text t \<Rightarrow> t | Blocks bs \<Rightarrow> join '' '' (block_texts bs))"

definition NEWLINE :: char where "NEWLINE = CHR 10"

definition GAP :: string where "GAP = [NEWLINE, NEWLINE]"

definition messages_to_text :: "message list \<Rightarrow> string" where
  "messages_to_text msgs = join GAP (map message_text msgs)"

section \<open>The provider\<close>

definition FAITHFUL_SYSTEM :: string where
  "FAITHFUL_SYSTEM = ''You are an offline memory-consolidation process. Compress the conversation/context below into a compact note. STRICT RULES: (1) NEVER invent, infer, or derive any fact, name, number, decision, or relationship. (2) Preserve every concrete fact verbatim where possible; you may drop pure redundancy and filler. (3) Keep readable natural-language prose (NOT terse symbol/triple notation). (4) If unsure whether something matters, KEEP it. Output only the consolidated note.''"

definition CREATIVE_SYSTEM :: string where
  "CREATIVE_SYSTEM = ''You are an offline memory-consolidation process. Reorganise and synthesise the conversation/context below into a compact, well-structured note. You may derive higher-level insights and restructure information for clarity. Output only the consolidated note.''"

datatype request_format = Format_A | Format_B

text \<open>
  The texts of the blocks of a response (empty where a block has none) and its output attribute.
\<close>

record chat_response =
  resp_texts :: "string list"
  resp_output :: string

record provider =
  has_chat_request :: bool
  accepts :: "request_format \<Rightarrow> bool"
  complete :: "request_format \<Rightarrow> string \<Rightarrow> string \<Rightarrow> chat_response option"

definition call_provider :: "provider \<Rightarrow> string \<Rightarrow> string \<Rightarrow> string option" where
  "call_provider pr txt style = (
     let prompt = (if style = ''creative'' then CREATIVE_SYSTEM else FAITHFUL_SYSTEM)
     in if \<not> has_chat_request pr then None
        else case filter (accepts pr) [Format_A, Format_B] of [] \<Rightarrow> None
        | fmt # fmts \<Rightarrow> (case complete pr fmt prompt txt of None \<Rightarrow> None
          | Some r \<Rightarrow> (case filter (\<lambda>t. t \<noteq> []) (resp_texts r) of t # ts \<Rightarrow> Some t
              | [] \<Rightarrow> if resp_output r \<noteq> [] then Some (resp_output r) else None)))"

section \<open>The fallback\<close>

definition is_break :: "char \<Rightarrow> bool" where
  "is_break c \<longleftrightarrow> (let n = (of_char c :: nat) in 10 \<le> n \<and> n \<le> 13 \<or> 28 \<le> n \<and> n \<le> 30 \<or> n = 133)"

text \<open>\<open>str.splitlines\<close>: a carriage return and a line feed are one break, and no line follows the last break.\<close>

fun splitlines_from :: "string \<Rightarrow> string \<Rightarrow> string list" where
  "splitlines_from cur [] = (if cur = [] then [] else [cur])"
| "splitlines_from cur [c] = (if is_break c then [cur] else [cur @ [c]])"
| "splitlines_from cur (c # d # s) = (if c = CHR 13 \<and> d = CHR 10 then cur # splitlines_from [] s
     else if is_break c then cur # splitlines_from [] (d # s) else splitlines_from (cur @ [c]) (d # s))"

definition splitlines :: "string \<Rightarrow> string list" where "splitlines = splitlines_from []"

fun dedup_lines :: "string set \<Rightarrow> string list \<Rightarrow> string list" where
  "dedup_lines seen [] = []"
| "dedup_lines seen (line # ls) = (let key = py_strip line in
     if key \<noteq> [] \<and> key \<in> seen then dedup_lines seen ls else line # dedup_lines (insert key seen) ls)"

definition verbatim_fallback :: "string \<Rightarrow> string" where
  "verbatim_fallback txt = join [NEWLINE] (dedup_lines {} (splitlines txt))"

section \<open>The context manager\<close>

definition MEMORY_PREFIX :: string where "MEMORY_PREFIX = ''[Consolidated memory]''"

record sleep_config =
  threshold :: int
  keep_recent :: int
  style :: string
  enabled :: bool
  provider_name :: "string option"

record sleep_context =
  raw :: "message list"
  working :: "message list"
  provider_of :: "provider option"
  hooked :: bool

definition sleep_init :: sleep_context where
  "sleep_init = \<lparr>raw = [], working = [], provider_of = None, hooked = False\<rparr>"

datatype sleep_event = Pre_Compact nat nat | Post_Compact nat nat | Sleep_Complete string nat

definition is_memory :: "message \<Rightarrow> bool" where
  "is_memory m \<longleftrightarrow> msg_role m = Some ''system''
     \<and> (case msg_content m of Text t \<Rightarrow> starts_with t MEMORY_PREFIX | _ \<Rightarrow> False)"

definition note_of :: "message \<Rightarrow> string" where
  "note_of m = (case msg_content m of Text t \<Rightarrow> drop (length MEMORY_PREFIX + 1) t | _ \<Rightarrow> [])"

definition memory_message :: "string \<Rightarrow> message" where
  "memory_message note = \<lparr>msg_role = Some ''system'', msg_content = Text (MEMORY_PREFIX @ [NEWLINE] @ note)\<rparr>"

definition PRIOR_NOTE :: string where "PRIOR_NOTE = ''[Prior consolidated note]''"

definition consolidation_input :: "string \<Rightarrow> message list \<Rightarrow> string" where
  "consolidation_input prior evicted = join GAP
     ((if prior \<noteq> [] then [PRIOR_NOTE @ [NEWLINE] @ prior] else []) @ [messages_to_text evicted])"

definition make_note :: "sleep_config \<Rightarrow> provider option \<Rightarrow> string \<Rightarrow> string" where
  "make_note cfg pr txt = (case (case pr of Some p \<Rightarrow> call_provider p txt (style cfg) | None \<Rightarrow> None) of
     Some note \<Rightarrow> note | None \<Rightarrow> verbatim_fallback txt)"

definition split_working :: "message list \<Rightarrow> string \<times> message list" where
  "split_working w = (case w of m # ms \<Rightarrow> if is_memory m then (note_of m, ms) else ([], w) | [] \<Rightarrow> ([], []))"

definition compact :: "(string \<Rightarrow> nat option) \<Rightarrow> sleep_config \<Rightarrow> sleep_context \<Rightarrow> sleep_event list \<times> sleep_context" where
  "compact encode cfg c = (
     let w = working c;
         n = estimate_tokens encode w;
         out = (\<lambda>es. if hooked c then es else [])
     in case split_working w of (prior, verbatim) \<Rightarrow>
       if int (length verbatim) \<le> keep_recent cfg
       then (out [Pre_Compact (length w) n, Post_Compact (length w) n], c)
       else (let evicted = py_upto verbatim (- keep_recent cfg);
                 keep = py_from verbatim (- keep_recent cfg);
                 note = make_note cfg (provider_of c) (consolidation_input prior evicted);
                 w' = memory_message note # keep
             in (out [Pre_Compact (length w) n, Post_Compact (length w') (estimate_tokens encode w'),
                   Sleep_Complete note (length evicted)], c\<lparr>working := w'\<rparr>)))"

definition should_compact :: "(string \<Rightarrow> nat option) \<Rightarrow> sleep_config \<Rightarrow> sleep_context \<Rightarrow> bool" where
  "should_compact encode cfg c \<longleftrightarrow> threshold cfg < int (estimate_tokens encode (working c))"

definition add_message :: "(string \<Rightarrow> nat option) \<Rightarrow> sleep_config \<Rightarrow> message \<Rightarrow> sleep_context \<Rightarrow> sleep_event list \<times> sleep_context" where
  "add_message encode cfg m c = (let c1 = c\<lparr>raw := raw c @ [m], working := working c @ [m]\<rparr> in
     if enabled cfg \<and> should_compact encode cfg c1 then compact encode cfg c1 else ([], c1))"

definition set_messages :: "message list \<Rightarrow> sleep_context \<Rightarrow> sleep_context" where
  "set_messages ms c = c\<lparr>raw := ms, working := ms\<rparr>"

definition clear :: "sleep_context \<Rightarrow> sleep_context" where
  "clear c = c\<lparr>raw := [], working := []\<rparr>"

definition on_session_ready :: "sleep_config \<Rightarrow> bool \<Rightarrow> (string \<times> provider) list \<Rightarrow> sleep_context \<Rightarrow> sleep_context" where
  "on_session_ready cfg has_hooks providers c = (let c1 = (if has_hooks then c\<lparr>hooked := True\<rparr> else c) in
     case providers of [] \<Rightarrow> c1
     | (nm, p) # ps \<Rightarrow> c1\<lparr>provider_of := Some (case provider_name cfg of None \<Rightarrow> p
         | Some want \<Rightarrow> (case (if want = [] then None else map_of providers want) of Some q \<Rightarrow> q | None \<Rightarrow> p))\<rparr>)"

text \<open>What the session is given back: the window for a request, and the whole history.\<close>

definition get_messages_for_request :: "sleep_context \<Rightarrow> message list" where
  "get_messages_for_request c = working c"

definition get_messages :: "sleep_context \<Rightarrow> message list" where
  "get_messages c = raw c"

text \<open>The operations of a session, in any order.\<close>

datatype sleep_op = Add message | Set "message list" | Clear | Compact | Ready bool "(string \<times> provider) list"

fun sleep_step :: "(string \<Rightarrow> nat option) \<Rightarrow> sleep_config \<Rightarrow> sleep_op \<Rightarrow> sleep_context \<Rightarrow> sleep_context" where
  "sleep_step encode cfg (Add m) c = snd (add_message encode cfg m c)"
| "sleep_step encode cfg (Set ms) c = set_messages ms c"
| "sleep_step encode cfg Clear c = clear c"
| "sleep_step encode cfg Compact c = snd (compact encode cfg c)"
| "sleep_step encode cfg (Ready has_hooks ps) c = on_session_ready cfg has_hooks ps c"

definition sleep_run :: "(string \<Rightarrow> nat option) \<Rightarrow> sleep_config \<Rightarrow> sleep_op list \<Rightarrow> sleep_context" where
  "sleep_run encode cfg ops = fold (sleep_step encode cfg) ops sleep_init"

definition demo_sleep :: sleep_config where
  "demo_sleep = \<lparr>threshold = 0, keep_recent = 1, style = ''faithful'', enabled = True, provider_name = None\<rparr>"

definition demo_message :: message where
  "demo_message = \<lparr>msg_role = Some ''user'', msg_content = Text ''hello''\<rparr>"

section \<open>Lines\<close>

text \<open>The lines of a text, stripped and without the blank ones.\<close>

definition keys_from :: "string \<Rightarrow> string \<Rightarrow> string set" where
  "keys_from cur s = py_strip ` set (splitlines_from cur s) - {[]}"

abbreviation keys :: "string \<Rightarrow> string set" where "keys \<equiv> keys_from []"

lemma py_strip_Nil [simp]: "py_strip [] = []" by (simp add: py_strip_def)

lemma newline_break [simp]: "is_break NEWLINE" by (simp add: is_break_def NEWLINE_def)

lemma newline_cr [simp]: "NEWLINE \<noteq> CHR 13" by (simp add: NEWLINE_def)

lemma splitlines_newline: "splitlines_from cur (NEWLINE # b) = cur # splitlines_from [] b"
  by (cases b) simp_all

lemma splitlines_step:
  "c = CHR 13 \<and> d = CHR 10 \<Longrightarrow> splitlines_from cur (c # d # s) = cur # splitlines_from [] s"
  "\<not> (c = CHR 13 \<and> d = CHR 10) \<Longrightarrow> is_break c \<Longrightarrow> splitlines_from cur (c # d # s) = cur # splitlines_from [] (d # s)"
  "\<not> (c = CHR 13 \<and> d = CHR 10) \<Longrightarrow> \<not> is_break c \<Longrightarrow> splitlines_from cur (c # d # s) = splitlines_from (cur @ [c]) (d # s)"
  by (simp_all only: splitlines_from.simps(3) if_False if_True simp_thms)

lemma cr_break: "is_break (CHR 13)" by (simp add: is_break_def)

lemma keys_newline: "keys_from cur (a @ NEWLINE # b) = keys_from cur a \<union> keys b"
proof (induction cur a rule: splitlines_from.induct)
  case (1 cur)
  then show ?case by (auto simp: keys_from_def splitlines_newline)
next
  case (2 cur c)
  show ?case
  proof (cases "c = CHR 13")
    case True
    have "c = CHR 13 \<and> NEWLINE = CHR 10" using True by (simp add: NEWLINE_def)
    from splitlines_step(1) [OF this, of cur b] show ?thesis using True cr_break by (auto simp: keys_from_def)
  next
    case False
    then have n: "\<not> (c = CHR 13 \<and> NEWLINE = CHR 10)" by simp
    show ?thesis
    proof (cases "is_break c")
      case True
      then show ?thesis using splitlines_step(2) [OF n True, of cur b] splitlines_newline [of "[]" b]
        by (auto simp: keys_from_def simp del: splitlines_from.simps(3))
    next
      case False
      then show ?thesis using splitlines_step(3) [OF n False, of cur b] splitlines_newline [of "cur @ [c]" b]
        by (auto simp: keys_from_def simp del: splitlines_from.simps(3))
    qed
  qed
next
  case (3 cur c d s)
  consider "c = CHR 13 \<and> d = CHR 10" | "\<not> (c = CHR 13 \<and> d = CHR 10)" "is_break c"
    | "\<not> (c = CHR 13 \<and> d = CHR 10)" "\<not> is_break c" by blast
  then show ?case
  proof cases
    case 1
    show ?thesis using 3(1) [OF 1] by (simp only: keys_from_def append_Cons splitlines_step(1) [OF 1]) auto
  next
    case 2
    show ?thesis using 3(2) [OF 2] by (simp only: keys_from_def append_Cons splitlines_step(2) [OF 2]) auto
  next
    case c: 3
    show ?thesis using 3(3) [OF c] by (simp only: keys_from_def append_Cons splitlines_step(3) [OF c])
  qed
qed

lemma keys_Nil [simp]: "keys [] = {}" by (simp add: keys_from_def)

lemma keys_gap: "keys (a @ GAP @ b) = keys a \<union> keys b"
proof -
  have "keys (NEWLINE # b) = keys b" using keys_newline [of "[]" "[]" b] by simp
  then show ?thesis using keys_newline [of "[]" a "NEWLINE # b"] by (simp add: GAP_def)
qed

lemma keys_join_gap: "keys (join GAP ts) = (\<Union>t \<in> set ts. keys t)"
  by (induction GAP ts rule: join.induct) (simp_all add: keys_gap)

lemma keys_join_newline: "keys (join [NEWLINE] ts) = (\<Union>t \<in> set ts. keys t)"
proof (induction "[NEWLINE]" ts rule: join.induct)
  case (3 x y xs)
  then show ?case using keys_newline [of "[]" x "join [NEWLINE] (y # xs)"] by simp
qed simp_all

text \<open>A line without breaks is its own only line.\<close>

lemma splitlines_unbroken: "\<forall>c \<in> set s. \<not> is_break c \<Longrightarrow> cur @ s \<noteq> [] \<Longrightarrow> splitlines_from cur s = [cur @ s]"
proof (induction cur s rule: splitlines_from.induct)
  case (3 cur c d s)
  have "is_break (CHR 13)" by (simp add: is_break_def)
  then have "c \<noteq> CHR 13" "\<not> is_break c" using 3(4) by auto
  then show ?case using 3(3-5) by simp
qed simp_all

lemma splitlines_no_break:
  "l \<in> set (splitlines_from cur s) \<Longrightarrow> \<forall>c \<in> set cur. \<not> is_break c \<Longrightarrow> \<forall>c \<in> set l. \<not> is_break c"
proof (induction cur s rule: splitlines_from.induct)
  case (3 cur c d s)
  note IH3 = 3(3) and memb = 3(4) and unbroken = 3(5)
  show ?case
  proof (cases "l = cur")
    case other: False
    consider "c = CHR 13 \<and> d = CHR 10" | "\<not> (c = CHR 13 \<and> d = CHR 10)" "is_break c"
      | "\<not> (c = CHR 13 \<and> d = CHR 10)" "\<not> is_break c" by blast
    then show ?thesis
    proof cases
      case 1
      then have "l \<in> set (splitlines_from [] s)" using 3(4) other unfolding splitlines_step(1) [OF 1] by simp
      then show ?thesis using 3(1) [OF 1] by simp
    next
      case 2
      then have "l \<in> set (splitlines_from [] (d # s))" using 3(4) other unfolding splitlines_step(2) [OF 2] by simp
      then show ?thesis using 3(2) [OF 2] by simp
    next
      case 3
      then have "l \<in> set (splitlines_from (cur @ [c]) (d # s))" using memb
        unfolding splitlines_step(3) [OF 3] by simp
      then show ?thesis using IH3 [OF 3] unbroken 3(2) by simp
    qed
  qed (use 3(5) in blast)
qed (auto split: if_splits)

lemma keys_line: "l \<in> set (splitlines s) \<Longrightarrow> keys l = {py_strip l} - {[]}"
  using splitlines_unbroken [of l "[]"] splitlines_no_break [of l "[]" s]
  by (cases "l = []") (auto simp: splitlines_def keys_from_def)

lemma dedup_subset: "set (dedup_lines seen ls) \<subseteq> set ls"
  by (induction seen ls rule: dedup_lines.induct) (auto simp: Let_def)

lemma dedup_keys:
  "(py_strip ` set (dedup_lines seen ls) \<union> seen) - {[]} = (py_strip ` set ls \<union> seen) - {[]}"
  by (induction seen ls rule: dedup_lines.induct) (auto simp: Let_def)

lemma fallback_keys: "keys (verbatim_fallback s) = keys s"
proof -
  have "keys (verbatim_fallback s) = (\<Union>l \<in> set (dedup_lines {} (splitlines s)). {py_strip l} - {[]})"
    unfolding verbatim_fallback_def keys_join_newline
    by (rule SUP_cong [OF HOL.refl]) (use keys_line dedup_subset in blast)
  also have "\<dots> = py_strip ` set (dedup_lines {} (splitlines s)) - {[]}" by auto
  also have "\<dots> = keys s" using dedup_keys [of "{}" "splitlines s"] by (simp add: keys_from_def splitlines_def)
  finally show ?thesis .
qed

lemma keys_messages: "keys (messages_to_text ms) = (\<Union>m \<in> set ms. keys (message_text m))"
  by (simp add: messages_to_text_def keys_join_gap)

section \<open>The window\<close>

fun history_step :: "sleep_op \<Rightarrow> message list \<Rightarrow> message list" where
  "history_step (Add m) h = h @ [m]"
| "history_step (Set ms) h = ms"
| "history_step Clear h = []"
| "history_step op h = h"

text \<open>What was added since the last set or clear.\<close>

definition history :: "sleep_op list \<Rightarrow> message list" where
  "history ops = fold history_step ops []"

definition window :: "int \<Rightarrow> sleep_context \<Rightarrow> bool" where
  "window k c \<longleftrightarrow> (\<exists>pre recent. working c = pre @ recent \<and> suffix recent (raw c)
     \<and> (pre = [] \<or> (\<exists>m. pre = [m] \<and> is_memory m)) \<and> min k (int (length (raw c))) \<le> int (length recent))"

lemma memory_message_is_memory [simp]: "is_memory (memory_message note)"
  by (simp add: is_memory_def memory_message_def starts_with_def)

lemma split_working_cases:
  "split_working w = (prior, v) \<Longrightarrow> w = v \<and> prior = [] \<and> (w = [] \<or> \<not> is_memory (hd w))
     \<or> (\<exists>m. w = m # v \<and> is_memory m \<and> prior = note_of m)"
  by (cases w) (auto simp: split_working_def split: if_splits)

lemma length_split_working: "length w \<le> length (snd (split_working w)) + 1"
  by (cases w) (simp_all add: split_working_def)

lemma compact_raw [simp]: "raw (snd (compact encode cfg c)) = raw c" "provider_of (snd (compact encode cfg c)) = provider_of c"
  by (auto simp: compact_def Let_def split: prod.split)

lemma compact_cases:
  obtains "snd (compact encode cfg c) = c" "int (length (snd (split_working (working c)))) \<le> keep_recent cfg"
  | prior v where "split_working (working c) = (prior, v)" "keep_recent cfg < int (length v)"
      "working (snd (compact encode cfg c)) = memory_message (make_note cfg (provider_of c)
         (consolidation_input prior (py_upto v (- keep_recent cfg)))) # py_from v (- keep_recent cfg)"
proof -
  obtain prior v where "split_working (working c) = (prior, v)" by (rule prod.exhaust)
  then show thesis using that by (cases "int (length v) \<le> keep_recent cfg") (auto simp: compact_def Let_def)
qed

lemma suffix_py_from: "suffix (py_from xs i) xs"
  by (simp add: py_from_def suffix_drop)

lemma length_py_from: "min k (int (length xs)) \<le> int (length (py_from xs (- k)))"
  by (cases "0 < k") (auto simp: py_from_def py_bound_def)

lemma compact_window:
  assumes "window (keep_recent cfg) c"
  shows "window (keep_recent cfg) (snd (compact encode cfg c))"
proof (cases rule: compact_cases [of encode cfg c])
  case 1
  then show ?thesis using assms by simp
next
  case (2 prior v)
  obtain pre recent where w: "working c = pre @ recent" "suffix recent (raw c)" "pre = [] \<or> (\<exists>m. pre = [m] \<and> is_memory m)"
    using assms by (auto simp: window_def)
  have "suffix v recent" using split_working_cases [OF 2(1)] w(1,3) by (auto simp: suffix_def)
  then have "suffix (py_from v (- keep_recent cfg)) (raw c)"
    using w(2) suffix_py_from suffix_order.trans by blast
  moreover have "min (keep_recent cfg) (int (length (raw c))) \<le> int (length (py_from v (- keep_recent cfg)))"
    using length_py_from [of "keep_recent cfg" v] 2(2) by linarith
  ultimately show ?thesis unfolding window_def 2(3) compact_raw
    by (intro exI [of _ "[memory_message (make_note cfg (provider_of c) (consolidation_input prior (py_upto v (- keep_recent cfg))))]"]
        exI [of _ "py_from v (- keep_recent cfg)"]) simp
qed

lemma append_window:
  assumes "window k c"
  shows "window k (c\<lparr>raw := raw c @ [m], working := working c @ [m]\<rparr>)"
proof -
  obtain pre recent where "working c = pre @ recent" "suffix recent (raw c)" "pre = [] \<or> (\<exists>m. pre = [m] \<and> is_memory m)"
      "min k (int (length (raw c))) \<le> int (length recent)"
    using assms by (auto simp: window_def)
  then show ?thesis unfolding window_def
    by (intro exI [of _ pre] exI [of _ "recent @ [m]"]) auto
qed

lemma whole_window: "window k (c\<lparr>raw := ms, working := ms\<rparr>)"
  unfolding window_def by (intro exI [of _ "[]"] exI [of _ ms]) simp

lemma ready_fields [simp]:
  "raw (on_session_ready cfg b ps c) = raw c" "working (on_session_ready cfg b ps c) = working c"
  by (auto simp: on_session_ready_def Let_def split: list.split)

lemma step_window: "window (keep_recent cfg) c \<Longrightarrow> window (keep_recent cfg) (sleep_step encode cfg op c)"
proof (cases op)
  case (Ready b ps)
  then show "window (keep_recent cfg) c \<Longrightarrow> ?thesis" by (simp add: window_def)
qed (auto simp: add_message_def set_messages_def clear_def Let_def intro: compact_window append_window whole_window)

lemma step_raw: "raw (sleep_step encode cfg op c) = history_step op (raw c)"
  by (cases op) (simp_all add: add_message_def set_messages_def clear_def Let_def)

lemma run_invariants: "window (keep_recent cfg) (sleep_run encode cfg ops) \<and> raw (sleep_run encode cfg ops) = history ops"
proof (induction ops rule: rev_induct)
  case Nil
  then show ?case using whole_window [where k = "keep_recent cfg" and c = sleep_init and ms = "[]"]
    by (simp add: sleep_run_def history_def sleep_init_def)
next
  case (snoc op ops)
  then show ?case using step_window [of cfg "sleep_run encode cfg ops" encode op]
    by (simp add: sleep_run_def history_def step_raw)
qed

text \<open>
  C19: compaction is not destructive.  Over any sequence of operations the history returned is every
  message added since the last set or clear; the window sent with a request is at most one
  consolidated memory followed by an unchanged stretch up to the last message, which holds at least
  the last \<open>keep_recent_messages\<close> messages.
\<close>
theorem history_is_complete:
  "get_messages (sleep_run encode cfg ops) = history ops
   \<and> (\<exists>pre recent. get_messages_for_request (sleep_run encode cfg ops) = pre @ recent \<and> suffix recent (history ops)
        \<and> length pre \<le> 1 \<and> filter is_memory pre = pre
        \<and> min (keep_recent cfg) (int (length (history ops))) \<le> int (length recent))"
  using run_invariants [of cfg encode ops] unfolding window_def get_messages_def get_messages_for_request_def
  by (metis (no_types, lifting) One_nat_def dual_order.refl filter.simps(1,2) length_0_conv length_Cons less_eq_nat.simps(1) list.size(3))

text \<open>
  the size of the window.  With compaction on and a positive \<open>keep_recent_messages\<close> an added
  message leaves a window below the token threshold, or one of at most \<open>keep_recent_messages\<close>
  messages beside the memory.
\<close>
theorem window_is_bounded:
  assumes "enabled cfg" and "0 < keep_recent cfg"
  shows "int (estimate_tokens encode (working (snd (add_message encode cfg m c)))) \<le> threshold cfg
    \<or> int (length (working (snd (add_message encode cfg m c)))) \<le> keep_recent cfg + 1"
proof -
  let ?c = "c\<lparr>raw := raw c @ [m], working := working c @ [m]\<rparr>"
  show ?thesis
  proof (cases "should_compact encode cfg ?c")
    case True
    then have eq: "snd (add_message encode cfg m c) = snd (compact encode cfg ?c)"
      using assms(1) by (simp add: add_message_def Let_def)
    show ?thesis
    proof (cases rule: compact_cases [of encode cfg ?c])
      case 1
      moreover have "length (working ?c) \<le> length (snd (split_working (working ?c))) + 1"
        by (rule length_split_working)
      ultimately show ?thesis unfolding eq by simp
    next
      case (2 prior v)
      then have "int (length (py_from v (- keep_recent cfg))) = keep_recent cfg"
        using assms(2) by (auto simp: py_from_def py_bound_def)
      then show ?thesis unfolding eq 2(3) by simp
    qed
  next
    case False
    then show ?thesis by (simp add: add_message_def should_compact_def Let_def not_less)
  qed
qed

theorem window_is_bounded_witness:
  "int (estimate_tokens (\<lambda>t. None) (working (snd (add_message (\<lambda>t. None) demo_sleep demo_message sleep_init)))) \<le> threshold demo_sleep
    \<or> int (length (working (snd (add_message (\<lambda>t. None) demo_sleep demo_message sleep_init)))) \<le> keep_recent demo_sleep + 1"
  by (rule window_is_bounded) (simp_all add: demo_sleep_def)

section \<open>What a consolidation keeps\<close>

text \<open>The lines of the whole window.\<close>

abbreviation window_keys :: "message list \<Rightarrow> string set" where
  "window_keys ms \<equiv> keys (messages_to_text ms)"

definition lossless :: "sleep_context \<Rightarrow> bool" where
  "lossless c \<longleftrightarrow> provider_of c = None \<and> window_keys (raw c) \<subseteq> window_keys (working c)
     \<and> (\<forall>m ms. working c = m # ms \<and> is_memory m \<longrightarrow> (\<exists>note. m = memory_message note))
     \<and> (\<forall>m \<in> set (tl (working c)). \<not> is_memory m)"

lemma keys_memory: "keys (message_text (memory_message note)) = {''[system]: [Consolidated memory]''} \<union> keys note"
proof -
  have t: "message_text (memory_message note) = ''[system]: [Consolidated memory]'' @ NEWLINE # note"
    by (simp add: message_text_def memory_message_def MEMORY_PREFIX_def)
  have "keys ''[system]: [Consolidated memory]'' = {''[system]: [Consolidated memory]''}" by code_simp
  then show ?thesis unfolding t keys_newline by simp
qed

lemma note_of_memory [simp]: "note_of (memory_message note) = note"
  by (simp add: note_of_def memory_message_def)

lemma keys_input: "keys prior \<union> window_keys evicted \<subseteq> keys (consolidation_input prior evicted)"
proof (cases "prior = []")
  case False
  have "keys (PRIOR_NOTE @ NEWLINE # (prior @ GAP @ messages_to_text evicted))
      = keys PRIOR_NOTE \<union> (keys prior \<union> window_keys evicted)"
    by (simp only: keys_newline keys_gap)
  then show ?thesis using False by (simp add: consolidation_input_def)
qed (simp add: consolidation_input_def)

lemma compact_lossless:
  assumes "lossless c"
  shows "lossless (snd (compact encode cfg c))"
proof (cases rule: compact_cases [of encode cfg c])
  case 1
  then show ?thesis using assms by simp
next
  case (2 prior v)
  let ?k = "- keep_recent cfg"
  let ?note = "make_note cfg (provider_of c) (consolidation_input prior (py_upto v ?k))"
  have kept: "keys prior \<union> window_keys (py_upto v ?k) \<subseteq> keys ?note"
    using assms keys_input by (simp add: lossless_def make_note_def fallback_keys)
  have v: "set v = set (py_upto v ?k) \<union> set (py_from v ?k)" by (metis py_upto_from set_append)
  have new: "window_keys (working (snd (compact encode cfg c))) \<supseteq> {''[system]: [Consolidated memory]''} \<union> keys prior \<union> window_keys v"
    unfolding 2(3) keys_messages using kept v by (auto simp: keys_memory keys_messages)
  moreover have "window_keys (working c) \<subseteq> {''[system]: [Consolidated memory]''} \<union> keys prior \<union> window_keys v"
    using split_working_cases [OF 2(1)] assms
    by (auto simp: lossless_def keys_messages keys_memory)
  moreover have "\<forall>m \<in> set (py_from v ?k). \<not> is_memory m"
  proof -
    have "\<forall>m \<in> set v. \<not> is_memory m"
      using split_working_cases [OF 2(1)] assms by (cases v) (auto simp: lossless_def)
    then show ?thesis using set_py_from [of v ?k] by blast
  qed
  ultimately show ?thesis using assms unfolding lossless_def 2(3) by auto
qed

lemma append_lossless:
  assumes "lossless c" and "\<not> is_memory m"
  shows "lossless (c\<lparr>raw := raw c @ [m], working := working c @ [m]\<rparr>)"
  using assms by (cases "working c") (auto simp: lossless_def keys_messages)

text \<open>Operations on messages that do not look like a consolidated memory, and those without a provider.\<close>

fun ordinary_op :: "sleep_op \<Rightarrow> bool" where
  "ordinary_op (Add m) \<longleftrightarrow> \<not> is_memory m"
| "ordinary_op (Set ms) \<longleftrightarrow> list_all (\<lambda>m. \<not> is_memory m) ms"
| "ordinary_op op \<longleftrightarrow> True"

definition plain_op :: "sleep_op \<Rightarrow> bool" where
  "plain_op op \<longleftrightarrow> ordinary_op op \<and> (case op of Ready b ps \<Rightarrow> ps = [] | _ \<Rightarrow> True)"

lemma step_lossless: "lossless c \<Longrightarrow> plain_op op \<Longrightarrow> lossless (sleep_step encode cfg op c)"
proof (cases op)
  case (Set ms)
  assume "lossless c" "plain_op op"
  then show ?thesis using Set by (cases ms) (auto simp: plain_op_def lossless_def set_messages_def list_all_iff)
next
  case (Ready b ps)
  assume "lossless c" "plain_op op"
  then show ?thesis using Ready by (simp add: plain_op_def lossless_def on_session_ready_def)
next
  case Clear
  assume "lossless c" "plain_op op"
  then show ?thesis using Clear by (simp add: lossless_def clear_def)
qed (auto simp: plain_op_def add_message_def Let_def intro: compact_lossless append_lossless)

text \<open>
  C11: without a provider, and for messages that do not themselves start like a consolidated memory, every line of every
  message since the last set or clear is, up to surrounding white space, still a line of the window, through
  any number of consolidations: in a message kept verbatim or in the consolidated memory.  The white space
  around a line can be lost (\<open>fallback_drops_indented_line\<close>), though the docstring promises every unique line.
\<close>
theorem fallback_loses_no_line:
  assumes "list_all plain_op ops"
  shows "window_keys (history ops) \<subseteq> window_keys (working (sleep_run encode cfg ops))"
proof -
  have "lossless (sleep_run encode cfg ops)" using assms
  proof (induction ops rule: rev_induct)
    case Nil
    then show ?case by (simp add: sleep_run_def sleep_init_def lossless_def)
  next
    case (snoc op ops)
    then show ?case using step_lossless by (simp add: sleep_run_def)
  qed
  then show ?thesis using run_invariants [of cfg encode ops] by (simp add: lossless_def)
qed

theorem fallback_loses_no_line_witness:
  "window_keys (history [Add demo_message, Add demo_message])
     \<subseteq> window_keys (working (sleep_run (\<lambda>t. None) demo_sleep [Add demo_message, Add demo_message]))"
  by (rule fallback_loses_no_line) (simp add: plain_op_def demo_message_def is_memory_def)

text \<open>
  but lines are compared stripped.  Of two lines that differ in their indentation the fallback
  keeps one, although only exact duplicates are to go.
\<close>
theorem fallback_drops_indented_line:
  "verbatim_fallback (''x = 1'' @ [NEWLINE] @ ''if a:'' @ [NEWLINE] @ ''    x = 1'') = ''x = 1'' @ [NEWLINE] @ ''if a:''"
  by code_simp

definition evicts_none :: "sleep_context \<Rightarrow> bool" where
  "evicts_none c \<longleftrightarrow> (\<forall>m \<in> set (raw c). \<not> is_memory m)
     \<and> (working c = raw c \<or> (\<exists>m. is_memory m \<and> working c = m # raw c))"

lemma compact_evicts_none:
  assumes "evicts_none c" and "keep_recent cfg = 0"
  shows "evicts_none (snd (compact encode cfg c))"
proof (cases rule: compact_cases [of encode cfg c])
  case 1
  then show ?thesis using assms by simp
next
  case (2 prior v)
  have "v = raw c"
    using split_working_cases [OF 2(1)] assms(1) by (cases "raw c") (auto simp: evicts_none_def)
  then show ?thesis using assms unfolding evicts_none_def 2(3) by (auto simp: py_from_zero)
qed

lemma step_evicts_none:
  "evicts_none c \<Longrightarrow> keep_recent cfg = 0 \<Longrightarrow> ordinary_op op \<Longrightarrow> evicts_none (sleep_step encode cfg op c)"
proof (cases op)
  case (Add m)
  assume c: "evicts_none c" "keep_recent cfg = 0" "ordinary_op op"
  then have "evicts_none (c\<lparr>raw := raw c @ [m], working := working c @ [m]\<rparr>)"
    using Add by (auto simp: evicts_none_def)
  then show ?thesis using Add c compact_evicts_none by (simp add: add_message_def Let_def)
qed (auto simp: set_messages_def clear_def list_all_iff evicts_none_def [of "c\<lparr>raw := x, working := y\<rparr>" for x y]
    evicts_none_def [of "on_session_ready a b d c" for a b d] evicts_none_def [of c] intro: compact_evicts_none)

text \<open>
  with \<open>keep_recent_messages\<close> 0 nothing is ever evicted.  The slice \<open>[:-0]\<close> is empty and
  \<open>[-0:]\<close> is everything, so a compaction only puts a memory in front and the whole history stays in
  the window, however far it is over the threshold.
\<close>
theorem keep_zero_never_evicts:
  assumes "keep_recent cfg = 0" and "list_all ordinary_op ops"
  shows "\<exists>pre. working (sleep_run encode cfg ops) = pre @ history ops \<and> length pre \<le> 1"
proof -
  have "evicts_none (sleep_run encode cfg ops)" using assms(2)
  proof (induction ops rule: rev_induct)
    case Nil
    then show ?case by (simp add: sleep_run_def sleep_init_def evicts_none_def)
  next
    case (snoc op ops)
    then show ?case using step_evicts_none assms(1) by (simp add: sleep_run_def)
  qed
  then consider "working (sleep_run encode cfg ops) = history ops"
    | m where "working (sleep_run encode cfg ops) = [m] @ history ops"
    using run_invariants [of cfg encode ops] by (auto simp: evicts_none_def)
  then show ?thesis by cases (metis append_Nil list.size(3) zero_le, metis One_nat_def length_Cons list.size(3) order_refl)
qed

theorem keep_zero_never_evicts_witness:
  "\<exists>pre. working (sleep_run (\<lambda>t. None) (demo_sleep\<lparr>keep_recent := 0\<rparr>) [Add demo_message, Add demo_message])
       = pre @ [demo_message, demo_message] \<and> length pre \<le> 1"
  using keep_zero_never_evicts [of "demo_sleep\<lparr>keep_recent := 0\<rparr>" "[Add demo_message, Add demo_message]"]
  by (simp add: demo_sleep_def demo_message_def is_memory_def history_def)

end
