(* ===== verification/Behavioral.thy ===== *)
theory Behavioral
  imports Salience Phase3 Native_Store Capture
begin

text \<open>
  The behavioral write hook (\<open>hooks-behavioral-write\<close>): the session's event file, the drawers it
  touched, the salience of each and the learning pass over a plasticity store.  Values of the event
  objects are Python values; a float is printed by a function that is an argument.
\<close>

section \<open>The event file\<close>

text \<open>
  \<open>data\<close> of an event: an object, nothing (absent or falsy), or a truthy value of another type.  A
  missing key reads as \<open>PyNone\<close>; a missing \<open>tool_success\<close> is \<open>None\<close>.
\<close>

record drawer_data =
  dd_drawer_id :: py_any
  dd_source :: py_any
  dd_capture_id :: py_any
  dd_category :: "string option"
  dd_success :: "py_any option"

datatype data_field = Data drawer_data | NoData | BadData

record filed_event =
  fe_event :: py_any
  fe_event_name :: py_any
  fe_name :: py_any
  fe_data :: data_field

datatype json_value = Obj filed_event | NonObj

text \<open>A line of the file; reading the next one may also fail, in the file system or in the decoding.\<close>

datatype raw_line = BlankLine | Malformed | Parsed json_value | ReadFails | DecodeFails

fun read_lines :: "raw_line list \<Rightarrow> py_error + json_value list" where
  "read_lines [] = Inr []"
| "read_lines (BlankLine # ls) = read_lines ls"
| "read_lines (Malformed # ls) = read_lines ls"
| "read_lines (Parsed v # ls) = bind_err (read_lines ls) (\<lambda>vs. Inr (v # vs))"
| "read_lines (ReadFails # ls) = Inr []"
| "read_lines (DecodeFails # ls) = Inl (ValueError ''UnicodeDecodeError'')"

definition read_events_file :: "raw_line list option \<Rightarrow> py_error + json_value list" where
  "read_events_file f = (case f of None \<Rightarrow> Inr [] | Some ls \<Rightarrow> read_lines ls)"

definition first_truthy :: "py_any list \<Rightarrow> string" where
  "first_truthy vs = (case filter py_truth vs of [] \<Rightarrow> [] | v # ws \<Rightarrow> py_str v)"

definition event_name :: "filed_event \<Rightarrow> string" where
  "event_name e = first_truthy [fe_event e, fe_event_name e, fe_name e]"

definition DRAWER_EVENT_NAMES :: "string list" where
  "DRAWER_EVENT_NAMES = [''drawer_filed'', ''memory:drawer_filed'']"

record touched_drawer =
  td_subject :: string
  td_category :: "string option"
  td_success :: bool

text \<open>A dict keyed by the subject, in insertion order: a later value replaces an earlier one in its place.\<close>

fun put_touched :: "touched_drawer \<Rightarrow> touched_drawer list \<Rightarrow> touched_drawer list" where
  "put_touched t [] = [t]"
| "put_touched t (u # us) = (if td_subject u = td_subject t then t # us else u # put_touched t us)"

definition touch :: "drawer_data \<Rightarrow> touched_drawer list \<Rightarrow> touched_drawer list" where
  "touch d seen = (let s = first_truthy [dd_drawer_id d, dd_source d, dd_capture_id d] in
     if s = [] then seen
     else put_touched \<lparr>td_subject = s, td_category = dd_category d,
         td_success = (case dd_success d of None \<Rightarrow> True | Some v \<Rightarrow> py_truth v)\<rparr> seen)"

definition no_data :: drawer_data where
  "no_data = \<lparr>dd_drawer_id = PyNone, dd_source = PyNone, dd_capture_id = PyNone, dd_category = None, dd_success = None\<rparr>"

text \<open>\<open>None\<close> is the \<open>AttributeError\<close> of \<open>.get\<close> on a value that is no object.\<close>

fun touched_loop :: "touched_drawer list \<Rightarrow> json_value list \<Rightarrow> touched_drawer list option" where
  "touched_loop seen [] = Some seen"
| "touched_loop seen (NonObj # vs) = None"
| "touched_loop seen (Obj e # vs) = (if event_name e \<notin> set DRAWER_EVENT_NAMES then touched_loop seen vs
     else (case fe_data e of Data d \<Rightarrow> touched_loop (touch d seen) vs
       | NoData \<Rightarrow> touched_loop (touch no_data seen) vs
       | BadData \<Rightarrow> None))"

definition touched_drawers :: "json_value list \<Rightarrow> touched_drawer list option" where
  "touched_drawers = touched_loop []"

section \<open>Salience of a drawer\<close>

definition session_failure_rate :: "touched_drawer list \<Rightarrow> real" where
  "session_failure_rate ts = (if ts = [] then 0
     else of_nat (length (filter (\<lambda>t. \<not> td_success t) ts)) / of_nat (length ts))"

definition salience_for :: "touched_drawer \<Rightarrow> real \<Rightarrow> real \<Rightarrow> salience_input" where
  "salience_for t d rate = (
     let failed = (if td_success t then 0 else 1)
     in \<lparr>novelty = Fin (\<bar>d\<bar> + 1 / 2 * failed),
         reward = Fin (if \<not> td_success t then 1 else rate),
         surprise = Fin (if \<not> td_success t then 1 else rate)\<rparr>)"

definition DEFAULT_SALIENCE :: salience_config where
  "DEFAULT_SALIENCE = default_config\<lparr>threshold := 25 / 100\<rparr>"

definition PROVENANCE :: string where "PROVENANCE = ''hooks-behavioral-write:orchestrator:complete''"

section \<open>The learning pass\<close>

text \<open>\<open>round(x, 4)\<close>.\<close>

definition round4 :: "real \<Rightarrow> real" where
  "round4 x = of_int (round_half_even (x * 10 ^ 4)) / 10 ^ 4"

definition outcome_text :: "(real \<Rightarrow> string) \<Rightarrow> bool \<Rightarrow> real \<Rightarrow> real \<Rightarrow> string" where
  "outcome_text fl ok rate sal = ''tool_success='' @ (if ok then ''True'' else ''False'')
     @ '';failure_rate='' @ fl (round4 rate) @ '';salience='' @ fl sal"

definition learned_importance :: "touched_drawer \<Rightarrow> real" where
  "learned_importance t = compute_importance (td_category t) [''unresolved'' \<mapsto> \<not> td_success t] None"

definition request_of :: "(real \<Rightarrow> string) \<Rightarrow> touched_drawer \<Rightarrow> real option \<Rightarrow> real \<Rightarrow> real \<Rightarrow> update_request" where
  "request_of fl t old rate sal = \<lparr>u_subject = td_subject t, u_old = old, u_new = learned_importance t,
     u_provenance = PROVENANCE, u_outcome = outcome_text fl (td_success t) rate sal, u_confidence = sal, u_interaction = None\<rparr>"

text \<open>What one drawer asks for: an exception, no write, or the update.\<close>

definition decide ::
    "(real \<Rightarrow> string) \<Rightarrow> salience_config \<Rightarrow> real \<Rightarrow> real option \<Rightarrow> touched_drawer \<Rightarrow> py_error + update_request option" where
  "decide fl cfg rate old t = (
     let new = learned_importance t;
         base = (case old of None \<Rightarrow> 0 | Some x \<Rightarrow> x)
     in bind_err (evaluate_salience (salience_for t (new - base) rate) cfg) (\<lambda>d.
       Inr (if \<not> dwrite d then None
         else if (case old of None \<Rightarrow> False | Some x \<Rightarrow> \<bar>new - x\<bar> < 1 / 10 ^ 9) then None
         else Some (request_of fl t old rate (dsalience d)))))"

text \<open>The loop: the records appended to the audit log, the exception that ended it, and the store.\<close>

fun learn_loop ::
    "(update_request \<Rightarrow> 's \<Rightarrow> (py_error + mutation_record) \<times> 's) \<Rightarrow> (string \<Rightarrow> py_error + real option) \<Rightarrow> (real \<Rightarrow> string)
       \<Rightarrow> salience_config \<Rightarrow> real \<Rightarrow> touched_drawer list \<Rightarrow> 's \<Rightarrow> mutation_record list \<times> py_error option \<times> 's" where
  "learn_loop update query fl cfg rate [] s = ([], None, s)"
| "learn_loop update query fl cfg rate (t # ts) s = (
     case bind_err (query (td_subject t)) (\<lambda>old. decide fl cfg rate old t) of
       Inl e \<Rightarrow> ([], Some e, s)
     | Inr None \<Rightarrow> learn_loop update query fl cfg rate ts s
     | Inr (Some q) \<Rightarrow> (case update q s of
           (Inl e, s1) \<Rightarrow> ([], Some e, s1)
         | (Inr r, s1) \<Rightarrow> (case learn_loop update query fl cfg rate ts s1 of (rs, err, s2) \<Rightarrow> (r # rs, err, s2))))"

text \<open>The pass over a session, as the thread runs it: every exception ends it silently.\<close>

definition process_session ::
    "(update_request \<Rightarrow> 's \<Rightarrow> (py_error + mutation_record) \<times> 's) \<Rightarrow> (string \<Rightarrow> py_error + real option) \<Rightarrow> (real \<Rightarrow> string)
       \<Rightarrow> salience_config \<Rightarrow> raw_line list option \<Rightarrow> 's \<Rightarrow> mutation_record list \<times> 's" where
  "process_session update query fl cfg f s = (case read_events_file f of Inl e \<Rightarrow> ([], s)
     | Inr vs \<Rightarrow> (case touched_drawers vs of None \<Rightarrow> ([], s)
       | Some ts \<Rightarrow> (case learn_loop update query fl cfg (session_failure_rate ts) ts s of (rs, err, s') \<Rightarrow> (rs, s'))))"

text \<open>The thread's body: the records of the pass go to the hook's audit log, an exception goes nowhere.\<close>

definition run_pass ::
    "(update_request \<Rightarrow> 's \<Rightarrow> (py_error + mutation_record) \<times> 's) \<Rightarrow> (string \<Rightarrow> py_error + real option) option \<Rightarrow> (real \<Rightarrow> string)
       \<Rightarrow> salience_config \<Rightarrow> raw_line list option \<Rightarrow> mutation_record list \<times> 's \<Rightarrow> mutation_record list \<times> 's" where
  "run_pass update query fl cfg f st = (case process_session update (case query of Some q \<Rightarrow> q | None \<Rightarrow> (\<lambda>i. Inr None)) fl cfg f (snd st) of
     (rs, s) \<Rightarrow> (fst st @ rs, s))"

record behavioral_hook =
  bh_enabled :: bool
  bh_salience :: salience_config
  bh_factory :: bool

text \<open>The handler: the store is built only when the hook is enabled, has a factory and gets a path.\<close>

definition behavioral_call ::
    "(update_request \<Rightarrow> 's \<Rightarrow> (py_error + mutation_record) \<times> 's) \<Rightarrow> (string \<Rightarrow> py_error + real option) \<Rightarrow> (real \<Rightarrow> string)
       \<Rightarrow> behavioral_hook \<Rightarrow> raw_line list option option \<Rightarrow> (py_error + 's) \<Rightarrow> mutation_record list \<times> 's option" where
  "behavioral_call update query fl h path built = (
     if \<not> bh_enabled h \<or> \<not> bh_factory h then ([], None)
     else case path of None \<Rightarrow> ([], None)
       | Some f \<Rightarrow> (case built of Inl e \<Rightarrow> ([], None)
         | Inr s \<Rightarrow> apsnd Some (process_session update query fl (bh_salience h) f s)))"

text \<open>\<open>mount\<close> leaves the store factory out.\<close>

definition mount_behavioral :: "bool \<Rightarrow> real \<Rightarrow> behavioral_hook" where
  "mount_behavioral on thr = \<lparr>bh_enabled = on, bh_salience = default_config\<lparr>threshold := thr\<rparr>, bh_factory = False\<rparr>"

text \<open>What the capture hook logs, as the pass reads it back.\<close>

fun data_logged :: "capture_data \<Rightarrow> drawer_data" where
  "data_logged (FiledData c w r cat n src ok) = \<lparr>dd_drawer_id = PyNone, dd_source = PyStr src, dd_capture_id = PyStr c,
     dd_category = cat, dd_success = Some (PyOther ok (Inr (if ok then ''true'' else ''false'')) (if ok then ''True'' else ''False''))\<rparr>"
| "data_logged d = no_data"

fun logged :: "effect \<Rightarrow> raw_line list" where
  "logged (Emit sid nm ok prev d) = [Parsed (Obj \<lparr>fe_event = PyStr nm, fe_event_name = PyNone, fe_name = PyNone, fe_data = Data (data_logged d)\<rparr>)]"
| "logged e = []"

section \<open>The audit of a pass\<close>

context plasticity_store
begin

lemma learn_ledger:
  assumes "learn_loop update query fl cfg rate ts s = (rs, err, s')"
  shows "mutations s' = mutations s @ rs \<and> subseq (map (\<lambda>r. dsubject (delta r)) rs) (map td_subject ts)
    \<and> (\<forall>r \<in> set rs. applied r \<and> provenance r = PROVENANCE)"
  using assms
proof (induction ts arbitrary: s rs)
  case (Cons t ts)
  consider e where "bind_err (query (td_subject t)) (\<lambda>old. decide fl cfg rate old t) = Inl e"
    | "bind_err (query (td_subject t)) (\<lambda>old. decide fl cfg rate old t) = Inr None"
    | q where "bind_err (query (td_subject t)) (\<lambda>old. decide fl cfg rate old t) = Inr (Some q)"
    by (metis option.exhaust sum.exhaust)
  then show ?case
  proof cases
    case 1
    then show ?thesis using Cons.prems by simp
  next
    case 2
    then show ?thesis using Cons.prems Cons.IH [of s rs] by (simp add: list_emb_Cons)
  next
    case (3 q)
    then obtain old sal where q: "q = request_of fl t old rate sal"
      by (auto simp: bind_err_Inr decide_def Let_def split: if_splits)
    then have qs: "u_subject q = td_subject t" "u_provenance q = PROVENANCE" "u_provenance q \<noteq> []" "u_outcome q \<noteq> []"
      by (simp_all add: request_of_def PROVENANCE_def outcome_text_def)
    obtain r s1 where u: "update q s = (Inr r, s1)" using update_accepts qs(3,4) by blast
    obtain rs' where l: "learn_loop update query fl cfg rate ts s1 = (rs', err, s')" "rs = r # rs'"
      using Cons.prems 3 u by (auto split: prod.splits)
    show ?thesis using Cons.IH [OF l(1)] update_appends [OF u] update_contract [OF u] qs l(2) by simp
  qed
qed simp

end

lemma put_touched_subjects:
  "set (map td_subject (put_touched t us)) = insert (td_subject t) (set (map td_subject us))"
  "distinct (map td_subject us) \<Longrightarrow> distinct (map td_subject (put_touched t us))"
proof -
  show s: "set (map td_subject (put_touched t us)) = insert (td_subject t) (set (map td_subject us))" for us
    by (induction us) auto
  show "distinct (map td_subject us) \<Longrightarrow> distinct (map td_subject (put_touched t us))"
    by (induction us) (use s in auto)
qed

lemma touched_loop_distinct:
  "touched_loop seen vs = Some ts \<Longrightarrow> distinct (map td_subject seen) \<Longrightarrow> distinct (map td_subject ts)"
proof (induction seen vs rule: touched_loop.induct)
  case (3 seen e vs)
  then show ?case
    by (auto simp: touch_def Let_def intro: put_touched_subjects(2) split: if_splits data_field.splits)
qed simp_all

lemma distinct_of_subseq: "subseq xs ys \<Longrightarrow> distinct ys \<Longrightarrow> distinct xs"
  by (auto simp: subseq_conv_nths)

lemma process_session_cases:
  assumes "process_session update query fl cfg f s = (rs, s')"
  obtains "rs = []" "s' = s" | vs ts err where "read_events_file f = Inr vs" "touched_drawers vs = Some ts"
    "learn_loop update query fl cfg (session_failure_rate ts) ts s = (rs, err, s')"
  using assms by (auto simp: process_session_def split: sum.splits option.splits prod.splits)

text \<open>
  the learning pass is audited.  Over the native store the records it returns are exactly what
  it appends to the mutation ledger, each applied and of this hook's provenance, and no subject is
  written twice.
\<close>
theorem learning_is_audited:
  assumes "process_session (native_update B fmt u now) query fl cfg f st = (rs, st')"
  shows "ns_mutations st' = ns_mutations st @ rs \<and> distinct (map (\<lambda>r. dsubject (delta r)) rs)
    \<and> filter (\<lambda>r. applied r \<and> provenance r = PROVENANCE) rs = rs"
  using assms
proof (cases rule: process_session_cases)
  case (2 vs ts err)
  have "distinct (map td_subject ts)" using touched_loop_distinct [of "[]"] 2(2) by (simp add: touched_drawers_def)
  then show ?thesis using nat_plastic.learn_ledger [OF 2(3)]
    by (auto simp: filter_id_conv intro: distinct_of_subseq)
qed simp

theorem learning_is_audited_witness:
  "\<exists>rs st'. process_session (native_update (log_backend demo_substrate 0 (\<lambda>v. ''v'')) demo_str ''u'' ''t'') (\<lambda>i. Inr None) (\<lambda>x. [])
      DEFAULT_SALIENCE None (native_init []) = (rs, st') \<and> ns_mutations st' = ns_mutations (native_init ([] :: (string, nat) event list)) @ rs"
proof -
  obtain rs st' where p: "process_session (native_update (log_backend demo_substrate (0 :: nat) (\<lambda>v. ''v'')) demo_str ''u'' ''t'') (\<lambda>i. Inr None) (\<lambda>x. [])
      DEFAULT_SALIENCE None (native_init []) = (rs, st')" by (rule prod.exhaust)
  show ?thesis using p learning_is_audited [OF p] by blast
qed

section \<open>What a session teaches\<close>

text \<open>The default gate with another threshold.\<close>

abbreviation gate_at :: "real \<Rightarrow> salience_config" where
  "gate_at thr \<equiv> default_config\<lparr>threshold := thr\<rparr>"

lemma round10_fixed_le: "x \<le> y \<Longrightarrow> round10 x = x \<Longrightarrow> x \<le> round10 y"
  using round10_mono [of x y] by simp

text \<open>The gate with weights 1: the salience is the product of the clamped signals.\<close>

lemma gate_product:
  assumes "0 \<le> n" "0 \<le> r" "r \<le> 1"
  shows "evaluate_salience \<lparr>novelty = Fin n, reward = Fin r, surprise = Fin r\<rparr> (gate_at thr)
    = Inr \<lparr>dwrite = thr < round10 (min 1 n * r * r), dsalience = round10 (min 1 n * r * r),
        dreason = (if thr < round10 (min 1 n * r * r) then ''cleared'' else ''below_threshold''), dcomponents = (min 1 n, r, r)\<rparr>"
proof -
  have "clamp (Fin n) = min 1 n" "clamp (Fin r) = r" using assms by (auto simp: clamp_def)
  moreover have "py_pow x 1 = Inr x" if "0 \<le> x" for x using that by (simp add: py_pow_def)
  ultimately show ?thesis using assms
    by (simp add: evaluate_salience_def default_config_def Let_def)
qed

text \<open>
  a failed capture is learned from.  Under the default gate with a threshold below one half a
  drawer whose tool call failed asks for its rubric importance with the unresolved boost, whatever
  the rest of the session did, unless it already has that importance.
\<close>
theorem failed_drawer_is_learned:
  assumes "\<not> td_success t" and "thr < 1 / 2" and "0 \<le> rate" and "rate \<le> 1"
  shows "decide fl (gate_at thr) rate old t = Inr
    (if (case old of None \<Rightarrow> False | Some x \<Rightarrow> \<bar>learned_importance t - x\<bar> < 1 / 10 ^ 9) then None
     else Some (request_of fl t old rate
       (round10 (min 1 (\<bar>learned_importance t - (case old of None \<Rightarrow> 0 | Some x \<Rightarrow> x)\<bar> + 1 / 2)))))"
proof -
  let ?d = "learned_importance t - (case old of None \<Rightarrow> 0 | Some x \<Rightarrow> x)"
  have "1 / 2 \<le> round10 (min 1 (\<bar>?d\<bar> + 1 / 2))" by (rule round10_fixed_le) simp_all
  then have "thr < round10 (min 1 (\<bar>?d\<bar> + 1 / 2))" using assms(2) by linarith
  then show ?thesis
    using assms(1) gate_product [of "\<bar>?d\<bar> + 1 / 2" 1 thr]
    by (simp add: decide_def salience_for_def Let_def)
qed

theorem failed_drawer_is_learned_witness:
  "\<exists>q. decide (\<lambda>x. []) DEFAULT_SALIENCE 1 None \<lparr>td_subject = ''bash'', td_category = Some ''blocker'', td_success = False\<rparr> = Inr (Some q)
     \<and> u_subject q = ''bash''"
  using failed_drawer_is_learned [of "\<lparr>td_subject = ''bash'', td_category = Some ''blocker'', td_success = False\<rparr>" "25 / 100" 1 "\<lambda>x. []" None]
  by (simp add: DEFAULT_SALIENCE_def request_of_def)

lemma quiet_decide:
  assumes "td_success t" and "0 \<le> thr"
  shows "decide fl (gate_at thr) 0 old t = Inr None"
  using assms gate_product [of "\<bar>learned_importance t - (case old of None \<Rightarrow> 0 | Some x \<Rightarrow> x)\<bar>" 0 thr]
  by (simp add: decide_def salience_for_def Let_def)

lemma quiet_loop:
  "\<forall>t \<in> set ts. td_success t \<Longrightarrow> 0 \<le> thr \<Longrightarrow>
   \<exists>err. learn_loop update query fl (gate_at thr) 0 ts s = ([], err, s)"
proof (induction ts)
  case (Cons t ts)
  then show ?case by (cases "query (td_subject t)") (simp_all add: quiet_decide)
qed simp

lemma quiet_session_facts:
  assumes "read_events_file f = Inr vs" and "touched_drawers vs = Some ts" and "\<forall>t \<in> set ts. td_success t" and "0 \<le> thr"
  shows "process_session update query fl (gate_at thr) f s = ([], s)"
proof -
  have "session_failure_rate ts = 0" using assms(3) by (simp add: session_failure_rate_def)
  then obtain err where "learn_loop update query fl (gate_at thr) (session_failure_rate ts) ts s = ([], err, s)"
    using quiet_loop [OF assms(3,4), of update query fl s] by auto
  then show ?thesis using assms(1,2) by (simp add: process_session_def)
qed

text \<open>
  a session in which no touched drawer counts as failed writes nothing, however far its
  drawers' importance is from the rubric: reward and surprise are the failure rate.
\<close>
theorem session_without_failure_learns_nothing:
  assumes "read_events_file f = Inr vs" and "touched_drawers vs = Some ts" and "\<forall>t \<in> set ts. td_success t" and "0 \<le> thr"
  shows "process_session update query fl (gate_at thr) f s = ([], s)"
  by (rule quiet_session_facts [OF assms])

definition demo_filed :: "bool \<Rightarrow> capture_data" where
  "demo_filed ok = FiledData ''id'' ''wing_repo'' ''shell'' (Some ''blocker'') 3 ''bash'' ok"

definition demo_log :: "bool list \<Rightarrow> raw_line list" where
  "demo_log oks = concat (map (\<lambda>ok. logged (Emit None ''drawer_filed'' True None (demo_filed ok))) oks)"

lemma demo_read: "read_events_file (Some (demo_log [True])) = Inr [Obj \<lparr>fe_event = PyStr ''drawer_filed'', fe_event_name = PyNone,
    fe_name = PyNone, fe_data = Data (data_logged (demo_filed True))\<rparr>]"
  by (simp add: demo_log_def read_events_file_def)

theorem session_without_failure_learns_nothing_witness:
  "process_session (recording_update (\<lambda>x. []) ''u'' ''t'') (\<lambda>i. Inr None) (\<lambda>x. []) DEFAULT_SALIENCE (Some (demo_log [True])) recording_init
     = ([], recording_init)"
  unfolding DEFAULT_SALIENCE_def
  by (rule session_without_failure_learns_nothing [OF demo_read,
        where ts = "[\<lparr>td_subject = ''bash'', td_category = Some ''blocker'', td_success = True\<rparr>]"])
     (simp_all add: touched_drawers_def event_name_def first_truthy_def DRAWER_EVENT_NAMES_def touch_def demo_filed_def)

section \<open>Bad lines\<close>

lemma nonobject_read:
  "Parsed NonObj \<in> set ls \<Longrightarrow> ReadFails \<notin> set ls \<Longrightarrow> read_lines ls = Inr vs \<Longrightarrow> NonObj \<in> set vs"
  by (induction ls arbitrary: vs rule: read_lines.induct) (auto simp: bind_err_Inr)

lemma nonobject_touched: "NonObj \<in> set vs \<Longrightarrow> touched_loop seen vs = None"
  by (induction seen vs rule: touched_loop.induct) (auto split: data_field.split)

text \<open>
  one line that is JSON but no object aborts the learning pass: nothing is learned from the
  session, although a single bad line is meant to be skipped.
\<close>
theorem bad_line_aborts_learning:
  assumes "Parsed NonObj \<in> set ls" and "ReadFails \<notin> set ls"
  shows "process_session update query fl cfg (Some ls) s = ([], s)"
  using nonobject_read [OF assms] nonobject_touched
  by (cases "read_lines ls") (simp_all add: process_session_def read_events_file_def touched_drawers_def)

theorem bad_line_aborts_learning_witness:
  "process_session (recording_update (\<lambda>x. []) ''u'' ''t'') (\<lambda>i. Inr None) (\<lambda>x. []) DEFAULT_SALIENCE
     (Some (Parsed NonObj # demo_log [False])) recording_init = ([], recording_init)"
  by (rule bad_line_aborts_learning) (simp_all add: demo_log_def)

section \<open>The subject of a captured drawer\<close>

text \<open>What the drain thread logs for a job whose drawer was filed.\<close>

definition job_log :: "py_error + string \<Rightarrow> capture_job \<Rightarrow> raw_line list" where
  "job_log detected j = (case process_job detected Filed j of Inl e \<Rightarrow> [] | Inr es \<Rightarrow> concat (map logged es))"

lemma job_log_cases:
  assumes "j_source j \<noteq> []"
  obtains "job_log detected j = []" "\<not> j_emits j \<or> (\<exists>e. process_job detected Filed j = Inl e)"
  | e where "job_log detected j = [Parsed (Obj e)]" "event_name e = ''drawer_filed''"
      "\<exists>d. fe_data e = Data d \<and> (\<forall>seen. touch d seen = put_touched \<lparr>td_subject = j_source j, td_category = j_category j, td_success = j_success j\<rparr> seen)"
proof (cases "process_job detected Filed j")
  case (Inr es)
  then show thesis
  proof (cases "j_emits j")
    case True
    from Inr obtain wing room where "job_log detected j = logged (Emit (j_session j) ''drawer_filed'' True (truncate_preview (Some (j_output j)))
        (FiledData (j_id j) wing room (j_category j) (utf8_len (j_output j)) (j_source j) (j_success j)))"
      using True by (auto simp: job_log_def process_job_def bind_err_Inr Let_def)
    then show thesis using that(2) assms
      by (simp add: event_name_def first_truthy_def touch_def)
  qed (use Inr in \<open>auto intro!: that(1) simp: job_log_def process_job_def bind_err_Inr Let_def\<close>)
qed (auto intro!: that(1) simp: job_log_def)

lemma read_lines_append:
  "read_lines ls = Inr vs \<Longrightarrow> ReadFails \<notin> set ls \<Longrightarrow> read_lines (ls @ ls') = bind_err (read_lines ls') (\<lambda>ws. Inr (vs @ ws))"
  by (induction ls arbitrary: vs rule: read_lines.induct) (auto simp: bind_err_Inr bind_err_def split: sum.splits)

text \<open>The file of a session whose jobs were filed one after the other.\<close>

definition session_log :: "((py_error + string) \<times> capture_job) list \<Rightarrow> raw_line list" where
  "session_log js = concat (map (\<lambda>(d, j). job_log d j) js)"

lemma session_log_read:
  assumes "\<forall>(d, j) \<in> set js. j_source j \<noteq> []"
  shows "\<exists>vs. read_lines (session_log js) = Inr vs \<and> ReadFails \<notin> set (session_log js)
    \<and> (\<forall>seen. \<exists>ts. touched_loop seen vs = Some ts
        \<and> set (map td_subject ts) \<subseteq> set (map td_subject seen) \<union> (j_source \<circ> snd) ` set js)"
  using assms
proof (induction js)
  case (Cons dj js)
  obtain d j where dj: "dj = (d, j)" by (rule prod.exhaust)
  obtain vs where vs: "read_lines (session_log js) = Inr vs" "ReadFails \<notin> set (session_log js)"
      "\<forall>seen. \<exists>ts. touched_loop seen vs = Some ts
        \<and> set (map td_subject ts) \<subseteq> set (map td_subject seen) \<union> (j_source \<circ> snd) ` set js"
    using Cons by auto
  have src: "j_source j \<noteq> []" using Cons.prems dj by auto
  show ?case
  proof (cases rule: job_log_cases [OF src, of d])
    case 1
    have same: "session_log (dj # js) = session_log js" using 1(1) by (simp add: session_log_def dj)
    have "\<exists>ts. touched_loop seen vs = Some ts
        \<and> set (map td_subject ts) \<subseteq> set (map td_subject seen) \<union> (j_source \<circ> snd) ` set (dj # js)" for seen
    proof -
      obtain ts where "touched_loop seen vs = Some ts"
          "set (map td_subject ts) \<subseteq> set (map td_subject seen) \<union> (j_source \<circ> snd) ` set js" using vs(3) by blast
      then show ?thesis by (intro exI [of _ ts]) auto
    qed
    then show ?thesis unfolding same using vs(1,2) by blast
  next
    case (2 e)
    then obtain dd where dd: "fe_data e = Data dd" "\<And>seen. touch dd seen
        = put_touched \<lparr>td_subject = j_source j, td_category = j_category j, td_success = j_success j\<rparr> seen" by blast
    have "read_lines (session_log (dj # js)) = Inr (Obj e # vs)" "ReadFails \<notin> set (session_log (dj # js))"
      using 2(1) vs(1,2) by (simp_all add: session_log_def dj)
    moreover have "\<exists>ts. touched_loop seen (Obj e # vs) = Some ts
        \<and> set (map td_subject ts) \<subseteq> set (map td_subject seen) \<union> (j_source \<circ> snd) ` set (dj # js)" for seen
    proof -
      let ?seen = "put_touched \<lparr>td_subject = j_source j, td_category = j_category j, td_success = j_success j\<rparr> seen"
      obtain ts where "touched_loop ?seen vs = Some ts"
          "set (map td_subject ts) \<subseteq> set (map td_subject ?seen) \<union> (j_source \<circ> snd) ` set js" using vs(3) by blast
      moreover have "touched_loop seen (Obj e # vs) = touched_loop ?seen vs"
        using 2(2) dd by (simp add: DRAWER_EVENT_NAMES_def)
      ultimately show ?thesis unfolding put_touched_subjects(1) by (auto simp: dj)
    qed
    ultimately show ?thesis by blast
  qed
qed (simp add: session_log_def)

text \<open>
  captures are keyed by their source, the path or the tool, and the last outcome of a source
  replaces the earlier ones: where a failed call is followed by a successful one of the same source
  the session counts as free of failures and nothing is learned from it.
\<close>
theorem last_capture_of_source_wins:
  assumes "j_source j = src" and "j_source j' = src" and "src \<noteq> []"
    and "\<not> j_success j" and "j_success j'" and "job_log d' j' \<noteq> []" and "0 \<le> thr"
  shows "process_session update query fl (gate_at thr) (Some (job_log d j @ job_log d' j')) s = ([], s)"
proof -
  let ?t = "\<lambda>j. \<lparr>td_subject = j_source j, td_category = j_category j, td_success = j_success j\<rparr>"
  obtain e' dd' where e': "job_log d' j' = [Parsed (Obj e')]" "event_name e' = ''drawer_filed''" "fe_data e' = Data dd'"
      "\<And>seen. touch dd' seen = put_touched (?t j') seen"
    using job_log_cases [of j' d'] assms(2,3,6) by metis
  have ts: "touched_loop seen [Obj e'] = Some (put_touched (?t j') seen)" for seen
    using e' by (simp add: DRAWER_EVENT_NAMES_def)
  have src: "j_source j \<noteq> []" using assms(1,3) by simp
  have "\<exists>vs. read_events_file (Some (job_log d j @ job_log d' j')) = Inr vs \<and> touched_drawers vs = Some [?t j']"
  proof (cases rule: job_log_cases [OF src, of d])
    case 1
    show ?thesis using 1(1) e'(1) ts [of "[]"] by (simp add: read_events_file_def touched_drawers_def)
  next
    case (2 e)
    then obtain dd where "fe_data e = Data dd" "\<And>seen. touch dd seen = put_touched (?t j) seen" by blast
    then have "touched_loop [] [Obj e, Obj e'] = Some [?t j']"
      using 2(2) ts [of "[?t j]"] assms(1,2) by (simp add: DRAWER_EVENT_NAMES_def del: touched_loop.simps(2))
    then show ?thesis using 2(1) e'(1) by (simp add: read_events_file_def touched_drawers_def)
  qed
  then show ?thesis using quiet_session_facts [of _ _ "[?t j']"] assms(5,7) by auto
qed

definition demo_shell :: "bool \<Rightarrow> capture_job" where
  "demo_shell ok = \<lparr>j_id = ''id'', j_tool = ''bash'', j_input = Map.empty, j_output = ''out'', j_source = ''bash'', j_category = Some ''blocker'',
     j_session = None, j_at = ''t'', j_auto_wing = False, j_auto_room = False, j_wing = ''w'', j_room = ''r'',
     j_emits = True, j_success = ok, j_path = None, j_wired = False\<rparr>"

lemma demo_shell_log: "job_log (Inr ''w'') (demo_shell ok) \<noteq> []"
  by (simp add: job_log_def process_job_def demo_shell_def Let_def)

theorem last_capture_of_source_wins_witness:
  "process_session (recording_update (\<lambda>x. []) ''u'' ''t'') (\<lambda>i. Inr None) (\<lambda>x. []) DEFAULT_SALIENCE
     (Some (job_log (Inr ''w'') (demo_shell False) @ job_log (Inr ''w'') (demo_shell True))) recording_init = ([], recording_init)"
  unfolding DEFAULT_SALIENCE_def
  by (rule last_capture_of_source_wins [where src = "''bash''", OF _ _ _ _ _ demo_shell_log]) (simp_all add: demo_shell_def)

lemma update_events_other:
  "x \<noteq> u_subject q \<Longrightarrow> fold (fact_step x p y) (update_events S i0 fmt q) v = v"
  by (auto simp: update_events_def split: option.split)

lemma learn_loop_other:
  assumes "event_backend S i0 B lg bevs resolve issued external pack"
    and "learn_loop (native_update B fmt u now) query fl cfg rate ts st = (rs, err, st')"
    and "\<forall>t \<in> set ts. external (td_subject t) \<and> td_subject t \<noteq> x"
  shows "valid_fact (lg (ns_store st')) x p y = valid_fact (lg (ns_store st)) x p y"
  using assms(2,3)
proof (induction ts arbitrary: st rs)
  case (Cons t ts)
  show ?case
  proof (cases "bind_err (query (td_subject t)) (\<lambda>old. decide fl cfg rate old t)")
    case (Inr w)
    show ?thesis
    proof (cases w)
      case (Some q)
      then have sub: "u_subject q = td_subject t"
        using Inr by (auto simp: bind_err_Inr decide_def request_of_def Let_def split: if_splits)
      obtain res st1 where u: "native_update B fmt u now q st = (res, st1)" by (rule prod.exhaust)
      have "lg (ns_store st1) = lg (ns_store st) @ update_events S i0 fmt q"
        using event_backend.native_update_store [OF assms(1), of q fmt u now st] Cons.prems(2) sub u by simp
      then have "valid_fact (lg (ns_store st1)) x p y = valid_fact (lg (ns_store st)) x p y"
        using update_events_other [of x q p y S i0 fmt] Cons.prems(2) sub by (auto simp: valid_fact_append)
      then show ?thesis using Cons Inr Some u by (auto split: sum.splits prod.splits)
    qed (use Cons Inr in simp)
  qed (use Cons.prems in simp)
qed simp

text \<open>
  C16: learning from captures does not reach the drawers.  The log entry of a capture names the
  drawer's source, not its ref, so the pass writes its importance facts on the source; for every
  session of captures the facts on a drawer's own ref, which search and briefing read, stay as they
  were.
\<close>
theorem captured_drawer_is_not_learned:
  assumes "event_backend S i0 B lg bevs resolve issued external pack"
    and "\<forall>(d, j) \<in> set js. j_source j \<noteq> [] \<and> external (j_source j) \<and> j_source j \<noteq> ref"
    and "process_session (native_update B fmt u now) query fl cfg (Some (session_log js)) st = (rs, st')"
  shows "valid_fact (lg (ns_store st')) ref p y = valid_fact (lg (ns_store st)) ref p y"
  using assms(3)
proof (cases rule: process_session_cases)
  case (2 vs ts err)
  have "\<forall>(d, j) \<in> set js. j_source j \<noteq> []" using assms(2) by auto
  from session_log_read [OF this] obtain ws where ws: "read_lines (session_log js) = Inr ws"
    "\<forall>seen. \<exists>ts. touched_loop seen ws = Some ts
        \<and> set (map td_subject ts) \<subseteq> set (map td_subject seen) \<union> (j_source \<circ> snd) ` set js" by blast
  have "ws = vs" using ws(1) 2(1) by (simp add: read_events_file_def)
  then have "set (map td_subject ts) \<subseteq> (j_source \<circ> snd) ` set js"
    using ws(2) [THEN spec, of "[]"] 2(2) by (simp add: touched_drawers_def)
  then have "\<forall>t \<in> set ts. external (td_subject t) \<and> td_subject t \<noteq> ref"
  proof (intro ballI)
    fix t assume "t \<in> set ts"
    then obtain dj where dj: "dj \<in> set js" "td_subject t = j_source (snd dj)"
      using \<open>set (map td_subject ts) \<subseteq> (j_source \<circ> snd) ` set js\<close> by auto
    then show "external (td_subject t) \<and> td_subject t \<noteq> ref" using assms(2) by (cases dj) auto
  qed
  then show ?thesis by (rule learn_loop_other [OF assms(1) 2(3)])
qed simp

theorem captured_drawer_is_not_learned_witness:
  "let st = snd (process_session (native_update (log_backend demo_substrate 0 (\<lambda>v. ''v'')) demo_str ''u'' ''t'') (\<lambda>i. Inr None) (\<lambda>x. [])
       DEFAULT_SALIENCE (Some (session_log [(Inr ''w'', demo_shell False)])) (native_init []))
   in cell_ref demo_substrate (j_output (demo_shell False)) 0 = ''#out''
     \<and> \<not> valid_fact (ns_store st) ''#out'' ''has_importance'' (cell_ref demo_substrate (demo_str (3 / 4)) 0)"
proof -
  obtain rs st where p: "process_session (native_update (log_backend demo_substrate (0 :: nat) (\<lambda>v. ''v'')) demo_str ''u'' ''t'') (\<lambda>i. Inr None)
      (\<lambda>x. []) DEFAULT_SALIENCE (Some (session_log [(Inr ''w'', demo_shell False)])) (native_init []) = (rs, st)"
    by (rule prod.exhaust)
  have "\<forall>(d, j) \<in> set [(Inr ''w'' :: py_error + string, demo_shell False)]. j_source j \<noteq> [] \<and> True \<and> j_source j \<noteq> ''#out''"
    by (simp add: demo_shell_def)
  note C = captured_drawer_is_not_learned [OF logb.event_backend_axioms this p, of "''has_importance''" "cell_ref demo_substrate (demo_str (3 / 4)) 0"]
  have "\<not> valid_fact (ns_store st) ''#out'' ''has_importance'' (cell_ref demo_substrate (demo_str (3 / 4)) 0)"
    using C by (simp add: native_init_def valid_fact_def [of "[]"])
  moreover have "cell_ref demo_substrate (j_output (demo_shell False)) 0 = ''#out''"
    by (simp add: demo_substrate_def demo_shell_def)
  ultimately show ?thesis unfolding Let_def p snd_conv by blast
qed

end
