(* ===== verification/Project_Context.thy ===== *)
theory Project_Context
  imports Briefing
begin

text \<open>
  The project-context hooks (\<open>hooks-project-context\<close>): the search for the coordination
  directory, its scaffolding at the git root, the tier-1 reading under the token budget and the two
  handlers.  The file system is a map from paths, lists of components, to nodes; which paths can be
  written, the git root and the date are inputs.
\<close>

section \<open>The stubs\<close>

definition PROJECT_CONTEXT_STUB :: "ustr" where
  "PROJECT_CONTEXT_STUB = join [10] [
     cps ''# Project Context'',
     [],
     cps ''<!-- Update: current phase, milestone, team, active work -->'',
     [],
     cps ''## Current State'',
     [],
     cps ''**Phase:** [e.g., '' @ [34] @ cps ''Initial setup'' @ [34] @ cps '', '' @ [34] @ cps ''Feature development'' @ [34] @ cps '', '' @ [34] @ cps ''Stabilization'' @ [34] @ cps '']'',
     cps ''**Milestone:** [e.g., '' @ [34] @ cps ''v1.0.0 release'' @ [34] @ cps '']'',
     cps ''**Active work:** [What is being built right now]'',
     [],
     cps ''## Team'',
     [],
     cps ''| Person | Role |'',
     cps ''|--------|------|'',
     cps ''| [Name] | [Role] |'',
     [],
     cps ''## Recent Milestones'',
     [],
     cps ''- [Date] '' @ [8212] @ cps '' [Milestone]'',
     []]"

definition GLOSSARY_STUB :: "ustr" where
  "GLOSSARY_STUB = join [10] [
     cps ''# Glossary'',
     [],
     cps ''<!-- Add terms as they emerge. Format: Term | Means | Does NOT Mean -->'',
     [],
     cps ''| Term | Means | Does NOT Mean |'',
     cps ''|------|-------|---------------|'',
     cps ''| [Term] | [Definition] | [Common misuse] |'',
     []]"

definition HANDOFF_STUB :: "string \<Rightarrow> ustr" where
  "HANDOFF_STUB today = join [10] [
     cps ''# Handoff'',
     [],
     cps ''*Last updated: '' @ cps today @ cps '' '' @ [8212] @ cps '' initial scaffold*'',
     [],
     cps ''## Accomplished'',
     [],
     cps ''- Project coordination files scaffolded by hooks-project-context.'',
     [],
     cps ''## Blocked / Unresolved'',
     [],
     cps ''- Nothing yet.'',
     [],
     cps ''## Start Here Next Session'',
     [],
     cps ''- Review PROJECT_CONTEXT.md and update the current phase and active work.'',
     [],
     cps ''## Non-Obvious Context'',
     [],
     cps ''- This project uses the project-context coordination system. Keep these files'',
     cps ''  accurate as you work '' @ [8212] @ cps '' they are the human-readable memory layer.'',
     []]"

definition AGENTS_MD :: "ustr" where
  "AGENTS_MD = join [10] [
     cps ''# Agent Instructions'',
     [],
     cps ''This project uses a coordination file system in `project-context/`.'',
     cps ''These files give you persistent memory across sessions. **Read them before starting any work.**'',
     [],
     cps ''## Starting a Session'',
     [],
     cps ''Read these files in order:'',
     cps ''1. `project-context/PROJECT_CONTEXT.md` '' @ [8212] @ cps '' current project state, phase, team'',
     cps ''2. `project-context/GLOSSARY.md` '' @ [8212] @ cps '' terminology (use these terms exactly)'',
     cps ''3. `project-context/HANDOFF.md` '' @ [8212] @ cps '' what happened last session, what to do next'',
     [],
     cps ''Also read when relevant:'',
     cps ''- `project-context/STRUCTURE.md` '' @ [8212] @ cps '' before creating or moving files'',
     cps ''- `project-context/WAYSOFWORKING.md` '' @ [8212] @ cps '' for workflows, failure patterns, verification steps'',
     cps ''- `project-context/PROVENANCE.md` '' @ [8212] @ cps '' to understand why a decision was made'',
     cps ''- `project-context/EXPERIMENT_JOURNAL.md` '' @ [8212] @ cps '' to see what was tried and learned'',
     [],
     cps ''## Ending a Session'',
     [],
     cps ''Update `project-context/HANDOFF.md` with:'',
     cps ''- What you accomplished (specific files, decisions, results)'',
     cps ''- What'' @ [39] @ cps ''s blocked or unresolved'',
     cps ''- What the next session should start with'',
     cps ''- Non-obvious context the next agent needs'',
     [],
     cps ''## Continuous Improvement'',
     [],
     cps ''| When you... | Update |'',
     cps ''|-------------|--------|'',
     cps ''| Use a term not in the glossary | `project-context/GLOSSARY.md` |'',
     cps ''| Make a design or architecture decision | `project-context/PROVENANCE.md` |'',
     cps ''| Hit an error and find the fix | `project-context/WAYSOFWORKING.md` |'',
     cps ''| Create or move files | `project-context/STRUCTURE.md` |'',
     cps ''| Run an experiment or benchmark | `project-context/EXPERIMENT_JOURNAL.md` |'',
     cps ''| Change the project phase or milestone | `project-context/PROJECT_CONTEXT.md` |'',
     cps ''| Finish any session | `project-context/HANDOFF.md` |'',
     []]"

section \<open>The file system\<close>

datatype fnode = Dir | File "py_error + ustr"

type_synonym fpath = "string list"
type_synonym fs = "fpath \<rightharpoonup> fnode"

definition PC :: string where "PC = ''project-context''"

definition GIT :: string where "GIT = ''.git''"

text \<open>The working directory and its parents, the nearest first.\<close>

definition ancestors :: "fpath \<Rightarrow> fpath list" where
  "ancestors p = map (\<lambda>n. take n p) (rev [0..<Suc (length p)])"

fun find_dir :: "fs \<Rightarrow> fpath list \<Rightarrow> fpath option" where
  "find_dir fs [] = None"
| "find_dir fs (d # ds) = (if fs (d @ [PC]) = Some Dir then Some (d @ [PC])
     else if fs (d @ [GIT]) \<noteq> None then None else find_dir fs ds)"

text \<open>\<open>mkdir(exist_ok=True)\<close>: a file of that name or a missing parent is an error.\<close>

definition mk_dir :: "(fpath \<Rightarrow> bool) \<Rightarrow> fpath \<Rightarrow> fs \<Rightarrow> py_error + fs" where
  "mk_dir can p fs = (case fs p of Some Dir \<Rightarrow> Inr fs
     | Some (File c) \<Rightarrow> Inl (OSError ''FileExistsError'')
     | None \<Rightarrow> if can p then Inr (fs(p \<mapsto> Dir)) else Inl (OSError ''mkdir''))"

text \<open>The files that do not exist are written, in order, until one cannot be.\<close>

fun write_missing :: "(fpath \<Rightarrow> bool) \<Rightarrow> (fpath \<times> ustr) list \<Rightarrow> fs \<Rightarrow> (py_error + fpath list) \<times> fs" where
  "write_missing can [] fs = (Inr [], fs)"
| "write_missing can ((p, c) # ps) fs = (if fs p \<noteq> None then write_missing can ps fs
     else if \<not> can p then (Inl (OSError ''write''), fs)
     else (case write_missing can ps (fs(p \<mapsto> File (Inr c))) of (r, fs') \<Rightarrow> (bind_err r (\<lambda>made. Inr (p # made)), fs')))"

definition stub_files :: "string \<Rightarrow> fpath \<Rightarrow> (fpath \<times> ustr) list" where
  "stub_files today gr = [(gr @ [PC, ''PROJECT_CONTEXT.md''], PROJECT_CONTEXT_STUB), (gr @ [PC, ''GLOSSARY.md''], GLOSSARY_STUB),
     (gr @ [PC, ''HANDOFF.md''], HANDOFF_STUB today), (gr @ [''AGENTS.md''], AGENTS_MD)]"

definition scaffold :: "(fpath \<Rightarrow> bool) \<Rightarrow> string \<Rightarrow> fpath \<Rightarrow> fs \<Rightarrow> (py_error + fpath list) \<times> fs" where
  "scaffold can today gr fs = (case mk_dir can (gr @ [PC]) fs of Inl e \<Rightarrow> (Inl e, fs)
     | Inr fs1 \<Rightarrow> write_missing can (stub_files today gr) fs1)"

section \<open>Reading tier 1\<close>

definition files_of :: "fs \<Rightarrow> fpath \<Rightarrow> context_files" where
  "files_of fs dir nm = (case fs (dir @ [nm]) of None \<Rightarrow> None
     | Some (File c) \<Rightarrow> Some c | Some Dir \<Rightarrow> Some (Inl (OSError ''IsADirectoryError'')))"

definition TIER1_TITLES :: "(string \<times> string) list" where
  "TIER1_TITLES = [(''HANDOFF.md'', ''### Last Session Handoff''), (''PROJECT_CONTEXT.md'', ''### Project Context''),
     (''GLOSSARY.md'', ''### Glossary'')]"

definition tier1_section :: "int \<Rightarrow> string \<Rightarrow> ustr \<Rightarrow> ustr" where
  "tier1_section budget title content = cps title @ [10, 10] @
     (if budget * 4 < int (length content) then py_upto content (budget * 4) @ TRUNCATED else content)"

text \<open>The names and the sections of the files read.\<close>

fun tier1_loop :: "context_files \<Rightarrow> int \<Rightarrow> (string \<times> string) list \<Rightarrow> py_error + (string \<times> ustr) list" where
  "tier1_loop fs budget [] = Inr []"
| "tier1_loop fs budget ((nm, title) # ts) = (if budget \<le> 0 then Inr []
     else case fs nm of None \<Rightarrow> tier1_loop fs budget ts
       | Some (Inl e) \<Rightarrow> Inl e
       | Some (Inr raw) \<Rightarrow> (if u_strip raw = [] then tier1_loop fs budget ts
           else let s = tier1_section budget title (u_strip raw)
             in bind_err (tier1_loop fs (budget - tokens s) ts) (\<lambda>ss. Inr ((nm, s) # ss))))"

definition read_tier1 :: "context_files \<Rightarrow> int \<Rightarrow> py_error + ustr \<times> string list \<times> int" where
  "read_tier1 fs budget = bind_err (tier1_loop fs budget TIER1_TITLES) (\<lambda>ss.
     if ss = [] then Inr ([], [], 0)
     else let result = cps ''## Project Coordination Files'' @ [10, 10] @ join ([10, 10] @ cps ''---'' @ [10, 10]) (map snd ss)
       in Inr (result, map fst ss, tokens result))"

section \<open>The handlers\<close>

record context_config =
  tier1_always :: bool
  setup_if_missing :: bool
  pc_budget :: int
  pc_emits :: bool
  handoff_on_end :: bool

record context_env =
  ce_cwd :: fpath
  ce_git_root :: "fpath option"
  ce_today :: string
  ce_can :: "fpath \<Rightarrow> bool"

datatype context_emit = Coordination_Scaffolded fpath "fpath list" | Coordination_Read "fpath list" int | Handoff_Requested string

definition pc_emit :: "context_config \<Rightarrow> context_emit \<Rightarrow> context_emit list" where
  "pc_emit cfg e = (if pc_emits cfg then [e] else [])"

text \<open>The directory to read, scaffolded where it is missing.\<close>

definition locate :: "context_config \<Rightarrow> context_env \<Rightarrow> fs \<Rightarrow> context_emit list \<times> (py_error + fpath option) \<times> fs" where
  "locate cfg env fs = (case find_dir fs (ancestors (ce_cwd env)) of Some dir \<Rightarrow> ([], Inr (Some dir), fs)
     | None \<Rightarrow> (case (if setup_if_missing cfg then ce_git_root env else None) of None \<Rightarrow> ([], Inr None, fs)
       | Some gr \<Rightarrow> (case scaffold (ce_can env) (ce_today env) gr fs of
             (Inl e, fs') \<Rightarrow> ([], Inl e, fs')
           | (Inr made, fs') \<Rightarrow> (if made = [] then [] else pc_emit cfg (Coordination_Scaffolded (gr @ [PC]) made),
               Inr (Some (gr @ [PC])), fs'))))"

definition context_start :: "context_config \<Rightarrow> context_env \<Rightarrow> fs \<Rightarrow> context_emit list \<times> (py_error + hook_result) \<times> fs" where
  "context_start cfg env fs = (case locate cfg env fs of
       (es, Inl e, fs') \<Rightarrow> (es, Inl e, fs')
     | (es, Inr None, fs') \<Rightarrow> (es, Inr Continue, fs')
     | (es, Inr (Some dir), fs') \<Rightarrow> (if \<not> tier1_always cfg then (es, Inr Continue, fs')
         else case read_tier1 (files_of fs' dir) (pc_budget cfg) of
           Inl e \<Rightarrow> (es, Inl e, fs')
         | Inr (blk, names, n) \<Rightarrow> (if blk = [] then (es, Inr Continue, fs')
             else (es @ pc_emit cfg (Coordination_Read (map (\<lambda>nm. dir @ [nm]) names) n), Inr (Inject_Context blk), fs'))))"

definition HANDOFF_PROMPT :: string where
  "HANDOFF_PROMPT = ''Update the project-context coordination files for this session. Rewrite HANDOFF.md with what was accomplished, what is blocked, and what the next session should start with. Append to PROVENANCE.md, GLOSSARY.md, and WAYSOFWORKING.md if any decisions, terms, or patterns emerged.''"

definition context_end :: "context_config \<Rightarrow> context_env \<Rightarrow> fs \<Rightarrow> context_emit list" where
  "context_end cfg env fs = (if \<not> handoff_on_end cfg \<or> find_dir fs (ancestors (ce_cwd env)) = None then []
     else pc_emit cfg (Handoff_Requested (take 200 HANDOFF_PROMPT)))"

section \<open>Scaffolding\<close>

lemma write_missing_frame:
  "snd (write_missing can ps fs) p = fs p \<or> p \<in> fst ` set ps \<and> fs p = None \<and> can p"
proof (induction can ps fs rule: write_missing.induct)
  case (2 can q c ps fs)
  consider "fs q \<noteq> None" | "fs q = None" "\<not> can q" | "fs q = None" "can q" by blast
  then show ?case
  proof cases
    case 3
    define F where "F = fs(q \<mapsto> File (Inr c))"
    have "snd (write_missing can ((q, c) # ps) fs) = snd (write_missing can ps F)"
      using 3 by (simp add: F_def split: prod.split)
    moreover have "F p = fs p \<or> p = q" by (simp add: F_def)
    ultimately show ?thesis using 2(2) [folded F_def] 3 by auto
  qed (use 2(1) in auto)
qed simp

lemma write_missing_mono: "fs p = Some x \<Longrightarrow> snd (write_missing can ps fs) p = Some x"
  using write_missing_frame [of can ps fs p] by auto

lemma write_missing_done:
  "fst (write_missing can ps fs) = Inr made \<Longrightarrow> \<forall>q \<in> fst ` set ps. snd (write_missing can ps fs) q \<noteq> None"
proof (induction can ps fs arbitrary: made rule: write_missing.induct)
  case (2 can p c ps fs)
  show ?case
  proof (cases "fs p")
    case None
    define F where "F = fs(p \<mapsto> File (Inr c))"
    have "can p" using 2(3) None by (auto split: if_splits)
    obtain r fs' where r: "write_missing can ps F = (r, fs')" by (rule prod.exhaust)
    have all: "write_missing can ((p, c) # ps) fs = (bind_err r (\<lambda>made. Inr (p # made)), fs')"
      using None \<open>can p\<close> r by (simp add: F_def)
    then obtain made' where "r = Inr made'" using 2(3) by (auto simp: bind_err_Inr)
    then have "\<forall>q \<in> fst ` set ps. fs' q \<noteq> None" using 2(2) [folded F_def] None \<open>can p\<close> r by auto
    moreover have "fs' p \<noteq> None" using write_missing_mono [of F p "File (Inr c)" can ps] r by (simp add: F_def)
    ultimately show ?thesis unfolding all by auto
  next
    case (Some x)
    then show ?thesis using 2(1,3) write_missing_mono [of fs p x can ps] by auto
  qed
qed simp

lemma write_missing_nothing: "\<forall>q \<in> fst ` set ps. fs q \<noteq> None \<Longrightarrow> write_missing can ps fs = (Inr [], fs)"
  by (induction can ps fs rule: write_missing.induct) auto

lemma mk_dir_cases: "mk_dir can p fs = Inr fs1 \<Longrightarrow> fs1 p = Some Dir \<and> (fs1 = fs \<or> fs p = None \<and> fs1 = fs(p \<mapsto> Dir))"
  by (auto simp: mk_dir_def split: option.splits fnode.splits if_splits)

lemma scaffold_frame:
  "snd (scaffold can today gr fs) p = fs p \<or> fs p = None \<and> p \<in> insert (gr @ [PC]) (fst ` set (stub_files today gr))"
proof (cases "mk_dir can (gr @ [PC]) fs")
  case (Inr fs1)
  then have eq: "snd (scaffold can today gr fs) = snd (write_missing can (stub_files today gr) fs1)" by (simp add: scaffold_def)
  show ?thesis
    using mk_dir_cases [OF Inr] write_missing_frame [of can "stub_files today gr" fs1 p] unfolding eq
    by (auto split: if_splits)
qed (simp add: scaffold_def)

lemma locate_fs: "snd (snd (locate cfg env fs)) = fs
    \<or> (\<exists>gr. ce_git_root env = Some gr \<and> snd (snd (locate cfg env fs)) = snd (scaffold (ce_can env) (ce_today env) gr fs))"
  by (auto simp: locate_def split: option.split sum.split prod.split)

lemma start_fs: "snd (snd (context_start cfg env fs)) = snd (snd (locate cfg env fs))"
  by (auto simp: context_start_def split: prod.splits sum.splits option.splits)

lemma find_dir_reached:
  "\<forall>e \<in> set ds1. fs (e @ [PC]) \<noteq> Some Dir \<and> fs (e @ [GIT]) = None \<Longrightarrow> fs (d @ [PC]) = Some Dir
   \<Longrightarrow> find_dir fs (ds1 @ d # ds2) = Some (d @ [PC])"
  by (induction ds1) auto

lemma find_dir_None:
  "find_dir fs (ds1 @ ds2) = None \<Longrightarrow> \<forall>e \<in> set ds1. fs (e @ [GIT]) = None \<Longrightarrow> \<forall>e \<in> set ds1. fs (e @ [PC]) \<noteq> Some Dir"
  by (induction ds1) (auto split: if_splits)

lemma ancestors_distinct: "distinct (ancestors p)"
proof -
  have "inj_on (\<lambda>n. take n p) (set (rev [0..<Suc (length p)]))"
    by (rule inj_onI) (metis atLeastLessThan_iff length_take less_Suc_eq_le min_absorb2 set_rev set_upt)
  then show ?thesis unfolding ancestors_def distinct_map by simp
qed

text \<open>
  C12: the start hook never overwrites.  Every file and directory that was there is unchanged,
  whatever fails on the way, and what is new is the coordination directory, its three stubs or
  \<open>AGENTS.md\<close>, under the git root.
\<close>
theorem scaffold_never_overwrites:
  "case context_start cfg env fs of (es, r, fs') \<Rightarrow>
     fs \<subseteq>\<^sub>m fs' \<and> dom fs' - dom fs \<subseteq> (case ce_git_root env of None \<Rightarrow> {}
       | Some gr \<Rightarrow> insert (gr @ [PC]) (fst ` set (stub_files (ce_today env) gr)))"
proof -
  define fs' where "fs' = snd (snd (context_start cfg env fs))"
  have fr: "fs' p = fs p \<or> fs p = None \<and> (\<exists>gr. ce_git_root env = Some gr
      \<and> p \<in> insert (gr @ [PC]) (fst ` set (stub_files (ce_today env) gr)))" for p
    unfolding fs'_def start_fs using locate_fs [of cfg env fs] scaffold_frame [of "ce_can env" "ce_today env" _ fs p] by metis
  have "fs \<subseteq>\<^sub>m fs'" unfolding map_le_def
  proof
    fix p assume "p \<in> dom fs"
    then show "fs p = fs' p" using fr [of p] by auto
  qed
  moreover have "dom fs' - dom fs \<subseteq> (case ce_git_root env of None \<Rightarrow> {}
       | Some gr \<Rightarrow> insert (gr @ [PC]) (fst ` set (stub_files (ce_today env) gr)))"
  proof
    fix p assume "p \<in> dom fs' - dom fs"
    then have "fs' p \<noteq> fs p" by auto
    then obtain gr where "ce_git_root env = Some gr" "p \<in> insert (gr @ [PC]) (fst ` set (stub_files (ce_today env) gr))"
      using fr [of p] by blast
    then show "p \<in> (case ce_git_root env of None \<Rightarrow> {}
       | Some gr \<Rightarrow> insert (gr @ [PC]) (fst ` set (stub_files (ce_today env) gr)))" by (simp only: option.case)
  qed
  ultimately show ?thesis unfolding fs'_def by (simp add: case_prod_unfold)
qed

text \<open>A scaffold that ran to its end left the directory and every file.\<close>

lemma scaffold_done:
  assumes "fst (scaffold can today gr fs) = Inr made"
  shows "snd (scaffold can today gr fs) (gr @ [PC]) = Some Dir"
    "\<forall>q \<in> fst ` set (stub_files today gr). snd (scaffold can today gr fs) q \<noteq> None"
proof -
  obtain fs1 where fs1: "mk_dir can (gr @ [PC]) fs = Inr fs1"
    using assms by (auto simp: scaffold_def split: sum.splits)
  then have eq: "scaffold can today gr fs = write_missing can (stub_files today gr) fs1" by (simp add: scaffold_def)
  show "snd (scaffold can today gr fs) (gr @ [PC]) = Some Dir"
    unfolding eq using mk_dir_cases [OF fs1] by (simp add: write_missing_mono)
  show "\<forall>q \<in> fst ` set (stub_files today gr). snd (scaffold can today gr fs) q \<noteq> None"
    using write_missing_done assms unfolding eq by blast
qed

lemma scaffold_again:
  assumes "fs (gr @ [PC]) = Some Dir" and "\<forall>q \<in> fst ` set (stub_files today gr). fs q \<noteq> None"
  shows "scaffold can today gr fs = (Inr [], fs)"
  using assms write_missing_nothing [of "stub_files today gr" fs can] by (simp add: scaffold_def mk_dir_def)

lemma stub_last: "q \<in> fst ` set (stub_files today gr)
    \<Longrightarrow> last q \<in> {''PROJECT_CONTEXT.md'', ''GLOSSARY.md'', ''HANDOFF.md'', ''AGENTS.md''}"
  unfolding stub_files_def by (simp only: list.set image_insert image_empty fst_conv insert_iff empty_iff) (elim disjE; simp)

lemma second_start_finds:
  assumes "locate cfg env fs = (es, Inr (Some dir), fs')"
    and "ce_git_root env = Some gr" and "ancestors (ce_cwd env) = ds1 @ gr # ds2"
    and "\<forall>e \<in> set ds1. fs (e @ [GIT]) = None"
  shows "find_dir fs' (ancestors (ce_cwd env)) = Some dir"
proof (cases "find_dir fs (ancestors (ce_cwd env))")
  case None
  obtain made where made: "scaffold (ce_can env) (ce_today env) gr fs = (Inr made, fs')" "dir = gr @ [PC]"
    using assms(1,2) None by (auto simp: locate_def split: if_splits sum.splits prod.splits)
  have "fs' (e @ [GIT]) = None \<and> fs' (e @ [PC]) \<noteq> Some Dir" if "e \<in> set ds1" for e
  proof -
    have "fs (e @ [PC]) \<noteq> Some Dir" using find_dir_None [of fs ds1 "gr # ds2"] None assms(3,4) that by simp
    moreover have "e \<noteq> gr" using ancestors_distinct [of "ce_cwd env"] that unfolding assms(3) by auto
    moreover have "e @ [GIT] \<notin> insert (gr @ [PC]) (fst ` set (stub_files (ce_today env) gr))"
      using stub_last [of "e @ [GIT]" "ce_today env" gr] by (auto simp: PC_def GIT_def)
    moreover have "e @ [PC] \<notin> insert (gr @ [PC]) (fst ` set (stub_files (ce_today env) gr))"
      using stub_last [of "e @ [PC]" "ce_today env" gr] \<open>e \<noteq> gr\<close> by (auto simp: PC_def)
    ultimately show ?thesis
      using scaffold_frame [of "ce_can env" "ce_today env" gr fs "e @ [GIT]"] scaffold_frame [of "ce_can env" "ce_today env" gr fs "e @ [PC]"]
        assms(4) that unfolding made(1) snd_conv by metis
  qed
  moreover have "fs' (gr @ [PC]) = Some Dir" using scaffold_done(1) made(1) by (metis fst_conv snd_conv)
  ultimately show ?thesis
    unfolding assms(3) made(2) by (intro find_dir_reached) auto
next
  case (Some d)
  then show ?thesis using assms(1) by (simp add: locate_def)
qed



text \<open>
  scaffolding is done once.  Where the git root is the working directory or a parent with no
  nearer repository, a session start that ends without an error in the file system leaves a
  coordination directory that the next start finds and does not touch.
\<close>
theorem scaffold_is_idempotent:
  assumes "locate cfg env fs = (es, Inr (Some dir), fs')"
    and "ce_git_root env = Some gr" and "ancestors (ce_cwd env) = ds1 @ gr # ds2"
    and "\<forall>e \<in> set ds1. fs (e @ [GIT]) = None"
  shows "locate cfg env fs' = ([], Inr (Some dir), fs')"
  using second_start_finds [OF assms] by (simp add: locate_def)

text \<open>A directory as the briefing's search sees it.\<close>

definition candidate :: "fs \<Rightarrow> fpath \<Rightarrow> candidate_dir" where
  "candidate fs d = \<lparr>has_context = (fs (d @ [PC]) = Some Dir), has_git = (fs (d @ [GIT]) \<noteq> None),
     context_files = files_of fs (d @ [PC])\<rparr>"

lemma find_dir_candidates:
  "find_project_context_dir (map (candidate fs) ds) = map_option (files_of fs) (find_dir fs ds)"
  by (induction ds) (auto simp: candidate_def)

text \<open>
  the two hooks that read the coordination files find the same directory.  The briefing's search
  over the working directory and its parents yields exactly the files of the directory that the
  start hook finds, and a directory that the start hook scaffolded is the one the briefing reads.
\<close>
theorem briefing_reads_the_same_directory:
  assumes "locate cfg env fs = (es, Inr found, fs')"
    and "ce_git_root env = Some gr" and "ancestors (ce_cwd env) = ds1 @ gr # ds2"
    and "\<forall>e \<in> set ds1. fs (e @ [GIT]) = None" and "setup_if_missing cfg"
  shows "found \<noteq> None \<and> find_project_context_dir (map (candidate fs') (ancestors (ce_cwd env))) = map_option (files_of fs') found"
proof -
  have f: "found \<noteq> None"
    using assms(1,2,5) by (cases found) (auto simp: locate_def split: option.splits sum.splits prod.splits)
  then obtain dir where dir: "found = Some dir" by auto
  show ?thesis
    using f second_start_finds [OF assms(1) [unfolded dir] assms(2-4)] by (simp add: find_dir_candidates dir)
qed

text \<open>The size of the sections of tier 1.\<close>

lemma tokens_Nil: "tokens [] = 0" by (simp add: tokens_def)

lemma tier1_section_length:
  assumes "0 < budget" and "length title \<le> 24"
  shows "int (length (tier1_section budget title content)) \<le> 4 * budget + 39"
  using assms by (auto simp: tier1_section_def cps_def TRUNCATED_def py_upto_nonneg)

lemma tier1_loop_length:
  "tier1_loop fs budget ts = Inr ss \<Longrightarrow> \<forall>t \<in> set ts. length (snd t) \<le> 24 \<Longrightarrow> ss \<noteq> []
   \<Longrightarrow> int (sum_list (map length (map snd ss))) \<le> 4 * budget + 36 + 3 * int (length ss) \<and> length ss \<le> length ts"
proof (induction fs budget ts arbitrary: ss rule: tier1_loop.induct)
  case (2 fs budget nm title ts)
  have pos: "0 < budget" using 2(4,6) by (auto split: if_splits)
  show ?case
  proof (cases "fs nm")
    case None
    then show ?thesis using 2(1) [OF _ None] 2(4-6) by (auto split: if_splits)
  next
    case (Some r)
    then obtain raw where raw: "fs nm = Some (Inr raw)" using 2(4,6) pos by (cases r) auto
    show ?thesis
    proof (cases "u_strip raw = []")
      case True
      then show ?thesis using 2(2) [OF _ raw HOL.refl True] 2(4-6) raw pos by auto
    next
      case False
      let ?s = "tier1_section budget title (u_strip raw)"
      obtain rest where rest: "tier1_loop fs (budget - tokens ?s) ts = Inr rest" "ss = (nm, ?s) # rest"
        using 2(4,6) raw False pos by (auto simp: Let_def bind_err_Inr)
      show ?thesis
      proof (cases "rest = []")
        case True
        then show ?thesis using tier1_section_length [OF pos, of title "u_strip raw"] 2(5) rest(2) by simp
      next
        case ne: False
        have "int (sum_list (map length (map snd rest))) \<le> 4 * (budget - tokens ?s) + 36 + 3 * int (length rest) \<and> length rest \<le> length ts"
          using 2(3) [OF _ raw HOL.refl False HOL.refl rest(1)] 2(5) pos ne by simp
        then show ?thesis using length_tokens [of ?s] rest(2) by simp
      qed
    qed
  qed
qed simp

lemma tier1_loop_names: "tier1_loop fs budget ts = Inr ss \<Longrightarrow> subseq (map fst ss) (map fst ts)"
proof (induction fs budget ts arbitrary: ss rule: tier1_loop.induct)
  case (2 fs budget nm title ts)
  show ?case
  proof (cases "budget \<le> 0 \<or> fs nm = None")
    case True
    then show ?thesis using 2(1) [of ss] 2(4) by (cases "budget \<le> 0") (auto intro: list_emb_Cons)
  next
    case False
    then obtain raw where raw: "fs nm = Some (Inr raw)" "\<not> budget \<le> 0" using 2(4) by (auto split: sum.splits)
    show ?thesis
    proof (cases "u_strip raw = []")
      case True
      then have "subseq (map fst ss) (map fst ts)" using 2(2) [OF raw(2,1) HOL.refl True] 2(4) raw by simp
      then show ?thesis by (simp add: list_emb_Cons)
    next
      case ne: False
      let ?s = "tier1_section budget title (u_strip raw)"
      obtain rest where rest: "tier1_loop fs (budget - tokens ?s) ts = Inr rest" "ss = (nm, ?s) # rest"
        using 2(4) raw ne by (auto simp: Let_def bind_err_Inr)
      then show ?thesis using 2(3) [OF raw(2,1) HOL.refl ne HOL.refl rest(1)] by simp
    qed
  qed
qed simp

text \<open>
  the injected block keeps to the budget.  Its size estimate is that of the text, the files
  read are among the three of tier 1, in their order, and it exceeds the budget by at most 22
  tokens, whatever the files hold.
\<close>
theorem tier1_token_budget:
  assumes "read_tier1 files budget = Inr (blk, names, n)" and "0 \<le> budget"
  shows "n = tokens blk \<and> n \<le> budget + 22 \<and> subseq names (map fst TIER1_TITLES) \<and> (names = [] \<longleftrightarrow> blk = [])"
proof -
  obtain ss where ss: "tier1_loop files budget TIER1_TITLES = Inr ss" "names = map fst ss"
      "blk = (if ss = [] then [] else cps ''## Project Coordination Files'' @ [10, 10] @ join ([10, 10] @ cps ''---'' @ [10, 10]) (map snd ss))"
      "n = tokens blk"
  proof -
    obtain ss where "tier1_loop files budget TIER1_TITLES = Inr ss"
      using assms(1) by (auto simp: read_tier1_def bind_err_Inr)
    then show thesis using assms(1) by (intro that [of ss]) (auto simp: read_tier1_def Let_def tokens_Nil split: if_splits)
  qed
  have "subseq names (map fst TIER1_TITLES)" using tier1_loop_names [OF ss(1)] ss(2) by simp
  moreover have "n \<le> budget + 22"
  proof (cases "ss = []")
    case False
    then have "length blk = 31 + sum_list (map length (map snd ss)) + 7 * (length ss - 1)"
      using ss(3) by (simp add: length_join cps_def)
    then have "int (length blk) \<le> 4 * budget + 90"
      using tier1_loop_length [OF ss(1) _ False] False by (cases ss) (auto simp: TIER1_TITLES_def)
    then show ?thesis using ss(4) by (simp add: tokens_def)
  qed (use ss assms(2) in \<open>simp add: tokens_def\<close>)
  ultimately show ?thesis using ss by (auto simp: cps_def)
qed

section \<open>A scaffold that is interrupted\<close>

lemma ancestors_hd: "\<exists>ds. ancestors p = p # ds"
  by (simp add: ancestors_def)

lemma write_missing_fails:
  "p \<in> fst ` set ps \<Longrightarrow> fs p = None \<Longrightarrow> \<not> can p \<Longrightarrow> \<exists>e. fst (write_missing can ps fs) = Inl e"
  using write_missing_done [of can ps fs] write_missing_frame [of can ps fs p]
  by (cases "fst (write_missing can ps fs)") auto

text \<open>
  a scaffold that fails half way is not taken up again.  Where the directory was made and a
  file of the scaffold could not be written, the start hook raises, and every later session start
  finds the directory and writes nothing, even when the file could be written by then: it stays
  missing for good.
\<close>
theorem interrupted_scaffold_stays:
  assumes "fs (gr @ [PC]) = None" and "ce_git_root env = Some gr" and "ce_cwd env = gr"
    and "setup_if_missing cfg" and "find_dir fs (ancestors gr) = None"
    and "ce_can env (gr @ [PC])" and "p \<in> fst ` set (stub_files (ce_today env) gr)" and "fs p = None" and "\<not> ce_can env p"
  shows "\<exists>e fs'. context_start cfg env fs = ([], Inl e, fs') \<and> fs' (gr @ [PC]) = Some Dir \<and> fs' p = None
    \<and> (\<forall>env'. ce_cwd env' = gr \<longrightarrow> snd (snd (context_start cfg env' fs')) = fs')"
proof -
  let ?fs = "fs(gr @ [PC] \<mapsto> Dir)" and ?stubs = "stub_files (ce_today env) gr"
  have mk: "mk_dir (ce_can env) (gr @ [PC]) fs = Inr ?fs" using assms(1,6) by (simp add: mk_dir_def)
  have "p \<noteq> gr @ [PC]" using stub_last [OF assms(7)] by (auto simp: PC_def)
  then have pnone: "?fs p = None" using assms(8) by simp
  obtain e where e: "fst (write_missing (ce_can env) ?stubs ?fs) = Inl e"
    using write_missing_fails [of p ?stubs ?fs "ce_can env"] assms(7,9) pnone by blast
  define fs' where "fs' = snd (write_missing (ce_can env) ?stubs ?fs)"
  have sc: "scaffold (ce_can env) (ce_today env) gr fs = (Inl e, fs')"
    using mk e by (simp add: scaffold_def fs'_def prod_eq_iff)
  have dir: "fs' (gr @ [PC]) = Some Dir" unfolding fs'_def by (simp add: write_missing_mono)
  have "fs' p = None" unfolding fs'_def using write_missing_frame [of "ce_can env" ?stubs ?fs p] pnone assms(9) by auto
  moreover have "context_start cfg env fs = ([], Inl e, fs')"
    using assms(2-5) sc by (simp add: context_start_def locate_def)
  moreover have "snd (snd (context_start cfg env' fs')) = fs'" if "ce_cwd env' = gr" for env'
    unfolding start_fs using dir that find_dir_reached [of "[]" fs' gr] ancestors_hd [of gr]
    by (metis (no_types, lifting) append_Nil empty_iff empty_set locate_def option.simps(5) snd_conv)
  ultimately show ?thesis using dir by blast
qed

section \<open>Concrete sessions\<close>

definition demo_start :: context_config where
  "demo_start = \<lparr>tier1_always = True, setup_if_missing = True, pc_budget = 100, pc_emits = True, handoff_on_end = True\<rparr>"

definition demo_root :: "(fpath \<Rightarrow> bool) \<Rightarrow> context_env" where
  "demo_root can = \<lparr>ce_cwd = [''r''], ce_git_root = Some [''r''], ce_today = ''2024-05-01'', ce_can = can\<rparr>"

text \<open>A repository with no coordination files.\<close>

definition demo_fs :: fs where
  "demo_fs = [[''r'', ''.git''] \<mapsto> Dir]"

lemma demo_find: "find_dir demo_fs (ancestors [''r'']) = None"
  by (simp add: ancestors_def demo_fs_def PC_def GIT_def)

lemma scaffold_succeeds: "fs (gr @ [PC]) = None \<Longrightarrow> \<exists>made fs'. scaffold (\<lambda>_. True) today gr fs = (Inr made, fs')"
proof -
  assume "fs (gr @ [PC]) = None"
  moreover have "\<exists>made fs'. write_missing (\<lambda>_. True) ps fs1 = (Inr made, fs')" for ps :: "(fpath \<times> ustr) list" and fs1
  proof (induction "\<lambda>_ :: fpath. True" ps fs1 rule: write_missing.induct)
    case (2 p c ps fs)
    then show ?case by (cases "fs p") (auto split: prod.split)
  qed simp
  ultimately show ?thesis by (simp add: scaffold_def mk_dir_def)
qed

lemma demo_no_dir: "demo_fs ([''r''] @ [PC]) = None" by (simp add: demo_fs_def PC_def)

lemma demo_locate: "\<exists>es fs'. locate demo_start (demo_root (\<lambda>_. True)) demo_fs = (es, Inr (Some [''r'', PC]), fs')"
proof -
  obtain made fs' where "scaffold (\<lambda>_. True) ''2024-05-01'' [''r''] demo_fs = (Inr made, fs')"
    using scaffold_succeeds [of demo_fs "[''r'']" "''2024-05-01''"] demo_no_dir by blast
  then show ?thesis using demo_find by (simp add: locate_def demo_root_def demo_start_def)
qed

lemma demo_ancestors: "ancestors [''r''] = [] @ [''r''] # [[]]"
  by (simp add: ancestors_def)

theorem scaffold_is_idempotent_witness:
  "\<exists>es fs'. locate demo_start (demo_root (\<lambda>_. True)) demo_fs = (es, Inr (Some [''r'', PC]), fs')
     \<and> locate demo_start (demo_root (\<lambda>_. True)) fs' = ([], Inr (Some [''r'', PC]), fs')"
proof -
  obtain es fs' where l: "locate demo_start (demo_root (\<lambda>_. True)) demo_fs = (es, Inr (Some [''r'', PC]), fs')"
    using demo_locate by blast
  show ?thesis
    using scaffold_is_idempotent [OF l, of "[''r'']" "[]" "[[]]"] l demo_ancestors by (simp add: demo_root_def)
qed

theorem briefing_reads_the_same_directory_witness:
  "\<exists>es fs'. locate demo_start (demo_root (\<lambda>_. True)) demo_fs = (es, Inr (Some [''r'', PC]), fs')
     \<and> find_project_context_dir (map (candidate fs') (ancestors [''r''])) = Some (files_of fs' [''r'', PC])"
proof -
  obtain es fs' where l: "locate demo_start (demo_root (\<lambda>_. True)) demo_fs = (es, Inr (Some [''r'', PC]), fs')"
    using demo_locate by blast
  show ?thesis
    using briefing_reads_the_same_directory [OF l, of "[''r'']" "[]" "[[]]"] l demo_ancestors
    by (simp add: demo_root_def demo_start_def)
qed

theorem tier1_token_budget_witness:
  "case read_tier1 [''HANDOFF.md'' \<mapsto> Inr (cps ''next: ship it'')] 10 of Inr (blk, names, n) \<Rightarrow>
     n = tokens blk \<and> n \<le> 32 \<and> names = [''HANDOFF.md''] | Inl e \<Rightarrow> False"
proof -
  have r: "tier1_loop [''HANDOFF.md'' \<mapsto> Inr (cps ''next: ship it'')] 10 TIER1_TITLES
      = Inr [(''HANDOFF.md'', tier1_section 10 ''### Last Session Handoff'' (cps ''next: ship it''))]"
    by (simp add: TIER1_TITLES_def u_strip_def u_space_def cps_def bind_err_def tier1_section_def tokens_def Let_def)
  then obtain blk n where b: "read_tier1 [''HANDOFF.md'' \<mapsto> Inr (cps ''next: ship it'')] 10 = Inr (blk, [''HANDOFF.md''], n)"
    by (simp add: read_tier1_def bind_err_def Let_def)
  show ?thesis using tier1_token_budget [OF b] by (simp add: b)
qed

theorem interrupted_scaffold_stays_witness:
  "\<exists>e fs'. context_start demo_start (demo_root (\<lambda>p. p \<noteq> [''r'', ''AGENTS.md''])) demo_fs = ([], Inl e, fs')
     \<and> fs' [''r'', PC] = Some Dir \<and> fs' [''r'', ''AGENTS.md''] = None"
  using interrupted_scaffold_stays [of demo_fs "[''r'']" "demo_root (\<lambda>p. p \<noteq> [''r'', ''AGENTS.md''])" demo_start "[''r'', ''AGENTS.md'']"]
    demo_find
  by (auto simp: demo_root_def demo_start_def demo_fs_def stub_files_def PC_def)

end
