(* ===== verification/Mine.thy ===== *)
theory Mine
  imports Manifest Capture "HOL-Library.List_Lexorder" "HOL-Library.Char_ord"
begin

text \<open>
  The \<open>mine\<close> operation of the memory tool (\<open>tool-memory/__init__.py\<close>): the walk over a directory,
  the chunking of a text on blank lines, the parsing of conversation exports and the two loops that
  file every chunk through the client.  The file system is the root's listing with what reading each
  file gives; \<open>send\<close> is the client's \<open>remember\<close>, on a state of its own.
\<close>

section \<open>The walk\<close>

definition MINE_FILE_EXTENSIONS :: "string set" where
  "MINE_FILE_EXTENSIONS = {''.md'', ''.txt'', ''.rst'', ''.py'', ''.js'', ''.jsx'', ''.ts'', ''.tsx'', ''.go'', ''.rs'',
     ''.java'', ''.rb'', ''.sh'', ''.yaml'', ''.yml'', ''.json'', ''.toml'', ''.c'', ''.cpp'', ''.h'', ''.hpp''}"

definition MINE_CHUNK_CHARS :: nat where "MINE_CHUNK_CHARS = 2000"

definition MINE_MAX_FILES :: nat where "MINE_MAX_FILES = 500"

text \<open>An entry of the recursive listing: its path below the root, and what \<open>read_text\<close> gives.\<close>

record 'c entry =
  e_parts :: "string list"
  e_is_file :: bool
  e_read :: "py_error + 'c"

datatype 'c mine_root = No_Root | Root_File string "py_error + 'c" | Root_Dir "'c entry list"

definition eligible_file :: "'c entry \<Rightarrow> bool" where
  "eligible_file e \<longleftrightarrow> e_is_file e \<and> py_lower (snd (split_suffix (last (e_parts e)))) \<in> MINE_FILE_EXTENSIONS
     \<and> \<not> (\<exists>part \<in> set (e_parts e). starts_with part ''.'')"

definition iter_mine_files :: "'c mine_root \<Rightarrow> (string list \<times> (py_error + 'c)) list" where
  "iter_mine_files rt = (case rt of No_Root \<Rightarrow> []
     | Root_File nm r \<Rightarrow> [([nm], r)]
     | Root_Dir es \<Rightarrow> map (\<lambda>e. (e_parts e, e_read e)) (filter eligible_file (sort_key e_parts es)))"

section \<open>Chunks\<close>

definition NL :: char where "NL = CHR 10"

definition BLANK_LINE :: string where "BLANK_LINE = [NL, NL]"

text \<open>\<open>text.split("\n\n")\<close>\<close>

fun split_paragraphs :: "string \<Rightarrow> string list" where
  "split_paragraphs [] = [[]]"
| "split_paragraphs [c] = [[c]]"
| "split_paragraphs (c # d # s) = (if c = NL \<and> d = NL then [] # split_paragraphs s
     else (case split_paragraphs (d # s) of [] \<Rightarrow> [[c]] | p # ps \<Rightarrow> (c # p) # ps))"

text \<open>\<open>[para[i : i + n] for i in range(0, len(para), n)]\<close>\<close>

definition pieces :: "nat \<Rightarrow> 'a list \<Rightarrow> 'a list list" where
  "pieces n xs = map (\<lambda>i. take n (drop (i * n) xs)) [0..<(length xs + n - 1) div n]"

fun chunk_loop :: "nat \<Rightarrow> string list \<Rightarrow> string \<Rightarrow> string list" where
  "chunk_loop n [] cur = (if py_strip cur \<noteq> [] then [cur] else [])"
| "chunk_loop n (para # ps) cur = (let candidate = (if cur \<noteq> [] then cur @ BLANK_LINE @ para else para)
     in if length candidate \<le> n then chunk_loop n ps candidate
        else (if py_strip cur \<noteq> [] then [cur] else [])
          @ (if n < length para then pieces n para @ chunk_loop n ps [] else chunk_loop n ps para))"

definition chunk_text :: "nat \<Rightarrow> string \<Rightarrow> string list" where
  "chunk_text n t = (if t = [] \<or> py_strip t = [] then []
     else if length t \<le> n then [t]
     else chunk_loop n (split_paragraphs t) [])"

section \<open>Filing\<close>

record mine_request =
  mq_wing :: string
  mq_room :: string
  mq_content :: string
  mq_source :: string

type_synonym 's sender = "mine_request \<Rightarrow> 's \<Rightarrow> (py_error + string) \<times> 's"

definition wing_of :: "string \<Rightarrow> string" where
  "wing_of resolved = ''wing_'' @ (if resolved \<noteq> [] then resolved else ''root'')"

text \<open>The calls one after the other; the first that raises ends the operation.\<close>

fun send_all :: "'s sender \<Rightarrow> mine_request list \<Rightarrow> 's \<Rightarrow> (py_error + nat) \<times> 's" where
  "send_all send [] s = (Inr 0, s)"
| "send_all send (q # qs) s = (case send q s of (Inl e, s') \<Rightarrow> (Inl e, s')
     | (Inr ref, s') \<Rightarrow> (case send_all send qs s' of (r, s'') \<Rightarrow> (bind_err r (\<lambda>n. Inr (Suc n)), s'')))"

record mine_result =
  mr_scanned :: nat
  mr_filed :: nat
  mr_errors :: "(string list \<times> string) list"

fun os_error :: "py_error \<Rightarrow> string option" where
  "os_error (OSError m) = Some m"
| "os_error (FileNotFoundError m) = Some m"
| "os_error e = None"

section \<open>Mode \<open>files\<close>\<close>

definition file_requests :: "string \<Rightarrow> string list \<Rightarrow> string \<Rightarrow> mine_request list" where
  "file_requests wng parts t = map (\<lambda>chunk. \<lparr>mq_wing = wng, mq_room = ''mine-files'', mq_content = chunk,
     mq_source = join ''/'' parts\<rparr>) (chunk_text MINE_CHUNK_CHARS t)"

fun mine_files_loop :: "'s sender \<Rightarrow> string \<Rightarrow> (string list \<times> (py_error + string)) list \<Rightarrow> mine_result \<Rightarrow> 's
    \<Rightarrow> (py_error + mine_result) \<times> 's" where
  "mine_files_loop send wng [] acc s = (Inr acc, s)"
| "mine_files_loop send wng ((parts, r) # fs) acc s = (if MINE_MAX_FILES \<le> mr_scanned acc then (Inr acc, s)
     else let acc1 = acc\<lparr>mr_scanned := mr_scanned acc + 1\<rparr> in
       case r of
         Inl e \<Rightarrow> (case os_error e of None \<Rightarrow> (Inl e, s)
           | Some m \<Rightarrow> mine_files_loop send wng fs (acc1\<lparr>mr_errors := mr_errors acc1 @ [(parts, m)]\<rparr>) s)
       | Inr t \<Rightarrow> (case send_all send (file_requests wng parts t) s of
           (Inl e, s') \<Rightarrow> (Inl e, s')
         | (Inr n, s') \<Rightarrow> mine_files_loop send wng fs (acc1\<lparr>mr_filed := mr_filed acc1 + n\<rparr>) s'))"

definition mine_start :: mine_result where
  "mine_start = \<lparr>mr_scanned = 0, mr_filed = 0, mr_errors = []\<rparr>"

definition mine_files :: "'s sender \<Rightarrow> string \<Rightarrow> string \<Rightarrow> string mine_root \<Rightarrow> 's \<Rightarrow> (py_error + mine_result) \<times> 's" where
  "mine_files send path resolved rt s = (case rt of
     No_Root \<Rightarrow> (Inl (FileNotFoundError (''mine path does not exist: '' @ path)), s)
   | _ \<Rightarrow> mine_files_loop send (wing_of resolved) (iter_mine_files rt) mine_start s)"

section \<open>Mode \<open>convos\<close>\<close>

text \<open>
  A file as \<open>json.loads\<close> sees it: one JSON value, or lines of which each is blank, malformed or a
  JSON value.
\<close>

datatype convo_line = Blank_Line | Bad_Line | Json_Line yaml
datatype convo_doc = Json_Doc yaml | Json_Lines "convo_line list"

fun is_object :: "yaml \<Rightarrow> bool" where
  "is_object (YMap m) = True"
| "is_object v = False"

fun line_records :: "convo_line list \<Rightarrow> yaml list" where
  "line_records [] = []"
| "line_records (Json_Line v # ls) = (if is_object v then v # line_records ls else line_records ls)"
| "line_records (l # ls) = line_records ls"

definition parse_convo_records :: "convo_doc \<Rightarrow> yaml list" where
  "parse_convo_records doc = (case doc of Json_Doc (YList vs) \<Rightarrow> vs | Json_Doc v \<Rightarrow> [v] | Json_Lines ls \<Rightarrow> line_records ls)"

text \<open>\<open>rec.get(a) or rec.get(b) or default\<close>\<close>

definition get_or :: "(string \<times> yaml) list \<Rightarrow> string \<Rightarrow> string \<Rightarrow> string \<Rightarrow> yaml" where
  "get_or m a b dflt = (case filter truthy (map (\<lambda>k. case map_of m k of Some v \<Rightarrow> v | None \<Rightarrow> YNull) [a, b]) of
     v # vs \<Rightarrow> v | [] \<Rightarrow> YStr dflt)"

definition convo_content :: "conversions \<Rightarrow> yaml \<Rightarrow> string" where
  "convo_content cv v = py_strip (case v of YList vs \<Rightarrow> join [NL] (map (json_text cv) vs) | _ \<Rightarrow> json_text cv v)"

text \<open>The requests of one message; \<open>get\<close> of a value that is no object raises.\<close>

definition message_requests :: "conversions \<Rightarrow> string \<Rightarrow> string \<Rightarrow> yaml \<Rightarrow> py_error + mine_request list" where
  "message_requests cv wng nm v = (case v of
     YMap m \<Rightarrow> Inr (let role = json_text cv (get_or m ''role'' ''speaker'' ''unknown'')
       in map (\<lambda>chunk. \<lparr>mq_wing = wng, mq_room = ''mine-convos'', mq_content = chunk, mq_source = nm @ '':'' @ role\<rparr>)
            (chunk_text MINE_CHUNK_CHARS (convo_content cv (get_or m ''content'' ''text'' ''''))))
   | _ \<Rightarrow> Inl (AttributeError ''object has no attribute get''))"

fun messages_loop :: "conversions \<Rightarrow> 's sender \<Rightarrow> string \<Rightarrow> string \<Rightarrow> yaml list \<Rightarrow> nat \<Rightarrow> 's \<Rightarrow> (py_error + nat) \<times> 's" where
  "messages_loop cv send wng nm [] n s = (Inr n, s)"
| "messages_loop cv send wng nm (v # vs) n s = (case message_requests cv wng nm v of Inl e \<Rightarrow> (Inl e, s)
     | Inr qs \<Rightarrow> (case send_all send qs s of (Inl e, s') \<Rightarrow> (Inl e, s')
         | (Inr k, s') \<Rightarrow> messages_loop cv send wng nm vs (n + k) s'))"

fun mine_convos_loop :: "conversions \<Rightarrow> 's sender \<Rightarrow> string \<Rightarrow> (string list \<times> (py_error + convo_doc)) list \<Rightarrow> mine_result \<Rightarrow> 's
    \<Rightarrow> (py_error + mine_result) \<times> 's" where
  "mine_convos_loop cv send wng [] acc s = (Inr acc, s)"
| "mine_convos_loop cv send wng ((parts, r) # fs) acc s = (let acc1 = acc\<lparr>mr_scanned := mr_scanned acc + 1\<rparr> in
     case r of
       Inl e \<Rightarrow> (case os_error e of None \<Rightarrow> (Inl e, s)
         | Some m \<Rightarrow> mine_convos_loop cv send wng fs (acc1\<lparr>mr_errors := mr_errors acc1 @ [(parts, m)]\<rparr>) s)
     | Inr doc \<Rightarrow> (case messages_loop cv send wng (last parts) (parse_convo_records doc) (mr_filed acc1) s of
         (Inl e, s') \<Rightarrow> (Inl e, s')
       | (Inr n, s') \<Rightarrow> mine_convos_loop cv send wng fs (acc1\<lparr>mr_filed := n\<rparr>) s'))"

text \<open>\<open>sorted(root.rglob("*.json*"))\<close>\<close>

definition convo_files :: "'c mine_root \<Rightarrow> (string list \<times> (py_error + 'c)) list" where
  "convo_files rt = (case rt of No_Root \<Rightarrow> []
     | Root_File nm r \<Rightarrow> [([nm], r)]
     | Root_Dir es \<Rightarrow> map (\<lambda>e. (e_parts e, e_read e)) (filter (\<lambda>e. contains ''.json'' (last (e_parts e))) (sort_key e_parts es)))"

definition mine_convos :: "conversions \<Rightarrow> 's sender \<Rightarrow> string \<Rightarrow> string \<Rightarrow> string \<Rightarrow> convo_doc mine_root \<Rightarrow> 's
    \<Rightarrow> (py_error + mine_result) \<times> 's" where
  "mine_convos cv send path resolved resolved_parent rt s = (case rt of
     No_Root \<Rightarrow> (Inl (FileNotFoundError (''mine path does not exist: '' @ path)), s)
   | Root_File nm r \<Rightarrow> mine_convos_loop cv send (wing_of resolved_parent) (convo_files rt) mine_start s
   | Root_Dir es \<Rightarrow> mine_convos_loop cv send (wing_of resolved) (convo_files rt) mine_start s)"

section \<open>Lemmas on chunks\<close>

lemma split_paragraphs_nonempty [simp]: "split_paragraphs s \<noteq> []"
  by (induction s rule: split_paragraphs.induct) (auto split: list.split)

lemma split_paragraphs_join: "join BLANK_LINE (split_paragraphs s) = s"
proof (induction s rule: split_paragraphs.induct)
  case (3 c d s)
  show ?case
  proof (cases "c = NL \<and> d = NL")
    case True
    then show ?thesis using 3(1) by (cases "split_paragraphs s") (auto simp: BLANK_LINE_def)
  next
    case False
    then obtain p ps where "split_paragraphs (d # s) = p # ps" by (cases "split_paragraphs (d # s)") auto
    then show ?thesis using 3(2) False by (cases ps) (auto split: if_splits)
  qed
qed simp_all


lemma join_Cons: "ps \<noteq> [] \<Longrightarrow> join sep (p # ps) = p @ sep @ join sep ps"
  by (cases ps) simp_all

lemma pieces_concat: "0 < n \<Longrightarrow> concat (pieces n xs) = xs"
proof -
  assume n: "0 < n"
  have "concat (map (\<lambda>i. take n (drop (i * n) xs)) [0..<k]) = take (k * n) xs" for k
  proof (induction k)
    case (Suc k)
    then show ?case by (simp add: take_add [symmetric] add.commute)
  qed simp
  moreover have "length xs \<le> (length xs + n - 1) div n * n"
  proof -
    have "length xs + n - 1 < ((length xs + n - 1) div n + 1) * n"
      using n div_mult_mod_eq [of "length xs + n - 1" n] mod_less_divisor [OF n, of "length xs + n - 1"]
      by (metis add.commute add_less_cancel_left distrib_right mult_1)
    then show ?thesis using n by (simp add: algebra_simps)
  qed
  ultimately show ?thesis unfolding pieces_def by simp
qed

lemma pieces_length: "c \<in> set (pieces n xs) \<Longrightarrow> length c \<le> n"
  by (auto simp: pieces_def)

lemma pieces_sublist: "c \<in> set (pieces n xs) \<Longrightarrow> sublist c xs"
  by (auto simp: pieces_def) (meson sublist_drop sublist_take sublist_order.order.trans)


lemma pieces_ne: "0 < n \<Longrightarrow> c \<in> set (pieces n xs) \<Longrightarrow> c \<noteq> []"
proof -
  assume n: "0 < n" and c: "c \<in> set (pieces n xs)"
  then obtain i where i: "i < (length xs + n - 1) div n" "c = take n (drop (i * n) xs)" by (auto simp: pieces_def)
  have "Suc i * n \<le> (length xs + n - 1) div n * n" using i(1) by (intro mult_le_mono1) simp
  also have "\<dots> \<le> length xs + n - 1" by simp
  finally have "i * n < length xs" using n by simp
  then show "c \<noteq> []" using i(2) n by simp
qed

text \<open>The characters that are no white space.\<close>

abbreviation ink :: "string \<Rightarrow> string" where "ink s \<equiv> filter (\<lambda>c. \<not> is_space c) s"

lemma py_strip_ink: "py_strip s = [] \<longleftrightarrow> ink s = []"
proof (cases "dropWhile is_space s")
  case Nil
  then have "\<forall>c \<in> set s. is_space c" by (simp add: dropWhile_eq_Nil_conv)
  moreover have "py_strip s = []" unfolding py_strip_def Nil by simp
  ultimately show ?thesis by (simp add: filter_empty_conv)
next
  case (Cons c cs)
  have c: "\<not> is_space c" "c \<in> set s"
    using hd_dropWhile [of is_space s] set_dropWhileD [of c is_space s] Cons by simp_all
  then have "ink s \<noteq> []" by (auto simp: filter_empty_conv)
  moreover have "py_strip s \<noteq> []" unfolding py_strip_def Cons using c(1) by (simp add: dropWhile_eq_Nil_conv)
  ultimately show ?thesis by simp
qed

lemma ink_blank_line: "ink BLANK_LINE = []"
  by (simp add: BLANK_LINE_def NL_def is_space_def)

lemma ink_join_blank_lines: "ink (join BLANK_LINE ps) = ink (concat ps)"
  by (induction BLANK_LINE ps rule: join.induct) (simp_all add: ink_blank_line)

lemma chunk_loop_length: "length cur \<le> n \<Longrightarrow> c \<in> set (chunk_loop n ps cur) \<Longrightarrow> length c \<le> n"
  by (induction n ps cur rule: chunk_loop.induct) (auto simp: Let_def pieces_length split: if_splits)

lemma chunk_loop_ne: "0 < n \<Longrightarrow> c \<in> set (chunk_loop n ps cur) \<Longrightarrow> c \<noteq> []"
  by (induction n ps cur rule: chunk_loop.induct) (auto simp: Let_def py_strip_ink dest: pieces_ne split: if_splits)

lemma chunk_loop_ink: "0 < n \<Longrightarrow> ink (concat (chunk_loop n ps cur)) = ink cur @ ink (concat ps)"
  by (induction n ps cur rule: chunk_loop.induct)
     (auto simp: Let_def py_strip_ink ink_blank_line pieces_concat simp del: filter_concat)


text \<open>What is left of the text from the current chunk on.\<close>

definition remaining :: "string \<Rightarrow> string list \<Rightarrow> string" where
  "remaining cur ps = (if ps = [] then cur else if cur = [] then join BLANK_LINE ps else cur @ BLANK_LINE @ join BLANK_LINE ps)"

lemma remaining_prefix: "prefix cur (remaining cur ps)"
  by (simp add: remaining_def)

lemma remaining_candidate:
  "suffix (remaining (if cur \<noteq> [] then cur @ BLANK_LINE @ p else p) ps) (remaining cur (p # ps))"
  by (cases "ps = []") (auto simp: remaining_def join_Cons suffix_def)

lemma remaining_tail: "suffix (remaining [] ps) (remaining cur (p # ps))" "suffix (remaining p ps) (remaining cur (p # ps))"
  by (cases "ps = []"; auto simp: remaining_def join_Cons suffix_def)+

lemma chunk_loop_sublist: "c \<in> set (chunk_loop n ps cur) \<Longrightarrow> sublist c (remaining cur ps)"
proof (induction n ps cur rule: chunk_loop.induct)
  case (1 n cur)
  then show ?case by (auto simp: remaining_def split: if_splits)
next
  case (2 n p ps cur)
  have tr: "sublist c (remaining cur (p # ps))" if "sublist c x" "suffix x (remaining cur (p # ps))" for x
    using that by (metis sublist_order.order.trans suffix_imp_sublist)
  show ?case
  proof (cases "length (if cur \<noteq> [] then cur @ BLANK_LINE @ p else p) \<le> n")
    case True
    then show ?thesis using 2(1,4) tr [OF _ remaining_candidate] by (simp add: Let_def)
  next
    case False
    then consider "c = cur" | "n < length p" "c \<in> set (pieces n p)" | "n < length p" "c \<in> set (chunk_loop n ps [])"
      | "\<not> n < length p" "c \<in> set (chunk_loop n ps p)"
      using 2(4) by (auto simp: Let_def split: if_splits)
    then show ?thesis
    proof cases
      case 1
      then show ?thesis using remaining_prefix by (metis prefix_imp_sublist)
    next
      case 2
      have "sublist c (remaining p ps)"
        using pieces_sublist [OF 2(2)] remaining_prefix [of p ps] by (metis prefix_imp_sublist sublist_order.order.trans)
      then show ?thesis by (rule tr) (rule remaining_tail)
    next
      case 3
      then show ?thesis using 2(2) [OF HOL.refl False 3(1,2)] tr [OF _ remaining_tail(1)] by blast
    next
      case 4
      then show ?thesis using 2(3) [OF HOL.refl False 4(1,2)] tr [OF _ remaining_tail(2)] by blast
    qed
  qed
qed

text \<open>A paragraph that fits is not cut.\<close>

lemma chunk_loop_keeps:
  "sublist q cur \<and> ink q \<noteq> [] \<or> q \<in> set ps \<and> ink q \<noteq> [] \<and> length q \<le> n \<Longrightarrow> \<exists>c \<in> set (chunk_loop n ps cur). sublist q c"
proof (induction n ps cur rule: chunk_loop.induct)
  case (1 n cur)
  then have "ink cur \<noteq> []" by (auto simp: sublist_def)
  then show ?case using 1 by (auto simp: py_strip_ink)
next
  case (2 n p ps cur)
  let ?cand = "if cur \<noteq> [] then cur @ BLANK_LINE @ p else p"
  show ?case
  proof (cases "length ?cand \<le> n")
    case True
    have "sublist q ?cand \<and> ink q \<noteq> [] \<or> q \<in> set ps \<and> ink q \<noteq> [] \<and> length q \<le> n"
      using 2(4) by (auto simp: sublist_appendI sublist_append_leftI sublist_append_rightI sublist_append)
    then show ?thesis using 2(1) [OF HOL.refl True] True by (simp add: Let_def)
  next
    case False
    note step = 2(2) [OF HOL.refl False] 2(3) [OF HOL.refl False]
    consider "sublist q cur" "ink q \<noteq> []" | "q = p" "ink q \<noteq> []" "length q \<le> n" | "q \<in> set ps" "ink q \<noteq> []" "length q \<le> n"
      using 2(4) by auto
    then show ?thesis
    proof cases
      case 1
      then have "ink cur \<noteq> []" by (auto simp: sublist_def)
      then show ?thesis using 1 False by (auto simp: py_strip_ink Let_def)
    next
      case c2: 2
      then have "\<not> n < length p" by simp
      then show ?thesis using step(2) c2 False by (auto simp: Let_def)
    next
      case 3
      then show ?thesis using step False by (cases "n < length p") (auto simp: Let_def)
    qed
  qed
qed


lemma sublist_join: "x \<in> set xs \<Longrightarrow> sublist x (join sep xs)"
proof (induction sep xs rule: join.induct)
  case (3 sep y z xs)
  then consider "x = y" | "sublist x (join sep (z # xs))" by auto
  then show ?case
  proof cases
    case 2
    then show ?thesis by (simp add: sublist_append)
  qed (simp add: sublist_appendI [of y "[]", simplified])
qed simp_all

text \<open>
  C24: the chunks hold the text.  Every chunk is a part of the text as it stands, of at most \<open>n\<close>
  characters; the chunks together hold every character
  of the text that is no white space, in its order; a paragraph that fits into a chunk is cut nowhere.
\<close>
theorem chunks_hold_the_text:
  assumes "0 < n"
  shows "(\<forall>c \<in> set (chunk_text n t). c \<noteq> [] \<and> length c \<le> n \<and> sublist c t)
    \<and> ink (concat (chunk_text n t)) = ink t
    \<and> (\<forall>para \<in> set (split_paragraphs t). length para \<le> n \<and> ink para \<noteq> [] \<longrightarrow> (\<exists>c \<in> set (chunk_text n t). sublist para c))"
proof -
  let ?ps = "split_paragraphs t"
  have t: "remaining [] ?ps = t" "ink (concat ?ps) = ink t"
    using split_paragraphs_join [of t] by (simp_all add: remaining_def flip: ink_join_blank_lines)
  have para: "sublist para t \<and> (ink para \<noteq> [] \<longrightarrow> ink t \<noteq> [])" if "para \<in> set ?ps" for para
  proof -
    have "ink para \<noteq> [] \<longrightarrow> ink t \<noteq> []" using that unfolding t(2) [symmetric] by (force simp: filter_empty_conv)
    then show ?thesis using sublist_join [OF that, of BLANK_LINE] split_paragraphs_join by simp
  qed
  consider "ink t = []" | "ink t \<noteq> []" "length t \<le> n" | "ink t \<noteq> []" "n < length t" by linarith
  then show ?thesis
  proof cases
    case 1
    then show ?thesis using para by (auto simp: chunk_text_def py_strip_ink)
  next
    case 2
    then have "chunk_text n t = [t]" by (auto simp: chunk_text_def py_strip_ink)
    then show ?thesis using 2 para by auto
  next
    case 3
    then have c: "chunk_text n t = chunk_loop n ?ps []" by (auto simp: chunk_text_def py_strip_ink)
    show ?thesis unfolding c
      using chunk_loop_length [of "[]" n _ ?ps] chunk_loop_ne [OF assms] chunk_loop_sublist [of _ n ?ps "[]"]
        chunk_loop_ink [OF assms, of ?ps "[]"] chunk_loop_keeps [of _ "[]" ?ps n] t by auto
  qed
qed

theorem chunks_hold_the_text_witness:
  "list_all (\<lambda>c. length c \<le> 3) (chunk_text 3 ''ab'') \<and> ink (concat (chunk_text 3 ''a b'')) = ''ab''"
proof -
  have "ink (concat (chunk_text 3 ''a b'')) = ink ''a b''" using chunks_hold_the_text [of 3 "''a b''"] by simp
  moreover have "list_all (\<lambda>c. length c \<le> 3) (chunk_text 3 ''ab'')"
    using chunks_hold_the_text [of 3 "''ab''"] by (simp add: list_all_iff)
  ultimately show ?thesis by (simp add: is_space_def)
qed

text \<open>The calls of a run, and the store after the first \<open>k\<close> of them.\<close>

definition after_sends :: "'s sender \<Rightarrow> mine_request list \<Rightarrow> 's \<Rightarrow> 's" where
  "after_sends send qs s = fold (\<lambda>q st. snd (send q st)) qs s"

lemma after_sends_simps [simp]:
  "after_sends send [] s = s" "after_sends send (q # qs) s = after_sends send qs (snd (send q s))"
  "after_sends send (qs @ ps) s = after_sends send ps (after_sends send qs s)"
  by (simp_all add: after_sends_def)

text \<open>A run that made the calls \<open>made\<close> of \<open>qs\<close>: all of them, or up to one that raised.\<close>

definition sent :: "'s sender \<Rightarrow> mine_request list \<Rightarrow> mine_request list \<Rightarrow> py_error + 'x \<Rightarrow> 's \<Rightarrow> 's \<Rightarrow> bool" where
  "sent send qs made r s s' \<longleftrightarrow> prefix made qs \<and> s' = after_sends send made s
     \<and> (case r of Inr n \<Rightarrow> made = qs
        | Inl e \<Rightarrow> made \<noteq> [] \<and> fst (send (last made) (after_sends send (butlast made) s)) = Inl e)"

lemma sent_error: "sent send qs made (Inl e) s s' \<Longrightarrow> sent send (qs @ ps) made (Inl e) s s'"
  by (auto simp: sent_def)

lemma sent_append:
  assumes "sent send qs made (Inr n) s s1" and "sent send ps made' r s1 s2"
  shows "sent send (qs @ ps) (qs @ made') r s s2"
  using assms by (auto simp: sent_def butlast_append split: sum.split)

lemma send_all_sent:
  "\<exists>made. sent send qs made (fst (send_all send qs s)) s (snd (send_all send qs s))
     \<and> (\<forall>n. fst (send_all send qs s) = Inr n \<longrightarrow> n = length qs)"
proof (induction qs arbitrary: s)
  case Nil
  show ?case by (simp add: sent_def)
next
  case (Cons q qs)
  obtain r s1 where q: "send q s = (r, s1)" by (rule prod.exhaust)
  show ?case
  proof (cases r)
    case (Inl e)
    then show ?thesis using q by (intro exI [of _ "[q]"]) (auto simp: sent_def)
  next
    case (Inr ref)
    obtain r2 s2 where r2: "send_all send qs s1 = (r2, s2)" by (rule prod.exhaust)
    obtain made where m: "sent send qs made r2 s1 s2" "\<forall>n. r2 = Inr n \<longrightarrow> n = length qs"
      using Cons [of s1] r2 by auto
    have one: "sent send [q] [q] (Inr ()) s s1" using q by (simp add: sent_def)
    have "sent send (q # qs) (q # made) (bind_err r2 (\<lambda>n. Inr (Suc n))) s s2"
      using sent_append [OF one m(1)] by (cases r2) (simp_all add: sent_def)
    then show ?thesis using m(2) q Inr r2 by (intro exI [of _ "q # made"]) (auto simp: bind_err_Inr)
  qed
qed

text \<open>The requests of a list of files, and the errors of those that cannot be read.\<close>

definition requests_of :: "string \<Rightarrow> (string list \<times> (py_error + string)) list \<Rightarrow> mine_request list" where
  "requests_of wng fs = concat (map (\<lambda>(parts, r). case r of Inr t \<Rightarrow> file_requests wng parts t | Inl e \<Rightarrow> []) fs)"

definition read_errors :: "(string list \<times> (py_error + 'c)) list \<Rightarrow> (string list \<times> string) list" where
  "read_errors fs = concat (map (\<lambda>(parts, r). case r of Inr t \<Rightarrow> []
     | Inl e \<Rightarrow> (case os_error e of Some m \<Rightarrow> [(parts, m)] | None \<Rightarrow> [])) fs)"

definition reads_or_os_error :: "(string list \<times> (py_error + 'c)) list \<Rightarrow> bool" where
  "reads_or_os_error fs \<longleftrightarrow> (\<forall>(parts, r) \<in> set fs. \<forall>e. r = Inl e \<longrightarrow> os_error e \<noteq> None)"

lemma requests_of_Cons: "requests_of wng ((parts, r) # fs) =
    (case r of Inr t \<Rightarrow> file_requests wng parts t | Inl e \<Rightarrow> []) @ requests_of wng fs"
  by (simp add: requests_of_def)

text \<open>The counts after these files.\<close>

definition mine_total :: "mine_result \<Rightarrow> string \<Rightarrow> (string list \<times> (py_error + string)) list \<Rightarrow> mine_result" where
  "mine_total acc wng fs = \<lparr>mr_scanned = mr_scanned acc + length fs,
     mr_filed = mr_filed acc + length (requests_of wng fs), mr_errors = mr_errors acc @ read_errors fs\<rparr>"

lemma mine_files_loop_sent:
  assumes "reads_or_os_error fs" and "mine_files_loop send wng fs acc s = (r, s')"
    and "mr_scanned acc + k = MINE_MAX_FILES"
  shows "\<exists>made. sent send (requests_of wng (take k fs)) made r s s'
     \<and> (\<forall>m. r = Inr m \<longrightarrow> m = mine_total acc wng (take k fs))"
  using assms
proof (induction send wng fs acc s arbitrary: k r s' rule: mine_files_loop.induct)
  case (1 send wng acc s)
  then show ?case by (auto simp: sent_def requests_of_def read_errors_def mine_total_def)
next
  case (2 send wng parts f fs acc s)
  show ?case
  proof (cases k)
    case 0
    then show ?thesis using 2(4,5) by (auto simp: sent_def requests_of_def read_errors_def mine_total_def)
  next
    case (Suc k')
    have lt: "\<not> MINE_MAX_FILES \<le> mr_scanned acc" using Suc 2(5) by simp
    have rest: "reads_or_os_error fs" using 2(3) by (auto simp: reads_or_os_error_def)
    let ?acc = "acc\<lparr>mr_scanned := mr_scanned acc + 1\<rparr>"
    show ?thesis
    proof (cases f)
      case (Inl e)
      then obtain m where m: "os_error e = Some m" using 2(3) by (auto simp: reads_or_os_error_def)
      let ?acc2 = "?acc\<lparr>mr_errors := mr_errors ?acc @ [(parts, m)]\<rparr>"
      have run: "mine_files_loop send wng fs ?acc2 s = (r, s')" using 2(4) Inl m lt by (simp add: Let_def)
      have k': "mr_scanned ?acc2 + k' = MINE_MAX_FILES" using 2(5) Suc by simp
      obtain made where made: "sent send (requests_of wng (take k' fs)) made r s s'"
        "\<forall>m'. r = Inr m' \<longrightarrow> m' = mine_total ?acc2 wng (take k' fs)"
        using 2(1) [OF lt HOL.refl Inl m rest run k'] by blast
      have "requests_of wng (take k ((parts, f) # fs)) = requests_of wng (take k' fs)"
        "mine_total ?acc2 wng (take k' fs) = mine_total acc wng (take k ((parts, f) # fs))"
        unfolding Suc using Inl m by (simp_all add: requests_of_Cons read_errors_def mine_total_def)
      then show ?thesis using made by metis
    next
      case (Inr t)
      obtain r1 s1 where r1: "send_all send (file_requests wng parts t) s = (r1, s1)" by (rule prod.exhaust)
      obtain made1 where m1: "sent send (file_requests wng parts t) made1 r1 s s1"
          "\<forall>n. r1 = Inr n \<longrightarrow> n = length (file_requests wng parts t)"
        using send_all_sent [of send "file_requests wng parts t" s] r1 by auto
      show ?thesis
      proof (cases r1)
        case err: (Inl e)
        then have "r = Inl e \<and> s' = s1" using 2(4) Inr lt r1 by (simp add: Let_def)
        then show ?thesis using sent_error [of send _ made1 e s s1 "requests_of wng (take k' fs)"] m1(1) err Inr Suc
          by (intro exI [of _ made1]) (simp add: requests_of_Cons)
      next
        case ok: (Inr n)
        let ?acc2 = "?acc\<lparr>mr_filed := mr_filed ?acc + n\<rparr>"
        have run: "mine_files_loop send wng fs ?acc2 s1 = (r, s')" using 2(4) Inr lt r1 ok by (simp add: Let_def)
        have k': "mr_scanned ?acc2 + k' = MINE_MAX_FILES" using 2(5) Suc by simp
        obtain made where made: "sent send (requests_of wng (take k' fs)) made r s1 s'"
          "\<forall>m'. r = Inr m' \<longrightarrow> m' = mine_total ?acc2 wng (take k' fs)"
          using 2(2) [OF lt HOL.refl Inr r1 [symmetric] ok rest run k'] by blast
        have eq: "requests_of wng (take k ((parts, f) # fs)) = file_requests wng parts t @ requests_of wng (take k' fs)"
          "mine_total ?acc2 wng (take k' fs) = mine_total acc wng (take k ((parts, f) # fs))"
          unfolding Suc using Inr m1(2) ok by (simp_all add: requests_of_Cons read_errors_def mine_total_def)
        have "sent send (requests_of wng (take k ((parts, f) # fs))) (file_requests wng parts t @ made) r s s'"
          unfolding eq by (rule sent_append [OF m1(1) [unfolded ok] made(1)])
        then show ?thesis using made(2) eq(2) by metis
      qed
    qed
  qed
qed


lemma mine_files_run:
  assumes "rt \<noteq> No_Root" and "reads_or_os_error (iter_mine_files rt)"
    and "mine_files send path resolved rt s = (r, s')"
  shows "let fs = take MINE_MAX_FILES (iter_mine_files rt); wng = wing_of resolved in
    (\<exists>made. sent send (requests_of wng fs) made r s s') \<and> (\<forall>m. r = Inr m \<longrightarrow> m = mine_total mine_start wng fs)"
proof -
  have run: "mine_files_loop send (wing_of resolved) (iter_mine_files rt) mine_start s = (r, s')"
    using assms(1,3) by (cases rt) (simp_all add: mine_files_def)
  have "mr_scanned mine_start + MINE_MAX_FILES = MINE_MAX_FILES" by (simp add: mine_start_def)
  from mine_files_loop_sent [OF assms(2) run this] show ?thesis by (auto simp: Let_def)
qed

text \<open>
  mining files.  The chunks of the first 500 eligible files are filed one after the other, in the
  order of their paths.  A run that ends filed every one of them, and reports the number of files,
  the number of chunks and the files that could not be read; a run that raises ends at a call that
  raised, and what was filed before it stays.
\<close>
theorem mine_files_files_every_chunk:
  assumes "rt \<noteq> No_Root" and "reads_or_os_error (iter_mine_files rt)"
    and "mine_files send path resolved rt s = (r, s')"
  shows "let fs = take MINE_MAX_FILES (iter_mine_files rt); wng = wing_of resolved in
    (\<exists>made. sent send (requests_of wng fs) made r s s') \<and> (\<forall>m. r = Inr m \<longrightarrow> m = mine_total mine_start wng fs)"
  by (rule mine_files_run [OF assms])

text \<open>A tree of two files, the second in a hidden directory.\<close>

definition demo_tree :: "string mine_root" where
  "demo_tree = Root_Dir [\<lparr>e_parts = [''.git'', ''notes.md''], e_is_file = True, e_read = Inr ''hidden''\<rparr>,
     \<lparr>e_parts = [''a.md''], e_is_file = True, e_read = Inr ''hello''\<rparr>]"

lemma demo_tree_files: "iter_mine_files demo_tree = [([''a.md''], Inr ''hello'')]"
  by (simp add: demo_tree_def iter_mine_files_def eligible_file_def starts_with_def split_suffix_def dot_def
      MINE_FILE_EXTENSIONS_def py_lower_def lower_char_def sort_key_def)

theorem mine_files_files_every_chunk_witness:
  "\<exists>m. mine_files (\<lambda>q st. (Inr ''ref'', st @ [q])) ''.'' ''repo'' demo_tree []
     = (Inr m, [\<lparr>mq_wing = ''wing_repo'', mq_room = ''mine-files'', mq_content = ''hello'', mq_source = ''a.md''\<rparr>]) \<and> mr_filed m = 1"
proof -
  obtain r s' where run: "mine_files (\<lambda>q st. (Inr ''ref'', st @ [q])) ''.'' ''repo'' demo_tree [] = (r, s')" by (rule prod.exhaust)
  have "rt \<noteq> No_Root" if "rt = demo_tree" for rt :: "string mine_root" using that by (simp add: demo_tree_def)
  then have ne: "demo_tree \<noteq> No_Root" by blast
  have reads: "reads_or_os_error (iter_mine_files demo_tree)" by (simp add: demo_tree_files reads_or_os_error_def)
  have q: "requests_of (wing_of ''repo'') (take MINE_MAX_FILES (iter_mine_files demo_tree)) =
      [\<lparr>mq_wing = ''wing_repo'', mq_room = ''mine-files'', mq_content = ''hello'', mq_source = ''a.md''\<rparr>]"
    by (simp add: demo_tree_files requests_of_def file_requests_def wing_of_def chunk_text_def MINE_CHUNK_CHARS_def
        MINE_MAX_FILES_def py_strip_def is_space_def)
  show ?thesis
    using mine_files_files_every_chunk [OF ne reads run] unfolding Let_def q
    by (cases r) (auto simp: sent_def run after_sends_def mine_total_def q mine_start_def prefix_Cons)
qed


section \<open>Conversations\<close>

text \<open>A sender that raises never, and the requests of messages that are objects.\<close>

definition never_raises :: "'s sender \<Rightarrow> bool" where
  "never_raises send \<longleftrightarrow> (\<forall>q s. \<exists>ref s'. send q s = (Inr ref, s'))"

definition message_requests_of :: "conversions \<Rightarrow> string \<Rightarrow> string \<Rightarrow> yaml list \<Rightarrow> mine_request list" where
  "message_requests_of cv wng nm vs = concat (map (\<lambda>v. case message_requests cv wng nm v of Inr qs \<Rightarrow> qs | Inl e \<Rightarrow> []) vs)"

definition convo_requests_of :: "conversions \<Rightarrow> string \<Rightarrow> (string list \<times> (py_error + convo_doc)) list \<Rightarrow> mine_request list" where
  "convo_requests_of cv wng fs = concat (map (\<lambda>(parts, r). case r of Inl e \<Rightarrow> []
     | Inr doc \<Rightarrow> message_requests_of cv wng (last parts) (parse_convo_records doc)) fs)"

lemma send_all_ok: "never_raises send \<Longrightarrow> send_all send qs s = (Inr (length qs), after_sends send qs s)"
proof (induction qs arbitrary: s)
  case (Cons q qs)
  obtain ref s1 where q: "send q s = (Inr ref, s1)" using Cons.prems by (meson never_raises_def)
  then show ?case using Cons.IH [OF Cons.prems, of s1] by simp
qed simp

lemma message_requests_object: "is_object v \<Longrightarrow> \<exists>qs. message_requests cv wng nm v = Inr qs"
  by (cases v) (simp_all add: message_requests_def Let_def)

lemma message_requests_other: "\<not> is_object v \<Longrightarrow> message_requests cv wng nm v = Inl (AttributeError ''object has no attribute get'')"
  by (cases v) (simp_all add: message_requests_def)

lemma messages_loop_objects:
  assumes "never_raises send" and "\<forall>v \<in> set vs. is_object v"
  shows "messages_loop cv send wng nm (vs @ ws) n s =
    messages_loop cv send wng nm ws (n + length (message_requests_of cv wng nm vs)) (after_sends send (message_requests_of cv wng nm vs) s)"
  using assms(2)
proof (induction vs arbitrary: n s)
  case Nil
  then show ?case by (simp add: message_requests_of_def)
next
  case (Cons v vs)
  obtain qs where qs: "message_requests cv wng nm v = Inr qs" using message_requests_object [of v cv wng nm] Cons.prems by auto
  then have "message_requests_of cv wng nm (v # vs) = qs @ message_requests_of cv wng nm vs" by (simp add: message_requests_of_def)
  then show ?case using Cons qs by (simp add: send_all_ok [OF assms(1)] add.assoc)
qed

definition well_formed_doc :: "convo_doc \<Rightarrow> bool" where
  "well_formed_doc doc \<longleftrightarrow> (\<forall>v \<in> set (parse_convo_records doc). is_object v)"

lemma line_records_objects: "v \<in> set (line_records ls) \<Longrightarrow> is_object v"
  by (induction ls rule: line_records.induct) (auto split: if_splits)

lemma lines_are_well_formed: "well_formed_doc (Json_Lines ls)"
  by (simp add: well_formed_doc_def parse_convo_records_def line_records_objects)

lemma mine_convos_loop_well_formed:
  assumes "never_raises send" and "reads_or_os_error fs" and "\<forall>(parts, r) \<in> set fs. \<forall>doc. r = Inr doc \<longrightarrow> well_formed_doc doc"
  shows "mine_convos_loop cv send wng (fs @ gs) acc s = mine_convos_loop cv send wng gs
     \<lparr>mr_scanned = mr_scanned acc + length fs, mr_filed = mr_filed acc + length (convo_requests_of cv wng fs),
      mr_errors = mr_errors acc @ read_errors fs\<rparr> (after_sends send (convo_requests_of cv wng fs) s)"
  using assms(2,3)
proof (induction fs arbitrary: acc s)
  case Nil
  then show ?case by (cases acc) (simp add: convo_requests_of_def read_errors_def)
next
  case (Cons f fs)
  obtain parts r where f: "f = (parts, r)" by (rule prod.exhaust)
  have tl: "reads_or_os_error fs" "\<forall>(parts, r) \<in> set fs. \<forall>doc. r = Inr doc \<longrightarrow> well_formed_doc doc"
    using Cons.prems by (auto simp: reads_or_os_error_def)
  show ?case
  proof (cases r)
    case (Inl e)
    then obtain m where "os_error e = Some m" using Cons.prems(1) f by (auto simp: reads_or_os_error_def)
    then show ?thesis using f Inl by (simp add: Let_def Cons.IH [OF tl] convo_requests_of_def read_errors_def)
  next
    case (Inr doc)
    have "\<forall>v \<in> set (parse_convo_records doc). is_object v" using Cons.prems(2) f Inr by (auto simp: well_formed_doc_def)
    from messages_loop_objects [OF assms(1) this, where ws = "[]"] show ?thesis
      using f Inr by (simp add: Let_def Cons.IH [OF tl] convo_requests_of_def read_errors_def add.assoc)
  qed
qed

text \<open>
  mining conversations.  Where every file is read, or fails with an error of the file system,
  and holds objects only, as a JSON-lines file always does, every chunk of every message is filed in
  order, and the summary counts them.  One value that is no object, in a file that is a single JSON
  document, ends the operation with an error: the messages before it are filed, no later message
  and no later file is.
\<close>
theorem non_object_message_aborts_mining:
  assumes "never_raises send" and "reads_or_os_error fs" and "\<forall>(parts, r) \<in> set fs. \<forall>doc. r = Inr doc \<longrightarrow> well_formed_doc doc"
    and "\<forall>u \<in> set us. is_object u" and "\<not> is_object v"
  shows "mine_convos_loop cv send wng fs mine_start s =
      (Inr \<lparr>mr_scanned = length fs, mr_filed = length (convo_requests_of cv wng fs), mr_errors = read_errors fs\<rparr>,
       after_sends send (convo_requests_of cv wng fs) s)
    \<and> mine_convos_loop cv send wng (fs @ (parts, Inr (Json_Doc (YList (us @ v # vs)))) # gs) mine_start s =
      (Inl (AttributeError ''object has no attribute get''),
       after_sends send (convo_requests_of cv wng fs @ message_requests_of cv wng (last parts) us) s)"
proof -
  note loop = mine_convos_loop_well_formed [OF assms(1-3)]
  show ?thesis
    using loop [of cv wng "[]" mine_start s] messages_loop_objects [OF assms(1,4)]
    by (simp add: loop mine_start_def Let_def parse_convo_records_def message_requests_other [OF assms(5)])
qed

theorem non_object_message_aborts_mining_witness:
  "mine_convos_loop demo_conversions (\<lambda>q st. (Inr ''ref'', st @ [q])) ''wing_x''
     [([''a.json''], Inr (Json_Doc (YList [YStr ''plain'']))), ([''b.jsonl''], Inr (Json_Lines [Json_Line (YMap [(''content'', YStr ''hi'')])]))]
     mine_start [] = (Inl (AttributeError ''object has no attribute get''), [])"
proof -
  have ok: "never_raises (\<lambda>q st. (Inr ''ref'', st @ [q]))" by (simp add: never_raises_def)
  have hyps: "reads_or_os_error []" "\<forall>(parts, r) \<in> set []. \<forall>doc. r = Inr doc \<longrightarrow> well_formed_doc doc"
      "\<forall>u \<in> set []. is_object u" "\<not> is_object (YStr ''plain'')"
    by (simp_all add: reads_or_os_error_def)
  show ?thesis
    using conjunct2 [OF non_object_message_aborts_mining [OF ok hyps, of demo_conversions "''wing_x''" "[]" "[''a.json'']" "[]"
      "[([''b.jsonl''], Inr (Json_Lines [Json_Line (YMap [(''content'', YStr ''hi'')])]))]"]]
    unfolding convo_requests_of_def message_requests_of_def by simp
qed

end
