(* ===== verification/Rpc.thy ===== *)
theory Rpc
  imports Garden Manifest
begin

text \<open>
  The daemon's domain tools over JSON (\<open>daemon.py\<close>, \<open>_dispatch_domain\<close>) and the client's calls of
  them (\<open>client.py\<close>, \<open>MemoryClient\<close>).  Requests and replies are JSON values; encoding them for the
  wire and decoding them there are inverse library calls.  A service is the store, the embedder and
  the lenses the tools work with.
\<close>

section \<open>JSON\<close>

type_synonym json_args = "(string \<times> yaml) list"

definition arg_or :: "json_args \<Rightarrow> string \<Rightarrow> yaml \<Rightarrow> yaml" where
  "arg_or args k dflt = (case map_of args k of Some v \<Rightarrow> v | None \<Rightarrow> dflt)"

definition opt_json :: "string option \<Rightarrow> yaml" where
  "opt_json x = (case x of None \<Rightarrow> YNull | Some s \<Rightarrow> YStr s)"

definition opt_num :: "real option \<Rightarrow> yaml" where
  "opt_num x = (case x of None \<Rightarrow> YNull | Some r \<Rightarrow> YFloat r)"

text \<open>An optional string of a request, as the store's string options read it.\<close>

definition opt_text :: "conversions \<Rightarrow> yaml \<Rightarrow> string option" where
  "opt_text cv v = (case v of YNull \<Rightarrow> None | _ \<Rightarrow> Some (json_text cv v))"

text \<open>
  The importance goes to the store as it was sent and is filed as its text.  A float is filed by the store's own \<open>str\<close>;
  any other value but null is filed as the text of that value, whatever it is, and the number passed along is only a token.
\<close>

definition sent_importance :: "yaml \<Rightarrow> real option" where
  "sent_importance v = (case v of YNull \<Rightarrow> None | YFloat x \<Rightarrow> Some x | _ \<Rightarrow> Some 0)"

definition importance_str :: "conversions \<Rightarrow> (real \<Rightarrow> string) \<Rightarrow> yaml \<Rightarrow> real \<Rightarrow> string" where
  "importance_str cv str v = (case v of YNull \<Rightarrow> str | YFloat x \<Rightarrow> str | _ \<Rightarrow> (\<lambda>token. json_text cv v))"

text \<open>\<open>v["k"]\<close>, \<open>v[i]\<close> and \<open>list(v)\<close>.\<close>

definition json_item :: "yaml \<Rightarrow> string \<Rightarrow> py_error + yaml" where
  "json_item v k = (case v of YMap m \<Rightarrow> (case map_of m k of Some x \<Rightarrow> Inr x | None \<Rightarrow> Inl (KeyError k))
     | _ \<Rightarrow> Inl (TypeError ''not subscriptable by a string''))"

definition json_nth :: "yaml \<Rightarrow> nat \<Rightarrow> py_error + yaml" where
  "json_nth v i = (case v of
     YList xs \<Rightarrow> if i < length xs then Inr (xs ! i) else Inl (IndexError ''index out of range'')
   | YStr s \<Rightarrow> if i < length s then Inr (YStr [s ! i]) else Inl (IndexError ''index out of range'')
   | YMap m \<Rightarrow> Inl (KeyError (show_nat i))
   | _ \<Rightarrow> Inl (TypeError ''not subscriptable''))"

definition json_list :: "yaml \<Rightarrow> py_error + yaml list" where
  "json_list v = (case v of YList xs \<Rightarrow> Inr xs | YStr s \<Rightarrow> Inr (map (\<lambda>c. YStr [c]) s)
     | YMap m \<Rightarrow> Inr (map (YStr \<circ> fst) m) | _ \<Rightarrow> Inl (TypeError ''not iterable''))"

section \<open>The daemon's side\<close>

record ('s, 'b, 'm, 'i) service =
  sv_backend :: "('s, 'b) backend"
  sv_embedding_of :: string
  sv_reads :: "'s store_reads"
  sv_str :: "real \<Rightarrow> string"
  sv_pack :: "real list \<Rightarrow> string"
  sv_run :: "'m \<Rightarrow> string \<Rightarrow> py_error + real list"
  sv_embedder :: "'m embedder option"
  sv_substrate :: "(string, 'i) substrate"
  sv_i0 :: 'i
  sv_lenses :: "'s \<Rightarrow> 'i lenses"
  sv_fold :: "'s \<Rightarrow> (string, 'i) fold"
  sv_log :: "'s \<Rightarrow> (string, 'i) log"
  sv_numpy :: bool
  sv_dec :: "string \<Rightarrow> real"
  sv_graph :: "'s \<Rightarrow> string \<Rightarrow> int \<Rightarrow> string option \<Rightarrow> string list"
  sv_timeline :: "'s \<Rightarrow> string \<Rightarrow> (int \<times> string \<times> string \<times> string) list"
  sv_conversions :: conversions

definition hit_json :: "hit \<Rightarrow> yaml" where
  "hit_json h = YMap [(''ref'', YStr (h_ref h)), (''score'', YFloat (h_score h)), (''content'', YStr (h_content h)),
     (''wing'', opt_json (h_wing h)), (''room'', opt_json (h_room h)), (''category'', opt_json (h_category h)),
     (''source'', opt_json (h_source h)), (''importance'', opt_num (h_importance h))]"

definition drawer_json :: "drawer \<Rightarrow> yaml" where
  "drawer_json d = YMap [(''ref'', YStr (d_ref d)), (''content'', YStr (d_content d)), (''wing'', opt_json (d_wing d)),
     (''room'', opt_json (d_room d)), (''category'', opt_json (d_category d)), (''importance'', opt_num (d_importance d))]"

definition diary_json :: "diary_entry \<Rightarrow> yaml" where
  "diary_json e = YMap [(''ref'', YStr (de_ref e)), (''entry'', YStr (de_entry e)), (''topic'', YStr (de_topic e)),
     (''seq_pos'', YInt (de_seq_pos e))]"

definition embedder_json :: "'m embedder option \<Rightarrow> string \<Rightarrow> yaml" where
  "embedder_json emb disabled = (case emb of
     Some e \<Rightarrow> YMap [(''ready'', YBool (e_ready e)), (''failed'', opt_json (e_failed e))]
   | None \<Rightarrow> YMap [(''ready'', YBool False), (''failed'', YStr disabled)])"

text \<open>\<open>kg_timeline\<close>: the history of one entity, its objects resolved.\<close>

definition kg_timeline :: "('s, 'b, 'm, 'i) service \<Rightarrow> string \<Rightarrow> 's \<Rightarrow> py_error + yaml" where
  "kg_timeline sv subj s = bind_err (mapM (\<lambda>(pos, opn, pred, obj).
       bind_err (bind_err (regenerate (sv_lenses sv s) obj) (decode_strict (sv_lenses sv s))) (\<lambda>t.
         Inr (YMap [(''seq_pos'', YInt pos), (''op'', YStr opn), (''predicate'', YStr pred), (''object'', YStr (anchor_name t))])))
       (sv_timeline sv s (read_ref (sv_substrate sv) (sv_i0 sv) (''entity:'' @ subj))))
     (\<lambda>es. Inr (YMap [(''entries'', YList es)]))"

definition remember_request :: "conversions \<Rightarrow> json_args \<Rightarrow> remember_args" where
  "remember_request cv args = \<lparr>r_content = map_option (json_text cv) (map_of args ''content''),
     r_wing = map_option (json_text cv) (map_of args ''wing''), r_room = map_option (json_text cv) (map_of args ''room''),
     r_source = (let v = arg_or args ''source'' YNull in if truthy v then Some (json_text cv v) else None),
     r_category = opt_text cv (arg_or args ''category'' YNull), r_importance = sent_importance (arg_or args ''importance'' YNull)\<rparr>"

definition dispatch_json :: "('s, 'b, 'm, 'i) service \<Rightarrow> string \<Rightarrow> json_args \<Rightarrow> 's native_store
    \<Rightarrow> (py_error + yaml option) \<times> 's native_store" where
  "dispatch_json sv tool args st = (
     let cv = sv_conversions sv; B = sv_backend sv; s = ns_store st; L = sv_lenses sv s; f = sv_fold sv s;
         S = sv_substrate sv; i0 = sv_i0 sv;
         txt = (\<lambda>k d. json_text cv (arg_or args k (YStr d)));
         num = (\<lambda>k d. to_int cv (arg_or args k (YInt d)));
         str = importance_str cv (sv_str sv) (arg_or args ''importance'' YNull);
         domain = dispatch_domain B (sv_embedding_of sv) (sv_reads sv) str (sv_pack sv) (sv_run sv) (sv_embedder sv);
         ret = (\<lambda>r. (bind_err r (\<lambda>v. Inr (Some v)), st))
     in if tool = ''remember'' then (case domain (Remember (remember_request cv args)) st of (ref, st') \<Rightarrow>
            (Inr (Some (YMap [(''ref'', opt_json ref)])), st'))
        else if tool = ''search'' then (case search_vector (sv_run sv) (sv_embedder sv) (txt ''query'' []) of (v, degraded) \<Rightarrow>
            ret (bind_err (num ''k'' 5) (\<lambda>k. bind_err (search (sv_numpy sv) (sv_dec sv) S i0 L f v k
                (opt_text cv (arg_or args ''wing'' YNull)) (opt_text cv (arg_or args ''room'' YNull)) (Some (txt ''query'' [])))
              (\<lambda>hs. Inr (YMap [(''results'', YList (map hit_json hs)), (''degraded'', opt_json degraded)])))))
        else if tool = ''status'' then ret (bind_err (status L (sv_log sv s)) (\<lambda>(drawers, wings, facts).
            Inr (YMap [(''drawers'', YInt (int drawers)), (''wings'', YList (map YStr wings)), (''kg_facts'', YInt (int facts)),
              (''embedder'', embedder_json (sv_embedder sv) ''embedder disabled (--embedder-model none)'')])))
        else if tool = ''kg_add'' then (Inr (Some (YMap [(''ok'', YBool True)])),
            snd (domain (KgAdd (txt ''subject'' []) (txt ''predicate'' []) (txt ''object'' [])) st))
        else if tool = ''kg_invalidate'' then (Inr (Some (YMap [(''ok'', YBool True)])),
            snd (domain (KgInvalidate (txt ''subject'' []) (txt ''predicate'' []) (txt ''object'' [])) st))
        else if tool = ''kg_query'' then ret (bind_err (query_kg S i0 L f (opt_text cv (arg_or args ''subject'' YNull))
              (opt_text cv (arg_or args ''predicate'' YNull))) (\<lambda>facts.
            Inr (YMap [(''facts'', YList (map (\<lambda>(x, p, y). YList [YStr x, YStr p, YStr y]) facts))])))
        else if tool = ''kg_timeline'' then ret (kg_timeline sv (txt ''subject'' []) s)
        else if tool = ''kg_stats'' then ret (bind_err (kg_stats L (sv_log sv s)) (\<lambda>(facts, entities).
            Inr (YMap [(''facts'', YInt (int facts)), (''entities'', YInt (int entities))])))
        else if tool = ''traverse'' then (let st' = snd (domain (Traverse (txt ''start'' [])) st)
            in (bind_err (num ''max_hops'' 2) (\<lambda>n. Inr (Some (YMap [(''refs'', YList (map YStr
                 (sv_graph sv (ns_store st') (fst (anchor B (txt ''start'' []) s)) n (opt_text cv (arg_or args ''rel_type'' YNull)))))]))), st'))
        else if tool = ''diary_write'' then (case domain (DiaryWrite (txt ''agent_name'' []) (txt ''entry'' []) (Some (txt ''topic'' ''general''))) st of (ref, st') \<Rightarrow>
            (Inr (Some (YMap [(''ref'', opt_json ref)])), st'))
        else if tool = ''diary_read'' then ret (bind_err (num ''last_n'' 10) (\<lambda>n.
            bind_err (read_diary S i0 L f (txt ''agent_name'' []) n) (\<lambda>es. Inr (YMap [(''entries'', YList (map diary_json es))]))))
        else if tool = ''list_drawers'' then ret (bind_err (num ''limit'' 200) (\<lambda>n.
            bind_err (list_drawers S i0 L f (opt_text cv (arg_or args ''wing'' YNull)) (opt_text cv (arg_or args ''room'' YNull)) n)
              (\<lambda>ds. Inr (YMap [(''drawers'', YList (map drawer_json ds))]))))
        else (Inr None, st))"

text \<open>\<open>POST /mcp\<close> of an authorized client: an exception of the tool is status 400, which the client raises.\<close>

definition http_call :: "('s, 'b, 'm, 'i) service \<Rightarrow> string \<Rightarrow> json_args \<Rightarrow> 's native_store \<Rightarrow> (py_error + yaml) \<times> 's native_store" where
  "http_call sv tool args st = (case dispatch_json sv tool args st of
     (Inr (Some v), st') \<Rightarrow> (Inr v, st')
   | (r, st') \<Rightarrow> (Inl (OSError ''HTTP Error 400: Bad Request''), st'))"


section \<open>The client\<close>

type_synonym 's rpc = "string \<Rightarrow> json_args \<Rightarrow> 's \<Rightarrow> (py_error + yaml) \<times> 's"

text \<open>What a method makes of the decoded reply.\<close>

definition reply_with :: "(py_error + yaml) \<times> 's \<Rightarrow> (yaml \<Rightarrow> py_error + 'a) \<Rightarrow> (py_error + 'a) \<times> 's" where
  "reply_with out f = (case out of (r, s) \<Rightarrow> (bind_err r f, s))"

definition client_remember :: "conversions \<Rightarrow> 's rpc \<Rightarrow> yaml \<Rightarrow> yaml \<Rightarrow> yaml \<Rightarrow> yaml \<Rightarrow> yaml \<Rightarrow> yaml \<Rightarrow> 's \<Rightarrow> (py_error + string) \<times> 's" where
  "client_remember cv rpc wng rm cont src cat imp s = reply_with
     (rpc ''remember'' [(''wing'', wng), (''room'', rm), (''content'', cont), (''source'', src), (''category'', cat), (''importance'', imp)] s)
     (\<lambda>out. bind_err (json_item out ''ref'') (\<lambda>v. Inr (json_text cv v)))"

definition client_search :: "'s rpc \<Rightarrow> yaml \<Rightarrow> yaml \<Rightarrow> yaml \<Rightarrow> yaml \<Rightarrow> 's \<Rightarrow> (py_error + yaml) \<times> 's" where
  "client_search rpc query k wng rm s = rpc ''search'' [(''query'', query), (''k'', k), (''wing'', wng), (''room'', rm)] s"

definition client_status :: "'s rpc \<Rightarrow> 's \<Rightarrow> (py_error + yaml) \<times> 's" where
  "client_status rpc s = rpc ''status'' [] s"

definition fact_tuple :: "yaml \<Rightarrow> py_error + yaml \<times> yaml \<times> yaml" where
  "fact_tuple f = bind_err (json_nth f 0) (\<lambda>x. bind_err (json_nth f 1) (\<lambda>p. bind_err (json_nth f 2) (\<lambda>y. Inr (x, p, y))))"

definition client_kg_query :: "'s rpc \<Rightarrow> yaml \<Rightarrow> yaml \<Rightarrow> 's \<Rightarrow> (py_error + (yaml \<times> yaml \<times> yaml) list) \<times> 's" where
  "client_kg_query rpc subj pred s = reply_with (rpc ''kg_query'' [(''subject'', subj), (''predicate'', pred)] s)
     (\<lambda>out. bind_err (json_item out ''facts'') (\<lambda>v. bind_err (json_list v) (mapM fact_tuple)))"

definition client_kg_add :: "'s rpc \<Rightarrow> yaml \<Rightarrow> yaml \<Rightarrow> yaml \<Rightarrow> 's \<Rightarrow> (py_error + unit) \<times> 's" where
  "client_kg_add rpc x p y s = reply_with (rpc ''kg_add'' [(''subject'', x), (''predicate'', p), (''object'', y)] s) (\<lambda>out. Inr ())"

definition client_kg_invalidate :: "'s rpc \<Rightarrow> yaml \<Rightarrow> yaml \<Rightarrow> yaml \<Rightarrow> 's \<Rightarrow> (py_error + unit) \<times> 's" where
  "client_kg_invalidate rpc x p y s = reply_with (rpc ''kg_invalidate'' [(''subject'', x), (''predicate'', p), (''object'', y)] s) (\<lambda>out. Inr ())"

definition client_kg_timeline :: "'s rpc \<Rightarrow> yaml \<Rightarrow> 's \<Rightarrow> (py_error + yaml) \<times> 's" where
  "client_kg_timeline rpc subj s = reply_with (rpc ''kg_timeline'' [(''subject'', subj)] s) (\<lambda>out. json_item out ''entries'')"

definition client_kg_stats :: "'s rpc \<Rightarrow> 's \<Rightarrow> (py_error + yaml) \<times> 's" where
  "client_kg_stats rpc s = rpc ''kg_stats'' [] s"

definition client_traverse :: "'s rpc \<Rightarrow> yaml \<Rightarrow> yaml \<Rightarrow> yaml \<Rightarrow> 's \<Rightarrow> (py_error + yaml list) \<times> 's" where
  "client_traverse rpc start max_hops rel s = reply_with
     (rpc ''traverse'' [(''start'', start), (''max_hops'', max_hops), (''rel_type'', rel)] s)
     (\<lambda>out. bind_err (json_item out ''refs'') json_list)"

definition client_diary_write :: "conversions \<Rightarrow> 's rpc \<Rightarrow> yaml \<Rightarrow> yaml \<Rightarrow> yaml \<Rightarrow> 's \<Rightarrow> (py_error + string) \<times> 's" where
  "client_diary_write cv rpc agent entry topic s = reply_with
     (rpc ''diary_write'' [(''agent_name'', agent), (''entry'', entry), (''topic'', topic)] s)
     (\<lambda>out. bind_err (json_item out ''ref'') (\<lambda>v. Inr (json_text cv v)))"

definition client_diary_read :: "'s rpc \<Rightarrow> yaml \<Rightarrow> yaml \<Rightarrow> 's \<Rightarrow> (py_error + yaml list) \<times> 's" where
  "client_diary_read rpc agent last_n s = reply_with (rpc ''diary_read'' [(''agent_name'', agent), (''last_n'', last_n)] s)
     (\<lambda>out. bind_err (json_item out ''entries'') json_list)"

definition client_list_drawers :: "'s rpc \<Rightarrow> yaml \<Rightarrow> yaml \<Rightarrow> yaml \<Rightarrow> 's \<Rightarrow> (py_error + yaml list) \<times> 's" where
  "client_list_drawers rpc wng rm limit s = reply_with (rpc ''list_drawers'' [(''wing'', wng), (''room'', rm), (''limit'', limit)] s)
     (\<lambda>out. bind_err (json_item out ''drawers'') json_list)"

section \<open>Calls over the wire\<close>

lemma remember_eq_over_wire:
  "client_remember (sv_conversions sv) (http_call sv) (YStr w) (YStr r) (YStr c) (YStr src) (opt_json cat) (opt_num imp) st =
     (case remember (sv_backend sv) (sv_embedding_of sv) (sv_reads sv) (sv_str sv) (sv_pack sv) (sv_run sv) (sv_embedder sv)
        \<lparr>r_content = Some c, r_wing = Some w, r_room = Some r, r_source = (if src = [] then None else Some src),
         r_category = cat, r_importance = imp\<rparr> st of (ref, st') \<Rightarrow> (Inr ref, st'))"
proof -
  have "remember_request (sv_conversions sv) [(''wing'', YStr w), (''room'', YStr r), (''content'', YStr c), (''source'', YStr src),
      (''category'', opt_json cat), (''importance'', opt_num imp)]
    = \<lparr>r_content = Some c, r_wing = Some w, r_room = Some r, r_source = (if src = [] then None else Some src),
       r_category = cat, r_importance = imp\<rparr>"
    by (cases cat; cases imp) (simp_all add: remember_request_def arg_or_def json_text_def opt_text_def opt_json_def opt_num_def sent_importance_def)
  moreover have "importance_str cv str (opt_num imp) = str" for cv and str :: "real \<Rightarrow> string"
    by (cases imp) (simp_all add: importance_str_def opt_num_def)
  ultimately show ?thesis
    by (simp add: client_remember_def http_call_def dispatch_json_def dispatch_domain_def reply_with_def json_item_def opt_json_def
        json_text_def arg_or_def Let_def split: prod.split)
qed

text \<open>The text an importance is filed as: that of the value sent.\<close>

lemma sent_importance_text:
  "map_option (importance_str cv str v) (sent_importance v)
    = (case v of YNull \<Rightarrow> None | YFloat x \<Rightarrow> Some (str x) | _ \<Rightarrow> Some (json_text cv v))"
  by (cases v) (simp_all add: sent_importance_def importance_str_def)

text \<open>
  remembering over the wire is remembering.  A client's \<open>remember\<close> answers the ref the daemon's
  own operation answers and leaves the store it leaves; the source, when empty, and a null
  category or importance are those the daemon takes as absent.
\<close>
theorem remember_over_the_wire:
  "client_remember (sv_conversions sv) (http_call sv) (YStr w) (YStr r) (YStr c) (YStr src) (opt_json cat) (opt_num imp) st =
     (case remember (sv_backend sv) (sv_embedding_of sv) (sv_reads sv) (sv_str sv) (sv_pack sv) (sv_run sv) (sv_embedder sv)
        \<lparr>r_content = Some c, r_wing = Some w, r_room = Some r, r_source = (if src = [] then None else Some src),
         r_category = cat, r_importance = imp\<rparr> st of (ref, st') \<Rightarrow> (Inr ref, st'))"
  by (rule remember_eq_over_wire)

text \<open>The tools that only read.\<close>

definition READ_TOOLS :: "string set" where
  "READ_TOOLS = {''search'', ''status'', ''kg_query'', ''kg_timeline'', ''kg_stats'', ''diary_read'', ''list_drawers''}"

lemma dispatch_read: "tool \<in> READ_TOOLS \<Longrightarrow> snd (dispatch_json sv tool args st) = st"
  unfolding READ_TOOLS_def insert_iff empty_iff
  by (elim disjE FalseE; simp add: dispatch_json_def Let_def case_prod_unfold)

lemma http_call_snd: "snd (http_call sv tool args st) = snd (dispatch_json sv tool args st)"
  by (simp add: http_call_def split: prod.split sum.split option.split)

text \<open>A list the store answers, as the client sees it.\<close>

definition answer_of :: "py_error + 'a list \<Rightarrow> ('a \<Rightarrow> 'b) \<Rightarrow> py_error + 'b list" where
  "answer_of r f = (case r of Inl e \<Rightarrow> Inl (OSError ''HTTP Error 400: Bad Request'') | Inr xs \<Rightarrow> Inr (map f xs))"

text \<open>
  C38: what a client reads is what the store holds.  Over the wire the KG query returns the store's
  facts as tuples, the listing its drawers and the diary its entries, field by field; a read that
  fails in the store raises in the client; and no reading tool changes the store.
\<close>
theorem reads_over_the_wire:
  "client_kg_query (http_call sv) (opt_json x) (opt_json p) st =
      (answer_of (query_kg (sv_substrate sv) (sv_i0 sv) (sv_lenses sv (ns_store st)) (sv_fold sv (ns_store st)) x p)
         (\<lambda>(a, b, c). (YStr a, YStr b, YStr c)), st)
    \<and> client_list_drawers (http_call sv) (opt_json w) (opt_json r) (YInt n) st =
      (answer_of (list_drawers (sv_substrate sv) (sv_i0 sv) (sv_lenses sv (ns_store st)) (sv_fold sv (ns_store st)) w r n) drawer_json, st)
    \<and> client_diary_read (http_call sv) (YStr agent) (YInt n) st =
      (answer_of (read_diary (sv_substrate sv) (sv_i0 sv) (sv_lenses sv (ns_store st)) (sv_fold sv (ns_store st)) agent n) diary_json, st)
    \<and> (\<forall>tool args. tool \<in> READ_TOOLS \<longrightarrow> snd (http_call sv tool args st) = st)"
proof (intro conjI allI impI)
  have tuples: "mapM fact_tuple (map (\<lambda>(x, p, y). YList [YStr x, YStr p, YStr y]) fs) = Inr (map (\<lambda>(a, b, c). (YStr a, YStr b, YStr c)) fs)" for fs
    by (induction fs) (auto simp: fact_tuple_def json_nth_def)
  show "client_kg_query (http_call sv) (opt_json x) (opt_json p) st =
      (answer_of (query_kg (sv_substrate sv) (sv_i0 sv) (sv_lenses sv (ns_store st)) (sv_fold sv (ns_store st)) x p)
         (\<lambda>(a, b, c). (YStr a, YStr b, YStr c)), st)"
    by (cases x; cases p) (simp_all add: client_kg_query_def http_call_def dispatch_json_def reply_with_def answer_of_def json_item_def
        json_list_def opt_json_def opt_text_def arg_or_def json_text_def tuples Let_def bind_err_def split: sum.split)
next
  show "client_list_drawers (http_call sv) (opt_json w) (opt_json r) (YInt n) st =
      (answer_of (list_drawers (sv_substrate sv) (sv_i0 sv) (sv_lenses sv (ns_store st)) (sv_fold sv (ns_store st)) w r n) drawer_json, st)"
    by (cases w; cases r) (simp_all add: client_list_drawers_def http_call_def dispatch_json_def reply_with_def answer_of_def json_item_def
        json_list_def opt_json_def opt_text_def arg_or_def json_text_def to_int_def Let_def bind_err_def split: sum.split)
next
  show "client_diary_read (http_call sv) (YStr agent) (YInt n) st =
      (answer_of (read_diary (sv_substrate sv) (sv_i0 sv) (sv_lenses sv (ns_store st)) (sv_fold sv (ns_store st)) agent n) diary_json, st)"
    by (simp add: client_diary_read_def http_call_def dispatch_json_def reply_with_def answer_of_def json_item_def
        json_list_def opt_text_def arg_or_def json_text_def to_int_def Let_def bind_err_def split: sum.split)
next
  fix tool :: string and args :: json_args
  assume "tool \<in> READ_TOOLS"
  then have "snd (dispatch_json sv tool args st) = st" by (rule dispatch_read)
  then show "snd (http_call sv tool args st) = st" by (simp add: http_call_snd)
qed


text \<open>
  a traversal starts at a KG entity.  The tool's \<open>start\<close> names the entity's anchor, which the
  call writes to the log, whether it was there or not; the anchor is no room's scope cell, so that
  no name of a room reaches the drawers filed in that room.
\<close>
theorem traverse_starts_at_an_entity:
  assumes "sv_backend sv = log_backend S i0 pack" and "inj (\<lambda>p. cell_ref S p i0)"
  shows "client_traverse (http_call sv) (YStr start) (YInt n) YNull st =
      (let s' = ns_store st @ [CellWrite (''entity:'' @ start) i0] in
       (Inr (map YStr (sv_graph sv s' (cell_ref S (''entity:'' @ start) i0) n None)), st\<lparr>ns_store := s'\<rparr>))
    \<and> (\<forall>room. cell_ref S (''entity:'' @ start) i0 \<noteq> cell_ref S (''room:'' @ room) i0)"
  using assms inj_eq [OF assms(2)]
  by (simp add: client_traverse_def http_call_def dispatch_json_def dispatch_domain_def reply_with_def json_item_def json_list_def
      arg_or_def json_text_def opt_text_def to_int_def anchor_def log_backend_def log_cell_def Let_def)


text \<open>A service over an event log.\<close>

definition demo_service :: "((string, nat) event list, (string, nat) event list, unit, nat) service" where
  "demo_service = \<lparr>sv_backend = log_backend demo_substrate 0 (\<lambda>v. ''v''), sv_embedding_of = ''embedding_of'',
     sv_reads = \<lparr>query_facts = (\<lambda>s x p. (True, [])), store_regenerate = (\<lambda>s r. Inl (KeyError r)), decode_replace = (\<lambda>r. r)\<rparr>,
     sv_str = (\<lambda>x. ''0.5''), sv_pack = (\<lambda>v. ''v''), sv_run = (\<lambda>m t. Inr []), sv_embedder = None,
     sv_substrate = demo_substrate, sv_i0 = 0, sv_lenses = (\<lambda>s. one_lenses [] None),
     sv_fold = (\<lambda>s. scratch_fold demo_substrate (numbered s)), sv_log = numbered, sv_numpy = False, sv_dec = (\<lambda>s. 0),
     sv_graph = (\<lambda>s x n ty. [x]), sv_timeline = (\<lambda>s x. []), sv_conversions = demo_conversions\<rparr>"

theorem traverse_starts_at_an_entity_witness:
  "client_traverse (http_call demo_service) (YStr ''notes'') (YInt 2) YNull (native_init []) =
     (Inr [YStr ''#entity:notes''], (native_init [])\<lparr>ns_store := [CellWrite ''entity:notes'' 0]\<rparr>)"
proof -
  have "sv_backend demo_service = log_backend demo_substrate 0 (\<lambda>v. ''v'')" by (simp add: demo_service_def)
  moreover have "inj (\<lambda>p. cell_ref demo_substrate p (0 :: nat))" by (simp add: demo_substrate_def inj_def)
  ultimately show ?thesis
    using conjunct1 [OF traverse_starts_at_an_entity [of demo_service demo_substrate 0 "\<lambda>v. ''v''" "''notes''" 2 "native_init []"]]
    by (simp add: demo_service_def native_init_def demo_substrate_def)
qed

theorem reads_over_the_wire_witness:
  "client_kg_query (http_call demo_service) YNull (YStr ''p'') (native_init []) = (Inr [], native_init [])
     \<and> snd (http_call demo_service ''status'' [] (native_init [])) = native_init []"
proof -
  have "''status'' \<in> READ_TOOLS" by (simp add: READ_TOOLS_def)
  then have st: "snd (http_call demo_service ''status'' [] (native_init [])) = native_init []"
    using reads_over_the_wire [of demo_service None None "native_init []"] by blast
  have "client_kg_query (http_call demo_service) YNull (YStr ''p'') (native_init []) =
    (answer_of (query_kg demo_substrate 0 (one_lenses [] None) (scratch_fold demo_substrate (numbered [])) None (Some ''p''))
         (\<lambda>(a, b, c). (YStr a, YStr b, YStr c)), native_init [])"
    using conjunct1 [OF reads_over_the_wire [of demo_service None "Some ''p''" "native_init []"]]
    by (simp add: demo_service_def native_init_def opt_json_def)
  then show ?thesis using st by (simp add: query_kg_def one_lenses_sel answer_of_def)
qed

end
