(* ===== verification/Tool.thy ===== *)
theory Tool
  imports Mine Rpc Events
begin

text \<open>
  The memory tool (\<open>tool-memory/__init__.py\<close>, \<open>MemoryTool.execute\<close>): the dispatch on the operation, the
  call of the client through \<open>ensure_daemon\<close>, the paging of the event log and the garden run with its
  events.  The input is the dict of the call; the output of a success is the JSON value whose dump is
  the tool's output.
\<close>

section \<open>Results and the world\<close>

datatype tool_failure =
    Client_Error py_error
  | Missing_Path py_error
  | Mine_Failed py_error
  | Garden_Timed_Out
  | Unknown_Operation yaml
  | Operation_Error py_error

datatype tool_result = Success yaml | Failure tool_failure

record 's tool_world =
  tw_daemon :: 's
  tw_events :: "yaml event_files"
  tw_bridge :: "(string \<times> json_args) list"

record garden_call =
  gc_wing :: yaml
  gc_room :: yaml
  gc_days :: int
  gc_max :: int
  gc_threshold :: real

text \<open>
  What the tool runs in: \<open>ensure_daemon\<close>, the authed transport, the file system, the session name the
  event log falls back to, whether the log can be written and the bridge takes events, and the garden
  with the wall clock, which gives \<open>None\<close> when the time is over.  The file system gives for a path how
  it and what is below it prints, the resolved name (and the parent's), and the tree.
\<close>

record 's tool_env =
  te_ensure :: "'s \<Rightarrow> bool \<times> 's"
  te_rpc :: "'s rpc"
  te_conversions :: conversions
  te_files :: "string \<Rightarrow> (string list \<Rightarrow> string) \<times> string \<times> string mine_root"
  te_convos :: "string \<Rightarrow> (string list \<Rightarrow> string) \<times> string \<times> string \<times> convo_doc mine_root"
  te_session :: "string option \<Rightarrow> string"
  te_writable :: bool
  te_bridged :: bool
  te_garden :: "garden_call \<Rightarrow> 's \<Rightarrow> (nat \<times> nat) list \<times> (py_error + garden_report) option \<times> 's"

section \<open>Calling the client\<close>

definition call_client :: "'s tool_env \<Rightarrow> ('s rpc \<Rightarrow> 's \<Rightarrow> (py_error + 'a) \<times> 's) \<Rightarrow> 's \<Rightarrow> (py_error + 'a) \<times> 's" where
  "call_client env meth s = (case te_ensure env s of
     (False, s') \<Rightarrow> (Inl (RuntimeError ''memory daemon unavailable''), s')
   | (True, s') \<Rightarrow> meth (te_rpc env) s')"

definition on_daemon :: "('s \<Rightarrow> 'r \<times> 's) \<Rightarrow> 's tool_world \<Rightarrow> 'r \<times> 's tool_world" where
  "on_daemon f w = (case f (tw_daemon w) of (r, s') \<Rightarrow> (r, w\<lparr>tw_daemon := s'\<rparr>))"

definition finish :: "('a \<Rightarrow> yaml) \<Rightarrow> (py_error + 'a) \<times> 'w \<Rightarrow> tool_result \<times> 'w" where
  "finish payload out = (case out of (Inl e, w) \<Rightarrow> (Failure (Client_Error e), w) | (Inr x, w) \<Rightarrow> (Success (payload x), w))"

definition wrapped :: "string \<Rightarrow> yaml \<Rightarrow> yaml" where
  "wrapped k v = YMap [(k, v)]"

text \<open>\<open>x or None\<close>\<close>

definition or_null :: "yaml \<Rightarrow> yaml" where
  "or_null v = (if truthy v then v else YNull)"

text \<open>The integer argument is converted before the daemon is looked for.\<close>

definition with_int :: "'s tool_env \<Rightarrow> json_args \<Rightarrow> string \<Rightarrow> int \<Rightarrow> (int \<Rightarrow> 's tool_world \<Rightarrow> (py_error + 'a) \<times> 's tool_world)
    \<Rightarrow> 's tool_world \<Rightarrow> (py_error + 'a) \<times> 's tool_world" where
  "with_int env args k d f w = (case to_int (te_conversions env) (arg_or args k (YInt d)) of
     Inl e \<Rightarrow> (Inl e, w) | Inr n \<Rightarrow> f n w)"

section \<open>The operations\<close>

definition op_search :: "'s tool_env \<Rightarrow> json_args \<Rightarrow> 's tool_world \<Rightarrow> tool_result \<times> 's tool_world" where
  "op_search env args w = finish id (with_int env args ''limit'' 5 (\<lambda>k.
     on_daemon (call_client env (\<lambda>rpc. client_search rpc (arg_or args ''query'' (YStr [])) (YInt k)
       (or_null (arg_or args ''wing'' YNull)) (or_null (arg_or args ''room'' YNull))))) w)"

definition tool_remember :: "'s tool_env \<Rightarrow> yaml \<Rightarrow> yaml \<Rightarrow> yaml \<Rightarrow> yaml \<Rightarrow> 's \<Rightarrow> (py_error + string) \<times> 's" where
  "tool_remember env wng rm cont src = call_client env (\<lambda>rpc.
     client_remember (te_conversions env) rpc wng rm cont src YNull YNull)"

definition op_remember :: "'s tool_env \<Rightarrow> json_args \<Rightarrow> 's tool_world \<Rightarrow> tool_result \<times> 's tool_world" where
  "op_remember env args w = finish (\<lambda>ref. wrapped ''ref'' (YStr ref)) (on_daemon (tool_remember env
     (arg_or args ''wing'' (YStr ''general'')) (arg_or args ''room'' (YStr ''notes'')) (arg_or args ''content'' (YStr []))
     (let v = arg_or args ''source'' (YStr []) in if truthy v then v else YStr [])) w)"

definition op_status :: "'s tool_env \<Rightarrow> json_args \<Rightarrow> 's tool_world \<Rightarrow> tool_result \<times> 's tool_world" where
  "op_status env args w = finish id (on_daemon (call_client env client_status) w)"

definition kg_run :: "'s tool_env \<Rightarrow> json_args \<Rightarrow> 's \<Rightarrow> (py_error + yaml) \<times> 's" where
  "kg_run env args = (
     let act = arg_or args ''kg_action'' (YStr ''query''); str = (\<lambda>k. arg_or args k (YStr []));
         ok = (\<lambda>u :: unit. wrapped ''ok'' (YBool True)); via = (\<lambda>f (r, s). (bind_err r (\<lambda>x. Inr (f x)), s))
     in if act = YStr ''query'' then (\<lambda>s. (case call_client env (\<lambda>rpc. client_kg_query rpc (or_null (arg_or args ''entity'' YNull)) YNull) s of
            (r, s') \<Rightarrow> (bind_err r (\<lambda>fs. Inr (wrapped ''facts'' (YList (map (\<lambda>(x, p, y). YList [x, p, y]) fs)))), s')))
        else if act = YStr ''add'' then via ok \<circ> call_client env (\<lambda>rpc. client_kg_add rpc (str ''subject'') (str ''predicate'') (str ''object''))
        else if act = YStr ''invalidate'' then via ok \<circ> call_client env (\<lambda>rpc. client_kg_invalidate rpc (str ''subject'') (str ''predicate'') (str ''object''))
        else if act = YStr ''timeline'' then (\<lambda>s. (case call_client env (\<lambda>rpc. client_kg_timeline rpc (str ''entity'')) s of
            (r, s') \<Rightarrow> (bind_err r (\<lambda>v. Inr (wrapped ''entries'' v)), s')))
        else call_client env client_kg_stats)"

definition op_kg :: "'s tool_env \<Rightarrow> json_args \<Rightarrow> 's tool_world \<Rightarrow> tool_result \<times> 's tool_world" where
  "op_kg env args w = finish id (on_daemon (kg_run env args) w)"

definition op_traverse :: "'s tool_env \<Rightarrow> json_args \<Rightarrow> 's tool_world \<Rightarrow> tool_result \<times> 's tool_world" where
  "op_traverse env args w = finish (\<lambda>refs. wrapped ''refs'' (YList refs)) (with_int env args ''max_hops'' 2 (\<lambda>n.
     on_daemon (call_client env (\<lambda>rpc. client_traverse rpc (arg_or args ''start_room'' (YStr [])) (YInt n) YNull))) w)"

definition op_diary :: "'s tool_env \<Rightarrow> json_args \<Rightarrow> 's tool_world \<Rightarrow> tool_result \<times> 's tool_world" where
  "op_diary env args w = (let agent = arg_or args ''agent_name'' (YStr ''amplifier'') in
     if arg_or args ''diary_action'' (YStr ''read'') = YStr ''write'' then
       finish (\<lambda>ref. wrapped ''ref'' (YStr ref)) (on_daemon (call_client env (\<lambda>rpc. client_diary_write (te_conversions env) rpc agent
         (arg_or args ''entry'' (YStr [])) (arg_or args ''room'' (YStr ''general'')))) w)
     else finish (\<lambda>es. wrapped ''entries'' (YList es)) (with_int env args ''limit'' 10 (\<lambda>n.
         on_daemon (call_client env (\<lambda>rpc. client_diary_read rpc agent (YInt n)))) w))"

text \<open>Mining: every chunk goes through the same call as \<open>remember\<close>.\<close>

definition mine_sender :: "'s tool_env \<Rightarrow> 's sender" where
  "mine_sender env q = tool_remember env (YStr (mq_wing q)) (YStr (mq_room q)) (YStr (mq_content q)) (YStr (mq_source q))"

definition error_path :: "'c mine_root \<Rightarrow> string list \<Rightarrow> string list" where
  "error_path rt parts = (case rt of Root_File nm r \<Rightarrow> [] | _ \<Rightarrow> parts)"

definition mine_json :: "string \<Rightarrow> (string list \<Rightarrow> string) \<Rightarrow> 'c mine_root \<Rightarrow> string \<Rightarrow> mine_result \<Rightarrow> yaml" where
  "mine_json mode shown rt filed_key m = YMap [(''mode'', YStr mode), (''path'', YStr (shown [])), (''files_scanned'', YInt (int (mr_scanned m))),
     (filed_key, YInt (int (mr_filed m))), (''errors'', YList (map (\<lambda>(parts, msg). YStr (shown (error_path rt parts) @ '': '' @ msg)) (mr_errors m)))]"

definition mine_run :: "'s tool_env \<Rightarrow> json_args \<Rightarrow> 's \<Rightarrow> (py_error + yaml) \<times> 's" where
  "mine_run env args s = (case arg_or args ''path'' (YStr ''.'') of
     YStr path \<Rightarrow> (if arg_or args ''mode'' (YStr ''files'') = YStr ''convos'' then
         (case te_convos env path of (shown, resolved, parent, rt) \<Rightarrow>
           (case mine_convos (te_conversions env) (mine_sender env) path resolved parent rt s of (r, s') \<Rightarrow>
             (bind_err r (\<lambda>m. Inr (mine_json ''convos'' shown rt ''messages_filed'' m)), s')))
       else (case te_files env path of (shown, resolved, rt) \<Rightarrow>
           (case mine_files (mine_sender env) path resolved rt s of (r, s') \<Rightarrow>
             (bind_err r (\<lambda>m. Inr (mine_json ''files'' shown rt ''chunks_filed'' m)), s'))))
   | v \<Rightarrow> (Inl (TypeError ''path''), s))"

definition op_mine :: "'s tool_env \<Rightarrow> json_args \<Rightarrow> 's tool_world \<Rightarrow> tool_result \<times> 's tool_world" where
  "op_mine env args w = (case on_daemon (mine_run env args) w of
     (Inl (FileNotFoundError m), w') \<Rightarrow> (Failure (Missing_Path (FileNotFoundError m)), w')
   | (Inl e, w') \<Rightarrow> (Failure (Mine_Failed e), w')
   | (Inr v, w') \<Rightarrow> (Success v, w'))"

section \<open>The event log\<close>

definition EVENTS_CEILING :: int where "EVENTS_CEILING = 10000"

text \<open>The session and the filters are strings by the input schema, or absent.\<close>

definition str_arg :: "json_args \<Rightarrow> string \<Rightarrow> string option" where
  "str_arg args k = (case map_of args k of Some (YStr s) \<Rightarrow> Some s | _ \<Rightarrow> None)"

definition event_json :: "yaml event_record \<Rightarrow> yaml" where
  "event_json r = YMap [(''sid'', YStr (ev_sid r)), (''hook'', YStr (ev_hook r)), (''event'', YStr (ev_name r)),
     (''ok'', YBool (ev_ok r)), (''preview'', opt_json (ev_preview r)), (''data'', ev_data r)]"

text \<open>A line that was read, as a JSON value; one that is no object has no \<open>get\<close>.\<close>

fun line_json :: "yaml log_line \<Rightarrow> yaml" where
  "line_json (Rec r) = event_json r"
| "line_json l = YNull"

fun line_sid :: "yaml log_line \<Rightarrow> py_error + string" where
  "line_sid (Rec r) = Inr (ev_sid r)"
| "line_sid l = Inl (AttributeError ''get'')"

definition clamp_limit :: "int \<Rightarrow> int" where
  "clamp_limit raw = max 1 (min raw 200)"

definition events_page :: "bool \<Rightarrow> int \<Rightarrow> 'a list \<Rightarrow> 'a list" where
  "events_page tail limit es = (if tail then (if int (length es) > limit then py_from es (- limit) else es) else py_upto es limit)"

definition resolved_sid :: "string option \<Rightarrow> yaml log_line list \<Rightarrow> yaml log_line list \<Rightarrow> py_error + string" where
  "resolved_sid sid page es = (case sid of Some s \<Rightarrow> Inr s
     | None \<Rightarrow> (case page of l # ls \<Rightarrow> line_sid l
         | [] \<Rightarrow> (case es of l # ls \<Rightarrow> line_sid l | [] \<Rightarrow> Inr ''unknown'')))"

definition events_run :: "'s tool_env \<Rightarrow> json_args \<Rightarrow> yaml event_files \<Rightarrow> py_error + yaml" where
  "events_run env args fs = bind_err (to_int (te_conversions env) (arg_or args ''limit'' (YInt 50))) (\<lambda>raw.
     let limit = clamp_limit raw;
         tail = truthy (arg_or args ''tail'' (YBool True));
         sid = str_arg args ''session_id'';
         (es, skipped) = read_events_counting fs (te_session env sid) (str_arg args ''hook_filter'') (str_arg args ''event_filter'')
            EVENTS_CEILING False;
         page = events_page tail limit es
     in bind_err (resolved_sid sid page es) (\<lambda>rsid.
          Inr (YMap [(''session_id'', YStr rsid), (''event_count'', YInt (int (length es))), (''returned'', YInt (int (length page))),
            (''skipped_lines'', YInt (int skipped)), (''events'', YList (map line_json page))])))"

definition op_events :: "'s tool_env \<Rightarrow> json_args \<Rightarrow> 's tool_world \<Rightarrow> tool_result \<times> 's tool_world" where
  "op_events env args w = (case events_run env args (tw_events w) of
     Inl e \<Rightarrow> (Failure (Operation_Error e), w) | Inr v \<Rightarrow> (Success v, w))"

section \<open>The garden\<close>

text \<open>An event to the session's log and, with its payload, to the coordinator.\<close>

definition tool_emit :: "'s tool_env \<Rightarrow> json_args \<Rightarrow> string \<Rightarrow> bool \<Rightarrow> json_args \<Rightarrow> json_args \<Rightarrow> 's tool_world \<Rightarrow> 's tool_world" where
  "tool_emit env args event ok payload data w = w\<lparr>
     tw_events := emit_event (te_writable env) (te_session env (str_arg args ''session_id'')) ''tool-memory'' event ok None (YMap data) (tw_events w),
     tw_bridge := (if te_bridged env then tw_bridge w @ [(''memory:'' @ event, payload @ data)] else tw_bridge w)\<rparr>"

definition garden_progress :: "'s tool_env \<Rightarrow> json_args \<Rightarrow> nat \<times> nat \<Rightarrow> 's tool_world \<Rightarrow> 's tool_world" where
  "garden_progress env args mark = tool_emit env args ''garden_progress'' True [(''ok'', YBool True), (''preview'', YNull)]
     [(''drawers_scanned'', YInt (int (fst mark))), (''drawers_total'', YInt (int (snd mark)))]"

definition cluster_json :: "cluster_result \<Rightarrow> yaml" where
  "cluster_json c = YMap [(''id'', YStr (cluster_name c)), (''label'', YStr (cr_label c)), (''size'', YInt (int (cr_size c))),
     (''dominant_category'', YStr (cr_dominant c)), (''rooms'', YList (map YStr (cr_rooms c)))]"

definition garden_json :: "garden_call \<Rightarrow> garden_report \<Rightarrow> yaml" where
  "garden_json c r = YMap [(''scope'', YMap [(''wing'', if truthy (gc_wing c) then gc_wing c else YStr ''unknown''), (''room'', gc_room c),
       (''lookback_days'', YInt (gc_days c))]),
     (''drawers_analyzed'', YInt (int (gr_analyzed r))), (''clusters'', YList (map cluster_json (gr_clusters r))),
     (''kg_edges_created'', YInt (int (gr_edges r))), (''importance_backfilled'', YInt (int (gr_backfilled r))),
     (''diary_entry'', YStr (gr_diary r))]"

definition garden_data :: "json_args \<Rightarrow> nat \<Rightarrow> nat \<Rightarrow> nat \<Rightarrow> json_args" where
  "garden_data args analyzed clusters edges = [(''scope_wing'', arg_or args ''wing'' YNull), (''scope_room'', arg_or args ''room'' YNull),
     (''drawers_analyzed'', YInt (int analyzed)), (''clusters_found'', YInt (int clusters)), (''kg_edges_created'', YInt (int edges))]"

definition clamp_drawers :: "int \<Rightarrow> int" where
  "clamp_drawers raw = max 1 (min raw 500)"

definition garden_request :: "'s tool_env \<Rightarrow> json_args \<Rightarrow> py_error + garden_call" where
  "garden_request env args = (let cv = te_conversions env in
     bind_err (to_int cv (arg_or args ''max_drawers'' (YInt 200))) (\<lambda>raw.
     bind_err (to_int cv (arg_or args ''lookback_days'' (YInt 90))) (\<lambda>days.
     bind_err (to_float cv (arg_or args ''cluster_threshold'' (YFloat (4 / 5)))) (\<lambda>thr.
       Inr \<lparr>gc_wing = arg_or args ''wing'' YNull, gc_room = arg_or args ''room'' YNull, gc_days = days,
         gc_max = clamp_drawers raw, gc_threshold = thr\<rparr>))))"

definition op_garden :: "'s tool_env \<Rightarrow> json_args \<Rightarrow> 's tool_world \<Rightarrow> tool_result \<times> 's tool_world" where
  "op_garden env args w = (case garden_request env args of Inl e \<Rightarrow> (Failure (Operation_Error e), w)
   | Inr c \<Rightarrow> (case te_garden env c (tw_daemon w) of (marks, outcome, s') \<Rightarrow>
       let w1 = fold (garden_progress env args) marks (w\<lparr>tw_daemon := s'\<rparr>) in
       case outcome of
         None \<Rightarrow> (Failure Garden_Timed_Out, tool_emit env args ''garden_completed'' False [(''ok'', YBool False)]
             (garden_data args 0 0 0 @ [(''timed_out'', YBool True)]) w1)
       | Some (Inl e) \<Rightarrow> (Failure (Operation_Error e), w1)
       | Some (Inr r) \<Rightarrow> (Success (garden_json c r), tool_emit env args ''garden_completed'' True [(''ok'', YBool True)]
             (garden_data args (gr_analyzed r) (length (gr_clusters r)) (gr_edges r)) w1)))"

section \<open>The input schema\<close>

definition schema_properties :: "(string \<times> yaml) list" where
  "schema_properties = [(''operation'', YMap [(''type'', YStr ''string''), (''enum'', YList [YStr ''search'', YStr ''remember'', YStr ''status'', YStr ''kg'', YStr ''traverse'', YStr ''diary'', YStr ''mine'', YStr ''events'', YStr ''garden'']), (''description'', YStr ''The memory operation to perform.'')]),
     (''query'', YMap [(''type'', YStr ''string''), (''description'', YStr (''Search query (for '' @ [CHR 39] @ ''search'' @ [CHR 39] @ '' operation).''))]),
     (''wing'', YMap [(''type'', YStr ''string''), (''description'', YStr ''Wing (project/person) to scope the operation to.'')]),
     (''room'', YMap [(''type'', YStr ''string''), (''description'', YStr ''Room (topic) within the wing.'')]),
     (''content'', YMap [(''type'', YStr ''string''), (''description'', YStr (''Verbatim content to store (for '' @ [CHR 39] @ ''remember'' @ [CHR 39] @ '' operation).''))]),
     (''limit'', YMap [(''type'', YStr ''integer''), (''description'', YStr ''Result limit. Defaults: search=5, events=50 (max 200).''), (''default'', YInt 5)]),
     (''entity'', YMap [(''type'', YStr ''string''), (''description'', YStr (''Entity name for '' @ [CHR 39] @ ''kg'' @ [CHR 39] @ '' operation.''))]),
     (''subject'', YMap [(''type'', YStr ''string''), (''description'', YStr ''KG fact subject (for kg add/invalidate).'')]),
     (''predicate'', YMap [(''type'', YStr ''string''), (''description'', YStr ''KG fact predicate (for kg add/invalidate).'')]),
     (''object'', YMap [(''type'', YStr ''string''), (''description'', YStr ''KG fact object (for kg add/invalidate).'')]),
     (''kg_action'', YMap [(''type'', YStr ''string''), (''enum'', YList [YStr ''query'', YStr ''add'', YStr ''invalidate'', YStr ''timeline'', YStr ''stats'']), (''description'', YStr ''Knowledge graph sub-action.''), (''default'', YStr ''query'')]),
     (''agent_name'', YMap [(''type'', YStr ''string''), (''description'', YStr ''Agent name for diary operations.'')]),
     (''entry'', YMap [(''type'', YStr ''string''), (''description'', YStr ''Diary entry text (for diary write).'')]),
     (''diary_action'', YMap [(''type'', YStr ''string''), (''enum'', YList [YStr ''read'', YStr ''write'']), (''description'', YStr ''Diary sub-action.''), (''default'', YStr ''read'')]),
     (''start_room'', YMap [(''type'', YStr ''string''), (''description'', YStr ''Starting room for graph traversal.'')]),
     (''max_hops'', YMap [(''type'', YStr ''integer''), (''description'', YStr ''Max hops for traversal (default: 2).''), (''default'', YInt 2)]),
     (''path'', YMap [(''type'', YStr ''string''), (''description'', YStr (''File or directory path to mine (for '' @ [CHR 39] @ ''mine'' @ [CHR 39] @ '' operation).''))]),
     (''mode'', YMap [(''type'', YStr ''string''), (''enum'', YList [YStr ''files'', YStr ''convos'']), (''description'', YStr (''Mining mode: '' @ [CHR 39] @ ''files'' @ [CHR 39] @ '' for project files, '' @ [CHR 39] @ ''convos'' @ [CHR 39] @ '' for conversation exports.'')), (''default'', YStr ''files'')]),
     (''session_id'', YMap [(''type'', YStr ''string''), (''description'', YStr (''Which session'' @ [CHR 39] @ ''s events to read (events operation only). Defaults to the current session.''))]),
     (''hook_filter'', YMap [(''type'', YStr ''string''), (''description'', YStr (''Filter events to a specific hook (e.g. '' @ [CHR 39] @ ''memory-capture'' @ [CHR 39] @ ''). For '' @ [CHR 39] @ ''events'' @ [CHR 39] @ '' operation.''))]),
     (''event_filter'', YMap [(''type'', YStr ''string''), (''description'', YStr (''Filter events to a specific event type (e.g. '' @ [CHR 39] @ ''drawer_filed'' @ [CHR 39] @ ''). For '' @ [CHR 39] @ ''events'' @ [CHR 39] @ '' operation.''))]),
     (''tail'', YMap [(''type'', YStr ''boolean''), (''description'', YStr (''If true (default), return the most recent N events. If false, return the oldest N events. For '' @ [CHR 39] @ ''events'' @ [CHR 39] @ '' operation.'')), (''default'', YBool True)]),
     (''lookback_days'', YMap [(''type'', YStr ''integer''), (''description'', YStr ''Only analyze drawers added in the last N days (garden operation). Default: 90.''), (''default'', YInt 90)]),
     (''max_drawers'', YMap [(''type'', YStr ''integer''), (''description'', YStr ''Budget cap: max drawers to analyze per garden run. Default 200, hard cap 500.''), (''default'', YInt 200)]),
     (''cluster_threshold'', YMap [(''type'', YStr ''number''), (''description'', YStr ''Cosine similarity threshold for clustering (garden operation). Default: 0.80.''), (''default'', YFloat (8 / 10))])]"

definition input_schema :: yaml where
  "input_schema = YMap [(''type'', YStr ''object''), (''properties'', YMap schema_properties), (''required'', YList [YStr ''operation''])]"

definition schema_entry :: "string \<Rightarrow> string \<Rightarrow> yaml option" where
  "schema_entry k field = (case map_of schema_properties k of Some (YMap m) \<Rightarrow> map_of m field | _ \<Rightarrow> None)"

section \<open>The dispatch\<close>

definition execute :: "'s tool_env \<Rightarrow> json_args \<Rightarrow> 's tool_world \<Rightarrow> tool_result \<times> 's tool_world" where
  "execute env input w = (
     let operation = arg_or input ''operation'' (YStr []);
         args = filter (\<lambda>(k, v). k \<noteq> ''operation'') input
     in if operation = YStr ''search'' then op_search env args w
        else if operation = YStr ''remember'' then op_remember env args w
        else if operation = YStr ''status'' then op_status env args w
        else if operation = YStr ''kg'' then op_kg env args w
        else if operation = YStr ''traverse'' then op_traverse env args w
        else if operation = YStr ''diary'' then op_diary env args w
        else if operation = YStr ''mine'' then op_mine env args w
        else if operation = YStr ''events'' then op_events env args w
        else if operation = YStr ''garden'' then op_garden env args w
        else (Failure (Unknown_Operation operation), w))"


section \<open>Bounds\<close>

lemma finish_Success: "finish f out = (Success v, w') \<Longrightarrow> \<exists>x. out = (Inr x, w') \<and> v = f x"
  by (auto simp: finish_def split: prod.splits sum.splits)

lemma mine_loop_scanned: "mine_files_loop send wng fs acc s = (Inr m, s') \<Longrightarrow> mr_scanned acc \<le> MINE_MAX_FILES \<Longrightarrow> mr_scanned m \<le> MINE_MAX_FILES"
proof (induction send wng fs acc s arbitrary: m s' rule: mine_files_loop.induct)
  case (2 send wng parts r fs acc s)
  then show ?case by (auto simp: Let_def split: if_splits sum.splits option.splits prod.splits)
qed simp

lemma mine_files_scanned: "mine_files send path resolved rt s = (Inr m, s1) \<Longrightarrow> mr_scanned m \<le> MINE_MAX_FILES"
  by (auto simp: mine_files_def mine_start_def split: mine_root.splits intro: mine_loop_scanned)

lemma events_page_length:
  assumes "1 \<le> limit"
  shows "int (length (events_page tail limit es)) \<le> limit" "length (events_page tail limit es) \<le> length es"
  using assms by (auto simp: events_page_def py_upto_def py_from_def py_bound_def)

lemma clamp_limit_range: "1 \<le> clamp_limit raw" "clamp_limit raw \<le> 200"
  by (simp_all add: clamp_limit_def)

lemma read_ceiling: "length (fst (read_events_counting fs sid hf ef EVENTS_CEILING False)) \<le> 10000"
  by (auto simp: read_events_counting_def EVENTS_CEILING_def py_upto_nonneg split: option.split prod.split)

section \<open>The schema and the code\<close>

text \<open>The keys with a default of the schema that every use in the code shares.\<close>

definition DEFAULTED :: "(string \<times> yaml) list" where
  "DEFAULTED = [(''kg_action'', YStr ''query''), (''diary_action'', YStr ''read''), (''max_hops'', YInt 2), (''mode'', YStr ''files''),
     (''tail'', YBool True), (''lookback_days'', YInt 90), (''max_drawers'', YInt 200), (''cluster_threshold'', YFloat (4 / 5))]"

lemma arg_or_other: "X \<noteq> k \<Longrightarrow> arg_or ((k, d) # args) X D = arg_or args X D"
  by (simp add: arg_or_def)

lemma arg_or_default: "map_of args k = None \<Longrightarrow> arg_or ((k, d) # args) k d = arg_or args k d"
  by (simp add: arg_or_def)

lemma str_arg_other: "X \<noteq> k \<Longrightarrow> str_arg ((k, d) # args) X = str_arg args X"
  by (simp add: str_arg_def)

text \<open>Every read of an argument in the operations, with its default there.\<close>

definition USES :: "(string \<times> yaml) list" where
  "USES = [(''limit'', YInt 5), (''limit'', YInt 10), (''limit'', YInt 50), (''query'', YStr []), (''wing'', YNull), (''wing'', YStr ''general''),
     (''room'', YNull), (''room'', YStr ''notes''), (''room'', YStr ''general''), (''content'', YStr []), (''source'', YStr []),
     (''kg_action'', YStr ''query''), (''entity'', YNull), (''entity'', YStr []), (''subject'', YStr []), (''predicate'', YStr []),
     (''object'', YStr []), (''max_hops'', YInt 2), (''start_room'', YStr []), (''agent_name'', YStr ''amplifier''),
     (''diary_action'', YStr ''read''), (''entry'', YStr []), (''path'', YStr ''.''), (''mode'', YStr ''files''), (''tail'', YBool True),
     (''max_drawers'', YInt 200), (''lookback_days'', YInt 90), (''cluster_threshold'', YFloat (4 / 5))]"

definition same_args :: "json_args \<Rightarrow> json_args \<Rightarrow> bool" where
  "same_args a b \<longleftrightarrow> (\<forall>(X, D) \<in> set USES. arg_or a X D = arg_or b X D)
     \<and> (\<forall>X \<in> {''session_id'', ''hook_filter'', ''event_filter''}. str_arg a X = str_arg b X)"

lemma same_argsD: "same_args a b \<Longrightarrow> (X, D) \<in> set USES \<Longrightarrow> arg_or a X D = arg_or b X D"
  by (auto simp: same_args_def)

lemma same_strD: "same_args a b \<Longrightarrow> str_arg a ''session_id'' = str_arg b ''session_id'' \<and> str_arg a ''hook_filter'' = str_arg b ''hook_filter''
    \<and> str_arg a ''event_filter'' = str_arg b ''event_filter''"
  by (simp add: same_args_def)

lemma same_args_ops:
  assumes "same_args a b"
  shows "op_search env a w = op_search env b w" "op_remember env a w = op_remember env b w" "op_status env a w = op_status env b w"
    "op_kg env a w = op_kg env b w" "op_traverse env a w = op_traverse env b w" "op_diary env a w = op_diary env b w"
    "op_mine env a w = op_mine env b w" "op_events env a w = op_events env b w" "op_garden env a w = op_garden env b w"
proof -
  have u: "arg_or a ''limit'' (YInt 5) = arg_or b ''limit'' (YInt 5)" "arg_or a ''limit'' (YInt 10) = arg_or b ''limit'' (YInt 10)"
    "arg_or a ''limit'' (YInt 50) = arg_or b ''limit'' (YInt 50)" "arg_or a ''query'' (YStr []) = arg_or b ''query'' (YStr [])"
    "arg_or a ''wing'' YNull = arg_or b ''wing'' YNull" "arg_or a ''wing'' (YStr ''general'') = arg_or b ''wing'' (YStr ''general'')"
    "arg_or a ''room'' YNull = arg_or b ''room'' YNull" "arg_or a ''room'' (YStr ''notes'') = arg_or b ''room'' (YStr ''notes'')"
    "arg_or a ''room'' (YStr ''general'') = arg_or b ''room'' (YStr ''general'')" "arg_or a ''content'' (YStr []) = arg_or b ''content'' (YStr [])"
    "arg_or a ''source'' (YStr []) = arg_or b ''source'' (YStr [])" "arg_or a ''kg_action'' (YStr ''query'') = arg_or b ''kg_action'' (YStr ''query'')"
    "arg_or a ''entity'' YNull = arg_or b ''entity'' YNull" "arg_or a ''entity'' (YStr []) = arg_or b ''entity'' (YStr [])"
    "arg_or a ''subject'' (YStr []) = arg_or b ''subject'' (YStr [])" "arg_or a ''predicate'' (YStr []) = arg_or b ''predicate'' (YStr [])"
    "arg_or a ''object'' (YStr []) = arg_or b ''object'' (YStr [])" "arg_or a ''max_hops'' (YInt 2) = arg_or b ''max_hops'' (YInt 2)"
    "arg_or a ''start_room'' (YStr []) = arg_or b ''start_room'' (YStr [])"
    "arg_or a ''agent_name'' (YStr ''amplifier'') = arg_or b ''agent_name'' (YStr ''amplifier'')"
    "arg_or a ''diary_action'' (YStr ''read'') = arg_or b ''diary_action'' (YStr ''read'')" "arg_or a ''entry'' (YStr []) = arg_or b ''entry'' (YStr [])"
    "arg_or a ''path'' (YStr ''.'') = arg_or b ''path'' (YStr ''.'')" "arg_or a ''mode'' (YStr ''files'') = arg_or b ''mode'' (YStr ''files'')"
    "arg_or a ''tail'' (YBool True) = arg_or b ''tail'' (YBool True)" "arg_or a ''max_drawers'' (YInt 200) = arg_or b ''max_drawers'' (YInt 200)"
    "arg_or a ''lookback_days'' (YInt 90) = arg_or b ''lookback_days'' (YInt 90)"
    "arg_or a ''cluster_threshold'' (YFloat (4 / 5)) = arg_or b ''cluster_threshold'' (YFloat (4 / 5))"
    by (rule same_argsD [OF assms]; simp add: USES_def)+
  note s = same_strD [OF assms]
  show "op_search env a w = op_search env b w" by (simp add: op_search_def with_int_def u)
  show "op_remember env a w = op_remember env b w" by (simp only: op_remember_def u)
  show "op_status env a w = op_status env b w" by (simp only: op_status_def)
  have "kg_run env a = kg_run env b" by (simp only: kg_run_def Let_def u)
  then show "op_kg env a w = op_kg env b w" by (simp only: op_kg_def)
  show "op_traverse env a w = op_traverse env b w" by (simp add: op_traverse_def with_int_def u)
  show "op_diary env a w = op_diary env b w" by (simp only: op_diary_def Let_def with_int_def u)
  have "mine_run env a = mine_run env b" by (intro ext) (simp only: mine_run_def u)
  then show "op_mine env a w = op_mine env b w" by (simp only: op_mine_def)
  have "events_run env a = events_run env b" by (intro ext) (simp only: events_run_def u s)
  then show "op_events env a w = op_events env b w" by (simp only: op_events_def)
  have emit: "tool_emit env a = tool_emit env b" by (intro ext) (simp only: tool_emit_def s)
  then have "garden_progress env a = garden_progress env b" by (intro ext) (simp only: garden_progress_def)
  moreover have "garden_data a = garden_data b" by (intro ext) (simp only: garden_data_def u)
  moreover have "garden_request env a = garden_request env b" by (simp only: garden_request_def u)
  ultimately show "op_garden env a w = op_garden env b w" by (simp only: op_garden_def emit)
qed

lemma defaults_same:
  assumes "(k, d) \<in> set DEFAULTED" and "map_of args k = None"
  shows "same_args ((k, d) # args) args"
  using assms unfolding DEFAULTED_def list.set insert_iff empty_iff prod.inject
  by (elim disjE conjE FalseE; hypsubst; simp add: same_args_def USES_def arg_or_other arg_or_default str_arg_other)

definition OPERATIONS :: "string list" where
  "OPERATIONS = [''search'', ''remember'', ''status'', ''kg'', ''traverse'', ''diary'', ''mine'', ''events'', ''garden'']"

lemma finish_known: "fst (finish f out) \<noteq> Failure (Unknown_Operation v)"
  by (auto simp: finish_def split: prod.split sum.split)

lemma unknown_iff: "(\<exists>v. fst (execute env input w) = Failure (Unknown_Operation v)) \<longleftrightarrow> arg_or input ''operation'' (YStr []) \<notin> YStr ` set OPERATIONS"
proof -
  let ?a = "filter (\<lambda>(k, v). k \<noteq> ''operation'') input"
  have "fst (op_mine env ?a w) \<noteq> Failure (Unknown_Operation v)" "fst (op_events env ?a w) \<noteq> Failure (Unknown_Operation v)"
    "fst (op_garden env ?a w) \<noteq> Failure (Unknown_Operation v)" for v
    by (auto simp: op_mine_def op_events_def op_garden_def Let_def split: prod.splits sum.splits py_error.splits option.splits)
  moreover have "fst (op_search env ?a w) \<noteq> Failure (Unknown_Operation v)" "fst (op_remember env ?a w) \<noteq> Failure (Unknown_Operation v)"
    "fst (op_status env ?a w) \<noteq> Failure (Unknown_Operation v)" "fst (op_kg env ?a w) \<noteq> Failure (Unknown_Operation v)"
    "fst (op_traverse env ?a w) \<noteq> Failure (Unknown_Operation v)" "fst (op_diary env ?a w) \<noteq> Failure (Unknown_Operation v)" for v
    by (simp_all add: op_search_def op_remember_def op_status_def op_kg_def op_traverse_def op_diary_def Let_def finish_known)
  ultimately show ?thesis unfolding execute_def Let_def OPERATIONS_def by (simp split: if_split)
qed

text \<open>
  the schema is the code's.  An input is refused as an unknown operation exactly when its
  operation is none of the schema's; the schema names the defaults of the code's optional
  arguments, and passing one of them explicitly changes nothing.  The exception is \<open>limit\<close>, whose
  default depends on the operation.
\<close>
theorem schema_matches_code:
  assumes "(k, d) \<in> set DEFAULTED" and "map_of input k = None"
  shows "((\<exists>v. fst (execute env input w) = Failure (Unknown_Operation v)) \<longleftrightarrow>
      (\<forall>ops. schema_entry ''operation'' ''enum'' = Some (YList ops) \<longrightarrow> arg_or input ''operation'' (YStr []) \<notin> set ops))
    \<and> schema_entry k ''default'' = Some d \<and> execute env ((k, d) # input) w = execute env input w"
  proof (intro conjI)
  have op: "k \<noteq> ''operation''" using assms(1) by (auto simp: DEFAULTED_def)
  let ?rest = "\<lambda>xs. filter (\<lambda>(k, v). k \<noteq> ''operation'') xs"
  have "map_of (?rest input) k = None" using assms(2) by (auto simp: map_of_eq_None_iff)
  then have same: "same_args ((k, d) # ?rest input) (?rest input)" by (rule defaults_same [OF assms(1)])
  have "arg_or ((k, d) # input) ''operation'' (YStr []) = arg_or input ''operation'' (YStr [])" using op by (simp add: arg_or_other)
  moreover have "?rest ((k, d) # input) = (k, d) # ?rest input" using op by simp
  ultimately show "execute env ((k, d) # input) w = execute env input w"
    unfolding execute_def Let_def by (simp only: same_args_ops [OF same])
  show "schema_entry k ''default'' = Some d"
    using assms(1) unfolding DEFAULTED_def list.set insert_iff empty_iff prod.inject
    by (elim disjE conjE FalseE; hypsubst; simp add: schema_entry_def schema_properties_def)
  have enum: "schema_entry ''operation'' ''enum'' = Some (YList (map YStr OPERATIONS))"
    by (simp add: schema_entry_def schema_properties_def OPERATIONS_def)
  show "(\<exists>v. fst (execute env input w) = Failure (Unknown_Operation v)) \<longleftrightarrow>
      (\<forall>ops. schema_entry ''operation'' ''enum'' = Some (YList ops) \<longrightarrow> arg_or input ''operation'' (YStr []) \<notin> set ops)"
    unfolding enum using unknown_iff by auto
qed

section \<open>Reading the log\<close>

text \<open>What the operation reads of a log of records, with the arguments as the operation reads them.\<close>

definition matching :: "json_args \<Rightarrow> yaml event_record list \<Rightarrow> yaml event_record list" where
  "matching args rs = filter (wanted (str_arg args ''hook_filter'') (str_arg args ''event_filter'')) rs"

lemma events_page_map: "events_page tail limit (map f xs) = map f (events_page tail limit xs)"
  by (simp add: events_page_def py_from_def py_upto_def py_bound_def take_map drop_map)

lemma read_records:
  assumes "fs sid = Some (map Rec rs)"
  shows "read_events_counting fs sid (str_arg args ''hook_filter'') (str_arg args ''event_filter'') EVENTS_CEILING False
    = (map Rec (take 10000 (matching args rs)), 0)"
  using assms by (simp add: read_events_counting_def scan_records matching_def EVENTS_CEILING_def py_upto_nonneg take_map)

lemma resolved_sid_records:
  assumes "\<forall>r \<in> set rs. ev_sid r = te_session env sid"
  shows "resolved_sid sid (map Rec (events_page tail limit rs)) (map Rec rs)
    = Inr (case sid of Some x \<Rightarrow> x | None \<Rightarrow> if rs = [] then ''unknown'' else te_session env None)"
proof (cases sid)
  case None
  have "set (events_page tail limit rs) \<subseteq> set rs"
    by (auto simp: events_page_def py_from_def py_upto_def dest: in_set_takeD in_set_dropD)
  then show ?thesis using None assms
    by (cases "events_page tail limit rs"; cases rs) (auto simp: resolved_sid_def)
qed (simp add: resolved_sid_def)

lemma event_page_eq:
  assumes "map_of args ''limit'' = Some (YInt n)" and "tw_events w (te_session env (str_arg args ''session_id'')) = Some (map Rec rs)"
    and "\<forall>r \<in> set rs. ev_sid r = te_session env (str_arg args ''session_id'')"
  shows "let ms = matching args rs; k = nat (max 1 (min n 200)); m = min 10000 (length ms);
      sid = (case str_arg args ''session_id'' of Some x \<Rightarrow> x | None \<Rightarrow> if ms = [] then ''unknown'' else te_session env None);
      page = (if truthy (arg_or args ''tail'' (YBool True)) then drop (m - k) (take 10000 ms) else take k ms)
    in op_events env args w = (Success (YMap [(''session_id'', YStr sid), (''event_count'', YInt (int m)),
      (''returned'', YInt (int (min k (length ms)))), (''skipped_lines'', YInt 0), (''events'', YList (map event_json page))]), w)"
proof -
  define ms where "ms = take 10000 (matching args rs)"
  define k where "k = nat (max 1 (min n 200))"
  define tail where "tail = truthy (arg_or args ''tail'' (YBool True))"
  have k: "1 \<le> k" "k \<le> 200" "clamp_limit n = int k" by (auto simp: k_def clamp_limit_def)
  have page: "events_page tail (int k) ms = (if tail then drop (length ms - k) ms else take k (matching args rs))"
    using k by (auto simp: events_page_def py_from_neg py_upto_nonneg min_def ms_def)
  have len: "length (events_page tail (int k) ms) = min k (length (matching args rs))"
    unfolding page using k by (auto simp: ms_def)
  have "\<forall>r \<in> set ms. ev_sid r = te_session env (str_arg args ''session_id'')"
    using assms(3) by (auto simp: matching_def ms_def dest!: in_set_takeD)
  note sid = resolved_sid_records [OF this, of tail "int k"]
  have lim: "to_int (te_conversions env) (arg_or args ''limit'' (YInt 50)) = Inr n" using assms(1) by (simp add: arg_or_def to_int_def)
  note rd = read_records [of "tw_events w" "te_session env (str_arg args ''session_id'')" rs args, OF assms(2)]
  have js: "map line_json (map Rec xs) = map event_json xs" for xs by simp
  have "events_run env args (tw_events w) = Inr (YMap [(''session_id'', YStr (case str_arg args ''session_id'' of Some x \<Rightarrow> x
        | None \<Rightarrow> if ms = [] then ''unknown'' else te_session env None)), (''event_count'', YInt (int (length ms))),
      (''returned'', YInt (int (min k (length (matching args rs))))), (''skipped_lines'', YInt 0),
      (''events'', YList (map event_json (if tail then drop (length ms - k) ms else take k (matching args rs))))])"
    unfolding events_run_def Let_def rd tail_def [symmetric] ms_def [symmetric] lim bind_err_simps prod.case
      k(3) events_page_map sid js length_map
    unfolding len unfolding page by simp
  moreover have "length ms = min 10000 (length (matching args rs))" "ms = [] \<longleftrightarrow> matching args rs = []"
    by (simp_all add: ms_def min.commute)
  ultimately show ?thesis
    unfolding op_events_def Let_def tail_def [symmetric] k_def [symmetric] by (simp add: ms_def)
qed


text \<open>
  C27: the event page.  Over a log of records the operation answers the last, or without \<open>tail\<close> the
  first, of the matching events, as many as the limit clamped to 1 to 200, in their order, taken
  from the oldest 10,000 matches.  Up to 10,000 matches this is the page asked for; beyond, the count
  is 10,000 and the most recent event is not on a page that asks for the most recent ones.
\<close>
theorem event_page:
  assumes "map_of args ''limit'' = Some (YInt n)" and "tw_events w (te_session env (str_arg args ''session_id'')) = Some (map Rec rs)"
    and "\<forall>r \<in> set rs. ev_sid r = te_session env (str_arg args ''session_id'')"
  shows "let ms = matching args rs; k = nat (max 1 (min n 200)); m = min 10000 (length ms);
      sid = (case str_arg args ''session_id'' of Some x \<Rightarrow> x | None \<Rightarrow> if ms = [] then ''unknown'' else te_session env None);
      page = (if truthy (arg_or args ''tail'' (YBool True)) then drop (m - k) (take 10000 ms) else take k ms)
    in op_events env args w = (Success (YMap [(''session_id'', YStr sid), (''event_count'', YInt (int m)),
      (''returned'', YInt (int (min k (length ms)))), (''skipped_lines'', YInt 0), (''events'', YList (map event_json page))]), w)"
  by (rule event_page_eq [OF assms])

text \<open>
  a long log hides its recent events.  Once 10,000 events match, the operation's answer never
  changes again, whatever the session emits after that: the most recent events it gives with
  \<open>tail\<close> are the last of the first 10,000.
\<close>
theorem recent_events_are_hidden:
  assumes "map_of args ''limit'' = Some (YInt n)" and "\<forall>r \<in> set (rs @ later). ev_sid r = te_session env (str_arg args ''session_id'')"
    and "10000 \<le> length (matching args rs)"
  shows "fst (op_events env args (w\<lparr>tw_events := (tw_events w)(te_session env (str_arg args ''session_id'') \<mapsto> map Rec (rs @ later))\<rparr>))
    = fst (op_events env args (w\<lparr>tw_events := (tw_events w)(te_session env (str_arg args ''session_id'') \<mapsto> map Rec rs)\<rparr>))"
proof -
  let ?w = "\<lambda>xs. w\<lparr>tw_events := (tw_events w)(te_session env (str_arg args ''session_id'') \<mapsto> map Rec xs)\<rparr>"
  have log: "tw_events (?w xs) (te_session env (str_arg args ''session_id'')) = Some (map Rec xs)" for xs by simp
  have sids: "\<forall>r \<in> set rs. ev_sid r = te_session env (str_arg args ''session_id'')" using assms(2) by simp
  have ms: "matching args (rs @ later) = matching args rs @ matching args later" by (simp add: matching_def)
  have k: "nat (max 1 (min n 200)) \<le> length (matching args rs)" using assms(3) by simp
  have eqs: "min 10000 (length (matching args (rs @ later))) = min 10000 (length (matching args rs))"
    "take 10000 (matching args (rs @ later)) = take 10000 (matching args rs)"
    "take (nat (max 1 (min n 200))) (matching args (rs @ later)) = take (nat (max 1 (min n 200))) (matching args rs)"
    "min (nat (max 1 (min n 200))) (length (matching args (rs @ later))) = min (nat (max 1 (min n 200))) (length (matching args rs))"
    "matching args (rs @ later) = [] \<longleftrightarrow> matching args rs = []"
    using assms(3) k unfolding ms by auto
  show ?thesis
    using event_page_eq [OF assms(1) log sids] event_page_eq [OF assms(1) log assms(2)] unfolding Let_def eqs by simp
qed


section \<open>The tool over the daemon\<close>

text \<open>The tool is connected to a service: a daemon is always there, and calls go to it.\<close>

definition connected :: "'s native_store tool_env \<Rightarrow> ('s, 'b, 'm, 'i) service \<Rightarrow> bool" where
  "connected env sv \<longleftrightarrow> (\<forall>st. te_ensure env st = (True, st)) \<and> te_rpc env = http_call sv \<and> te_conversions env = sv_conversions sv"

text \<open>The daemon's own operation on a request of the tool.\<close>

definition daemon_remember :: "('s, 'b, 'm, 'i) service \<Rightarrow> mine_request \<Rightarrow> 's native_store \<Rightarrow> string \<times> 's native_store" where
  "daemon_remember sv q = remember (sv_backend sv) (sv_embedding_of sv) (sv_reads sv) (sv_str sv) (sv_pack sv) (sv_run sv) (sv_embedder sv)
     \<lparr>r_content = Some (mq_content q), r_wing = Some (mq_wing q), r_room = Some (mq_room q),
      r_source = (if mq_source q = [] then None else Some (mq_source q)), r_category = None, r_importance = None\<rparr>"

lemma mine_sender_daemon:
  assumes "connected env sv"
  shows "mine_sender env q st = (case daemon_remember sv q st of (ref, st') \<Rightarrow> (Inr ref, st'))"
proof -
  have nulls: "YNull = opt_json None" "YNull = opt_num None" by (simp_all add: opt_json_def opt_num_def)
  have "mine_sender env q st = client_remember (sv_conversions sv) (http_call sv) (YStr (mq_wing q)) (YStr (mq_room q))
      (YStr (mq_content q)) (YStr (mq_source q)) (opt_json None) (opt_num None) st"
    using assms by (simp add: mine_sender_def tool_remember_def call_client_def connected_def opt_json_def opt_num_def)
  then show ?thesis unfolding remember_eq_over_wire daemon_remember_def .
qed

lemma sender_never_raises: "connected env sv \<Longrightarrow> never_raises (mine_sender env)"
  by (auto simp: never_raises_def mine_sender_daemon split: prod.splits)

lemma after_sends_daemon:
  "connected env sv \<Longrightarrow> after_sends (mine_sender env) qs st = fold (\<lambda>q st. snd (daemon_remember sv q st)) qs st"
  unfolding after_sends_def by (intro fold_cong ext) (simp_all add: mine_sender_daemon case_prod_unfold)

text \<open>
  the tool's \<open>remember\<close> is the daemon's.  Through the client and the daemon's dispatch it files what
  the daemon's own operation files, under the wing and the room given or the tool's defaults, and
  answers its ref.
\<close>
theorem tool_remember_files:
  assumes "connected env sv"
  shows "execute env [(''operation'', YStr ''remember''), (''wing'', YStr a), (''room'', YStr b), (''content'', YStr c), (''source'', YStr d)] w
      = (case daemon_remember sv \<lparr>mq_wing = a, mq_room = b, mq_content = c, mq_source = d\<rparr> (tw_daemon w) of (ref, st') \<Rightarrow>
          (Success (wrapped ''ref'' (YStr ref)), w\<lparr>tw_daemon := st'\<rparr>))
    \<and> execute env [(''operation'', YStr ''remember''), (''content'', YStr c)] w
      = (case daemon_remember sv \<lparr>mq_wing = ''general'', mq_room = ''notes'', mq_content = c, mq_source = []\<rparr> (tw_daemon w) of (ref, st') \<Rightarrow>
          (Success (wrapped ''ref'' (YStr ref)), w\<lparr>tw_daemon := st'\<rparr>))"
proof -
  have send: "tool_remember env (YStr a) (YStr b) (YStr c) (YStr d) st
      = (case daemon_remember sv \<lparr>mq_wing = a, mq_room = b, mq_content = c, mq_source = d\<rparr> st of (ref, st') \<Rightarrow> (Inr ref, st'))"
    for a b c d st
    using mine_sender_daemon [OF assms, of "\<lparr>mq_wing = a, mq_room = b, mq_content = c, mq_source = d\<rparr>" st] by (simp add: mine_sender_def)
  show ?thesis
    by (simp add: execute_def Let_def op_remember_def arg_or_def finish_def on_daemon_def send split: prod.split)
qed

text \<open>
  C6: mining files the chunks in the daemon.  A run in the default mode \<open>files\<close> on a path that exists, over a connected
  daemon and with reads that succeed or fail with an \<open>OSError\<close> only, succeeds: it files one drawer for
  every chunk of the first 500 eligible files, one after the other, and reports their number and the
  files that could not be read.  The mode \<open>convos\<close> can fail (\<open>non_object_message_aborts_mining\<close>).
\<close>
theorem mining_files_in_the_daemon:
  assumes "connected env sv" and "te_files env path = (shown, resolved, rt)" and "rt \<noteq> No_Root"
    and "reads_or_os_error (iter_mine_files rt)"
  shows "let fs = take MINE_MAX_FILES (iter_mine_files rt); qs = requests_of (wing_of resolved) fs in
    execute env [(''operation'', YStr ''mine''), (''path'', YStr path)] w =
      (Success (mine_json ''files'' shown rt ''chunks_filed'' \<lparr>mr_scanned = length fs, mr_filed = length qs, mr_errors = read_errors fs\<rparr>),
       w\<lparr>tw_daemon := fold (\<lambda>q st. snd (daemon_remember sv q st)) qs (tw_daemon w)\<rparr>)"
proof -
  define fs where "fs = take MINE_MAX_FILES (iter_mine_files rt)"
  obtain r s' where run: "mine_files (mine_sender env) path resolved rt (tw_daemon w) = (r, s')" by (rule prod.exhaust)
  obtain made where made: "sent (mine_sender env) (requests_of (wing_of resolved) fs) made r (tw_daemon w) s'"
      "\<forall>m. r = Inr m \<longrightarrow> m = mine_total mine_start (wing_of resolved) fs"
    using mine_files_run [OF assms(3,4) run] by (auto simp: Let_def fs_def)
  have ok: "\<exists>ref. fst (mine_sender env q st) = Inr ref" for q st
    using sender_never_raises [OF assms(1)] by (metis fst_conv never_raises_def)
  have "r \<noteq> Inl e" for e
  proof
    assume "r = Inl e"
    then have "fst (mine_sender env (last made) (after_sends (mine_sender env) (butlast made) (tw_daemon w))) = Inl e"
      using made(1) by (simp add: sent_def)
    then show False using ok [of "last made" "after_sends (mine_sender env) (butlast made) (tw_daemon w)"] by auto
  qed
  then obtain m where r: "r = Inr m" by (cases r) auto
  then have m: "m = \<lparr>mr_scanned = length fs, mr_filed = length (requests_of (wing_of resolved) fs), mr_errors = read_errors fs\<rparr>"
    using made(2) by (simp add: mine_total_def mine_start_def)
  have s': "s' = fold (\<lambda>q st. snd (daemon_remember sv q st)) (requests_of (wing_of resolved) fs) (tw_daemon w)"
    using made(1) r by (simp add: sent_def after_sends_daemon [OF assms(1)])
  have "mine_run env [(''path'', YStr path)] (tw_daemon w) = (Inr (mine_json ''files'' shown rt ''chunks_filed'' m), s')"
    by (simp add: mine_run_def arg_or_def assms(2) run r)
  then show ?thesis
    unfolding Let_def fs_def [symmetric] m [symmetric] s' [symmetric]
    by (simp add: execute_def Let_def arg_or_def op_mine_def on_daemon_def)
qed

text \<open>The operations that need the daemon at once.\<close>

definition DAEMON_OPERATIONS :: "string set" where
  "DAEMON_OPERATIONS = {''search'', ''remember'', ''status'', ''kg'', ''traverse'', ''diary''}"

lemma call_client_down:
  "te_ensure env s = (False, s) \<Longrightarrow> call_client env meth s = (Inl (RuntimeError ''memory daemon unavailable''), s)"
  by (simp add: call_client_def)

lemma kg_run_down:
  "te_ensure env s = (False, s) \<Longrightarrow> kg_run env args s = (Inl (RuntimeError ''memory daemon unavailable''), s)"
  by (simp add: kg_run_def call_client_down Let_def)

lemma send_all_stays: "\<forall>q. snd (send q s) = s \<Longrightarrow> snd (send_all send qs s) = s"
proof (induction qs)
  case (Cons q qs)
  obtain r where "send q s = (r, s)" using Cons.prems by (metis prod.collapse)
  then show ?case using Cons by (auto split: sum.split prod.split)
qed simp

lemma mine_files_stays: "\<forall>q. snd (send q s) = s \<Longrightarrow> snd (mine_files_loop send wng fs acc s) = s"
proof (induction fs arbitrary: acc)
  case (Cons f fs)
  obtain parts r where f: "f = (parts, r)" by (rule prod.exhaust)
  show ?case
  proof (cases r)
    case (Inr t)
    obtain r1 where "send_all send (file_requests wng parts t) s = (r1, s)" using send_all_stays [of send s, OF Cons.prems] by (metis prod.collapse)
    then show ?thesis using Cons f Inr by (auto simp: Let_def split: sum.split)
  qed (use Cons f in \<open>auto simp: Let_def split: option.split\<close>)
qed simp

lemma messages_stays: "\<forall>q. snd (send q s) = s \<Longrightarrow> snd (messages_loop cv send wng nm vs n s) = s"
proof (induction vs arbitrary: n)
  case (Cons v vs)
  show ?case
  proof (cases "message_requests cv wng nm v")
    case (Inr qs)
    obtain r1 where "send_all send qs s = (r1, s)" using send_all_stays [of send s, OF Cons.prems] by (metis prod.collapse)
    then show ?thesis using Cons Inr by (auto split: sum.split)
  qed simp
qed simp

lemma mine_convos_stays: "\<forall>q. snd (send q s) = s \<Longrightarrow> snd (mine_convos_loop cv send wng fs acc s) = s"
proof (induction fs arbitrary: acc)
  case (Cons f fs)
  obtain parts r where f: "f = (parts, r)" by (rule prod.exhaust)
  show ?case
  proof (cases r)
    case (Inr doc)
    let ?acc = "acc\<lparr>mr_scanned := mr_scanned acc + 1\<rparr>"
    obtain r1 where "messages_loop cv send wng (last parts) (parse_convo_records doc) (mr_filed ?acc) s = (r1, s)"
      using messages_stays [of send s, OF Cons.prems] by (metis prod.collapse)
    then show ?thesis using Cons f Inr by (auto simp: Let_def split: sum.split)
  qed (use Cons f in \<open>auto simp: Let_def split: option.split\<close>)
qed simp

lemma mine_run_down:
  assumes "te_ensure env s = (False, s)"
  shows "snd (mine_run env args s) = s"
proof -
  have send: "\<forall>q. snd (mine_sender env q s) = s" using assms by (simp add: mine_sender_def tool_remember_def call_client_down)
  have "snd (mine_files (mine_sender env) path resolved rt s) = s" for path resolved rt
    by (cases rt) (simp_all add: mine_files_def mine_files_stays [of "mine_sender env" s, OF send])
  moreover have "snd (mine_convos cv (mine_sender env) path resolved parent rt s) = s" for cv path resolved parent rt
    by (cases rt) (simp_all add: mine_convos_def mine_convos_stays [of "mine_sender env" s, OF send])
  ultimately show ?thesis
    by (simp add: mine_run_def case_prod_unfold split: yaml.split)
qed

text \<open>
  without a daemon nothing is claimed.  Where no daemon can be reached or spawned, every operation
  on the store fails loudly and changes nothing; a mining run that succeeds filed nothing.
\<close>
theorem no_daemon_is_loud:
  assumes "te_ensure env (tw_daemon w) = (False, tw_daemon w)" and "arg_or input ''operation'' (YStr []) = YStr op"
    and "execute env input w = (res, w')"
  shows "(op \<in> DAEMON_OPERATIONS \<longrightarrow> (\<exists>e. res = Failure (Client_Error e)) \<and> w' = w)
    \<and> (op = ''mine'' \<longrightarrow> w' = w)"
proof (intro conjI impI)
  let ?args = "filter (\<lambda>(k, v). k \<noteq> ''operation'') input"
  note disp = assms(3) [unfolded execute_def Let_def assms(2)] and down = call_client_down [OF assms(1)] kg_run_down [OF assms(1)]
  {
    assume "op \<in> DAEMON_OPERATIONS"
    then have "(\<exists>e. res = Failure (Client_Error e)) \<and> w' = w"
      unfolding DAEMON_OPERATIONS_def insert_iff empty_iff
    proof (elim disjE FalseE)
      assume "op = ''search''"
      then show ?thesis using disp by (auto simp: op_search_def finish_def with_int_def on_daemon_def down split: sum.splits)
    next
      assume "op = ''remember''"
      then show ?thesis using disp by (auto simp: op_remember_def tool_remember_def finish_def on_daemon_def down)
    next
      assume "op = ''status''"
      then show ?thesis using disp by (auto simp: op_status_def finish_def on_daemon_def down)
    next
      assume "op = ''kg''"
      then show ?thesis using disp by (auto simp: op_kg_def finish_def on_daemon_def down)
    next
      assume "op = ''traverse''"
      then show ?thesis using disp by (auto simp: op_traverse_def finish_def with_int_def on_daemon_def down split: sum.splits)
    next
      assume "op = ''diary''"
      then show ?thesis using disp
        by (auto simp: op_diary_def Let_def finish_def with_int_def on_daemon_def down split: sum.splits if_splits)
    qed
  }
  then show "op \<in> DAEMON_OPERATIONS \<Longrightarrow> \<exists>e. res = Failure (Client_Error e)" "op \<in> DAEMON_OPERATIONS \<Longrightarrow> w' = w" by blast+
  assume "op = ''mine''"
  then have "op_mine env ?args w = (res, w')" using disp by simp
  then have "tw_daemon w' = tw_daemon w \<and> w' = w\<lparr>tw_daemon := tw_daemon w'\<rparr>"
    using mine_run_down [OF assms(1), of ?args]
    by (auto simp: op_mine_def on_daemon_def split: prod.splits sum.splits py_error.splits)
  then show "w' = w" by (cases w) simp
qed


section \<open>The garden's events\<close>

lemma log_of_emit:
  "log_of (emit_event True sid hook event ok preview d fs) sid' = log_of fs sid'
     @ (if sid' = sid then [Rec \<lparr>ev_sid = sid, ev_hook = hook, ev_name = event, ev_ok = ok, ev_preview = truncate_preview preview, ev_data = d\<rparr>] else [])"
  by (simp add: log_of_def emit_event_def Let_def)

definition progress_record :: "string \<Rightarrow> nat \<times> nat \<Rightarrow> yaml event_record" where
  "progress_record sid m = \<lparr>ev_sid = sid, ev_hook = ''tool-memory'', ev_name = ''garden_progress'', ev_ok = True,
     ev_preview = truncate_preview None, ev_data = YMap [(''drawers_scanned'', YInt (int (fst m))), (''drawers_total'', YInt (int (snd m)))]\<rparr>"

lemma progress_step:
  "te_writable env \<Longrightarrow> log_of (tw_events (garden_progress env args m w)) sid = log_of (tw_events w) sid
     @ (if sid = te_session env (str_arg args ''session_id'') then [Rec (progress_record sid m)] else [])"
  by (simp add: garden_progress_def tool_emit_def log_of_emit progress_record_def)

lemma progress_log:
  "te_writable env \<Longrightarrow> log_of (tw_events (fold (garden_progress env args) marks w)) sid = log_of (tw_events w) sid
     @ map Rec (if sid = te_session env (str_arg args ''session_id'') then map (progress_record sid) marks else [])"
  by (induction marks arbitrary: w) (simp_all add: progress_step)

text \<open>
  a garden run and its events.  A run over a request that can be read appends to the session's log,
  and to no other, one progress event per mark and, unless the run raised, one completion event,
  which says whether the run ended in time; a run that raised leaves none.
\<close>
theorem garden_run_is_logged:
  assumes "garden_request env args = Inr c" and "te_garden env c (tw_daemon w) = (marks, outcome, s')" and "te_writable env"
    and "op_garden env args w = (res, w')"
  shows "\<exists>recs. log_of (tw_events w') sid = log_of (tw_events w) sid @ map Rec recs
    \<and> map (\<lambda>r. (ev_name r, ev_ok r)) recs = (if sid = te_session env (str_arg args ''session_id'')
        then map (\<lambda>m. (''garden_progress'', True)) marks @ (case outcome of None \<Rightarrow> [(''garden_completed'', False)]
          | Some (Inl e) \<Rightarrow> [] | Some (Inr r) \<Rightarrow> [(''garden_completed'', True)]) else [])"
proof -
  let ?w1 = "fold (garden_progress env args) marks (w\<lparr>tw_daemon := s'\<rparr>)"
  define recs where "recs = (if sid = te_session env (str_arg args ''session_id'') then map (progress_record sid) marks else [])"
  have recs: "log_of (tw_events ?w1) sid = log_of (tw_events w) sid @ map Rec recs"
    "map (\<lambda>r. (ev_name r, ev_ok r)) recs = (if sid = te_session env (str_arg args ''session_id'') then map (\<lambda>m. (''garden_progress'', True)) marks else [])"
    using progress_log [OF assms(3), of args marks "w\<lparr>tw_daemon := s'\<rparr>" sid] by (simp_all add: recs_def progress_record_def)
  have fin: "\<exists>recs'. log_of (tw_events (tool_emit env args ''garden_completed'' ok payload d ?w1)) sid = log_of (tw_events w) sid @ map Rec (recs @ recs')
      \<and> map (\<lambda>r. (ev_name r, ev_ok r)) recs' = (if sid = te_session env (str_arg args ''session_id'') then [(''garden_completed'', ok)] else [])" for ok payload d
    using assms(3) recs(1) by (intro exI [of _ "if sid = te_session env (str_arg args ''session_id'') then [\<lparr>ev_sid = sid, ev_hook = ''tool-memory'',
        ev_name = ''garden_completed'', ev_ok = ok, ev_preview = truncate_preview None, ev_data = YMap d\<rparr>] else []"])
      (simp add: tool_emit_def log_of_emit)
  show ?thesis
  proof (cases "\<exists>e. outcome = Some (Inl e)")
    case True
    then have "w' = ?w1" using assms(1,2,4) by (auto simp: op_garden_def Let_def)
    then show ?thesis using recs True by (intro exI [of _ recs]) auto
  next
    case False
    define ok where "ok = (outcome \<noteq> None)"
    obtain payload d where w': "w' = tool_emit env args ''garden_completed'' ok payload d ?w1"
      using assms(1,2,4) False by (auto simp: op_garden_def Let_def ok_def split: option.splits sum.splits)
    obtain recs' where r: "log_of (tw_events w') sid = log_of (tw_events w) sid @ map Rec (recs @ recs')"
        "map (\<lambda>r. (ev_name r, ev_ok r)) recs' = (if sid = te_session env (str_arg args ''session_id'') then [(''garden_completed'', ok)] else [])"
      using fin [of ok payload d] w' by blast
    then show ?thesis using recs(2) False
      by (intro exI [of _ "recs @ recs'"]) (auto simp: ok_def split: option.split sum.split)
  qed
qed


section \<open>Concrete calls\<close>

definition demo_tool :: "(string, nat) event list native_store tool_env" where
  "demo_tool = \<lparr>te_ensure = (\<lambda>st. (True, st)), te_rpc = http_call demo_service, te_conversions = demo_conversions,
     te_files = (\<lambda>p. (\<lambda>parts. join ''/'' (p # parts), ''repo'', demo_tree)), te_convos = (\<lambda>p. (\<lambda>parts. p, ''repo'', ''r'', No_Root)),
     te_session = (\<lambda>s. case s of Some x \<Rightarrow> x | None \<Rightarrow> ''s1''), te_writable = True, te_bridged = True,
     te_garden = (\<lambda>c st. ([(50, 60)], None, st))\<rparr>"

definition demo_world :: "(string, nat) event list native_store tool_world" where
  "demo_world = \<lparr>tw_daemon = native_init [], tw_events = Map.empty, tw_bridge = []\<rparr>"

definition demo_record :: "string \<Rightarrow> yaml event_record" where
  "demo_record nm = \<lparr>ev_sid = ''s1'', ev_hook = ''memory-capture'', ev_name = nm, ev_ok = True, ev_preview = None, ev_data = YMap []\<rparr>"

lemma demo_connected: "connected demo_tool demo_service"
  by (simp add: connected_def demo_tool_def demo_service_def)

theorem event_page_witness:
  "op_events demo_tool [(''limit'', YInt 1)] (demo_world\<lparr>tw_events := [''s1'' \<mapsto> [Rec (demo_record ''a''), Rec (demo_record ''b'')]]\<rparr>) =
     (Success (YMap [(''session_id'', YStr ''s1''), (''event_count'', YInt 2), (''returned'', YInt 1), (''skipped_lines'', YInt 0),
        (''events'', YList [event_json (demo_record ''b'')])]),
      demo_world\<lparr>tw_events := [''s1'' \<mapsto> [Rec (demo_record ''a''), Rec (demo_record ''b'')]]\<rparr>)"
  using event_page [of "[(''limit'', YInt 1)]" 1 "demo_world\<lparr>tw_events := [''s1'' \<mapsto> [Rec (demo_record ''a''), Rec (demo_record ''b'')]]\<rparr>"
      demo_tool "[demo_record ''a'', demo_record ''b'']"]
  by (simp add: demo_tool_def str_arg_def demo_record_def matching_def wanted_def arg_or_def Let_def)

theorem recent_events_are_hidden_witness:
  "fst (op_events demo_tool [(''limit'', YInt 1)] (demo_world\<lparr>tw_events := [''s1'' \<mapsto> map Rec (replicate 10000 (demo_record ''a'') @ [demo_record ''b''])]\<rparr>))
    = fst (op_events demo_tool [(''limit'', YInt 1)] (demo_world\<lparr>tw_events := [''s1'' \<mapsto> map Rec (replicate 10000 (demo_record ''a''))]\<rparr>))"
proof -
  let ?args = "[(''limit'', YInt 1)]" and ?rs = "replicate 10000 (demo_record ''a'')"
  have "map_of ?args ''limit'' = Some (YInt 1)" by simp
  moreover have "\<forall>r \<in> set (?rs @ [demo_record ''b'']). ev_sid r = te_session demo_tool (str_arg ?args ''session_id'')"
    by (auto simp: demo_record_def demo_tool_def str_arg_def)
  moreover have "10000 \<le> length (matching ?args ?rs)"
    by (simp add: matching_def wanted_def str_arg_def filter_replicate)
  ultimately have "fst (op_events demo_tool ?args (demo_world\<lparr>tw_events := (tw_events demo_world)(te_session demo_tool (str_arg ?args ''session_id'') \<mapsto> map Rec (?rs @ [demo_record ''b'']))\<rparr>))
    = fst (op_events demo_tool ?args (demo_world\<lparr>tw_events := (tw_events demo_world)(te_session demo_tool (str_arg ?args ''session_id'') \<mapsto> map Rec ?rs)\<rparr>))"
    by (rule recent_events_are_hidden)
  moreover have "te_session demo_tool (str_arg ?args ''session_id'') = ''s1''" by (simp add: demo_tool_def str_arg_def)
  moreover have "tw_events demo_world = Map.empty" by (simp add: demo_world_def)
  ultimately show ?thesis by simp
qed

theorem tool_remember_files_witness:
  "\<exists>st'. execute demo_tool [(''operation'', YStr ''remember''), (''content'', YStr ''use tabs'')] demo_world =
     (Success (wrapped ''ref'' (YStr ''#use tabs'')), demo_world\<lparr>tw_daemon := st'\<rparr>)"
proof -
  have "fst (daemon_remember demo_service \<lparr>mq_wing = ''general'', mq_room = ''notes'', mq_content = ''use tabs'', mq_source = []\<rparr> (native_init []))
      = ''#use tabs''"
    by (simp add: daemon_remember_def remember_def demo_service_def maybe_sweep_def try_embed_def native_file_def remember_cell_def or_default_def
        log_backend_def file_core_def scope_to_def fact_if_def log_cell_def log_relate_def resolve_batch_ref_def native_init_def
        demo_substrate_def Let_def)
  then show ?thesis
    using conjunct2 [OF tool_remember_files [OF demo_connected, of _ _ _ _ demo_world], of "''use tabs''"]
    by (auto simp: demo_world_def split: prod.splits)
qed

theorem mining_files_in_the_daemon_witness:
  "\<exists>v st'. execute demo_tool [(''operation'', YStr ''mine''), (''path'', YStr ''.'')] demo_world = (Success v, demo_world\<lparr>tw_daemon := st'\<rparr>)"
proof -
  have "te_files demo_tool ''.'' = (\<lambda>parts. join ''/'' (''.'' # parts), ''repo'', demo_tree)" by (simp add: demo_tool_def)
  moreover have "demo_tree \<noteq> No_Root" by (simp add: demo_tree_def)
  moreover have "reads_or_os_error (iter_mine_files demo_tree)" by (simp add: demo_tree_files reads_or_os_error_def)
  ultimately show ?thesis
    using mining_files_in_the_daemon [OF demo_connected, of "''.''"] by (auto simp: Let_def)
qed

theorem no_daemon_is_loud_witness:
  "\<exists>e. execute (demo_tool\<lparr>te_ensure := (\<lambda>st. (False, st))\<rparr>) [(''operation'', YStr ''status'')] demo_world = (Failure (Client_Error e), demo_world)"
proof -
  let ?env = "demo_tool\<lparr>te_ensure := (\<lambda>st. (False, st))\<rparr>"
  obtain res w' where run: "execute ?env [(''operation'', YStr ''status'')] demo_world = (res, w')" by (rule prod.exhaust)
  have "te_ensure ?env (tw_daemon demo_world) = (False, tw_daemon demo_world)" by simp
  moreover have "arg_or [(''operation'', YStr ''status'')] ''operation'' (YStr []) = YStr ''status''" by (simp add: arg_or_def)
  ultimately have "(\<exists>e. res = Failure (Client_Error e)) \<and> w' = demo_world"
    using no_daemon_is_loud [OF _ _ run] by (auto simp: DAEMON_OPERATIONS_def)
  then show ?thesis using run by auto
qed

theorem garden_run_is_logged_witness:
  "\<exists>res w' recs. op_garden demo_tool [] demo_world = (res, w') \<and> log_of (tw_events w') ''s1'' = map Rec recs
     \<and> map (\<lambda>r. (ev_name r, ev_ok r)) recs = [(''garden_progress'', True), (''garden_completed'', False)]"
proof -
  obtain res w' where run: "op_garden demo_tool [] demo_world = (res, w')" by (rule prod.exhaust)
  have c: "\<exists>c. garden_request demo_tool [] = Inr c" by (simp add: garden_request_def arg_or_def to_int_def to_float_def Let_def)
  then obtain c where c: "garden_request demo_tool [] = Inr c" ..
  have g: "te_garden demo_tool c (tw_daemon demo_world) = ([(50, 60)], None, tw_daemon demo_world)" "te_writable demo_tool"
    by (simp_all add: demo_tool_def)
  have "te_session demo_tool (str_arg [] ''session_id'') = ''s1''" "log_of (tw_events demo_world) ''s1'' = []"
    by (simp_all add: demo_tool_def str_arg_def demo_world_def log_of_def)
  then show ?thesis using garden_run_is_logged [OF c g run, of "''s1''"] run by auto
qed


theorem schema_matches_code_witness:
  "execute demo_tool [(''mode'', YStr ''files''), (''operation'', YStr ''forget'')] demo_world
      = execute demo_tool [(''operation'', YStr ''forget'')] demo_world
    \<and> (\<exists>v. fst (execute demo_tool [(''operation'', YStr ''forget'')] demo_world) = Failure (Unknown_Operation v))"
proof -
  have m: "(''mode'', YStr ''files'') \<in> set DEFAULTED" "map_of [(''operation'', YStr ''forget'')] ''mode'' = None"
    by (simp_all add: DEFAULTED_def)
  note t = schema_matches_code [OF m, of demo_tool demo_world]
  have "\<forall>ops. schema_entry ''operation'' ''enum'' = Some (YList ops) \<longrightarrow> arg_or [(''operation'', YStr ''forget'')] ''operation'' (YStr []) \<notin> set ops"
    by (simp add: schema_entry_def schema_properties_def arg_or_def)
  then show ?thesis using t by blast
qed

end
