(* ===== verification/Migrate.thy ===== *)
theory Migrate
  imports Daemon Manifest
begin

text \<open>
  The import from the legacy store (\<open>migrate.py\<close>): the paging over the collection, the import of one
  drawer through the client's calls, the pass over all of them with its report, the verification and
  the exit code.  The collection's \<open>get\<close> and the client's calls, which may raise, are arguments.
\<close>

section \<open>Paging over the collection\<close>

definition PAGE_SIZE :: nat where "PAGE_SIZE = 500"

text \<open>A page: ids, documents, metadata and, where they are stored, embeddings.\<close>

record page =
  pg_ids :: "string list"
  pg_documents :: "string option list"
  pg_metadatas :: "(string \<times> yaml) list option list"
  pg_embeddings :: "real list option list option"

type_synonym row = "string \<times> string option \<times> (string \<times> yaml) list \<times> real list option"

definition page_rows :: "page \<Rightarrow> row list" where
  "page_rows pg = (let embs = (case pg_embeddings pg of Some es \<Rightarrow> es | None \<Rightarrow> replicate (length (pg_ids pg)) None)
     in map (\<lambda>(i, d, m, e). (i, d, case m of Some kv \<Rightarrow> kv | None \<Rightarrow> [], e))
       (zip (pg_ids pg) (zip (pg_documents pg) (zip (pg_metadatas pg) embs))))"

text \<open>
  The generator: the rows it yields and the exception that ends it, if one does; \<open>None\<close> where the
  pages never end.
\<close>

partial_function (option) iter_rows :: "(nat \<Rightarrow> nat \<Rightarrow> py_error + page) \<Rightarrow> nat \<Rightarrow> (row list \<times> py_error option) option" where
  "iter_rows get offset = (case get PAGE_SIZE offset of
     Inl e \<Rightarrow> Some ([], Some e)
   | Inr pg \<Rightarrow> if pg_ids pg = [] then Some ([], None)
       else if length (pg_ids pg) < PAGE_SIZE then Some (page_rows pg, None)
       else Option.bind (iter_rows get (offset + length (pg_ids pg))) (\<lambda>(rs, e). Some (page_rows pg @ rs, e)))"

section \<open>The client\<close>

record 's import_client =
  ic_write_cell :: "string \<Rightarrow> 's \<Rightarrow> (py_error + string) \<times> 's"
  ic_scope :: "string \<Rightarrow> string \<Rightarrow> 's \<Rightarrow> (py_error + unit) \<times> 's"
  ic_assert :: "string \<Rightarrow> string \<Rightarrow> string \<Rightarrow> 's \<Rightarrow> (py_error + unit) \<times> 's"
  ic_facts :: "string \<Rightarrow> string \<Rightarrow> 's \<Rightarrow> py_error + bool \<times> string list"
  ic_regenerate :: "string \<Rightarrow> 's \<Rightarrow> py_error + string"
  ic_embed :: "string \<Rightarrow> real list \<Rightarrow> 's \<Rightarrow> (py_error + string) \<times> 's"
  ic_remember :: "remember_args \<Rightarrow> 's \<Rightarrow> (py_error + string) \<times> 's"
  ic_decode :: "string \<Rightarrow> string"

definition and_then :: "('s \<Rightarrow> (py_error + 'a) \<times> 's) \<Rightarrow> ('a \<Rightarrow> 's \<Rightarrow> (py_error + 'b) \<times> 's) \<Rightarrow> 's \<Rightarrow> (py_error + 'b) \<times> 's" where
  "and_then m f s = (case m s of (Inl e, s') \<Rightarrow> (Inl e, s') | (Inr x, s') \<Rightarrow> f x s')"

text \<open>The read-before-write guard; any failure of a read counts as absent.\<close>

fun any_value :: "('s, 'm) import_client_scheme \<Rightarrow> string \<Rightarrow> 's \<Rightarrow> string list \<Rightarrow> bool" where
  "any_value c v s [] = False"
| "any_value c v s (obj # objs) = (case ic_regenerate c obj s of Inl e \<Rightarrow> False
     | Inr raw \<Rightarrow> ic_decode c raw = v \<or> any_value c v s objs)"

definition fact_present :: "('s, 'm) import_client_scheme \<Rightarrow> string \<Rightarrow> string \<Rightarrow> string \<Rightarrow> 's \<Rightarrow> bool" where
  "fact_present c ref p v s = (case ic_facts c ref p s of Inl e \<Rightarrow> False | Inr (ok, objs) \<Rightarrow> ok \<and> any_value c v s objs)"

definition assert_fact_if_missing :: "('s, 'm) import_client_scheme \<Rightarrow> string \<Rightarrow> string \<Rightarrow> string \<Rightarrow> 's \<Rightarrow> (py_error + bool) \<times> 's" where
  "assert_fact_if_missing c ref p v s = (if fact_present c ref p v s then (Inr False, s)
     else and_then (ic_write_cell c v) (\<lambda>obj. and_then (ic_assert c ref p obj) (\<lambda>u s. (Inr True, s))) s)"

definition assert_opt :: "('s, 'm) import_client_scheme \<Rightarrow> string \<Rightarrow> string \<Rightarrow> string option \<Rightarrow> 's \<Rightarrow> (py_error + bool) \<times> 's" where
  "assert_opt c ref p v s = (case v of None \<Rightarrow> (Inr False, s) | Some x \<Rightarrow> assert_fact_if_missing c ref p x s)"

section \<open>One drawer\<close>

record legacy_drawer =
  ld_text :: string
  ld_wing :: string
  ld_room :: string
  ld_source :: string
  ld_category :: "string option"
  ld_importance :: "real option"
  ld_embedding :: "real list option"

definition import_embedding :: "('s, 'm) import_client_scheme \<Rightarrow> bool \<Rightarrow> legacy_drawer \<Rightarrow> string \<Rightarrow> 's \<Rightarrow> (py_error + bool) \<times> 's" where
  "import_embedding c re_embed d ref s = (if re_embed then
       (case ic_remember c \<lparr>r_content = Some (ld_text d), r_wing = Some (ld_wing d), r_room = Some (ld_room d),
          r_source = (if ld_source d = [] then None else Some (ld_source d)), r_category = ld_category d, r_importance = ld_importance d\<rparr> s of
        (Inl e, s') \<Rightarrow> (Inr False, s') | (Inr r, s') \<Rightarrow> (Inr True, s'))
     else (case ld_embedding d of None \<Rightarrow> (Inr False, s)
       | Some v \<Rightarrow> if fact_present c ref ''has_embedding_copied'' ''true'' s then (Inr False, s)
           else and_then (ic_embed c ref v) (\<lambda>e. and_then (ic_write_cell c ''true'') (\<lambda>t.
             and_then (ic_assert c ref ''has_embedding_copied'' t) (\<lambda>u s. (Inr True, s)))) s))"

definition import_one_drawer :: "('s, 'm) import_client_scheme \<Rightarrow> (real \<Rightarrow> string) \<Rightarrow> bool \<Rightarrow> legacy_drawer \<Rightarrow> 's \<Rightarrow> (py_error + string \<times> bool) \<times> 's" where
  "import_one_drawer c str re_embed d =
     and_then (ic_write_cell c (ld_text d)) (\<lambda>ref.
     and_then (ic_write_cell c (''wing:'' @ ld_wing d)) (\<lambda>w. and_then (ic_scope c ref w) (\<lambda>u.
     and_then (ic_write_cell c (''room:'' @ ld_room d)) (\<lambda>r. and_then (ic_scope c ref r) (\<lambda>u.
     and_then (assert_opt c ref ''has_source'' (if ld_source d = [] then None else Some (ld_source d))) (\<lambda>b.
     and_then (assert_opt c ref ''has_category'' (ld_category d)) (\<lambda>b.
     and_then (assert_opt c ref ''has_importance'' (map_option str (ld_importance d))) (\<lambda>b.
     and_then (import_embedding c re_embed d ref) (\<lambda>copied s. (Inr (ref, copied), s))))))))))"

section \<open>The pass\<close>

definition field_or :: "(string \<times> yaml) list \<Rightarrow> string \<Rightarrow> yaml" where
  "field_or m k = (case map_of m k of Some v \<Rightarrow> v | None \<Rightarrow> YNull)"

definition read_row :: "conversions \<Rightarrow> string \<Rightarrow> row \<Rightarrow> py_error + legacy_drawer" where
  "read_row cv default_wing r = (case r of (i, doc, m, emb) \<Rightarrow>
     let text_or = (\<lambda>v d. if truthy v then json_text cv v else d);
         imp = field_or m ''importance'';
         cat = field_or m ''category''
     in bind_err (if imp = YNull then Inr None else bind_err (to_float cv imp) (\<lambda>x. Inr (Some x))) (\<lambda>importance.
        Inr \<lparr>ld_text = (case doc of Some t \<Rightarrow> t | None \<Rightarrow> []), ld_wing = text_or (field_or m ''wing'') default_wing,
          ld_room = text_or (field_or m ''room'') ''imported'',
          ld_source = text_or (field_or m ''source_file'') (text_or (field_or m ''source'') []),
          ld_category = (if cat = YNull then None else Some (json_text cv cat)), ld_importance = importance, ld_embedding = emb\<rparr>))"

datatype import_error = Row_Failed string py_error | Byte_Mismatch string | Verify_Failed string py_error

record import_report =
  ir_drawers :: nat
  ir_copied :: nat
  ir_errors :: "import_error list"
  ir_verified :: "bool option"
  ir_imported :: "(string \<times> string) list"

fun import_rows :: "('s, 'm) import_client_scheme \<Rightarrow> conversions \<Rightarrow> bool \<Rightarrow> string \<Rightarrow> row list \<Rightarrow> import_report \<Rightarrow> 's \<Rightarrow> import_report \<times> 's" where
  "import_rows c cv re_embed dw [] rep s = (rep, s)"
| "import_rows c cv re_embed dw (r # rs) rep s = (case (case read_row cv dw r of Inl e \<Rightarrow> (Inl e, s)
       | Inr d \<Rightarrow> (case import_one_drawer c (\<lambda>x. str_of cv (YFloat x)) re_embed d s of (out, s') \<Rightarrow>
           (bind_err out (\<lambda>(ref, copied). Inr (ref, copied, ld_text d)), s'))) of
     (Inl e, s') \<Rightarrow> import_rows c cv re_embed dw rs (rep\<lparr>ir_errors := ir_errors rep @ [Row_Failed (fst r) e]\<rparr>) s'
   | (Inr (ref, copied, t), s') \<Rightarrow> import_rows c cv re_embed dw rs (rep\<lparr>ir_drawers := ir_drawers rep + 1,
         ir_copied := ir_copied rep + (if copied then 1 else 0), ir_imported := ir_imported rep @ [(ref, t)]\<rparr>) s')"

fun verify_rows :: "('s, 'm) import_client_scheme \<Rightarrow> 's \<Rightarrow> (string \<times> string) list \<Rightarrow> import_report \<Rightarrow> import_report" where
  "verify_rows c s [] rep = rep"
| "verify_rows c s ((ref, t) # rs) rep = verify_rows c s rs (case ic_regenerate c ref s of
     Inl e \<Rightarrow> rep\<lparr>ir_verified := Some False, ir_errors := ir_errors rep @ [Verify_Failed ref e]\<rparr>
   | Inr raw \<Rightarrow> if raw \<noteq> t then rep\<lparr>ir_verified := Some False, ir_errors := ir_errors rep @ [Byte_Mismatch ref]\<rparr> else rep)"

definition empty_report :: import_report where
  "empty_report = \<lparr>ir_drawers = 0, ir_copied = 0, ir_errors = [], ir_verified = None, ir_imported = []\<rparr>"

text \<open>
  One pass over an opened collection; an exception of the collection ends it, after the rows before it
  were imported.  \<open>None\<close> where the paging never ends.
\<close>

definition migrate :: "('s, 'm) import_client_scheme \<Rightarrow> conversions \<Rightarrow> py_error + (nat \<Rightarrow> nat \<Rightarrow> py_error + page) \<Rightarrow> bool \<Rightarrow> bool \<Rightarrow> bool \<Rightarrow> string
    \<Rightarrow> 's \<Rightarrow> ((py_error + import_report) \<times> 's) option" where
  "migrate c cv opened up re_embed verify dw s = (case opened of Inl e \<Rightarrow> Some (Inl e, s)
   | Inr get \<Rightarrow> if \<not> up then Some (Inl (RuntimeError ''memory daemon unavailable -- cannot import''), s)
       else Option.bind (iter_rows get 0) (\<lambda>(rows, err). case import_rows c cv re_embed dw rows empty_report s of (rep, s') \<Rightarrow>
         Some (case err of Some e \<Rightarrow> (Inl e, s')
           | None \<Rightarrow> (Inr (if verify then verify_rows c s' (ir_imported rep) (rep\<lparr>ir_verified := Some True\<rparr>) else rep), s'))))"

text \<open>
  Opening the legacy collection: the import of the library, its client (whose exception is let through)
  and the collection.
\<close>

definition open_legacy_collection :: "bool \<Rightarrow> string \<Rightarrow> py_error + (py_error + 'c) \<Rightarrow> py_error + 'c" where
  "open_legacy_collection installed src found = (
     if \<not> installed then Inl (RuntimeError (''amplifier-memory-import requires the '' @ [CHR 39] @ ''[migrate]'' @ [CHR 39] @ '' extra: pip install ''
       @ [CHR 39] @ ''amplifier-module-tool-memory[migrate]'' @ [CHR 39]))
     else bind_err found (\<lambda>got. case got of
       Inl e \<Rightarrow> Inl (RuntimeError (''collection '' @ [CHR 39] @ ''mempalace_drawers'' @ [CHR 39] @ '' not found under '' @ src
         @ '' -- is this a legacy vendor palace directory?''))
     | Inr coll \<Rightarrow> Inr coll))"

text \<open>The command: its arguments with their defaults, where it reads and where it writes, and what it runs.\<close>

record import_args =
  ia_source :: "string option"
  ia_home :: "string option"
  ia_re_embed :: bool
  ia_verify :: bool
  ia_wing :: string

definition import_defaults :: import_args where
  "import_defaults = \<lparr>ia_source = None, ia_home = None, ia_re_embed = False, ia_verify = False, ia_wing = ''wing_general''\<rparr>"

definition path_or :: "(string \<Rightarrow> string) \<Rightarrow> string option \<Rightarrow> string \<Rightarrow> string" where
  "path_or expanduser given fallback = (case given of Some p \<Rightarrow> if p \<noteq> [] then expanduser p else fallback | None \<Rightarrow> fallback)"

text \<open>The exit code of \<open>main\<close>, which catches \<open>RuntimeError\<close> only.\<close>

definition exit_code :: "py_error + import_report \<Rightarrow> py_error + nat" where
  "exit_code r = (case r of Inl (RuntimeError m) \<Rightarrow> Inr 1 | Inl e \<Rightarrow> Inl e
     | Inr rep \<Rightarrow> Inr (if ir_errors rep = [] then 0 else 1))"

text \<open>\<open>main\<close>, with the outside as functions of the two directories: the collection opened there and the daemon of the home.\<close>

definition import_main :: "(string \<Rightarrow> ('s, 'm) import_client_scheme) \<Rightarrow> conversions \<Rightarrow> (string \<Rightarrow> string) \<Rightarrow> string \<Rightarrow> string
    \<Rightarrow> (string \<Rightarrow> py_error + (nat \<Rightarrow> nat \<Rightarrow> py_error + page)) \<Rightarrow> (string \<Rightarrow> bool) \<Rightarrow> import_args \<Rightarrow> 's \<Rightarrow> ((py_error + nat) \<times> 's) option" where
  "import_main daemon cv expanduser default_source default_home open_at up a s = (
     let src = path_or expanduser (ia_source a) default_source; hm = path_or expanduser (ia_home a) default_home
     in map_option (apfst exit_code) (migrate (daemon hm) cv (open_at src) (up hm) (ia_re_embed a) (ia_verify a) (ia_wing a) s))"

text \<open>Without the library, the collection or the daemon the command exits with 1 and writes nothing.\<close>

lemma import_main_refuses:
  assumes "open_at (path_or expanduser (ia_source a) default_source) = open_legacy_collection installed src found"
    and "\<not> installed \<or> (\<exists>e. found = Inr (Inl e)) \<or> installed \<and> (\<exists>coll. found = Inr (Inr coll)) \<and> \<not> up (path_or expanduser (ia_home a) default_home)"
  shows "import_main daemon cv expanduser default_source default_home open_at up a s = Some (Inr 1, s)"
  using assms by (auto simp: import_main_def migrate_def exit_code_def open_legacy_collection_def bind_err_def)

section \<open>Paging\<close>

text \<open>A collection that pages over its records.\<close>

definition page_of :: "row list \<Rightarrow> page" where
  "page_of rs = \<lparr>pg_ids = map fst rs, pg_documents = map (fst \<circ> snd) rs, pg_metadatas = map (Some \<circ> fst \<circ> snd \<circ> snd) rs,
     pg_embeddings = Some (map (snd \<circ> snd \<circ> snd) rs)\<rparr>"

definition collection_of :: "row list \<Rightarrow> nat \<Rightarrow> nat \<Rightarrow> py_error + page" where
  "collection_of rs limit offset = Inr (page_of (take limit (drop offset rs)))"

lemma pg_ids_of [simp]: "pg_ids (page_of rs) = map fst rs"
  by (simp add: page_of_def)

lemma page_rows_of [simp]: "page_rows (page_of rs) = rs"
  by (simp add: page_rows_def page_of_def zip_map_map zip_same_conv_map Let_def case_prod_unfold comp_def)

lemma iter_rows_collection:
  "offset \<le> length rs \<Longrightarrow> iter_rows (collection_of rs) offset = Some (drop offset rs, None)"
proof (induction "length rs - offset" arbitrary: offset rule: less_induct)
  case less
  let ?pg = "take PAGE_SIZE (drop offset rs)"
  show ?case
  proof (cases "length rs - offset < PAGE_SIZE")
    case True
    then have "?pg = drop offset rs" by simp
    then show ?thesis using True
      by (subst iter_rows.simps) (auto simp: collection_of_def)
  next
    case False
    then have len: "length ?pg = PAGE_SIZE" by simp
    have "length rs - (offset + PAGE_SIZE) < length rs - offset" using False by (simp add: PAGE_SIZE_def)
    moreover have "offset + PAGE_SIZE \<le> length rs" using False less.prems by simp
    ultimately have "iter_rows (collection_of rs) (offset + PAGE_SIZE) = Some (drop (offset + PAGE_SIZE) rs, None)" by (rule less.hyps)
    moreover have "?pg @ drop (offset + PAGE_SIZE) rs = drop offset rs"
      by (metis append_take_drop_id drop_drop add.commute)
    moreover have "?pg \<noteq> []" "\<not> length ?pg < PAGE_SIZE" using len by (auto simp: PAGE_SIZE_def)
    ultimately show ?thesis using len
      by (subst iter_rows.simps) (simp add: collection_of_def del: length_take take_eq_Nil)
  qed
qed

section \<open>A pass that verifies\<close>

lemma import_rows_errors: "ir_errors rep \<noteq> [] \<Longrightarrow> ir_errors (fst (import_rows c cv re_embed dw rs rep s)) \<noteq> []"
  by (induction rs arbitrary: rep s) (auto split: prod.splits sum.splits)

lemma import_rows_failed:
  "ir_errors (fst (import_rows c cv re_embed dw rs (rep\<lparr>ir_errors := ir_errors rep @ [e]\<rparr>) s)) \<noteq> []"
  by (rule import_rows_errors) simp

lemma read_row_text:
  "read_row cv dw r = Inr d \<Longrightarrow> ld_text d = (case fst (snd r) of Some t \<Rightarrow> t | None \<Rightarrow> [])"
  by (auto simp: read_row_def bind_err_def Let_def split: prod.splits sum.splits if_splits)

text \<open>The texts of rows, and one row of a pass that ended without an error.\<close>

definition row_texts :: "row list \<Rightarrow> string list" where
  "row_texts rs = map (\<lambda>r. case fst (snd r) of Some t \<Rightarrow> t | None \<Rightarrow> []) rs"

lemma import_row_ok:
  assumes "ir_errors (fst (import_rows c cv re_embed dw (r # rs) rep s)) = []"
  obtains d ref copied s' where "read_row cv dw r = Inr d"
    "import_one_drawer c (\<lambda>x. str_of cv (YFloat x)) re_embed d s = (Inr (ref, copied), s')"
    "import_rows c cv re_embed dw (r # rs) rep s = import_rows c cv re_embed dw rs (rep\<lparr>ir_drawers := ir_drawers rep + 1,
         ir_copied := ir_copied rep + (if copied then 1 else 0), ir_imported := ir_imported rep @ [(ref, ld_text d)]\<rparr>) s'"
proof (cases "read_row cv dw r")
  case (Inl e)
  then show thesis using assms by (simp add: import_rows_failed)
next
  case d: (Inr d)
  obtain out s' where o: "import_one_drawer c (\<lambda>x. str_of cv (YFloat x)) re_embed d s = (out, s')" by (rule prod.exhaust)
  show thesis
  proof (cases out)
    case (Inl e)
    then show thesis using assms d o by (simp add: bind_err_def import_rows_failed)
  next
    case (Inr y)
    then show thesis using that [OF d, of "fst y" "snd y" s'] d o by (cases y) (simp add: bind_err_def)
  qed
qed

lemma import_rows_complete:
  "ir_errors (fst (import_rows c cv re_embed dw rs rep s)) = [] \<Longrightarrow>
     map snd (ir_imported (fst (import_rows c cv re_embed dw rs rep s))) = map snd (ir_imported rep) @ row_texts rs
     \<and> ir_drawers (fst (import_rows c cv re_embed dw rs rep s)) = ir_drawers rep + length rs"
proof (induction rs arbitrary: rep s)
  case (Cons r rs)
  show ?case
  proof (rule import_row_ok [OF Cons.prems])
    fix d ref copied s'
    assume d: "read_row cv dw r = Inr d" and eq: "import_rows c cv re_embed dw (r # rs) rep s =
      import_rows c cv re_embed dw rs (rep\<lparr>ir_drawers := ir_drawers rep + 1,
         ir_copied := ir_copied rep + (if copied then 1 else 0), ir_imported := ir_imported rep @ [(ref, ld_text d)]\<rparr>) s'"
      (is "_ = import_rows c cv re_embed dw rs ?rep s'")
    have "ir_errors (fst (import_rows c cv re_embed dw rs ?rep s')) = []" using Cons.prems unfolding eq .
    from Cons.IH [OF this] show ?thesis unfolding eq by (simp add: row_texts_def read_row_text [OF d])
  qed
qed (simp add: row_texts_def)

lemma verify_rows_errors: "ir_errors rep \<noteq> [] \<Longrightarrow> ir_errors (verify_rows c s rs rep) \<noteq> []"
proof (induction rs arbitrary: rep)
  case (Cons r rs)
  show ?case
  proof (cases r)
    case (Pair ref t)
    show ?thesis using Cons.prems by (cases "ic_regenerate c ref s") (simp_all add: Pair Cons.IH)
  qed
qed simp

lemma verify_rows_failed: "ir_errors (verify_rows c s rs (rep\<lparr>ir_verified := v, ir_errors := ir_errors rep @ [e]\<rparr>)) \<noteq> []"
  by (rule verify_rows_errors) simp

lemma verify_rows_sound:
  "ir_errors (verify_rows c s rs rep) = [] \<Longrightarrow> verify_rows c s rs rep = rep \<and> ir_errors rep = []
     \<and> list_all (\<lambda>(ref, t). ic_regenerate c ref s = Inr t) rs"
proof (induction rs)
  case (Cons r rs)
  show ?case using Cons by (cases r) (simp add: verify_rows_failed split: sum.splits if_splits)
qed simp

section \<open>The client of the native store\<close>

text \<open>
  The client's calls as the daemon serves them over an event log: what it writes, reads and files
  with \<open>remember\<close>.
\<close>

definition log_client :: "(string, 'i) substrate \<Rightarrow> 'i \<Rightarrow> (real \<Rightarrow> string) \<Rightarrow> (real list \<Rightarrow> string)
    \<Rightarrow> ('m \<Rightarrow> string \<Rightarrow> py_error + real list) \<Rightarrow> 'm embedder option \<Rightarrow> (string, 'i) event list import_client" where
  "log_client S i0 str pack run emb = \<lparr>
     ic_write_cell = (\<lambda>v es. case log_cell S i0 v es of (ref, es') \<Rightarrow> (Inr ref, es')),
     ic_scope = (\<lambda>x y es. (Inr (), log_relate x y (SCOPED_TO S) es)),
     ic_assert = (\<lambda>x p y es. (Inr (), log_relate x y p es)),
     ic_facts = (\<lambda>x p es. Inr (True, map (snd \<circ> snd) (filter (\<lambda>(f, ty, t). f = x) (snd (query_facts (log_reads S i0) es (Some x) (Some p)))))),
     ic_regenerate = (\<lambda>x es. store_regenerate (log_reads S i0) es x),
     ic_embed = (\<lambda>x v es. case s_embed (direct (log_backend S i0 pack)) x v es of (e, es') \<Rightarrow> (Inr e, es')),
     ic_remember = (\<lambda>a es. case remember (log_backend S i0 pack) (EMBEDDING_OF S) (log_reads S i0) str pack run emb a (native_init es) of
        (ref, st) \<Rightarrow> (Inr ref, ns_store st)),
     ic_decode = (\<lambda>t. t)\<rparr>"

text \<open>Every fact points at a cell the log holds.\<close>

definition written :: "(string, 'i) substrate \<Rightarrow> (string, 'i) event list \<Rightarrow> string \<Rightarrow> bool" where
  "written S es y \<longleftrightarrow> (\<exists>ev \<in> set es. ref_of S ev = Some y)"

definition closed :: "(string, 'i) substrate \<Rightarrow> (string, 'i) event list \<Rightarrow> bool" where
  "closed S es \<longleftrightarrow> (\<forall>x y p. Relationship x y p \<in> set es \<longrightarrow> written S es y)"

text \<open>The names of the substrate's edges are not invalidations.\<close>

definition plain_edges :: "(string, 'i) substrate \<Rightarrow> bool" where
  "plain_edges S \<longleftrightarrow> \<not> prefix INVALIDATE_PREFIX (SCOPED_TO S) \<and> \<not> prefix INVALIDATE_PREFIX (EMBEDDING_OF S)"

text \<open>What one step of an import adds: nothing it invalidates, and no dangling edge.\<close>

fun sound_event :: "(string, 'i) substrate \<Rightarrow> (string, 'i) event list \<Rightarrow> (string, 'i) event \<Rightarrow> bool" where
  "sound_event S es (Relationship x y p) = (\<not> prefix INVALIDATE_PREFIX p \<and> written S es y)"
| "sound_event S es ev = True"

definition grows :: "(string, 'i) substrate \<Rightarrow> (string, 'i) event list \<Rightarrow> (string, 'i) event list \<Rightarrow> bool" where
  "grows S es es' \<longleftrightarrow> (\<exists>t. es' = es @ t \<and> list_all (sound_event S es') t)"

lemma written_mono: "written S es y \<Longrightarrow> written S (es @ t) y"
  by (auto simp: written_def)

lemma sound_event_mono: "sound_event S es ev \<Longrightarrow> sound_event S (es @ t) ev"
  by (cases ev) (auto intro: written_mono)

lemma grows_refl: "grows S es es"
  by (simp add: grows_def)

lemma grows_trans:
  assumes "grows S es es'" "grows S es' es''"
  shows "grows S es es''"
proof -
  obtain t u where "es' = es @ t" "list_all (sound_event S es') t" "es'' = es' @ u" "list_all (sound_event S es'') u"
    using assms by (auto simp: grows_def)
  then show ?thesis unfolding grows_def using sound_event_mono [of S "es @ t" _ u]
    by (intro exI [of _ "t @ u"]) (auto simp: list_all_iff)
qed

lemma grows_written: "grows S es es' \<Longrightarrow> written S es y \<Longrightarrow> written S es' y"
  by (auto simp: grows_def written_mono)

lemma grows_closed: "grows S es es' \<Longrightarrow> closed S es \<Longrightarrow> closed S es'"
  unfolding closed_def grows_def by (fastforce simp: list_all_iff intro: written_mono)

lemma grows_cell: "grows S es (es @ [CellWrite v i])"
  by (simp add: grows_def)

lemma grows_edge: "written S es y \<Longrightarrow> \<not> prefix INVALIDATE_PREFIX p \<Longrightarrow> grows S es (es @ [Relationship x y p])"
  by (simp add: grows_def written_mono)

lemma fold_sound: "list_all (sound_event S es) t \<Longrightarrow> fold (fact_step x p y) t True"
proof (induction t)
  case (Cons ev t)
  then show ?case by (cases ev) auto
qed simp

lemma grows_valid: "grows S es es' \<Longrightarrow> valid_fact es x p y \<Longrightarrow> valid_fact es' x p y"
  by (auto simp: grows_def valid_fact_append fold_sound)

lemma written_cell: "CellWrite v i \<in> set es \<Longrightarrow> written S es (cell_ref S v i)"
  by (force simp: written_def ref_of_def)

text \<open>The client's steps over a log.\<close>

lemma log_client_simps [simp]:
  "ic_write_cell (log_client S i0 str pack run emb) v es = (Inr (cell_ref S v i0), es @ [CellWrite v i0])"
  "ic_scope (log_client S i0 str pack run emb) x y es = (Inr (), es @ [Relationship x y (SCOPED_TO S)])"
  "ic_assert (log_client S i0 str pack run emb) x p y es = (Inr (), es @ [Relationship x y p])"
  "ic_embed (log_client S i0 str pack run emb) x w es = (Inr (cell_ref S (pack w) i0),
     es @ [CellWrite (pack w) i0, Relationship (cell_ref S (pack w) i0) x (EMBEDDING_OF S)])"
  by (simp_all add: log_client_def log_cell_def log_relate_def log_backend_def)

lemma and_then_Inr [simp]: "m s = (Inr x, s') \<Longrightarrow> and_then m f s = f x s'"
  by (simp add: and_then_def)

lemma regenerate_written:
  assumes "content_addressed S" "written S es (cell_ref S v i)"
  shows "ic_regenerate (log_client S i0 str pack run emb) (cell_ref S v i) es = Inr v"
proof -
  obtain ev rest where f: "filter (\<lambda>ev. ref_of S ev = Some (cell_ref S v i)) es = ev # rest"
    using assms(2) by (cases "filter (\<lambda>ev. ref_of S ev = Some (cell_ref S v i)) es") (auto simp: written_def filter_empty_conv)
  then have "ref_of S ev = Some (cell_ref S v i)" by (auto simp: filter_eq_Cons_iff)
  then have "cell_payload ev = v" using assms(1) by (cases ev) (auto simp: ref_of_def content_addressed_def)
  then show ?thesis by (simp add: log_client_def log_reads_def f)
qed

lemma regenerate_Inr_written:
  "written S es y \<Longrightarrow> \<exists>raw. ic_regenerate (log_client S i0 str pack run emb) y es = Inr raw"
  by (cases "filter (\<lambda>ev. ref_of S ev = Some y) es") (auto simp: log_client_def log_reads_def written_def filter_empty_conv)

lemma any_value_written:
  assumes "\<And>y. y \<in> set ys \<Longrightarrow> written S es y" "content_addressed S" "cell_ref S v i \<in> set ys"
  shows "any_value (log_client S i0 str pack run emb) v es ys"
  using assms
proof (induction ys)
  case (Cons y ys)
  obtain raw where raw: "ic_regenerate (log_client S i0 str pack run emb) y es = Inr raw"
    using regenerate_Inr_written Cons.prems(1) by (metis list.set_intros(1))
  have "raw = v" if "y = cell_ref S v i"
    using raw regenerate_written Cons.prems(1,2) that by (metis list.set_intros(1) sum.inject(2))
  then show ?case using Cons raw by (auto simp: log_client_def)
qed simp

lemma any_value_fact: "any_value c v es ys \<Longrightarrow> \<exists>y \<in> set ys. \<exists>raw. ic_regenerate c y es = Inr raw \<and> ic_decode c raw = v"
  by (induction ys) (auto split: sum.splits)

text \<open>On a closed log the guard finds a fact exactly when one with that value is valid.\<close>

lemma fact_present_written:
  assumes "content_addressed S" "closed S es" "valid_fact es x p (cell_ref S v i)"
  shows "fact_present (log_client S i0 str pack run emb) x p v es"
proof -
  let ?ys = "map (snd \<circ> snd) (filter (\<lambda>(f, ty, t). f = x) (snd (query_facts (log_reads S i0) es (Some x) (Some p))))"
  have "any_value (log_client S i0 str pack run emb) v es ?ys"
  proof (rule any_value_written [OF _ assms(1)])
    show "written S es y" if "y \<in> set ?ys" for y
      using that assms(2) unfolding closed_def by (auto simp: log_reads_def in_fact_triples) blast
    show "cell_ref S v i \<in> set ?ys"
      using assms(3) valid_fact_asserted [OF assms(3)] by (force simp: log_reads_def in_fact_triples)
  qed
  then show ?thesis by (simp add: fact_present_def log_client_def)
qed

lemma fact_present_valid:
  assumes "fact_present (log_client S i0 str pack run emb) x p v es"
  shows "\<exists>i. valid_fact es x p (cell_ref S v i)"
proof -
  have "\<exists>y. valid_fact es x p y \<and> (\<exists>raw. ic_regenerate (log_client S i0 str pack run emb) y es = Inr raw \<and> raw = v)"
    using assms by (fastforce simp: fact_present_def log_client_def log_reads_def dest!: any_value_fact)
  then obtain y where y: "valid_fact es x p y" "ic_regenerate (log_client S i0 str pack run emb) y es = Inr v" by auto
  obtain ev rest where f: "filter (\<lambda>ev. ref_of S ev = Some y) es = ev # rest"
    using y(2) by (cases "filter (\<lambda>ev. ref_of S ev = Some y) es") (auto simp: log_client_def log_reads_def)
  then have "ref_of S ev = Some y" by (auto simp: filter_eq_Cons_iff)
  moreover have "cell_payload ev = v" using y(2) by (simp add: log_client_def log_reads_def f)
  ultimately show ?thesis using y(1) by (cases ev) (auto simp: ref_of_def)
qed

lemma fact_present_grows:
  assumes "content_addressed S" "closed S es" "grows S es es'"
    and "fact_present (log_client S i0 str pack run emb) x p v es"
  shows "fact_present (log_client S i0 str pack run emb) x p v es'"
  using fact_present_valid [OF assms(4)] assms(1-3)
  by (blast intro: fact_present_written grows_valid grows_closed)

section \<open>Importing again\<close>

text \<open>The cells and scopes an import files, and the facts it guards.\<close>

definition filing_events :: "(string, 'i) substrate \<Rightarrow> 'i \<Rightarrow> legacy_drawer \<Rightarrow> (string, 'i) event list" where
  "filing_events S i0 d = (let x = cell_ref S (ld_text d) i0; w = ''wing:'' @ ld_wing d; r = ''room:'' @ ld_room d in
     [CellWrite (ld_text d) i0, CellWrite w i0, Relationship x (cell_ref S w i0) (SCOPED_TO S),
      CellWrite r i0, Relationship x (cell_ref S r i0) (SCOPED_TO S)])"

definition guarded_facts :: "(real \<Rightarrow> string) \<Rightarrow> legacy_drawer \<Rightarrow> (string \<times> string option) list" where
  "guarded_facts str d = [(''has_source'', if ld_source d = [] then None else Some (ld_source d)), (''has_category'', ld_category d),
     (''has_importance'', map_option str (ld_importance d)), (''has_embedding_copied'', map_option (\<lambda>v. ''true'') (ld_embedding d))]"

definition fact_recorded :: "('s, 'm) import_client_scheme \<Rightarrow> string \<Rightarrow> 's \<Rightarrow> string \<times> string option \<Rightarrow> bool" where
  "fact_recorded c ref s f \<longleftrightarrow> (case snd f of None \<Rightarrow> True | Some x \<Rightarrow> fact_present c ref (fst f) x s)"

lemma filing_grows: "plain_edges S \<Longrightarrow> grows S es (es @ filing_events S i0 d)"
  by (auto simp: grows_def filing_events_def Let_def plain_edges_def intro!: written_cell)

lemma import_one_drawer_log:
  "import_one_drawer (log_client S i0 str pack run emb) str' re_embed d es = (let c = log_client S i0 str pack run emb; x = cell_ref S (ld_text d) i0 in
     and_then (assert_opt c x ''has_source'' (if ld_source d = [] then None else Some (ld_source d))) (\<lambda>b.
     and_then (assert_opt c x ''has_category'' (ld_category d)) (\<lambda>b.
     and_then (assert_opt c x ''has_importance'' (map_option str' (ld_importance d))) (\<lambda>b.
     and_then (import_embedding c re_embed d x) (\<lambda>copied s. (Inr (x, copied), s))))) (es @ filing_events S i0 d))"
  by (simp add: import_one_drawer_def filing_events_def Let_def)

lemma assert_opt_recorded: "fact_recorded c x s (p, v) \<Longrightarrow> assert_opt c x p v s = (Inr False, s)"
  by (simp add: assert_opt_def fact_recorded_def assert_fact_if_missing_def split: option.splits)

lemma fact_recorded_grows:
  "content_addressed S \<Longrightarrow> closed S es \<Longrightarrow> grows S es es' \<Longrightarrow> fact_recorded (log_client S i0 str pack run emb) x es f
     \<Longrightarrow> fact_recorded (log_client S i0 str pack run emb) x es' f"
  by (auto simp: fact_recorded_def intro: fact_present_grows split: option.splits)

lemma grows_fact:
  "\<not> prefix INVALIDATE_PREFIX p \<Longrightarrow> grows S es (es @ [CellWrite v i, Relationship x (cell_ref S v i) p])"
  by (simp add: grows_def written_cell)

lemma asserted_present:
  assumes "content_addressed S" "closed S es" "\<not> prefix INVALIDATE_PREFIX p"
  shows "fact_present (log_client S i0 str pack run emb) x p v (es @ [CellWrite v i, Relationship x (cell_ref S v i) p])"
  using assms by (intro fact_present_written [of S _ _ _ _ i])
    (auto intro: grows_closed grows_fact simp: valid_fact_append)

lemma assert_opt_log:
  assumes "content_addressed S" "closed S es" "\<not> prefix INVALIDATE_PREFIX p"
  shows "\<exists>b es'. assert_opt (log_client S i0 str pack run emb) x p v es = (Inr b, es') \<and> grows S es es'
    \<and> fact_recorded (log_client S i0 str pack run emb) x es' (p, v)"
proof (cases "fact_recorded (log_client S i0 str pack run emb) x es (p, v)")
  case True
  then show ?thesis by (auto simp: assert_opt_recorded grows_refl)
next
  case False
  then obtain w where w: "v = Some w" "\<not> fact_present (log_client S i0 str pack run emb) x p w es"
    by (auto simp: fact_recorded_def split: option.splits)
  then show ?thesis using asserted_present [OF assms, of i0 str pack run emb x w i0] grows_fact [OF assms(3), of S es w i0 x]
    by (auto simp: assert_opt_def assert_fact_if_missing_def fact_recorded_def)
qed

lemma import_embedding_log:
  assumes "content_addressed S" "closed S es" "plain_edges S" "written S es x"
  shows "\<exists>b es'. import_embedding (log_client S i0 str pack run emb) False d x es = (Inr b, es') \<and> grows S es es'
    \<and> fact_recorded (log_client S i0 str pack run emb) x es' (''has_embedding_copied'', map_option (\<lambda>v. ''true'') (ld_embedding d))
    \<and> (fact_recorded (log_client S i0 str pack run emb) x es (''has_embedding_copied'', map_option (\<lambda>v. ''true'') (ld_embedding d))
       \<longrightarrow> \<not> b \<and> es' = es)"
proof (cases "fact_recorded (log_client S i0 str pack run emb) x es (''has_embedding_copied'', map_option (\<lambda>v. ''true'') (ld_embedding d))")
  case True
  then show ?thesis by (auto simp: import_embedding_def fact_recorded_def grows_refl split: option.splits)
next
  case False
  then obtain w where w: "ld_embedding d = Some w" "\<not> fact_present (log_client S i0 str pack run emb) x ''has_embedding_copied'' ''true'' es"
    by (auto simp: fact_recorded_def split: option.splits)
  let ?es = "es @ [CellWrite (pack w) i0, Relationship (cell_ref S (pack w) i0) x (EMBEDDING_OF S)]"
  have g: "grows S es ?es" using assms(3,4) by (auto simp: grows_def plain_edges_def written_mono)
  have n: "\<not> prefix INVALIDATE_PREFIX ''has_embedding_copied''" by (simp add: INVALIDATE_PREFIX_def)
  show ?thesis using w False asserted_present [OF assms(1) grows_closed [OF g assms(2)] n, of i0 str pack run emb x "''true''" i0]
      grows_trans [OF g grows_fact [OF n, of S ?es "''true''" i0 x]]
    by (auto simp: import_embedding_def fact_recorded_def)
qed

text \<open>One drawer, imported and imported again.\<close>

definition imported_drawer :: "(string, 'i) substrate \<Rightarrow> 'i \<Rightarrow> (string, 'i) event list import_client \<Rightarrow> (real \<Rightarrow> string) \<Rightarrow> (string, 'i) event list \<Rightarrow> legacy_drawer \<Rightarrow> bool" where
  "imported_drawer S i0 c str es d \<longleftrightarrow> set (filing_events S i0 d) \<subseteq> set es
     \<and> list_all (fact_recorded c (cell_ref S (ld_text d) i0) es) (guarded_facts str d)"

lemma imported_grows:
  assumes "content_addressed S" "closed S es" "grows S es es'" "imported_drawer S i0 (log_client S i0 s pack run emb) str es d"
  shows "imported_drawer S i0 (log_client S i0 s pack run emb) str es' d"
  using assms by (auto simp: imported_drawer_def list_all_iff grows_def intro: fact_recorded_grows)

lemma plain_predicates [simp]:
  "\<not> prefix INVALIDATE_PREFIX ''has_source''" "\<not> prefix INVALIDATE_PREFIX ''has_category''"
  "\<not> prefix INVALIDATE_PREFIX ''has_importance''" "\<not> prefix INVALIDATE_PREFIX ''has_embedding_copied''"
  by (simp_all add: INVALIDATE_PREFIX_def)

lemma import_first:
  assumes ca: "content_addressed S" and pl: "plain_edges S" and cl: "closed S es"
  shows "\<exists>b es'. import_one_drawer (log_client S i0 s pack run emb) str False d es = (Inr (cell_ref S (ld_text d) i0, b), es')
    \<and> grows S es es' \<and> imported_drawer S i0 (log_client S i0 s pack run emb) str es' d"
proof -
  let ?c = "log_client S i0 s pack run emb" and ?x = "cell_ref S (ld_text d) i0" and ?e0 = "es @ filing_events S i0 d"
  have g0: "grows S es ?e0" by (rule filing_grows [OF pl])
  note c0 = grows_closed [OF g0 cl]
  have w0: "written S ?e0 ?x" by (rule written_cell [of _ i0]) (simp add: filing_events_def Let_def)
  obtain b1 e1 where 1: "assert_opt ?c ?x ''has_source'' (if ld_source d = [] then None else Some (ld_source d)) ?e0 = (Inr b1, e1)"
    "grows S ?e0 e1" "fact_recorded ?c ?x e1 (''has_source'', if ld_source d = [] then None else Some (ld_source d))"
    using assert_opt_log [OF ca c0 plain_predicates(1)] by blast
  note c1 = grows_closed [OF 1(2) c0]
  obtain b2 e2 where 2: "assert_opt ?c ?x ''has_category'' (ld_category d) e1 = (Inr b2, e2)" "grows S e1 e2"
    "fact_recorded ?c ?x e2 (''has_category'', ld_category d)"
    using assert_opt_log [OF ca c1 plain_predicates(2)] by blast
  note c2 = grows_closed [OF 2(2) c1]
  obtain b3 e3 where 3: "assert_opt ?c ?x ''has_importance'' (map_option str (ld_importance d)) e2 = (Inr b3, e3)" "grows S e2 e3"
    "fact_recorded ?c ?x e3 (''has_importance'', map_option str (ld_importance d))"
    using assert_opt_log [OF ca c2 plain_predicates(3)] by blast
  note c3 = grows_closed [OF 3(2) c2]
  obtain b4 e4 where 4: "import_embedding ?c False d ?x e3 = (Inr b4, e4)" "grows S e3 e4"
    "fact_recorded ?c ?x e4 (''has_embedding_copied'', map_option (\<lambda>v. ''true'') (ld_embedding d))"
    using import_embedding_log [OF ca c3 pl grows_written [OF grows_trans [OF grows_trans [OF 1(2) 2(2)] 3(2)] w0]] by blast
  note g34 = 4(2) and g24 = grows_trans [OF 3(2) 4(2)]
  note g14 = grows_trans [OF 2(2) g24]
  note g04 = grows_trans [OF 1(2) g14]
  have "set (filing_events S i0 d) \<subseteq> set e4" using g04 by (auto simp: grows_def)
  then have "imported_drawer S i0 ?c str e4 d"
    using fact_recorded_grows [OF ca c1 g14 1(3)] fact_recorded_grows [OF ca c2 g24 2(3)] fact_recorded_grows [OF ca c3 g34 3(3)] 4(3)
    by (simp add: imported_drawer_def guarded_facts_def)
  moreover have "import_one_drawer ?c str False d es = (Inr (?x, b4), e4)"
    by (simp add: import_one_drawer_log Let_def 1(1) 2(1) 3(1) 4(1))
  ultimately show ?thesis using grows_trans [OF g0 g04] by blast
qed

lemma import_again:
  assumes ca: "content_addressed S" and pl: "plain_edges S" and cl: "closed S es"
    and "imported_drawer S i0 (log_client S i0 s pack run emb) str es d"
  shows "import_one_drawer (log_client S i0 s pack run emb) str False d es = (Inr (cell_ref S (ld_text d) i0, False), es @ filing_events S i0 d)"
proof -
  let ?c = "log_client S i0 s pack run emb" and ?x = "cell_ref S (ld_text d) i0" and ?e0 = "es @ filing_events S i0 d"
  have g0: "grows S es ?e0" by (rule filing_grows [OF pl])
  have r: "list_all (fact_recorded ?c ?x ?e0) (guarded_facts str d)"
    using imported_grows [OF ca cl g0 assms(4)] by (simp add: imported_drawer_def)
  have e: "import_embedding ?c False d ?x ?e0 = (Inr False, ?e0)"
    using r by (auto simp: import_embedding_def guarded_facts_def fact_recorded_def split: option.splits)
  have "fact_recorded ?c ?x ?e0 (''has_source'', if ld_source d = [] then None else Some (ld_source d))"
    "fact_recorded ?c ?x ?e0 (''has_category'', ld_category d)"
    "fact_recorded ?c ?x ?e0 (''has_importance'', map_option str (ld_importance d))"
    using r unfolding guarded_facts_def by simp_all
  note a = this [THEN assert_opt_recorded]
  show ?thesis by (simp add: import_one_drawer_log Let_def and_then_def a e del: and_then_Inr)
qed

text \<open>All rows.\<close>

definition imported_rows :: "(string, 'i) substrate \<Rightarrow> 'i \<Rightarrow> (string, 'i) event list import_client \<Rightarrow> conversions \<Rightarrow> string \<Rightarrow> row list \<Rightarrow> (string, 'i) event list \<Rightarrow> bool" where
  "imported_rows S i0 c cv dw rows es \<longleftrightarrow> list_all (\<lambda>r. case read_row cv dw r of Inl e \<Rightarrow> True
     | Inr d \<Rightarrow> imported_drawer S i0 c (\<lambda>x. str_of cv (YFloat x)) es d) rows"

lemma imported_rows_grows:
  "content_addressed S \<Longrightarrow> closed S es \<Longrightarrow> grows S es es' \<Longrightarrow> imported_rows S i0 (log_client S i0 s pack run emb) cv dw rows es
     \<Longrightarrow> imported_rows S i0 (log_client S i0 s pack run emb) cv dw rows es'"
  by (auto simp: imported_rows_def list_all_iff intro: imported_grows split: sum.splits)

lemma import_rows_first:
  assumes "content_addressed S" "plain_edges S" "closed S es"
  shows "grows S es (snd (import_rows (log_client S i0 s pack run emb) cv False dw rows rep es))
    \<and> imported_rows S i0 (log_client S i0 s pack run emb) cv dw rows (snd (import_rows (log_client S i0 s pack run emb) cv False dw rows rep es))"
  using assms(3)
proof (induction rows arbitrary: rep es)
  case Nil
  then show ?case by (simp add: grows_refl imported_rows_def)
next
  case (Cons r rows)
  show ?case
  proof (cases "read_row cv dw r")
    case (Inl e)
    then show ?thesis using Cons.IH [OF Cons.prems] by (simp add: imported_rows_def)
  next
    case (Inr d)
    obtain b es' where d: "import_one_drawer (log_client S i0 s pack run emb) (\<lambda>x. str_of cv (YFloat x)) False d es = (Inr (cell_ref S (ld_text d) i0, b), es')"
      "grows S es es'" "imported_drawer S i0 (log_client S i0 s pack run emb) (\<lambda>x. str_of cv (YFloat x)) es' d"
      using import_first [OF assms(1,2) Cons.prems] by blast
    note c' = grows_closed [OF d(2) Cons.prems]
    show ?thesis using Cons.IH [OF c'] grows_trans [OF d(2)] imported_grows [OF assms(1) c' _ d(3)]
      by (simp add: Inr d(1) bind_err_def imported_rows_def)
  qed
qed

text \<open>An event of the filing: a cell or a scope edge, never a fact.\<close>

fun refiling :: "(string, 'i) substrate \<Rightarrow> (string, 'i) event \<Rightarrow> bool" where
  "refiling S (Relationship x y p) = (p = SCOPED_TO S)"
| "refiling S (CellWrite v i) = True"
| "refiling S Other = False"

lemma import_rows_again:
  assumes "content_addressed S" "plain_edges S" "closed S es" "imported_rows S i0 (log_client S i0 s pack run emb) cv dw rows es"
  shows "(\<exists>t. snd (import_rows (log_client S i0 s pack run emb) cv False dw rows rep es) = es @ t \<and> set t \<subseteq> set es \<and> list_all (refiling S) t)
    \<and> ir_copied (fst (import_rows (log_client S i0 s pack run emb) cv False dw rows rep es)) = ir_copied rep"
  using assms(3,4)
proof (induction rows arbitrary: rep es)
  case Nil
  then show ?case by simp
next
  case (Cons r rows)
  show ?case
  proof (cases "read_row cv dw r")
    case (Inl e)
    then show ?thesis using Cons.IH [OF Cons.prems(1)] Cons.prems(2) by (simp add: imported_rows_def)
  next
    case (Inr d)
    have i: "imported_drawer S i0 (log_client S i0 s pack run emb) (\<lambda>x. str_of cv (YFloat x)) es d"
      and rs: "imported_rows S i0 (log_client S i0 s pack run emb) cv dw rows es"
      using Cons.prems(2) by (simp_all add: imported_rows_def Inr)
    note g = filing_grows [OF assms(2), of es i0 d]
    have f: "set (filing_events S i0 d) \<subseteq> set es" "list_all (refiling S) (filing_events S i0 d)"
      using i by (simp_all add: imported_drawer_def filing_events_def Let_def)
    show ?thesis
      using Cons.IH [OF grows_closed [OF g Cons.prems(1)] imported_rows_grows [OF assms(1) Cons.prems(1) g rs]] f
      by (fastforce simp: Inr import_again [OF assms(1,2) Cons.prems(1) i] bind_err_def)
  qed
qed

section \<open>Drawers without a vector\<close>

text \<open>What an import without vectors adds: cells, scope edges and the guarded facts.\<close>

fun bookkeeping :: "(string, 'i) substrate \<Rightarrow> (string, 'i) event \<Rightarrow> bool" where
  "bookkeeping S (Relationship x y p) = (p \<in> {SCOPED_TO S, ''has_source'', ''has_category'', ''has_importance''})"
| "bookkeeping S ev = True"

definition adds_bookkeeping :: "(string, 'i) substrate \<Rightarrow> (string, 'i) event list \<Rightarrow> (string, 'i) event list \<Rightarrow> bool" where
  "adds_bookkeeping S es es' \<longleftrightarrow> (\<exists>t. es' = es @ t \<and> list_all (bookkeeping S) t)"

definition plain_names :: "(string, 'i) substrate \<Rightarrow> bool" where
  "plain_names S \<longleftrightarrow> plain_embedding S \<and> EMBEDDING_OF S \<notin> {SCOPED_TO S, ''has_source'', ''has_category'', ''has_importance''}"

lemma adds_bookkeeping_trans: "adds_bookkeeping S es es' \<Longrightarrow> adds_bookkeeping S es' es'' \<Longrightarrow> adds_bookkeeping S es es''"
  unfolding adds_bookkeeping_def by (metis append_assoc list_all_append)

lemma assert_opt_bookkeeping:
  "p \<in> {''has_source'', ''has_category'', ''has_importance''} \<Longrightarrow>
     \<exists>b es'. assert_opt (log_client S i0 str pack run emb) x p v es = (Inr b, es') \<and> adds_bookkeeping S es es'"
  by (cases v) (auto simp: assert_opt_def assert_fact_if_missing_def adds_bookkeeping_def)

lemma import_one_drawer_bookkeeping:
  assumes "ld_embedding d = None"
  shows "\<exists>es'. import_one_drawer (log_client S i0 s pack run emb) str False d es = (Inr (cell_ref S (ld_text d) i0, False), es')
    \<and> adds_bookkeeping S es es'"
proof -
  let ?c = "log_client S i0 s pack run emb" and ?x = "cell_ref S (ld_text d) i0"
  have g: "adds_bookkeeping S es (es @ filing_events S i0 d)"
    by (auto simp: adds_bookkeeping_def filing_events_def Let_def)
  obtain b1 e1 where 1: "assert_opt ?c ?x ''has_source'' (if ld_source d = [] then None else Some (ld_source d)) (es @ filing_events S i0 d) = (Inr b1, e1)"
    "adds_bookkeeping S (es @ filing_events S i0 d) e1" using assert_opt_bookkeeping by (metis insertI1)
  obtain b2 e2 where 2: "assert_opt ?c ?x ''has_category'' (ld_category d) e1 = (Inr b2, e2)" "adds_bookkeeping S e1 e2"
    using assert_opt_bookkeeping by (metis insertI1 insertI2)
  obtain b3 e3 where 3: "assert_opt ?c ?x ''has_importance'' (map_option str (ld_importance d)) e2 = (Inr b3, e3)" "adds_bookkeeping S e2 e3"
    using assert_opt_bookkeeping by (metis insertI1 insertI2)
  have "import_one_drawer ?c str False d es = (Inr (?x, False), e3)"
    by (simp add: import_one_drawer_log Let_def and_then_def 1(1) 2(1) 3(1) import_embedding_def assms)
  then show ?thesis using g 1(2) 2(2) 3(2) by (blast intro: adds_bookkeeping_trans)
qed

lemma fold_bookkeeping:
  "plain_names S \<Longrightarrow> list_all (bookkeeping S) t \<Longrightarrow> fold (fact_step x NEEDS_EMBEDDING y) t v = v"
proof (induction t arbitrary: v)
  case (Cons ev t)
  then show ?case by (cases ev) (auto simp: plain_names_def plain_embedding_def NEEDS_EMBEDDING_def INVALIDATE_PREFIX_def)
qed simp

section \<open>Properties\<close>

text \<open>
  C26: Paging over a collection ends, whatever its size, also where the last page is full, and yields
  every record once and in order.
\<close>

theorem paging_yields_every_record: "iter_rows (collection_of rs) 0 = Some (rs, None)"
  by (simp add: iter_rows_collection)

text \<open>
  C23: An import that verifies and exits 0 read the collection to its end without an exception, imported
  every row, and the store answers for every imported ref the very document of its row.
\<close>

theorem verified_import_is_complete:
  assumes "migrate c cv opened up re_embed True dw s = Some (r, s')" and "exit_code r = Inr 0"
  shows "\<exists>get rows rep. opened = Inr get \<and> up \<and> iter_rows get 0 = Some (rows, None) \<and> r = Inr rep
    \<and> map snd (ir_imported rep) = row_texts rows \<and> ir_drawers rep = length rows
    \<and> list_all (\<lambda>(ref, t). ic_regenerate c ref s' = Inr t) (ir_imported rep)"
proof -
  obtain rep where rep: "r = Inr rep" "ir_errors rep = []"
    using assms(2) by (auto simp: exit_code_def split: sum.splits py_error.splits if_splits)
  then obtain get rows where g: "opened = Inr get" "up" "iter_rows get 0 = Some (rows, None)"
    "rep = verify_rows c s' (ir_imported (fst (import_rows c cv re_embed dw rows empty_report s)))
       (fst (import_rows c cv re_embed dw rows empty_report s)\<lparr>ir_verified := Some True\<rparr>)"
    using assms(1) by (auto simp: migrate_def split: sum.splits if_splits prod.splits option.splits Option.bind_splits)
  note v = verify_rows_sound [OF rep(2) [unfolded g(4)]]
  have "ir_errors (fst (import_rows c cv re_embed dw rows empty_report s)) = []" using v by simp
  from import_rows_complete [OF this] v show ?thesis using g rep(1) by (auto simp: empty_report_def)
qed

text \<open>
  C10: Running a copying import (no \<open>--re-embed\<close>) again over the same collection, with a daemon whose log is
  closed and which raises nothing, changes nothing that counts: it copies no embedding, asserts no
  fact, and every cell and scope edge it files was already in the log.
\<close>

theorem rerun_imports_nothing:
  assumes "content_addressed S" "plain_edges S" "closed S es"
    and "migrate (log_client S i0 s pack run emb) cv (Inr (collection_of rows)) True False False dw es = Some (r1, es1)"
    and "migrate (log_client S i0 s pack run emb) cv (Inr (collection_of rows)) True False False dw es1 = Some (r2, es2)"
  shows "\<exists>rep t. r2 = Inr rep \<and> ir_copied rep = 0 \<and> es2 = es1 @ t \<and> set t \<subseteq> set es1 \<and> list_all (refiling S) t"
proof -
  let ?c = "log_client S i0 s pack run emb"
  have e1: "es1 = snd (import_rows ?c cv False dw rows empty_report es)"
    using assms(4) by (simp add: migrate_def iter_rows_collection split: prod.splits)
  have e2: "es2 = snd (import_rows ?c cv False dw rows empty_report es1)"
    "r2 = Inr (fst (import_rows ?c cv False dw rows empty_report es1))"
    using assms(5) by (simp_all add: migrate_def iter_rows_collection split: prod.splits)
  note f = import_rows_first [OF assms(1-3), of i0 s pack run emb cv dw rows empty_report, folded e1]
  from import_rows_again [OF assms(1,2) grows_closed [OF conjunct1 [OF f] assms(3)] conjunct2 [OF f], of empty_report]
  show ?thesis by (auto simp: e2 empty_report_def)
qed

text \<open>
  A legacy drawer without an embedding is imported with neither a vector nor the marker that
  would have the sweep embed it later, unlike a drawer that \<open>remember\<close> files.
\<close>

theorem unembedded_import_stays_unembedded:
  assumes "plain_names S" "ld_embedding d = None"
    and "import_one_drawer (log_client S i0 s pack run emb) str False d es = (r, es')"
  shows "r = Inr (cell_ref S (ld_text d) i0, False)
    \<and> (has_vector S es' x \<longleftrightarrow> has_vector S es x) \<and> (valid_fact es' x NEEDS_EMBEDDING y \<longleftrightarrow> valid_fact es x NEEDS_EMBEDDING y)"
proof -
  obtain t where t: "r = Inr (cell_ref S (ld_text d) i0, False)" "es' = es @ t" "list_all (bookkeeping S) t"
    using import_one_drawer_bookkeeping [OF assms(2), of S i0 s pack run emb str es] assms(3) by (auto simp: adds_bookkeeping_def)
  have "Relationship e x (EMBEDDING_OF S) \<notin> set t" for e
    using t(3) assms(1) by (auto simp: list_all_iff plain_names_def dest!: bspec)
  then show ?thesis using t(1,2) by (auto simp: has_vector_def valid_fact_append fold_bookkeeping [OF assms(1) t(3)])
qed

text \<open>
  Under \<open>--re-embed\<close> an import whose text the embedder cannot embed is reported as a copied embedding, while the drawer
  is left with the marker of a missing one.
\<close>

theorem failed_re_embed_reported_copied:
  assumes "try_embed run emb (ld_text d) = None"
    and "import_embedding (log_client S i0 s pack run emb) True d ref es = (r, es')"
  shows "r = Inr True \<and> valid_fact es' (cell_ref S (ld_text d) i0) NEEDS_EMBEDDING (cell_ref S ''true'' i0)"
proof -
  obtain a where a: "a = \<lparr>r_content = Some (ld_text d), r_wing = Some (ld_wing d), r_room = Some (ld_room d),
    r_source = (if ld_source d = [] then None else Some (ld_source d)), r_category = ld_category d, r_importance = ld_importance d\<rparr>" by simp
  obtain q st where m: "remember (log_backend S i0 pack) (EMBEDDING_OF S) (log_reads S i0) s pack run emb a (native_init es) = (q, st)"
    by (rule prod.exhaust)
  have "r = Inr True" "es' = ns_store st" using assms(2) m by (simp_all add: import_embedding_def log_client_def a)
  then show ?thesis using logb.remember_findable [OF m] assms(1) by (simp add: a or_default_def)
qed

section \<open>Witnesses\<close>

definition demo_rows :: "row list" where
  "demo_rows = [(''1'', Some ''hi'', [(''category'', YStr ''fact'')], Some [1]), (''2'', Some ''yo'', [], None)]"

definition demo_client :: "(string, nat) event list import_client" where
  "demo_client = log_client demo_substrate 0 (\<lambda>x. '''') (\<lambda>v. ''v'') (\<lambda>m t. Inr [1]) (None :: unit embedder option)"

definition demo_import :: "bool \<Rightarrow> (string, nat) event list \<Rightarrow> ((py_error + import_report) \<times> (string, nat) event list) option" where
  "demo_import verify = migrate demo_client demo_conversions (Inr (collection_of demo_rows)) True False verify ''general''"

definition demo_import_log :: "(string, nat) event list" where
  "demo_import_log = [CellWrite ''hi'' 0, CellWrite ''wing:general'' 0, Relationship ''#hi'' ''#wing:general'' ''scoped_to'',
     CellWrite ''room:imported'' 0, Relationship ''#hi'' ''#room:imported'' ''scoped_to'',
     CellWrite ''fact'' 0, Relationship ''#hi'' ''#fact'' ''has_category'',
     CellWrite ''v'' 0, Relationship ''#v'' ''#hi'' ''embedding_of'',
     CellWrite ''true'' 0, Relationship ''#hi'' ''#true'' ''has_embedding_copied'',
     CellWrite ''yo'' 0, CellWrite ''wing:general'' 0, Relationship ''#yo'' ''#wing:general'' ''scoped_to'',
     CellWrite ''room:imported'' 0, Relationship ''#yo'' ''#room:imported'' ''scoped_to'']"

lemma demo_passes: "content_addressed demo_substrate" "plain_edges demo_substrate" "closed demo_substrate []"
  by (simp_all add: content_addressed_def demo_substrate_def plain_edges_def INVALIDATE_PREFIX_def closed_def)

definition demo_drawers :: "legacy_drawer list" where
  "demo_drawers = [\<lparr>ld_text = ''hi'', ld_wing = ''general'', ld_room = ''imported'', ld_source = [], ld_category = Some ''fact'',
       ld_importance = None, ld_embedding = Some [1]\<rparr>,
     \<lparr>ld_text = ''yo'', ld_wing = ''general'', ld_room = ''imported'', ld_source = [], ld_category = None, ld_importance = None,
       ld_embedding = None\<rparr>]"

lemma demo_rows_read: "map (read_row demo_conversions ''general'') demo_rows = map Inr demo_drawers"
  by (simp add: demo_rows_def demo_drawers_def read_row_def field_or_def json_text_def bind_err_def Let_def)

lemma demo_reads_simps:
  "ic_facts demo_client x p es = Inr (True, map (snd \<circ> snd) (filter (\<lambda>(f, ty, t). f = x)
     (remdups (filter (\<lambda>(f, ty, t). ty = p \<and> valid_fact es f ty t) (fact_triples es)))))"
  "ic_regenerate demo_client x es = (case filter (\<lambda>ev. ref_of demo_substrate ev = Some x) es of
     ev # r \<Rightarrow> Inr (cell_payload ev) | [] \<Rightarrow> Inl (KeyError x))"
  by (simp_all add: demo_client_def log_client_def log_reads_def)

lemma demo_ref [simp]: "cell_ref demo_substrate v i = ''#'' @ v" "SCOPED_TO demo_substrate = ''scoped_to''"
    "EMBEDDING_OF demo_substrate = ''embedding_of''"
  by (simp_all add: demo_substrate_def)

lemma demo_one: "import_one_drawer demo_client str False (demo_drawers ! 0) [] = (Inr (''#hi'', True), take 11 demo_import_log)"
  "import_one_drawer demo_client str False (demo_drawers ! 1) (take 11 demo_import_log) = (Inr (''#yo'', False), demo_import_log)"
  by (simp_all add: demo_drawers_def demo_client_def import_one_drawer_log Let_def and_then_def assert_opt_def assert_fact_if_missing_def
    fact_present_def demo_reads_simps [unfolded demo_client_def] filing_events_def import_embedding_def demo_import_log_def)

lemma demo_verified: "ic_regenerate demo_client ''#hi'' demo_import_log = Inr ''hi''" "ic_regenerate demo_client ''#yo'' demo_import_log = Inr ''yo''"
  by (simp_all add: demo_reads_simps demo_import_log_def ref_of_def)

lemma demo_first: "demo_import True [] = Some (Inr \<lparr>ir_drawers = 2, ir_copied = 1, ir_errors = [], ir_verified = Some True,
    ir_imported = [(''#hi'', ''hi''), (''#yo'', ''yo'')]\<rparr>, demo_import_log)"
  using demo_rows_read demo_one demo_verified
  by (simp add: demo_import_def migrate_def iter_rows_collection demo_rows_def bind_err_def empty_report_def demo_drawers_def)

theorem verified_import_is_complete_witness:
  "\<exists>rep. map_option fst (demo_import True []) = Some (Inr rep) \<and> map snd (ir_imported rep) = [''hi'', ''yo'']"
proof -
  let ?rep = "\<lparr>ir_drawers = 2, ir_copied = 1, ir_errors = [], ir_verified = Some True, ir_imported = [(''#hi'', ''hi''), (''#yo'', ''yo'')]\<rparr>"
  from demo_first have "migrate demo_client demo_conversions (Inr (collection_of demo_rows)) True False True ''general'' [] = Some (Inr ?rep, demo_import_log)"
    by (simp add: demo_import_def)
  from verified_import_is_complete [OF this]
  obtain rep where "rep = ?rep" "map snd (ir_imported rep) = row_texts demo_rows"
    by (auto simp: exit_code_def iter_rows_collection)
  then show ?thesis by (simp add: demo_first row_texts_def demo_rows_def)
qed

theorem rerun_imports_nothing_witness:
  "\<exists>r t. demo_import False demo_import_log = Some (r, demo_import_log @ t) \<and> list_all (refiling demo_substrate) t"
proof -
  obtain r es2 where r: "demo_import False demo_import_log = Some (r, es2)"
    by (simp add: demo_import_def migrate_def iter_rows_collection case_prod_unfold)
  have "\<exists>r1. demo_import False [] = Some (r1, demo_import_log)"
    using demo_first by (auto simp: demo_import_def migrate_def iter_rows_collection split: prod.splits)
  then obtain r1 where "demo_import False [] = Some (r1, demo_import_log)" ..
  from rerun_imports_nothing [OF demo_passes this [unfolded demo_import_def demo_client_def] r [unfolded demo_import_def demo_client_def]] r
  show ?thesis by auto
qed

theorem unembedded_import_stays_unembedded_witness:
  "\<not> has_vector demo_substrate demo_import_log ''#yo'' \<and> \<not> valid_fact demo_import_log ''#yo'' NEEDS_EMBEDDING ''#true''"
proof -
  have n: "plain_names demo_substrate"
    by (simp add: plain_names_def plain_embedding_def NEEDS_EMBEDDING_def INVALIDATE_PREFIX_def)
  have e: "ld_embedding (demo_drawers ! 1) = None" by (simp add: demo_drawers_def)
  from unembedded_import_stays_unembedded [OF n e demo_one(2) [unfolded demo_client_def], of "''#yo''" "''#true''"]
  show ?thesis by (simp add: demo_drawers_def has_vector_def demo_import_log_def valid_fact_def NEEDS_EMBEDDING_def INVALIDATE_PREFIX_def)
qed

end
