(* ===== verification/Server.thy ===== *)
theory Server
  imports Rpc Client Gateway
begin

text \<open>
  The memory daemon as a server (\<open>daemon.py\<close>): the JSON of the generic tools, the dispatch over generic
  tools, \<open>shutdown\<close> and domain tools, the HTTP handlers with status codes and bodies, the token file,
  the start of a daemon on its home and what it announces; and the client's side of them
  (\<open>GatewayClient\<close>, \<open>_read_token\<close>, \<open>_health\<close>).  Base64 is a pair of library functions, header
  values are ASCII; sockets, signals and argument parsing are left out.
\<close>

section \<open>The generic tools over JSON\<close>

record codec =
  b64_of :: "string \<Rightarrow> string"
  b64_text :: "string \<Rightarrow> py_error + string"

definition str_or_type_error :: "yaml \<Rightarrow> py_error + string" where
  "str_or_type_error v = (case v of YStr s \<Rightarrow> Inr s | _ \<Rightarrow> Inl (TypeError ''not a string''))"

definition int_or_type_error :: "yaml \<Rightarrow> py_error + int" where
  "int_or_type_error v = (case v of YInt n \<Rightarrow> Inr n | YBool b \<Rightarrow> Inr (if b then 1 else 0) | _ \<Rightarrow> Inl (TypeError ''not an integer''))"

text \<open>\<open>args["k"]\<close>, where the store takes a string.\<close>

definition arg_req :: "json_args \<Rightarrow> string \<Rightarrow> py_error + yaml" where
  "arg_req args k = (case map_of args k of Some v \<Rightarrow> Inr v | None \<Rightarrow> Inl (KeyError k))"

definition text_arg :: "json_args \<Rightarrow> string \<Rightarrow> py_error + string" where
  "text_arg args k = bind_err (arg_req args k) str_or_type_error"

definition opt_real :: "yaml \<Rightarrow> real option" where
  "opt_real v = (case v of YFloat x \<Rightarrow> Some x | YInt n \<Rightarrow> Some (of_int n) | _ \<Rightarrow> None)"

definition json_reals :: "yaml \<Rightarrow> py_error + real list" where
  "json_reals v = bind_err (json_list v) (mapM (\<lambda>x. case opt_real x of Some r \<Rightarrow> Inr r | None \<Rightarrow> Inl (TypeError ''not a number'')))"

text \<open>An op of a batch, as the client encodes it and as the server reads it.\<close>

fun encode_op :: "codec \<Rightarrow> batch_op \<Rightarrow> yaml" where
  "encode_op cdc (OpCell t p) = YMap [(''op'', YStr ''write_cell''), (''token'', YStr t), (''payload_b64'', YStr (b64_of cdc p))]"
| "encode_op cdc (OpRelate x y ty) = YMap [(''op'', YStr ''relate''), (''from_ref'', YStr x), (''to_ref'', YStr y), (''rel_type'', YStr ty)]"
| "encode_op cdc (OpFact x p y) = YMap [(''op'', YStr ''assert_fact''), (''subject'', YStr x), (''predicate'', YStr p), (''object'', YStr y)]"
| "encode_op cdc (OpScope c sc) = YMap [(''op'', YStr ''scope''), (''cell_ref'', YStr c), (''scope_ref'', YStr sc)]"

definition op_text :: "yaml \<Rightarrow> string \<Rightarrow> py_error + string" where
  "op_text v k = bind_err (json_item v k) str_or_type_error"

definition decode_op :: "conversions \<Rightarrow> codec \<Rightarrow> yaml \<Rightarrow> py_error + batch_op" where
  "decode_op cv cdc v = bind_err (json_item v ''op'') (\<lambda>kind.
     if kind = YStr ''write_cell'' then bind_err (op_text v ''payload_b64'') (\<lambda>b. bind_err (b64_text cdc b) (\<lambda>p.
       bind_err (op_text v ''token'') (\<lambda>t. Inr (OpCell t p))))
     else if kind = YStr ''relate'' then bind_err (op_text v ''from_ref'') (\<lambda>x. bind_err (op_text v ''to_ref'') (\<lambda>y.
       bind_err (op_text v ''rel_type'') (\<lambda>ty. Inr (OpRelate x y ty))))
     else if kind = YStr ''assert_fact'' then bind_err (op_text v ''subject'') (\<lambda>x. bind_err (op_text v ''predicate'') (\<lambda>p.
       bind_err (op_text v ''object'') (\<lambda>y. Inr (OpFact x p y))))
     else if kind = YStr ''scope'' then bind_err (op_text v ''cell_ref'') (\<lambda>c. bind_err (op_text v ''scope_ref'') (\<lambda>sc. Inr (OpScope c sc)))
     else Inl (ValueError (''unknown batch op: '' @ json_text cv kind)))"

text \<open>The writing tools: the call their arguments decode to.\<close>

definition generic_call :: "conversions \<Rightarrow> codec \<Rightarrow> string \<Rightarrow> json_args \<Rightarrow> (py_error + string tool) option" where
  "generic_call cv cdc tool args = (
     if tool = ''write_cell'' then Some (bind_err (text_arg args ''payload_b64'') (\<lambda>b. bind_err (b64_text cdc b) (\<lambda>p. Inr (WriteCell p))))
     else if tool = ''scope'' then Some (bind_err (text_arg args ''cell_ref'') (\<lambda>c. bind_err (text_arg args ''scope_ref'') (\<lambda>sc. Inr (ScopeTool c sc))))
     else if tool = ''assert_fact'' \<or> tool = ''invalidate_fact'' then Some (bind_err (text_arg args ''subject'') (\<lambda>x. bind_err (text_arg args ''predicate'') (\<lambda>p.
       bind_err (text_arg args ''object'') (\<lambda>y. Inr (if tool = ''assert_fact'' then AssertFact x p y else InvalidateFact x p y)))))
     else if tool = ''add_embedding'' then Some (bind_err (text_arg args ''target_ref'') (\<lambda>t. bind_err (arg_req args ''vector'') (\<lambda>v.
       bind_err (json_reals v) (\<lambda>w. Inr (AddEmbedding t w)))))
     else if tool = ''batch'' then Some (bind_err (arg_req args ''ops'') (\<lambda>v. bind_err (json_list v) (\<lambda>ops.
       bind_err (mapM (decode_op cv cdc) ops) (\<lambda>xs. Inr (Batch (map Inr xs))))))
     else None)"

text \<open>The reading tools, over what the store answers.\<close>

record 's raw_reads =
  rr_regenerate :: "'s \<Rightarrow> string \<Rightarrow> py_error + string"
  rr_neighbors :: "'s \<Rightarrow> string \<Rightarrow> string option \<Rightarrow> string list"
  rr_facts :: "'s \<Rightarrow> string option \<Rightarrow> string option \<Rightarrow> bool \<times> (string \<times> string \<times> string) list"
  rr_vector :: "'s \<Rightarrow> real list \<Rightarrow> int \<Rightarrow> string option \<Rightarrow> py_error + (string \<times> real) list"

definition fact_json :: "string \<times> string \<times> string \<Rightarrow> yaml" where
  "fact_json f = (case f of (x, p, y) \<Rightarrow> YMap [(''subject'', YStr x), (''predicate'', YStr p), (''object'', YStr y)])"

definition generic_read :: "conversions \<Rightarrow> codec \<Rightarrow> 's raw_reads \<Rightarrow> string \<Rightarrow> json_args \<Rightarrow> 's \<Rightarrow> (py_error + yaml) option" where
  "generic_read cv cdc rr tool args s = (let opt = (\<lambda>k. opt_text cv (arg_or args k YNull)) in
     if tool = ''regenerate'' then Some (bind_err (text_arg args ''ref'') (\<lambda>x. bind_err (rr_regenerate rr s x) (\<lambda>p.
       Inr (YMap [(''payload_b64'', YStr (b64_of cdc p))]))))
     else if tool = ''graph_neighbors'' then Some (bind_err (text_arg args ''ref'') (\<lambda>x.
       Inr (YMap [(''neighbors'', YList (map YStr (rr_neighbors rr s x (opt ''rel_type''))))])))
     else if tool = ''query_facts'' then Some (case rr_facts rr s (opt ''subject'') (opt ''predicate'') of (ok, fs) \<Rightarrow>
       Inr (YMap [(''success'', YBool ok), (''output'', YList (map fact_json fs))]))
     else if tool = ''query_vector'' then Some (bind_err (arg_req args ''vector'') (\<lambda>v. bind_err (json_reals v) (\<lambda>w.
       bind_err (arg_req args ''k'') (\<lambda>kv. bind_err (int_or_type_error kv) (\<lambda>k. bind_err (rr_vector rr s w k (opt ''scope'')) (\<lambda>hs.
         Inr (YMap [(''results'', YList (map (\<lambda>(r, sc). YList [YStr r, YFloat sc]) hs))])))))))
     else None)"

text \<open>The reply of a call; the token map in the order of the first use of each token.\<close>

definition op_tokens :: "string tool \<Rightarrow> string list" where
  "op_tokens call = (case call of Batch ops \<Rightarrow> rev (remdups (rev (concat (map (\<lambda>x. case x of Inr (OpCell t p) \<Rightarrow> [t] | _ \<Rightarrow> []) ops)))) | _ \<Rightarrow> [])"

definition reply_json :: "string tool \<Rightarrow> reply \<Rightarrow> yaml" where
  "reply_json call r = (case r of RRef x \<Rightarrow> YMap [(''ref'', YStr x)] | ROk \<Rightarrow> YMap [(''ok'', YBool True)]
     | RRefs tm \<Rightarrow> YMap [(''refs'', YMap (map (\<lambda>t. (t, YStr (resolve_token tm t))) (op_tokens call)))]
     | RBody b \<Rightarrow> YStr b)"

section \<open>The dispatch\<close>

record ('s, 'b, 'm, 'i) server =
  sr_service :: "('s, 'b, 'm, 'i) service"
  sr_codec :: codec
  sr_raw :: "'s raw_reads"
  sr_token :: string
  sr_bypass :: bool
  sr_version :: string
  sr_fingerprint :: real
  sr_durable :: bool
  sr_show :: "py_error \<Rightarrow> string"

definition generic_json :: "('s, 'b, 'm, 'i) server \<Rightarrow> string \<Rightarrow> json_args \<Rightarrow> 's \<Rightarrow> (py_error + yaml option) \<times> 's" where
  "generic_json srv tool args s = (let cv = sv_conversions (sr_service srv) in
     case generic_call cv (sr_codec srv) tool args of
       Some (Inl e) \<Rightarrow> (Inl e, s)
     | Some (Inr call) \<Rightarrow> (case dispatch_generic (sv_backend (sr_service srv)) call s of
         (Inr (Some r), s') \<Rightarrow> (Inr (Some (reply_json call r)), s')
       | (Inr None, s') \<Rightarrow> (Inr None, s')
       | (Inl e, s') \<Rightarrow> (Inl e, s'))
     | None \<Rightarrow> (case generic_read cv (sr_codec srv) (sr_raw srv) tool args s of
         Some (Inl e) \<Rightarrow> (Inl e, s) | Some (Inr v) \<Rightarrow> (Inr (Some v), s) | None \<Rightarrow> (Inr None, s)))"

text \<open>The outcome of a call, whether it asks the server to stop, and the store it leaves.\<close>

definition daemon_dispatch :: "('s, 'b, 'm, 'i) server \<Rightarrow> string \<Rightarrow> json_args \<Rightarrow> 's native_store
    \<Rightarrow> (py_error + yaml) \<times> bool \<times> 's native_store" where
  "daemon_dispatch srv tool args st = (case generic_json srv tool args (ns_store st) of
     (Inl e, s') \<Rightarrow> (Inl e, False, st\<lparr>ns_store := s'\<rparr>)
   | (Inr (Some v), s') \<Rightarrow> (Inr v, False, st\<lparr>ns_store := s'\<rparr>)
   | (Inr None, s') \<Rightarrow> if tool = ''shutdown'' then (Inr (YMap [(''ok'', YBool True)]), True, st)
       else (case dispatch_json (sr_service srv) tool args st of
         (Inr (Some v), st') \<Rightarrow> (Inr v, False, st')
       | (Inr None, st') \<Rightarrow> (Inl (ValueError (''unknown tool: '' @ tool)), False, st')
       | (Inl e, st') \<Rightarrow> (Inl e, False, st')))"

text \<open>
  Arguments that are no object: the tools that read none of them work, \<open>remember\<close> and \<open>diary_write\<close>
  sweep before they read one, every other tool fails at its first argument.
\<close>

definition dispatch_non_object :: "('s, 'b, 'm, 'i) server \<Rightarrow> string \<Rightarrow> 's native_store \<Rightarrow> (py_error + yaml) \<times> bool \<times> 's native_store" where
  "dispatch_non_object srv tool st = (let sv = sr_service srv; e = AttributeError ''no attribute get'' in
     if tool = ''status'' \<or> tool = ''kg_stats'' \<or> tool = ''shutdown'' then daemon_dispatch srv tool [] st
     else if tool = ''remember'' \<or> tool = ''diary_write'' then
       (Inl e, False, st\<lparr>ns_store := maybe_sweep (sv_backend sv) (sv_reads sv) (sv_run sv) (sv_embedder sv) (ns_store st)\<rparr>)
     else (Inl e, False, st))"

text \<open>\<open>payload["tool"]\<close> and \<open>payload.get("arguments") or {}\<close>.\<close>

definition call_of :: "yaml \<Rightarrow> py_error + yaml \<times> yaml" where
  "call_of payload = bind_err (json_item payload ''tool'') (\<lambda>t. case payload of
     YMap m \<Rightarrow> Inr (t, let a = arg_or m ''arguments'' YNull in if truthy a then a else YMap [])
   | _ \<Rightarrow> Inl (AttributeError ''get''))"

definition run_call :: "('s, 'b, 'm, 'i) server \<Rightarrow> yaml \<Rightarrow> 's native_store \<Rightarrow> (py_error + yaml) \<times> bool \<times> 's native_store" where
  "run_call srv payload st = (case call_of payload of
     Inl e \<Rightarrow> (Inl e, False, st)
   | Inr (YStr tool, YMap args) \<Rightarrow> daemon_dispatch srv tool args st
   | Inr (YStr tool, a) \<Rightarrow> dispatch_non_object srv tool st
   | Inr (t, a) \<Rightarrow> (Inl (ValueError (''unknown tool: '' @ json_text (sv_conversions (sr_service srv)) t)), False, st))"

section \<open>The HTTP handlers\<close>

record http_request =
  rq_path :: string
  rq_peer :: string
  rq_auth :: "string option"
  rq_body :: "py_error + yaml"

definition error_body :: "string \<Rightarrow> yaml" where
  "error_body m = YMap [(''error'', YStr m)]"

text \<open>Status, body, whether the server is to stop, and the store.\<close>

definition post :: "('s, 'b, 'm, 'i) server \<Rightarrow> http_request \<Rightarrow> 's native_store \<Rightarrow> nat \<times> yaml \<times> bool \<times> 's native_store" where
  "post srv rq st = (
     if rq_path rq \<noteq> ''/mcp'' then (404, error_body ''not found'', False, st)
     else if \<not> authorized (sr_bypass srv) (sr_token srv) (rq_peer rq) (rq_auth rq) then (401, error_body ''unauthorized'', False, st)
     else (case rq_body rq of
       Inl e \<Rightarrow> (400, error_body (sr_show srv e), False, st)
     | Inr payload \<Rightarrow> (case run_call srv payload st of
         (Inl e, stop, st') \<Rightarrow> (400, error_body (sr_show srv e), stop, st')
       | (Inr v, stop, st') \<Rightarrow> (200, v, stop, st'))))"

definition health_json :: "('s, 'b, 'm, 'i) server \<Rightarrow> yaml" where
  "health_json srv = YMap [(''ok'', YBool True), (''service'', YStr ''memory-daemon''), (''version'', YStr (sr_version srv)),
     (''code_fingerprint'', YFloat (sr_fingerprint srv)), (''embedder'', embedder_json (sv_embedder (sr_service srv)) ''embedder disabled''),
     (''durable'', YBool (sr_durable srv))]"

definition get :: "('s, 'b, 'm, 'i) server \<Rightarrow> string \<Rightarrow> nat \<times> yaml" where
  "get srv path = (if path = ''/health'' then (200, health_json srv) else (404, error_body ''not found''))"

section \<open>The client's transport\<close>

definition bearer :: "string option \<Rightarrow> string option" where
  "bearer token = (case token of Some t \<Rightarrow> if t \<noteq> [] then Some (''Bearer '' @ t) else None | None \<Rightarrow> None)"

definition http_error :: "nat \<Rightarrow> py_error" where
  "http_error code = OSError (''HTTP Error '' @ (if code = 400 then ''400: Bad Request'' else if code = 401 then ''401: Unauthorized'' else ''404: Not Found''))"

text \<open>\<open>_call\<close> of a client that connects from a peer address with a token.\<close>

definition wire_call :: "('s, 'b, 'm, 'i) server \<Rightarrow> string \<Rightarrow> string option \<Rightarrow> 's native_store rpc" where
  "wire_call srv peer token tool args st = (
     case post srv \<lparr>rq_path = ''/mcp'', rq_peer = peer, rq_auth = bearer token,
         rq_body = Inr (YMap [(''tool'', YStr tool), (''arguments'', YMap args)])\<rparr> st of
       (code, body, stop, st') \<Rightarrow> (if code = 200 then Inr body else Inl (http_error code), st'))"

definition gwc_ref :: "'s rpc \<Rightarrow> string \<Rightarrow> json_args \<Rightarrow> 's \<Rightarrow> (py_error + yaml) \<times> 's" where
  "gwc_ref rpc tool args s = reply_with (rpc tool args s) (\<lambda>out. json_item out ''ref'')"

definition gwc_write_cell :: "codec \<Rightarrow> 's rpc \<Rightarrow> string \<Rightarrow> 's \<Rightarrow> (py_error + yaml) \<times> 's" where
  "gwc_write_cell cdc rpc payload = gwc_ref rpc ''write_cell'' [(''payload_b64'', YStr (b64_of cdc payload))]"

definition gwc_add_embedding :: "'s rpc \<Rightarrow> string \<Rightarrow> real list \<Rightarrow> 's \<Rightarrow> (py_error + yaml) \<times> 's" where
  "gwc_add_embedding rpc target v = gwc_ref rpc ''add_embedding'' [(''target_ref'', YStr target), (''vector'', YList (map YFloat v))]"

definition gwc_scope :: "'s rpc \<Rightarrow> string \<Rightarrow> string \<Rightarrow> 's \<Rightarrow> (py_error + unit) \<times> 's" where
  "gwc_scope rpc c sc s = reply_with (rpc ''scope'' [(''cell_ref'', YStr c), (''scope_ref'', YStr sc)] s) (\<lambda>out. Inr ())"

definition gwc_fact :: "'s rpc \<Rightarrow> string \<Rightarrow> string \<Rightarrow> string \<Rightarrow> string \<Rightarrow> 's \<Rightarrow> (py_error + unit) \<times> 's" where
  "gwc_fact rpc tool x p y s = reply_with (rpc tool [(''subject'', YStr x), (''predicate'', YStr p), (''object'', YStr y)] s) (\<lambda>out. Inr ())"

definition gwc_regenerate :: "codec \<Rightarrow> 's rpc \<Rightarrow> string \<Rightarrow> 's \<Rightarrow> (py_error + string) \<times> 's" where
  "gwc_regenerate cdc rpc ref s = reply_with (rpc ''regenerate'' [(''ref'', YStr ref)] s)
     (\<lambda>out. bind_err (json_item out ''payload_b64'') (\<lambda>v. bind_err (str_or_type_error v) (b64_text cdc)))"

definition gwc_neighbors :: "'s rpc \<Rightarrow> string \<Rightarrow> string option \<Rightarrow> 's \<Rightarrow> (py_error + yaml) \<times> 's" where
  "gwc_neighbors rpc ref ty s = reply_with (rpc ''graph_neighbors'' [(''ref'', YStr ref), (''rel_type'', opt_json ty)] s)
     (\<lambda>out. json_item out ''neighbors'')"

definition fact_of_json :: "yaml \<Rightarrow> py_error + yaml \<times> yaml \<times> yaml" where
  "fact_of_json f = bind_err (json_item f ''subject'') (\<lambda>x. bind_err (json_item f ''predicate'') (\<lambda>p.
     bind_err (json_item f ''object'') (\<lambda>y. Inr (x, p, y))))"

definition gwc_query_facts :: "'s rpc \<Rightarrow> string option \<Rightarrow> string option \<Rightarrow> 's \<Rightarrow> (py_error + yaml \<times> (yaml \<times> yaml \<times> yaml) list) \<times> 's" where
  "gwc_query_facts rpc x p s = reply_with (rpc ''query_facts'' [(''subject'', opt_json x), (''predicate'', opt_json p)] s)
     (\<lambda>out. bind_err (json_item out ''success'') (\<lambda>ok. bind_err (json_item out ''output'') (\<lambda>v.
       bind_err (json_list v) (\<lambda>fs. bind_err (mapM fact_of_json fs) (\<lambda>ts. Inr (ok, ts))))))"

definition hit_of_json :: "conversions \<Rightarrow> yaml \<Rightarrow> py_error + yaml \<times> real" where
  "hit_of_json cv v = bind_err (json_list v) (\<lambda>xs. case xs of
     [r, sc] \<Rightarrow> bind_err (to_float cv sc) (\<lambda>x. Inr (r, x)) | _ \<Rightarrow> Inl (ValueError ''values to unpack''))"

definition gwc_query_vector :: "conversions \<Rightarrow> 's rpc \<Rightarrow> real list \<Rightarrow> int \<Rightarrow> string option \<Rightarrow> 's \<Rightarrow> (py_error + (yaml \<times> real) list) \<times> 's" where
  "gwc_query_vector cv rpc v k sc s = reply_with
     (rpc ''query_vector'' [(''vector'', YList (map YFloat v)), (''k'', YInt k), (''scope'', opt_json sc)] s)
     (\<lambda>out. bind_err (json_item out ''results'') (\<lambda>r. bind_err (json_list r) (mapM (hit_of_json cv))))"

definition gwc_commit :: "codec \<Rightarrow> 's rpc \<Rightarrow> batch_op list \<Rightarrow> 's \<Rightarrow> (py_error + yaml) \<times> 's" where
  "gwc_commit cdc rpc ops s = (if ops = [] then (Inr (YMap []), s)
     else reply_with (rpc ''batch'' [(''ops'', YList (map (encode_op cdc) ops))] s) (\<lambda>out. json_item out ''refs''))"

section \<open>The start of a daemon\<close>

text \<open>A token file: its text and its mode.\<close>

definition ensure_token :: "(string \<times> nat) option \<Rightarrow> string \<Rightarrow> string \<times> (string \<times> nat) option" where
  "ensure_token f fresh = (let created = (fresh, Some (fresh @ [CHR 0x0A], 384)) in
     case f of None \<Rightarrow> created
     | Some (t, mode) \<Rightarrow> (let existing = py_strip t in if existing \<noteq> [] then (existing, f) else created))"

definition daemon_version :: "py_error + string \<Rightarrow> string" where
  "daemon_version r = (case r of Inr v \<Rightarrow> v | Inl e \<Rightarrow> DEV_VERSION)"

text \<open>The newest modification time of the package's files; other exceptions than \<open>OSError\<close> pass.\<close>

definition code_fingerprint :: "py_error + real list \<Rightarrow> py_error + real" where
  "code_fingerprint r = (case r of Inr [] \<Rightarrow> Inr 0 | Inr (m # ms) \<Rightarrow> Inr (fold max ms m) | Inl (OSError m) \<Rightarrow> Inr 0 | Inl (FileNotFoundError m) \<Rightarrow> Inr 0 | Inl e \<Rightarrow> Inl e)"

definition default_memory_home :: "string option \<Rightarrow> string \<Rightarrow> string" where
  "default_memory_home override user_home = (case override of
     Some d \<Rightarrow> if d \<noteq> [] then d else user_home @ ''/.amplifier/memory'' | None \<Rightarrow> user_home @ ''/.amplifier/memory'')"

text \<open>What a start is given and finds: the arguments, the kernel, the process, the installation.\<close>

record launch =
  l_home :: string
  l_host :: string
  l_port :: nat
  l_ephemeral :: bool
  l_model :: string
  l_token_path :: "string option"
  l_rust :: bool
  l_token_file :: "(string \<times> nat) option"
  l_fresh :: string
  l_pid :: int
  l_started :: string
  l_version :: string
  l_fingerprint :: real

definition token_path_of :: "launch \<Rightarrow> string" where
  "token_path_of l = (case l_token_path l of Some p \<Rightarrow> if p \<noteq> [] then p else l_home l @ ''/token'' | None \<Rightarrow> l_home l @ ''/token'')"

definition daemon_json :: "launch \<Rightarrow> json_args" where
  "daemon_json l = [(''url'', YStr (''http://'' @ l_host l @ '':'' @ show_nat (l_port l))), (''host'', YStr (l_host l)), (''port'', YInt (int (l_port l))),
     (''pid'', YInt (l_pid l)), (''version'', YStr (l_version l)), (''code_fingerprint'', YFloat (l_fingerprint l)),
     (''token_file'', YStr (token_path_of l)), (''started_at'', YStr (l_started l)), (''durable'', YBool (\<not> l_ephemeral l))]"

text \<open>
  The owned daemon: the exit code where it refuses to start, else the server, the discovery file and
  the token file.  The service over the opened store and the embedder is an argument.
\<close>

definition run_owned_daemon :: "(bool \<Rightarrow> string option \<Rightarrow> ('s, 'b, 'm, 'i) service) \<Rightarrow> codec \<Rightarrow> 's raw_reads \<Rightarrow> (py_error \<Rightarrow> string) \<Rightarrow> launch
    \<Rightarrow> nat + ('s, 'b, 'm, 'i) server \<times> json_args \<times> (string \<times> nat) option" where
  "run_owned_daemon serve cdc rr shw l = (let durable = (\<not> l_ephemeral l) in
     if durable \<and> \<not> l_rust l then Inl 1
     else (case ensure_token (l_token_file l) (l_fresh l) of (token, tf) \<Rightarrow>
       Inr (\<lparr>sr_service = serve durable (if l_model l \<noteq> ''none'' then Some (l_model l) else None), sr_codec = cdc, sr_raw = rr,
          sr_token = token, sr_bypass = True, sr_version = l_version l, sr_fingerprint = l_fingerprint l, sr_durable = durable, sr_show = shw\<rparr>,
        daemon_json l, tf)))"

text \<open>The lock at the start, the probe of the advertised daemon, and the attempts of the next five seconds.\<close>

definition run_daemon :: "bool \<Rightarrow> bool \<Rightarrow> bool list \<Rightarrow> nat + 'a \<Rightarrow> nat + 'a" where
  "run_daemon owned answers later owned_run = (if owned then owned_run
     else if answers then Inl 0
     else if list_ex id later then owned_run else Inl 0)"

text \<open>The plain gateway: its token, what it announces on its output, and the token file.\<close>

definition run_server :: "string option \<Rightarrow> string \<Rightarrow> nat \<Rightarrow> string option \<Rightarrow> bool \<Rightarrow> string \<Rightarrow> (string \<times> nat) option \<Rightarrow> string
    \<Rightarrow> string \<times> json_args \<times> (string \<times> nat) option" where
  "run_server path host port token_path bypass user_home token_file fresh = (case ensure_token token_file fresh of (token, tf) \<Rightarrow>
     (token, [(''host'', YStr host), (''port'', YInt (int port)), (''url'', YStr (''http://'' @ host @ '':'' @ show_nat port)),
        (''token_file'', YStr (case token_path of Some p \<Rightarrow> if p \<noteq> [] then p else user_home @ ''/.amplifier/amplifier-data-token''
           | None \<Rightarrow> user_home @ ''/.amplifier/amplifier-data-token'')),
        (''durable'', YBool (path \<noteq> None)), (''localhost_bypass'', YBool bypass)], tf))"

section \<open>What a client finds\<close>

definition read_token :: "(string \<rightharpoonup> string) \<Rightarrow> conversions \<Rightarrow> json_args \<Rightarrow> string option" where
  "read_token files cv di = (let tfv = arg_or di ''token_file'' YNull in
     if \<not> truthy tfv then None
     else (case files (json_text cv tfv) of None \<Rightarrow> None
       | Some t \<Rightarrow> (if py_strip t = [] then None else Some (py_strip t))))"

definition info_of_json :: "conversions \<Rightarrow> (string \<Rightarrow> real option) \<Rightarrow> json_args \<Rightarrow> info" where
  "info_of_json cv epoch di = \<lparr>url = json_text cv (arg_or di ''url'' (YStr [])),
     pid = (case arg_or di ''pid'' YNull of YInt n \<Rightarrow> Some n | _ \<Rightarrow> None),
     started_at = (let v = arg_or di ''started_at'' YNull in if truthy v then epoch (json_text cv v) else None)\<rparr>"

definition health_of_json :: "conversions \<Rightarrow> json_args \<Rightarrow> health" where
  "health_of_json cv hc = \<lparr>h_version = (let v = arg_or hc ''version'' YNull in if truthy v then json_text cv v else []),
     h_fingerprint = (case arg_or hc ''code_fingerprint'' YNull of YBool b \<Rightarrow> Some (if b then 1 else 0) | v \<Rightarrow> opt_real v),
     h_ok = truthy (arg_or hc ''ok'' YNull)\<rparr>"

text \<open>
  A \<open>GET\<close> of a URL: it reaches the server where the URL begins with the address the server was bound to.  The client's probe is
  the answer to \<open>/health\<close> below the URL it read, \<open>None\<close> for no URL, no answer or an error status.
\<close>

definition fetch :: "launch \<Rightarrow> ('s, 'b, 'm, 'i) server \<Rightarrow> string \<Rightarrow> (nat \<times> yaml) option" where
  "fetch l srv u = (let bound = ''http://'' @ l_host l @ '':'' @ show_nat (l_port l) in
     if starts_with u bound then Some (get srv (drop (length bound) u)) else None)"

definition probe_health :: "(string \<Rightarrow> (nat \<times> yaml) option) \<Rightarrow> conversions \<Rightarrow> string \<Rightarrow> health option" where
  "probe_health net cv u = (if u = [] then None
     else (case net (u @ ''/health'') of Some (code, YMap hc) \<Rightarrow> if code = 200 then Some (health_of_json cv hc) else None | _ \<Rightarrow> None))"

section \<open>Lemmas\<close>

definition DOMAIN_TOOLS :: "string set" where
  "DOMAIN_TOOLS = {''remember'', ''search'', ''status'', ''kg_add'', ''kg_invalidate'', ''kg_query'', ''kg_timeline'', ''kg_stats'',
     ''traverse'', ''diary_write'', ''diary_read'', ''list_drawers''}"

text \<open>The tools that may write.\<close>

definition ACTING_TOOLS :: "string set" where
  "ACTING_TOOLS = {''write_cell'', ''scope'', ''assert_fact'', ''invalidate_fact'', ''add_embedding'', ''batch'',
     ''remember'', ''kg_add'', ''kg_invalidate'', ''traverse'', ''diary_write''}"

lemma generic_read_None:
  "tool \<notin> {''regenerate'', ''graph_neighbors'', ''query_facts'', ''query_vector''} \<Longrightarrow> generic_read cv cdc rr tool args s = None"
  by (simp add: generic_read_def)

lemma generic_call_None: "tool \<notin> ACTING_TOOLS \<Longrightarrow> generic_call cv cdc tool args = None"
  by (simp add: generic_call_def ACTING_TOOLS_def)

lemma generic_json_None: "tool \<in> DOMAIN_TOOLS \<or> tool = ''shutdown'' \<Longrightarrow> generic_json srv tool args s = (Inr None, s)"
  by (auto simp: generic_json_def generic_call_def generic_read_def DOMAIN_TOOLS_def)

lemma generic_json_unchanged: "tool \<notin> ACTING_TOOLS \<Longrightarrow> snd (generic_json srv tool args s) = s"
  by (auto simp: generic_json_def generic_call_None Let_def split: option.split sum.split)

lemma dispatch_json_unchanged: "tool \<notin> ACTING_TOOLS \<Longrightarrow> snd (dispatch_json sv tool args st) = st"
  by (simp add: dispatch_json_def ACTING_TOOLS_def Let_def case_prod_unfold)

lemma daemon_dispatch_unchanged: "tool \<notin> ACTING_TOOLS \<Longrightarrow> snd (snd (daemon_dispatch srv tool args st)) = st"
  using generic_json_unchanged [of tool srv args "ns_store st"] dispatch_json_unchanged [of tool "sr_service srv" args st]
  by (auto simp: daemon_dispatch_def split: prod.splits sum.splits option.splits)

lemma daemon_dispatch_stops: "fst (snd (daemon_dispatch srv tool args st)) \<Longrightarrow> tool = ''shutdown''"
  by (auto simp: daemon_dispatch_def split: prod.splits sum.splits option.splits if_splits)

lemma dispatch_non_object_unchanged: "tool \<notin> ACTING_TOOLS \<Longrightarrow> snd (snd (dispatch_non_object srv tool st)) = st"
  by (auto simp: dispatch_non_object_def Let_def daemon_dispatch_unchanged ACTING_TOOLS_def)

lemma dispatch_non_object_stops: "fst (snd (dispatch_non_object srv tool st)) \<Longrightarrow> tool = ''shutdown''"
  using daemon_dispatch_stops by (auto simp: dispatch_non_object_def Let_def split: if_splits)

text \<open>The tool a payload names, where it names one.\<close>

definition names_tool :: "yaml \<Rightarrow> string \<Rightarrow> bool" where
  "names_tool payload tool \<longleftrightarrow> (\<exists>a. call_of payload = Inr (YStr tool, a))"

lemma run_call_acts:
  assumes "snd (snd (run_call srv payload st)) \<noteq> st \<or> fst (snd (run_call srv payload st))"
  shows "\<exists>tool. names_tool payload tool \<and> (snd (snd (run_call srv payload st)) \<noteq> st \<longrightarrow> tool \<in> ACTING_TOOLS)
    \<and> (fst (snd (run_call srv payload st)) \<longrightarrow> tool = ''shutdown'')"
proof (cases "call_of payload")
  case (Inl e)
  then show ?thesis using assms by (simp add: run_call_def)
next
  case (Inr ta)
  obtain t a where ta: "ta = (t, a)" by (rule prod.exhaust)
  show ?thesis
  proof (cases t)
    case (YStr tool)
    have "run_call srv payload st = (case a of YMap args \<Rightarrow> daemon_dispatch srv tool args st | _ \<Rightarrow> dispatch_non_object srv tool st)"
      by (cases a) (simp_all add: run_call_def Inr ta YStr)
    then have "(snd (snd (run_call srv payload st)) \<noteq> st \<longrightarrow> tool \<in> ACTING_TOOLS) \<and> (fst (snd (run_call srv payload st)) \<longrightarrow> tool = ''shutdown'')"
      using daemon_dispatch_unchanged [of tool srv _ st] dispatch_non_object_unchanged [of tool srv st]
        daemon_dispatch_stops [of srv tool _ st] dispatch_non_object_stops [of srv tool st]
      by (cases a) auto
    then show ?thesis using Inr ta YStr by (auto simp: names_tool_def)
  qed (use assms in \<open>simp_all add: run_call_def Inr ta\<close>)
qed

lemma authorized_bearer: "authorized bypass token peer (Some (''Bearer '' @ token))"
  by (simp add: authorized_def starts_with_def)

text \<open>Calls that an authorized client makes.\<close>

lemma wire_call_dispatch:
  assumes "authorized (sr_bypass srv) (sr_token srv) peer (bearer token)"
  shows "wire_call srv peer token tool args st = (case daemon_dispatch srv tool args st of
     (Inl e, stop, st') \<Rightarrow> (Inl (http_error 400), st') | (Inr v, stop, st') \<Rightarrow> (Inr v, st'))"
proof -
  have "call_of (YMap [(''tool'', YStr tool), (''arguments'', YMap args)]) = Inr (YStr tool, YMap args)"
    by (cases args) (simp_all add: call_of_def json_item_def arg_or_def)
  then have "run_call srv (YMap [(''tool'', YStr tool), (''arguments'', YMap args)]) st = daemon_dispatch srv tool args st"
    by (simp add: run_call_def)
  then show ?thesis using assms by (simp add: wire_call_def post_def split: prod.splits sum.splits)
qed

lemma wire_call_read:
  assumes "authorized (sr_bypass srv) (sr_token srv) peer (bearer token)"
    and "tool \<in> {''regenerate'', ''graph_neighbors'', ''query_facts'', ''query_vector''}"
    and "generic_read (sv_conversions (sr_service srv)) (sr_codec srv) (sr_raw srv) tool args (ns_store st) = Some r"
  shows "wire_call srv peer token tool args st = (case r of Inl e \<Rightarrow> Inl (http_error 400) | Inr v \<Rightarrow> Inr v, st)"
proof -
  have n: "generic_call cv cdc tool args = None" for cv cdc
    using assms(2) by (intro generic_call_None) (auto simp: ACTING_TOOLS_def)
  have "daemon_dispatch srv tool args st = (case r of Inl e \<Rightarrow> (Inl e, False, st) | Inr v \<Rightarrow> (Inr v, False, st))"
    by (cases r) (simp_all add: daemon_dispatch_def generic_json_def n assms(3))
  then show ?thesis by (cases r) (simp_all add: wire_call_dispatch [OF assms(1)])
qed

lemma wire_call_write:
  assumes "authorized (sr_bypass srv) (sr_token srv) peer (bearer token)"
    and "generic_call (sv_conversions (sr_service srv)) (sr_codec srv) tool args = Some (Inr call)"
    and "dispatch_generic (sv_backend (sr_service srv)) call (ns_store st) = (Inr (Some r), s')"
  shows "wire_call srv peer token tool args st = (Inr (reply_json call r), st\<lparr>ns_store := s'\<rparr>)"
  by (simp add: wire_call_dispatch [OF assms(1)] daemon_dispatch_def generic_json_def assms(2,3))

lemma decode_encode_op:
  "(\<And>p. b64_text cdc (b64_of cdc p) = Inr p) \<Longrightarrow> decode_op cv cdc (encode_op cdc x) = Inr x"
  by (cases x) (simp_all add: decode_op_def op_text_def json_item_def str_or_type_error_def)

lemma decode_encode_ops:
  "(\<And>p. b64_text cdc (b64_of cdc p) = Inr p) \<Longrightarrow> mapM (decode_op cv cdc) (map (encode_op cdc) xs) = Inr xs"
  by (induction xs) (simp_all add: decode_encode_op)

lemma json_reals_floats: "json_reals (YList (map YFloat v)) = Inr v"
  by (induction v) (auto simp: json_reals_def json_list_def opt_real_def split: sum.splits)

lemma opt_text_json [simp]: "opt_text cv (opt_json x) = x"
  by (cases x) (simp_all add: opt_text_def opt_json_def json_text_def)

section \<open>Properties\<close>

text \<open>
  C9: only authorized calls of a writing tool act.  A request changes the store, or stops the server, only
  as a POST to \<open>/mcp\<close> from the local host under the bypass or with the token, whose body names a tool: to
  change the store one that writes, to stop the server \<open>shutdown\<close>.  All others, whatever their
  body and arguments, leave both alone.
\<close>

theorem only_authorized_calls_act:
  assumes "post srv rq st = (code, body, stop, st')" and "st' \<noteq> st \<or> stop"
  shows "rq_path rq = ''/mcp''
    \<and> ((sr_bypass srv \<and> rq_peer rq \<in> LOCALHOST) \<or> rq_auth rq = Some (''Bearer '' @ sr_token srv))
    \<and> (\<exists>payload tool. rq_body rq = Inr payload \<and> names_tool payload tool
        \<and> (st' \<noteq> st \<longrightarrow> tool \<in> ACTING_TOOLS) \<and> (stop \<longrightarrow> tool = ''shutdown''))"
proof -
  have p: "rq_path rq = ''/mcp''" "authorized (sr_bypass srv) (sr_token srv) (rq_peer rq) (rq_auth rq)"
    using assms by (auto simp: post_def split: if_splits)
  then obtain payload where b: "rq_body rq = Inr payload" using assms by (cases "rq_body rq") (auto simp: post_def)
  obtain r stop1 st1 where r: "run_call srv payload st = (r, stop1, st1)" by (metis prod.exhaust)
  have "stop1 = stop" "st1 = st'" using assms(1) by (auto simp: post_def p b r split: sum.splits)
  then show ?thesis using run_call_acts [of srv payload st] assms(2) p(1) authorized_cases [OF p(2)] b by (auto simp: r)
qed

text \<open>
  Past the gate, each of the twelve domain tools answers the client what the dispatch answers and leaves the store it
  leaves; an exception of the tool reaches the client as status 400.
\<close>

lemma domain_calls_over_http:
  assumes "authorized (sr_bypass srv) (sr_token srv) peer (bearer token)" and "tool \<in> DOMAIN_TOOLS"
  shows "wire_call srv peer token tool args st = http_call (sr_service srv) tool args st"
  using assms(2) generic_json_None [of tool srv args "ns_store st"]
  by (auto simp: wire_call_dispatch [OF assms(1)] daemon_dispatch_def http_call_def http_error_def DOMAIN_TOOLS_def
      split: prod.splits sum.splits option.splits)

text \<open>
  C39: raw reads over HTTP are the store's.  Where base64 decodes what it encodes, a client's
  \<open>regenerate\<close>, \<open>graph_neighbors\<close>, \<open>query_facts\<close> and \<open>query_vector\<close> answer exactly what the store
  answers, fail where it fails, and leave the store as it is.
\<close>

theorem raw_reads_over_http:
  assumes "\<And>p. b64_text (sr_codec srv) (b64_of (sr_codec srv) p) = Inr p"
    and "authorized (sr_bypass srv) (sr_token srv) peer (bearer token)"
  shows "gwc_regenerate (sr_codec srv) (wire_call srv peer token) ref st =
      (case rr_regenerate (sr_raw srv) (ns_store st) ref of Inl e \<Rightarrow> Inl (http_error 400) | Inr p \<Rightarrow> Inr p, st)
    \<and> gwc_neighbors (wire_call srv peer token) ref ty st =
      (Inr (YList (map YStr (rr_neighbors (sr_raw srv) (ns_store st) ref ty))), st)
    \<and> gwc_query_facts (wire_call srv peer token) x q st =
      (case rr_facts (sr_raw srv) (ns_store st) x q of (ok, fs) \<Rightarrow> Inr (YBool ok, map (\<lambda>(a, b, c). (YStr a, YStr b, YStr c)) fs), st)
    \<and> gwc_query_vector cv (wire_call srv peer token) v k sc st =
      (case rr_vector (sr_raw srv) (ns_store st) v k sc of Inl e \<Rightarrow> Inl (http_error 400) | Inr hs \<Rightarrow> Inr (map (\<lambda>(r, z). (YStr r, z)) hs), st)"
proof (intro conjI)
  let ?st = "ns_store st" and ?cv = "sv_conversions (sr_service srv)"
  note w = wire_call_read [OF assms(2)]
  have "generic_read ?cv (sr_codec srv) (sr_raw srv) ''regenerate'' [(''ref'', YStr ref)] ?st
    = Some (bind_err (rr_regenerate (sr_raw srv) ?st ref) (\<lambda>p. Inr (YMap [(''payload_b64'', YStr (b64_of (sr_codec srv) p))])))"
    by (simp add: generic_read_def text_arg_def arg_req_def str_or_type_error_def Let_def)
  from w [OF _ this] show "gwc_regenerate (sr_codec srv) (wire_call srv peer token) ref st =
      (case rr_regenerate (sr_raw srv) ?st ref of Inl e \<Rightarrow> Inl (http_error 400) | Inr p \<Rightarrow> Inr p, st)"
    by (cases "rr_regenerate (sr_raw srv) ?st ref")
      (simp_all add: gwc_regenerate_def reply_with_def json_item_def str_or_type_error_def assms(1))
  have "generic_read ?cv (sr_codec srv) (sr_raw srv) ''graph_neighbors'' [(''ref'', YStr ref), (''rel_type'', opt_json ty)] ?st
    = Some (Inr (YMap [(''neighbors'', YList (map YStr (rr_neighbors (sr_raw srv) ?st ref ty)))]))"
    by (simp add: generic_read_def text_arg_def arg_req_def str_or_type_error_def arg_or_def Let_def)
  from w [OF _ this] show "gwc_neighbors (wire_call srv peer token) ref ty st =
      (Inr (YList (map YStr (rr_neighbors (sr_raw srv) ?st ref ty))), st)"
    by (simp add: gwc_neighbors_def reply_with_def json_item_def)
  obtain ok fs where f: "rr_facts (sr_raw srv) ?st x q = (ok, fs)" by (rule prod.exhaust)
  have facts: "mapM fact_of_json (map fact_json fs) = Inr (map (\<lambda>(a, b, c). (YStr a, YStr b, YStr c)) fs)" for fs
    by (induction fs) (auto simp: fact_of_json_def fact_json_def json_item_def)
  have "generic_read ?cv (sr_codec srv) (sr_raw srv) ''query_facts'' [(''subject'', opt_json x), (''predicate'', opt_json q)] ?st
    = Some (Inr (YMap [(''success'', YBool ok), (''output'', YList (map fact_json fs))]))"
    by (simp add: generic_read_def arg_or_def Let_def f)
  from w [OF _ this] show "gwc_query_facts (wire_call srv peer token) x q st =
      (case rr_facts (sr_raw srv) ?st x q of (ok, fs) \<Rightarrow> Inr (YBool ok, map (\<lambda>(a, b, c). (YStr a, YStr b, YStr c)) fs), st)"
    by (simp add: gwc_query_facts_def reply_with_def json_item_def json_list_def facts f)
  have hits: "mapM (hit_of_json cv) (map (\<lambda>(r, z). YList [YStr r, YFloat z]) hs) = Inr (map (\<lambda>(r, z). (YStr r, z)) hs)" for hs
    by (induction hs) (auto simp: hit_of_json_def json_list_def to_float_def)
  have "generic_read ?cv (sr_codec srv) (sr_raw srv) ''query_vector''
      [(''vector'', YList (map YFloat v)), (''k'', YInt k), (''scope'', opt_json sc)] ?st
    = Some (bind_err (rr_vector (sr_raw srv) ?st v k sc) (\<lambda>hs. Inr (YMap [(''results'', YList (map (\<lambda>(r, z). YList [YStr r, YFloat z]) hs))])))"
    by (simp add: generic_read_def arg_req_def arg_or_def json_reals_floats int_or_type_error_def Let_def)
  from w [OF _ this] show "gwc_query_vector cv (wire_call srv peer token) v k sc st =
      (case rr_vector (sr_raw srv) ?st v k sc of Inl e \<Rightarrow> Inl (http_error 400) | Inr hs \<Rightarrow> Inr (map (\<lambda>(r, z). (YStr r, z)) hs), st)"
    by (cases "rr_vector (sr_raw srv) ?st v k sc")
      (simp_all add: gwc_query_vector_def reply_with_def json_item_def json_list_def hits)
qed

lemma run_op_dom:
  "dom (snd (run_op W x st)) = dom (snd st) \<union> (case x of OpCell t p \<Rightarrow> {t} | _ \<Rightarrow> {})"
  by (cases st; cases x) (auto split: prod.splits)

lemma fold_run_op_dom:
  "dom (snd (fold (run_op W) ops st)) = dom (snd st) \<union> set (op_tokens (Batch (map Inr ops)))"
proof (induction ops arbitrary: st)
  case (Cons x ops)
  show ?case using Cons.IH [of "run_op W x st"] by (cases x) (auto simp: run_op_dom op_tokens_def)
qed (simp add: op_tokens_def)

text \<open>
  C35: a batch over HTTP is the batch.  Committing the ops a client staged sends them as JSON, and the
  daemon, past the gate, executes those very ops in one commit: the store it leaves and the ref it answers for
  every token are those of the commit on the server's store.
\<close>

theorem batch_over_http:
  assumes "\<And>p. b64_text (sr_codec srv) (b64_of (sr_codec srv) p) = Inr p"
    and "authorized (sr_bypass srv) (sr_token srv) peer (bearer token)"
  shows "\<exists>m tm s'. gw_commit (sv_backend (sr_service srv)) b (ns_store st) = (Some tm, s')
    \<and> gwc_commit (sr_codec srv) (wire_call srv peer token) (gw_ops b) st = (Inr (YMap m), st\<lparr>ns_store := s'\<rparr>)
    \<and> map_of m = (\<lambda>t. map_option YStr (tm t))"
proof (cases "gw_ops b = []")
  case True
  then show ?thesis by (simp add: gw_commit_def gwc_commit_def)
next
  case False
  let ?B = "sv_backend (sr_service srv)" and ?call = "Batch (map Inr (gw_ops b)) :: string tool"
  obtain wb tm where f: "fold (run_op (staged ?B)) (gw_ops b) (write_batch ?B (ns_store st), Map.empty) = (wb, tm)"
    by (rule prod.exhaust)
  have d: "dispatch_generic ?B ?call (ns_store st) = (Inr (Some (RRefs tm)), snd (commit ?B wb (ns_store st)))"
    by (simp add: dispatch_generic_def run_ops_known f)
  have c: "generic_call (sv_conversions (sr_service srv)) (sr_codec srv) ''batch'' [(''ops'', YList (map (encode_op (sr_codec srv)) (gw_ops b)))]
    = Some (Inr ?call)"
    by (simp add: generic_call_def arg_req_def json_list_def decode_encode_ops [OF assms(1)])
  have dm: "dom tm = set (op_tokens ?call)" using fold_run_op_dom [of "staged ?B" "gw_ops b" "(write_batch ?B (ns_store st), Map.empty)"] by (simp add: f)
  have m: "map_of (map (\<lambda>t. (t, YStr (resolve_token tm t))) (op_tokens ?call)) = (\<lambda>t. map_option YStr (tm t))"
  proof
    fix t
    show "map_of (map (\<lambda>t. (t, YStr (resolve_token tm t))) (op_tokens ?call)) t = map_option YStr (tm t)"
      using dm by (cases "tm t") (auto simp: map_of_map_restrict restrict_map_def resolve_token_def)
  qed
  show ?thesis
    using m False by (simp add: gw_commit_def gwc_commit_def d wire_call_write [OF assms(2) c d] reply_with_def reply_json_def json_item_def)
qed

lemma ensure_token_again:
  assumes "ensure_token f fresh = (token, f')" "fresh \<noteq> []" "py_strip (fresh @ [CHR 0x0A]) = fresh"
  shows "token \<noteq> []" "\<exists>t mode. f' = Some (t, mode) \<and> py_strip t = token" "ensure_token f' fresh2 = (token, f')"
  using assms by (auto simp: ensure_token_def Let_def split: option.splits if_splits)

lemma retires_self: "h_version hc = mine \<Longrightarrow> h_fingerprint hc = Some fp \<Longrightarrow> \<not> retires mine fp hc di"
  by (simp add: retires_def should_retire_stale_code_def Let_def)

text \<open>
  C36: a started daemon is found by the clients of its installation.  A client that reads the discovery file probes the
  daemon under the URL it holds, the one the daemon listens on, and gets a client of it without any action, since the
  health answer is that of a daemon it does not retire; the token file the discovery file names gives it the
  server's token, with which it is authorized from any address, also without the bypass; the pid is the daemon's; a
  daemon that calls itself durable has the kernel; and a later start on the same home keeps the token.
\<close>

theorem started_daemon_is_found:
  assumes "run_owned_daemon serve cdc rr shw l = Inr (srv, di, tf)"
    and "l_fresh l \<noteq> []" "py_strip (l_fresh l @ [CHR 0x0A]) = l_fresh l"
    and "files (token_path_of l) = map_option fst tf"
  shows "(\<exists>i. i = info_of_json cv epoch di \<and> url i = ''http://'' @ l_host l @ '':'' @ show_nat (l_port l)
        \<and> discover (l_version l) (l_fingerprint l) \<lparr>g_info = Some i, g_health = probe_health (fetch l srv) cv (url i), g_alive = alive, g_recovery = recovery\<rparr> g'
          = (Some i, []))
    \<and> read_token files cv di = Some (sr_token srv)
    \<and> authorized bypass (sr_token srv) peer (bearer (read_token files cv di))
    \<and> (\<exists>hc. get srv ''/health'' = (200, YMap hc) \<and> h_ok (health_of_json cv hc)
        \<and> \<not> retires (l_version l) (l_fingerprint l) (health_of_json cv hc) (info_of_json cv epoch di))
    \<and> pid (info_of_json cv epoch di) = Some (l_pid l)
    \<and> (if sr_durable srv then l_rust l else l_ephemeral l)
    \<and> ensure_token tf fresh2 = (sr_token srv, tf)"
proof -
  obtain token tf' where e: "ensure_token (l_token_file l) (l_fresh l) = (token, tf')" by (rule prod.exhaust)
  note t = ensure_token_again [OF e assms(2,3)]
  have r: "sr_token srv = token" "di = daemon_json l" "tf = tf'" "sr_version srv = l_version l" "sr_fingerprint srv = l_fingerprint l"
    "if sr_durable srv then l_rust l else l_ephemeral l"
    using assms(1) by (auto simp: run_owned_daemon_def Let_def e split: if_splits)
  have p: "token_path_of l \<noteq> []" by (auto simp: token_path_of_def split: option.splits)
  have tok: "read_token files cv di = Some token"
    using t(1,2) assms(4) p by (auto simp: read_token_def r(2,3) daemon_json_def arg_or_def json_text_def)
  have a: "authorized bypass token peer (bearer (Some token))" using t(1) by (simp add: bearer_def authorized_def starts_with_def)
  define hc where "hc = [(''ok'', YBool True), (''service'', YStr ''memory-daemon''), (''version'', YStr (sr_version srv)),
     (''code_fingerprint'', YFloat (sr_fingerprint srv)), (''embedder'', embedder_json (sv_embedder (sr_service srv)) ''embedder disabled''),
     (''durable'', YBool (sr_durable srv))]"
  have "get srv ''/health'' = (200, YMap hc)" by (simp add: get_def health_json_def hc_def)
  moreover have "h_ok (health_of_json cv hc)" "h_version (health_of_json cv hc) = l_version l" "h_fingerprint (health_of_json cv hc) = Some (l_fingerprint l)"
    by (simp_all add: health_of_json_def hc_def arg_or_def json_text_def opt_real_def r)
  moreover have "pid (info_of_json cv epoch di) = Some (l_pid l)" by (simp add: info_of_json_def r(2) daemon_json_def arg_or_def)
  moreover have u: "url (info_of_json cv epoch di) = ''http://'' @ l_host l @ '':'' @ show_nat (l_port l)"
    by (simp add: info_of_json_def r(2) daemon_json_def arg_or_def json_text_def)
  moreover have "probe_health (fetch l srv) cv (url (info_of_json cv epoch di)) = Some (health_of_json cv hc)"
    unfolding u using calculation(1) by (simp add: probe_health_def fetch_def Let_def starts_with_def)
  ultimately show ?thesis using tok a t(3) r by (auto simp: retires_self discover_def discover_with_def)
qed

section \<open>Witnesses\<close>

definition demo_server :: "((string, nat) event list, (string, nat) event list, unit, nat) server" where
  "demo_server = \<lparr>sr_service = demo_service, sr_codec = \<lparr>b64_of = (\<lambda>p. p), b64_text = Inr\<rparr>,
     sr_raw = \<lparr>rr_regenerate = (\<lambda>s x. Inl (KeyError x)), rr_neighbors = (\<lambda>s x ty. []), rr_facts = (\<lambda>s x p. (True, fact_triples s)),
       rr_vector = (\<lambda>s v k sc. Inr [])\<rparr>,
     sr_token = ''t'', sr_bypass = False, sr_version = ''2.0'', sr_fingerprint = 1, sr_durable = False, sr_show = (\<lambda>e. ''error'')\<rparr>"

lemma demo_server_lawful:
  "b64_text (sr_codec demo_server) (b64_of (sr_codec demo_server) p) = Inr p"
  "authorized (sr_bypass demo_server) (sr_token demo_server) ''10.0.0.1'' (bearer (Some ''t''))"
  by (simp_all add: demo_server_def bearer_def authorized_def starts_with_def)

theorem only_authorized_calls_act_witness:
  "\<exists>code body. post demo_server \<lparr>rq_path = ''/mcp'', rq_peer = ''10.0.0.1'', rq_auth = Some ''Bearer t'',
       rq_body = Inr (YMap [(''tool'', YStr ''shutdown'')])\<rparr> (native_init []) = (code, body, True, native_init [])
     \<and> Some ''Bearer t'' = Some (''Bearer '' @ sr_token demo_server)"
proof -
  have "post demo_server \<lparr>rq_path = ''/mcp'', rq_peer = ''10.0.0.1'', rq_auth = Some ''Bearer t'',
       rq_body = Inr (YMap [(''tool'', YStr ''shutdown'')])\<rparr> (native_init []) = (200, YMap [(''ok'', YBool True)], True, native_init [])" (is "post _ ?rq _ = _")
    by (simp add: post_def demo_server_def authorized_def starts_with_def run_call_def call_of_def json_item_def arg_or_def
        daemon_dispatch_def generic_json_None)
  from only_authorized_calls_act [OF this] this show ?thesis by (simp add: demo_server_def)
qed

theorem raw_reads_over_http_witness:
  "gwc_query_facts (wire_call demo_server ''10.0.0.1'' (Some ''t'')) None None (native_init [Relationship ''a'' ''b'' ''p''])
     = (Inr (YBool True, [(YStr ''a'', YStr ''p'', YStr ''b'')]), native_init [Relationship ''a'' ''b'' ''p''])"
  using raw_reads_over_http [OF demo_server_lawful]
  by (simp add: demo_server_def native_init_def)

theorem batch_over_http_witness:
  "\<exists>m. gwc_commit (sr_codec demo_server) (wire_call demo_server ''10.0.0.1'' (Some ''t'')) [OpCell ''$pending:0'' ''x''] (native_init [])
     = (Inr (YMap m), native_init [CellWrite ''x'' 0]) \<and> map_of m ''$pending:0'' = Some (YStr ''#x'')"
proof -
  let ?b = "\<lparr>gw_ops = [OpCell ''$pending:0'' ''x''], gw_next = 1\<rparr>"
  obtain m tm s' where m: "gw_commit (sv_backend (sr_service demo_server)) ?b (ns_store (native_init [])) = (Some tm, s')"
    "gwc_commit (sr_codec demo_server) (wire_call demo_server ''10.0.0.1'' (Some ''t'')) (gw_ops ?b) (native_init []) = (Inr (YMap m), (native_init [])\<lparr>ns_store := s'\<rparr>)"
    "map_of m = (\<lambda>t. map_option YStr (tm t))"
    using batch_over_http [OF demo_server_lawful, of ?b "native_init []"] by blast
  have "tm = [''$pending:0'' \<mapsto> ''#x'']" "s' = [CellWrite ''x'' 0]"
    using m(1) by (simp_all add: gw_commit_def dispatch_generic_def demo_server_def demo_service_def log_backend_def log_cell_def
        native_init_def demo_substrate_def)
  then show ?thesis using m(2,3) by (auto simp: native_init_def)
qed

definition demo_launch :: launch where
  "demo_launch = \<lparr>l_home = ''/m'', l_host = ''127.0.0.1'', l_port = 4711, l_ephemeral = True, l_model = ''none'', l_token_path = None,
     l_rust = False, l_token_file = None, l_fresh = ''tok'', l_pid = 7, l_started = ''now'', l_version = ''2.0'', l_fingerprint = 5\<rparr>"

theorem started_daemon_is_found_witness:
  "\<exists>srv di tf. run_owned_daemon (\<lambda>d m. demo_service) (sr_codec demo_server) (sr_raw demo_server) (sr_show demo_server) demo_launch = Inr (srv, di, tf)
     \<and> read_token [''/m/token'' \<mapsto> ''tok'' @ [CHR 0x0A]] demo_conversions di = Some (sr_token srv)"
proof -
  let ?files = "[''/m/token'' \<mapsto> ''tok'' @ [CHR 0x0A]]"
  obtain srv di tf where r: "run_owned_daemon (\<lambda>d m. demo_service) (sr_codec demo_server) (sr_raw demo_server) (sr_show demo_server) demo_launch = Inr (srv, di, tf)"
    "tf = Some (''tok'' @ [CHR 0x0A], 384)"
    by (simp add: run_owned_daemon_def demo_launch_def ensure_token_def Let_def)
  have f: "l_fresh demo_launch \<noteq> []" "py_strip (l_fresh demo_launch @ [CHR 0x0A]) = l_fresh demo_launch"
    "?files (token_path_of demo_launch) = map_option fst tf"
    by (simp_all add: demo_launch_def token_path_of_def py_strip_def is_space_def r(2))
  show ?thesis using started_daemon_is_found [where files = ?files, OF r(1) f(1,2)] f(3) r(1) by blast
qed

end
