(* ===== verification/Bridge.thy ===== *)
theory Bridge
  imports Rpc
begin

text \<open>
  The bridges to the coordinator's hook bus (\<open>coordinator_bridge.py\<close>) and the way a capture's outcome
  reaches it (\<open>_wire_completion_bridge\<close>, \<open>_await_and_bridge\<close> and \<open>_resolve_future\<close> of
  \<open>hooks-memory-capture\<close>): a future per capture, resolved from the drain thread through the event
  loop's callback queue and awaited by a task of the session.  The loop, the futures and the tasks
  are a state; every interleaving of the threads is a sequence of steps.
\<close>

section \<open>The coordinator's bridges\<close>

text \<open>How a scheduled emit ended: \<open>fut.exception()\<close> answers or raises.\<close>

datatype emit_outcome = Emit_Ok | Emit_Raised string string | Emit_Cancelled

datatype bridge_effect =
    Schedule_Emit string json_args
  | Stderr string
  | Log_Failure json_args

text \<open>\<open>repr\<close> of an event name of printable characters: the quote it uses, and what it escapes.\<close>

definition repr_quote :: "string \<Rightarrow> char" where
  "repr_quote s = (if CHR 0x27 \<in> set s \<and> CHR 0x22 \<notin> set s then CHR 0x22 else CHR 0x27)"

definition py_repr :: "string \<Rightarrow> string" where
  "py_repr s = (let q = repr_quote s in
     [q] @ concat (map (\<lambda>c. if c = q \<or> c = CHR 0x5C then [CHR 0x5C, c] else [c]) s) @ [q])"

definition bridge_failure_message :: "string \<Rightarrow> string \<Rightarrow> string \<Rightarrow> string" where
  "bridge_failure_message event ty m = ''[coordinator_bridge] emit('' @ py_repr event @ '') failed: '' @ ty @ '': '' @ m"

text \<open>The done-callback; a failing output or log is skipped over.\<close>

definition log_bridge_failure :: "bool \<Rightarrow> bool \<Rightarrow> string \<Rightarrow> emit_outcome \<Rightarrow> bridge_effect list" where
  "log_bridge_failure can_print can_log event out = (case out of
     Emit_Ok \<Rightarrow> [] | Emit_Cancelled \<Rightarrow> []
   | Emit_Raised ty m \<Rightarrow> (if can_print then [Stderr (bridge_failure_message event ty m)] else [])
       @ (if can_log then [Log_Failure [(''event'', YStr event), (''error'', YStr (ty @ '': '' @ m))]] else []))"

text \<open>
  The bridge used off the loop: nothing on a closed loop or where scheduling raises, else the emit and,
  when it is done, the callback.
\<close>

definition sync_bridge :: "bool \<Rightarrow> py_error + emit_outcome \<Rightarrow> bool \<Rightarrow> bool \<Rightarrow> string \<Rightarrow> json_args \<Rightarrow> bridge_effect list" where
  "sync_bridge loop_closed scheduled can_print can_log event payload = (if loop_closed then []
     else (case scheduled of Inl e \<Rightarrow> []
       | Inr out \<Rightarrow> Schedule_Emit event payload # log_bridge_failure can_print can_log event out))"

text \<open>The bridge used on the loop: the emit, its exception swallowed; a cancellation is no \<open>Exception\<close> and passes through.\<close>

definition async_bridge :: "emit_outcome \<Rightarrow> string \<Rightarrow> json_args \<Rightarrow> emit_outcome \<times> bridge_effect list" where
  "async_bridge out event payload = (if out = Emit_Cancelled then Emit_Cancelled else Emit_Ok, [Schedule_Emit event payload])"

text \<open>The registration of a module's events with the observability channel.\<close>

definition register_events :: "py_error + unit \<Rightarrow> string \<Rightarrow> string list \<Rightarrow> (string \<times> string list) list \<Rightarrow> (string \<times> string list) list" where
  "register_events out contributor events channel = (case out of Inl e \<Rightarrow> channel | Inr u \<Rightarrow> channel @ [(contributor, events)])"

section \<open>The completion of a capture\<close>

type_synonym envelope = "string \<rightharpoonup> yaml"

datatype future = Pending | Resolved envelope | Cancelled

definition event_name :: "envelope \<Rightarrow> yaml" where
  "event_name env = (case env ''event'' of Some v \<Rightarrow> v | None \<Rightarrow> YStr ''memory:drawer_filed'')"

definition bridged_payload :: "string \<Rightarrow> string option \<Rightarrow> envelope \<Rightarrow> envelope" where
  "bridged_payload cid sid env = (let rest = env(''event'' := None);
       rest' = (if rest ''capture_id'' = None then rest(''capture_id'' \<mapsto> YStr cid) else rest)
     in rest'(''session_id'' \<mapsto> opt_json sid))"

text \<open>
  The loop.  Every job has a future of its own, a new object, numbered here: the capture id and the session
  the job was wired with, the state of its future, the tasks that await one, the callbacks queued by
  \<open>call_soon_threadsafe\<close>, whether the loop is open, what was handed to the bridge, and all outcomes ever
  reported.  A capture has a job for every time it is queued: at its tool call and at every replay of its spool entry.
\<close>

record bridge_state =
  bs_wired :: "nat \<rightharpoonup> string \<times> string option"
  bs_future :: "nat \<rightharpoonup> future"
  bs_waiting :: "nat set"
  bs_calls :: "(nat \<times> envelope) list"
  bs_open :: bool
  bs_out :: "(nat \<times> yaml \<times> envelope) list"
  bs_reported :: "(nat \<times> envelope) list"

text \<open>\<open>_wire_completion_bridge\<close> for a job of a capture, with a new future; nothing where events are off.\<close>

definition wire :: "bool \<Rightarrow> nat \<Rightarrow> string \<Rightarrow> string option \<Rightarrow> bridge_state \<Rightarrow> bridge_state" where
  "wire emits i cid sid s = (if \<not> emits then s
     else s\<lparr>bs_wired := (bs_wired s)(i \<mapsto> (cid, sid)), bs_future := (bs_future s)(i \<mapsto> Pending), bs_waiting := insert i (bs_waiting s)\<rparr>)"

text \<open>\<open>_resolve_future\<close> on the drain thread, and the callback it queues.\<close>

definition resolve_future :: "nat \<Rightarrow> envelope \<Rightarrow> bridge_state \<Rightarrow> bridge_state" where
  "resolve_future i env s = (if bs_future s i = None \<or> \<not> bs_open s then s
     else s\<lparr>bs_calls := bs_calls s @ [(i, env)], bs_reported := bs_reported s @ [(i, env)]\<rparr>)"

definition run_callback :: "bridge_state \<Rightarrow> bridge_state" where
  "run_callback s = (case bs_calls s of [] \<Rightarrow> s
     | (i, env) # rest \<Rightarrow> s\<lparr>bs_calls := rest,
         bs_future := (if bs_future s i = Some Pending then (bs_future s)(i \<mapsto> Resolved env) else bs_future s)\<rparr>)"

text \<open>The future of a capture that overflowed the queue is cancelled, unless it is done.\<close>

definition cancel_future :: "nat \<Rightarrow> bridge_state \<Rightarrow> bridge_state" where
  "cancel_future i s = (if bs_future s i = Some Pending then s\<lparr>bs_future := (bs_future s)(i \<mapsto> Cancelled)\<rparr> else s)"

text \<open>The task: what it does when its future is done, and its cancellation at the end of the session.\<close>

definition wake :: "nat \<Rightarrow> bridge_state \<Rightarrow> bridge_state" where
  "wake i s = (if i \<notin> bs_waiting s then s else (case bs_future s i of
     Some (Resolved env) \<Rightarrow> s\<lparr>bs_waiting := bs_waiting s - {i},
       bs_out := bs_out s @ (case bs_wired s i of Some (cid, sid) \<Rightarrow> [(i, event_name env, bridged_payload cid sid env)] | None \<Rightarrow> [])\<rparr>
   | Some Cancelled \<Rightarrow> s\<lparr>bs_waiting := bs_waiting s - {i}\<rparr>
   | _ \<Rightarrow> s))"

definition cancel_task :: "nat \<Rightarrow> bridge_state \<Rightarrow> bridge_state" where
  "cancel_task i s = (if i \<notin> bs_waiting s then s else (cancel_future i s)\<lparr>bs_waiting := bs_waiting s - {i}\<rparr>)"

inductive bridge_step :: "bridge_state \<Rightarrow> bridge_state \<Rightarrow> bool" where
  wired: "bs_open s \<Longrightarrow> bs_future s i = None \<Longrightarrow> bridge_step s (wire emits i cid sid s)"
| resolved: "bridge_step s (resolve_future i env s)"
| callback: "bs_open s \<Longrightarrow> bridge_step s (run_callback s)"
| overflowed: "bs_open s \<Longrightarrow> bridge_step s (cancel_future i s)"
| woken: "bs_open s \<Longrightarrow> bridge_step s (wake i s)"
| cancelled: "bs_open s \<Longrightarrow> bridge_step s (cancel_task i s)"
| loop_closed: "bridge_step s (s\<lparr>bs_open := False\<rparr>)"

definition bridge_init :: bridge_state where
  "bridge_init = \<lparr>bs_wired = Map.empty, bs_future = Map.empty, bs_waiting = {}, bs_calls = [], bs_open = True, bs_out = [], bs_reported = []\<rparr>"

abbreviation bridge_reach :: "bridge_state \<Rightarrow> bool" where
  "bridge_reach \<equiv> reachable (\<lambda>s. s = bridge_init) bridge_step"

lemma bridge_next: "bridge_reach s \<Longrightarrow> bridge_step s s' \<Longrightarrow> bridge_reach s'"
  by (rule reachable.step)

lemma bridge_initial: "bridge_reach bridge_init"
  by (rule reachable.start) simp

section \<open>The invariant\<close>

text \<open>The first outcome reported for a job.\<close>

definition first_reported :: "nat \<Rightarrow> (nat \<times> envelope) list \<Rightarrow> envelope option" where
  "first_reported i rs = map_of rs i"

fun agrees :: "future option \<Rightarrow> envelope option \<Rightarrow> bool" where
  "agrees (Some Pending) r = (r = None)"
| "agrees (Some (Resolved env)) r = (r = Some env)"
| "agrees _ r = True"

text \<open>The callbacks that ran are the reports not queued any more, and each future shows the first of its own.\<close>

definition reports_ok :: "bridge_state \<Rightarrow> bool" where
  "reports_ok s \<longleftrightarrow> (\<exists>ran. bs_reported s = ran @ bs_calls s \<and> (\<forall>i. agrees (bs_future s i) (first_reported i ran)))"

definition domains_ok :: "bridge_state \<Rightarrow> bool" where
  "domains_ok s \<longleftrightarrow> fst ` set (bs_reported s) \<subseteq> dom (bs_future s) \<and> bs_waiting s \<subseteq> dom (bs_future s) \<and> dom (bs_wired s) = dom (bs_future s)"

definition handed :: "bridge_state \<Rightarrow> nat \<times> yaml \<times> envelope \<Rightarrow> bool" where
  "handed s x \<longleftrightarrow> (\<exists>cid sid env. bs_wired s (fst x) = Some (cid, sid) \<and> bs_future s (fst x) = Some (Resolved env)
     \<and> snd x = (event_name env, bridged_payload cid sid env))"

definition out_ok :: "bridge_state \<Rightarrow> bool" where
  "out_ok s \<longleftrightarrow> distinct (map fst (bs_out s)) \<and> bs_waiting s \<inter> fst ` set (bs_out s) = {} \<and> list_all (handed s) (bs_out s)"

definition keeps :: "bridge_state \<Rightarrow> bridge_state \<Rightarrow> bool" where
  "keeps s s' \<longleftrightarrow> (\<forall>i job env. bs_wired s i = Some job \<and> bs_future s i = Some (Resolved env)
     \<longrightarrow> bs_wired s' i = Some job \<and> bs_future s' i = Some (Resolved env))"

lemma first_reported_snoc: "first_reported i (xs @ [(x, e)])
    = (case first_reported i xs of Some r \<Rightarrow> Some r | None \<Rightarrow> if i = x then Some e else None)"
  by (simp add: first_reported_def map_add_def split: option.split)

lemma first_reported_append: "first_reported i xs = Some e \<Longrightarrow> first_reported i (xs @ ys) = Some e"
  by (simp add: first_reported_def map_add_def split: option.split)

lemma first_reported_None: "i \<notin> fst ` set rs \<Longrightarrow> first_reported i rs = None"
  by (simp add: first_reported_def map_of_eq_None_iff)

lemma handed_keeps: "keeps s s' \<Longrightarrow> handed s x \<Longrightarrow> handed s' x"
  by (auto simp: keeps_def handed_def)

lemma out_ok_keeps:
  assumes "out_ok s" "keeps s s'" "bs_out s' = bs_out s" "bs_waiting s' \<subseteq> bs_waiting s \<union> - fst ` set (bs_out s)"
  shows "out_ok s'"
proof -
  have "bs_waiting s \<inter> fst ` set (bs_out s) = {}" using assms(1) by (simp add: out_ok_def)
  then have "bs_waiting s' \<inter> fst ` set (bs_out s) = {}" using assms(4) by blast
  then show ?thesis using assms(1,3) handed_keeps [OF assms(2)] by (auto simp: out_ok_def list_all_iff)
qed

text \<open>Every step keeps what is resolved, as its future is done.\<close>

lemma step_keeps: "bridge_step s s' \<Longrightarrow> keeps s s'"
proof (induction rule: bridge_step.induct)
  case (callback s)
  then show ?case by (cases "bs_calls s") (auto simp: keeps_def run_callback_def)
qed (auto simp: keeps_def wire_def resolve_future_def cancel_future_def cancel_task_def wake_def split: option.splits future.splits)

lemma out_has_future: "out_ok s \<Longrightarrow> i \<in> fst ` set (bs_out s) \<Longrightarrow> bs_future s i \<noteq> None"
  by (auto simp: out_ok_def list_all_iff handed_def)

lemma wake_cases:
  obtains "wake i s = s" | "wake i s = s\<lparr>bs_waiting := bs_waiting s - {i}\<rparr>"
  | env where "i \<in> bs_waiting s" "bs_future s i = Some (Resolved env)" "wake i s = s\<lparr>bs_waiting := bs_waiting s - {i},
       bs_out := bs_out s @ (case bs_wired s i of Some (cid, sid) \<Rightarrow> [(i, event_name env, bridged_payload cid sid env)] | None \<Rightarrow> [])\<rparr>"
proof (cases "i \<in> bs_waiting s")
  case True
  show thesis
  proof (cases "bs_future s i")
    case (Some f)
    then show thesis using True that by (cases f) (simp_all add: wake_def)
  qed (use that(1) in \<open>simp add: wake_def\<close>)
qed (use that(1) in \<open>simp add: wake_def\<close>)

lemma step_out_ok:
  assumes "bridge_step s s'" "out_ok s" "domains_ok s"
  shows "out_ok s'"
  using assms(1)
proof cases
  case (wired i emits cid sid)
  then have "i \<notin> fst ` set (bs_out s)" using out_has_future [OF assms(2)] by blast
  then show ?thesis using wired by (intro out_ok_keeps [OF assms(2) step_keeps [OF assms(1)]]) (auto simp: wire_def)
next
  case callback
  then show ?thesis by (intro out_ok_keeps [OF assms(2) step_keeps [OF assms(1)]]) (auto simp: run_callback_def split: list.splits)
next
  case (woken i)
  show ?thesis
  proof (cases rule: wake_cases [of i s])
    case (3 env)
    then have "i \<in> dom (bs_wired s)" using assms(3) unfolding domains_ok_def by blast
    then obtain cid sid where "bs_wired s i = Some (cid, sid)" by auto
    moreover have "i \<notin> fst ` set (bs_out s)" using 3 assms(2) by (auto simp: out_ok_def)
    ultimately show ?thesis using 3 woken assms(2) by (auto simp: out_ok_def list_all_iff handed_def)
  qed (use woken assms(2) in \<open>auto simp: out_ok_def list_all_iff handed_def\<close>)
qed (intro out_ok_keeps [OF assms(2) step_keeps [OF assms(1)]];
  auto simp: resolve_future_def cancel_future_def cancel_task_def)+

lemma step_domains_ok: "bridge_step s s' \<Longrightarrow> domains_ok s \<Longrightarrow> domains_ok s'"
proof (induction rule: bridge_step.induct)
  case (woken s i)
  then show ?case by (cases rule: wake_cases [of i s]) (auto simp: domains_ok_def)
qed (auto simp: domains_ok_def wire_def resolve_future_def run_callback_def cancel_future_def cancel_task_def split: list.splits)

lemma reports_ok_same:
  "reports_ok s \<Longrightarrow> bs_reported s' = bs_reported s \<Longrightarrow> bs_calls s' = bs_calls s \<Longrightarrow> bs_future s' = bs_future s \<Longrightarrow> reports_ok s'"
  by (simp add: reports_ok_def)

lemma reports_ok_cancel: "reports_ok s \<Longrightarrow> reports_ok (cancel_future i s)"
  by (auto simp: reports_ok_def cancel_future_def)

lemma reports_ok_callback:
  assumes "reports_ok s"
  shows "reports_ok (run_callback s)"
proof (cases "bs_calls s")
  case (Cons c rest)
  obtain i env where c: "c = (i, env)" by (rule prod.exhaust)
  obtain ran where r: "bs_reported s = ran @ bs_calls s" "\<And>x. agrees (bs_future s x) (first_reported x ran)"
    using assms by (auto simp: reports_ok_def)
  have "agrees (if x = i \<and> bs_future s i = Some Pending then Some (Resolved env) else bs_future s x) (first_reported x (ran @ [(i, env)]))" for x
    using r(2) [of x] by (cases "bs_future s x" rule: agrees.cases [of "(_, None)", simplified]) (auto simp: first_reported_snoc)
  moreover have "bs_future (run_callback s) x = (if x = i \<and> bs_future s i = Some Pending then Some (Resolved env) else bs_future s x)" for x
    by (simp add: run_callback_def Cons c)
  ultimately have "\<forall>x. agrees (bs_future (run_callback s) x) (first_reported x (ran @ [(i, env)]))" by simp
  moreover have "bs_reported (run_callback s) = (ran @ [(i, env)]) @ bs_calls (run_callback s)"
    by (simp add: run_callback_def Cons c r(1))
  ultimately show ?thesis unfolding reports_ok_def by blast
qed (simp add: run_callback_def assms)

lemma step_reports_ok:
  assumes "bridge_step s s'" "reports_ok s" "domains_ok s"
  shows "reports_ok s'"
  using assms(1)
proof cases
  case (wired i emits cid sid)
  obtain ran where r: "bs_reported s = ran @ bs_calls s" "\<And>x. agrees (bs_future s x) (first_reported x ran)"
    using assms(2) by (auto simp: reports_ok_def)
  have "i \<notin> fst ` set ran" using r(1) wired assms(3) by (auto simp: domains_ok_def)
  then show ?thesis using r wired first_reported_None by (auto simp: reports_ok_def wire_def intro!: exI [of _ ran])
next
  case (resolved i env)
  then show ?thesis using assms(2) by (auto simp: reports_ok_def resolve_future_def)
next
  case callback
  then show ?thesis using reports_ok_callback [OF assms(2)] by simp
next
  case (overflowed i)
  then show ?thesis using reports_ok_cancel [OF assms(2)] by simp
next
  case (woken i)
  then show ?thesis by (cases rule: wake_cases [of i s]) (auto intro: reports_ok_same [OF assms(2)])
next
  case (cancelled i)
  then show ?thesis using reports_ok_same [OF reports_ok_cancel [OF assms(2)], of s' i] assms(2) by (auto simp: cancel_task_def)
next
  case loop_closed
  then show ?thesis by (intro reports_ok_same [OF assms(2)]) simp_all
qed

definition bridge_ok :: "bridge_state \<Rightarrow> bool" where
  "bridge_ok s \<longleftrightarrow> reports_ok s \<and> domains_ok s \<and> out_ok s"

interpretation bridges: step_invariant "\<lambda>s. s = bridge_init" bridge_step bridge_ok
proof
  fix s s'
  show "s = bridge_init \<Longrightarrow> bridge_ok s"
    by (simp add: bridge_ok_def reports_ok_def domains_ok_def out_ok_def bridge_init_def)
  assume "bridge_step s s'" "bridge_ok s"
  then show "bridge_ok s'" using step_reports_ok step_domains_ok step_out_ok unfolding bridge_ok_def by blast
qed

section \<open>Properties\<close>

text \<open>
  C30: the outcome of a job reaches the session at most once, and it is the first one.  However the drain thread, the
  loop, the tasks, the replays and the end of the session interleave, what is handed to the bridge for a wired job is
  handed over once, with the event and the fields of the first outcome the drain thread reported for it, and
  with the capture id and the session id it was wired with.  A capture queued again by a replay is another job, with a
  future of its own.
\<close>

theorem first_outcome_is_bridged_once:
  assumes "bridge_reach s"
  shows "distinct (map fst (bs_out s))
    \<and> list_all (\<lambda>(i, ev, pl). \<exists>cid sid env. bs_wired s i = Some (cid, sid) \<and> first_reported i (bs_reported s) = Some env
          \<and> ev = event_name env \<and> pl = bridged_payload cid sid env \<and> pl ''session_id'' = Some (opt_json sid)
          \<and> (env ''capture_id'' \<in> {None, Some (YStr cid)} \<longrightarrow> pl ''capture_id'' = Some (YStr cid)))
        (bs_out s)"
proof -
  note ok = bridges.inv_reachable [OF assms, unfolded bridge_ok_def]
  have first: "first_reported i (bs_reported s) = Some env" if "bs_future s i = Some (Resolved env)" for i env
  proof -
    obtain ran where "bs_reported s = ran @ bs_calls s" "agrees (bs_future s i) (first_reported i ran)"
      using ok by (auto simp: reports_ok_def)
    then show ?thesis using that by (simp add: first_reported_append)
  qed
  have payload: "bridged_payload cid sid env ''session_id'' = Some (opt_json sid)
      \<and> (env ''capture_id'' \<in> {None, Some (YStr cid)} \<longrightarrow> bridged_payload cid sid env ''capture_id'' = Some (YStr cid))" for cid sid env
    by (auto simp: bridged_payload_def Let_def)
  have "distinct (map fst (bs_out s))" "list_all (handed s) (bs_out s)" using ok by (simp_all add: out_ok_def)
  then show ?thesis using payload by (fastforce simp: list_all_iff handed_def dest!: bspec first)
qed

text \<open>A job wired, resolved, and its task run.\<close>

definition bridge_job :: "nat \<Rightarrow> string \<Rightarrow> string option \<Rightarrow> envelope \<Rightarrow> bridge_state \<Rightarrow> bridge_state" where
  "bridge_job i cid sid env s = wake i (run_callback (resolve_future i env (wire True i cid sid s)))"

lemma bridge_job_reach:
  assumes "bridge_reach s" "bs_open s" "bs_future s i = None"
  shows "bridge_reach (bridge_job i cid sid env s)"
proof -
  have "bridge_reach (wire True i cid sid s)" by (rule bridge_next [OF assms(1) bridge_step.wired [OF assms(2,3)]])
  then have "bridge_reach (resolve_future i env (wire True i cid sid s))" by (rule bridge_next [OF _ bridge_step.resolved])
  then have "bridge_reach (run_callback (resolve_future i env (wire True i cid sid s)))"
    by (rule bridge_next [OF _ bridge_step.callback]) (simp add: resolve_future_def wire_def assms(2))
  then show ?thesis unfolding bridge_job_def
    by (rule bridge_next [OF _ bridge_step.woken]) (simp add: run_callback_def resolve_future_def wire_def assms(2) split: list.split)
qed

lemma bridge_job_out:
  assumes "bs_calls s = []" "bs_open s" "bs_future s i = None"
  shows "bs_out (bridge_job i cid sid env s) = bs_out s @ [(i, event_name env, bridged_payload cid sid env)]"
    "bs_open (bridge_job i cid sid env s)" "bs_calls (bridge_job i cid sid env s) = []"
    "bs_future (bridge_job i cid sid env s) = (bs_future s)(i \<mapsto> Resolved env)"
  using assms by (simp_all add: bridge_job_def wake_def run_callback_def resolve_future_def wire_def)

definition demo_outcome :: envelope where "demo_outcome = [''event'' \<mapsto> YStr ''memory:drawer_filed'']"

lemma demo_bridged:
  "bridge_reach (bridge_job 0 ''c1'' (Some ''s1'') demo_outcome bridge_init)"
  "bs_out (bridge_job 0 ''c1'' (Some ''s1'') demo_outcome bridge_init)
    = [(0, YStr ''memory:drawer_filed'', bridged_payload ''c1'' (Some ''s1'') demo_outcome)]"
  by (rule bridge_job_reach [OF bridge_initial]) (simp_all add: bridge_job_out bridge_init_def event_name_def demo_outcome_def)

theorem first_outcome_is_bridged_once_witness:
  "\<exists>s. bridge_reach s \<and> map fst (bs_out s) = [0] \<and> distinct (map fst (bs_out s))"
proof (intro exI conjI)
  show "bridge_reach (bridge_job 0 ''c1'' (Some ''s1'') demo_outcome bridge_init)" by (rule demo_bridged(1))
  show "distinct (map fst (bs_out (bridge_job 0 ''c1'' (Some ''s1'') demo_outcome bridge_init)))"
    by (rule conjunct1 [OF first_outcome_is_bridged_once [OF demo_bridged(1)]])
  show "map fst (bs_out (bridge_job 0 ''c1'' (Some ''s1'') demo_outcome bridge_init)) = [0]"
    unfolding demo_bridged(2) by simp
qed

text \<open>
  a capture is bridged once for every job it was queued as: a replay at a second mount of the same process wires
  the capture that is still in the spool again, and the session hears of it twice.
\<close>

theorem replayed_capture_is_bridged_twice:
  "\<exists>s pl. bridge_reach s \<and> bs_out s = [(0, YStr ''memory:drawer_filed'', pl), (1, YStr ''memory:drawer_filed'', pl)]
    \<and> pl ''capture_id'' = Some (YStr ''c1'') \<and> pl ''session_id'' = Some (YStr ''s1'')"
proof -
  let ?s = "bridge_job 0 ''c1'' (Some ''s1'') demo_outcome bridge_init"
  let ?pl = "bridged_payload ''c1'' (Some ''s1'') demo_outcome"
  have s: "bs_open ?s" "bs_calls ?s = []" "bs_future ?s 1 = None"
    by (simp_all add: bridge_job_out bridge_init_def)
  have "bs_out (bridge_job 1 ''c1'' (Some ''s1'') demo_outcome ?s) = [(0, YStr ''memory:drawer_filed'', ?pl), (1, YStr ''memory:drawer_filed'', ?pl)]"
    unfolding bridge_job_out(1) [OF s(2,1,3)] demo_bridged(2) by (simp add: event_name_def demo_outcome_def)
  moreover have "?pl ''capture_id'' = Some (YStr ''c1'')" "?pl ''session_id'' = Some (YStr ''s1'')"
    by (simp_all add: bridged_payload_def Let_def demo_outcome_def opt_json_def)
  ultimately show ?thesis using bridge_job_reach [OF demo_bridged(1) s(1,3)] by blast
qed

end
