(* ===== verification/Mount.thy ===== *)
theory Mount
  imports Briefing Bridge
begin

text \<open>
  How the modules hook into a session: the \<open>mount\<close> function of each module, the hook registry they
  register with (the stand-in for the kernel's registry in \<open>scripts/bench_startup.py\<close>, which states
  its order: lower priority first, stable), the dispatch of an event to the handlers, and the
  benchmark's session on top of them.
\<close>

section \<open>The registry\<close>

datatype handler =
    Brief_Start | Brief_Deliver | Interject_Listener | Interject_On trigger
  | Capture_Post | Project_Start | Project_End | Behavioral_Learn

record entry =
  e_handler :: handler
  e_name :: string
  e_priority :: int

type_synonym hooks = "string \<Rightarrow> entry list"

definition hook_entry :: "handler \<Rightarrow> string \<Rightarrow> int \<Rightarrow> entry" where
  "hook_entry h n p = \<lparr>e_handler = h, e_name = n, e_priority = p\<rparr>"

definition register :: "string \<Rightarrow> entry \<Rightarrow> hooks \<Rightarrow> hooks" where
  "register ev e hs = hs(ev := sort_key e_priority (hs ev @ [e]))"

text \<open>The coordinator: the hooks, what observability was told, and the named slots.\<close>

record coordinator =
  co_hooks :: hooks
  co_events :: "(string \<times> string list) list"
  co_slots :: "(string \<times> string) list"

definition coordinator_init :: coordinator where
  "coordinator_init = \<lparr>co_hooks = (\<lambda>ev. []), co_events = [], co_slots = []\<rparr>"

section \<open>The mount functions\<close>

definition DEFAULT_PRIORITY :: int where "DEFAULT_PRIORITY = 0"

definition DELIVER_PRIORITY :: int where "DELIVER_PRIORITY = 10"

definition INTERJECT_PRIORITY :: int where "INTERJECT_PRIORITY = 20"

fun trigger_event :: "trigger \<Rightarrow> string" where
  "trigger_event Prompt_Submit = ''prompt:submit''"
| "trigger_event Tool_Pre = ''tool:pre''"
| "trigger_event Orchestrator_Complete = ''orchestrator:complete''"

fun trigger_name :: "trigger \<Rightarrow> string" where
  "trigger_name Prompt_Submit = ''memory-interject-prompt''"
| "trigger_name Tool_Pre = ''memory-interject-tool-pre''"
| "trigger_name Orchestrator_Complete = ''memory-interject-orc-complete''"

definition add_hooks :: "(string \<times> entry) list \<Rightarrow> coordinator \<Rightarrow> coordinator" where
  "add_hooks regs co = co\<lparr>co_hooks := fold (\<lambda>(ev, e). register ev e) regs (co_hooks co)\<rparr>"

definition contribute :: "(string \<Rightarrow> py_error + unit) \<Rightarrow> string \<Rightarrow> string list \<Rightarrow> coordinator \<Rightarrow> coordinator" where
  "contribute reg contributor evs co = co\<lparr>co_events := register_events (reg contributor) contributor evs (co_events co)\<rparr>"

definition briefing_hooks :: "(string \<times> entry) list" where
  "briefing_hooks = (''session:start'', hook_entry Brief_Start ''hooks-memory-briefing'' DEFAULT_PRIORITY)
     # map (\<lambda>ev. (ev, hook_entry Brief_Deliver ''hooks-memory-briefing-deliver'' DELIVER_PRIORITY)) [''prompt:submit'', ''provider:request'']"

definition mount_briefing_module :: "(string \<Rightarrow> py_error + unit) \<Rightarrow> coordinator \<Rightarrow> coordinator" where
  "mount_briefing_module reg co = add_hooks briefing_hooks
     (contribute reg ''memory-briefing'' [''memory:briefing_assembled'', ''memory:briefing_skipped''] co)"

definition interject_hooks :: "interject_hook \<Rightarrow> (string \<times> entry) list" where
  "interject_hooks h = (''memory:briefing_assembled'', hook_entry Interject_Listener ''interject-briefing-listener'' DEFAULT_PRIORITY)
     # map (\<lambda>t. (trigger_event t, hook_entry (Interject_On t) (trigger_name t) INTERJECT_PRIORITY))
         (filter (registered h) [Prompt_Submit, Tool_Pre, Orchestrator_Complete])"

definition mount_interject_module :: "interject_hook \<Rightarrow> (string \<Rightarrow> py_error + unit) \<Rightarrow> coordinator \<Rightarrow> coordinator" where
  "mount_interject_module h reg co = add_hooks (interject_hooks h)
     (contribute reg ''memory-interject'' [''memory:memory_surfaced'', ''memory:interject_skipped''] co)"

definition capture_hooks :: "(string \<times> entry) list" where
  "capture_hooks = [(''tool:post'', hook_entry Capture_Post ''hooks-memory-capture'' DEFAULT_PRIORITY)]"

definition mount_capture_module :: "(string \<Rightarrow> py_error + unit) \<Rightarrow> coordinator \<Rightarrow> coordinator" where
  "mount_capture_module reg co = add_hooks capture_hooks
     (contribute reg ''memory-capture'' [''memory:drawer_filed'', ''memory:capture_failed'', ''memory:capture_skipped''] co)"

definition project_hooks :: "(string \<times> entry) list" where
  "project_hooks = [(''session:start'', hook_entry Project_Start ''hooks-project-context-start'' DEFAULT_PRIORITY),
     (''session:end'', hook_entry Project_End ''hooks-project-context-end'' DEFAULT_PRIORITY)]"

definition mount_project_module :: "(string \<Rightarrow> py_error + unit) \<Rightarrow> coordinator \<Rightarrow> coordinator" where
  "mount_project_module reg co = add_hooks project_hooks (contribute reg ''memory-project-context''
     [''memory:coordination_read'', ''memory:coordination_scaffolded'', ''memory:curator_handoff_requested''] co)"

definition behavioral_hooks :: "(string \<times> entry) list" where
  "behavioral_hooks = [(''orchestrator:complete'', hook_entry Behavioral_Learn ''hooks-behavioral-write'' DEFAULT_PRIORITY)]"

definition mount_tool_module :: "(string \<Rightarrow> py_error + unit) \<Rightarrow> coordinator \<Rightarrow> coordinator" where
  "mount_tool_module reg co = (let co1 = contribute reg ''memory-tool'' [''memory:garden_completed'', ''memory:garden_progress''] co
     in co1\<lparr>co_slots := co_slots co1 @ [(''tools'', ''memory'')]\<rparr>)"

definition mount_sleep_module :: "coordinator \<Rightarrow> coordinator" where
  "mount_sleep_module co = co\<lparr>co_slots := co_slots co @ [(''session'', ''context'')]\<rparr>"

datatype bundle_module =
    Briefing_Module | Interject_Module | Capture_Module | Project_Module | Behavioral_Module | Tool_Module | Sleep_Module

fun mount_module :: "interject_hook \<Rightarrow> (string \<Rightarrow> py_error + unit) \<Rightarrow> bundle_module \<Rightarrow> coordinator \<Rightarrow> coordinator" where
  "mount_module h reg Briefing_Module = mount_briefing_module reg"
| "mount_module h reg Interject_Module = mount_interject_module h reg"
| "mount_module h reg Capture_Module = mount_capture_module reg"
| "mount_module h reg Project_Module = mount_project_module reg"
| "mount_module h reg Behavioral_Module = add_hooks behavioral_hooks"
| "mount_module h reg Tool_Module = mount_tool_module reg"
| "mount_module h reg Sleep_Module = mount_sleep_module"

definition mount_all :: "interject_hook \<Rightarrow> (string \<Rightarrow> py_error + unit) \<Rightarrow> bundle_module list \<Rightarrow> coordinator" where
  "mount_all h reg ms = fold (mount_module h reg) ms coordinator_init"

section \<open>Dispatch\<close>

text \<open>
  The state of a session's hooks: the briefing's, the interjection's, and that of the other modules,
  whose handlers are a parameter here as they share no state with the two.
\<close>

record 'o session =
  ss_brief :: "brief_hook \<times> process"
  ss_interject :: interject_state
  ss_others :: 'o

type_synonym 'o others = "handler \<Rightarrow> 'o \<Rightarrow> (py_error + hook_result) \<times> 'o"

text \<open>What an event brings to the handlers that read it.\<close>

record occurrence =
  oc_name :: string
  oc_env :: brief_env
  oc_sub :: bool
  oc_iteration :: "nat option"
  oc_landed :: "job option"
  oc_interject :: interject_event

definition deliver_event_of :: "occurrence \<Rightarrow> deliver_event" where
  "deliver_event_of oc = (if oc_name oc = ''prompt:submit'' then Prompt else Provider_Request (oc_iteration oc))"

text \<open>\<open>emit\<close>: the handlers in order, until one raises.\<close>

fun emit_to :: "(handler \<Rightarrow> 's \<Rightarrow> (py_error + hook_result) \<times> 's) \<Rightarrow> entry list \<Rightarrow> 's \<Rightarrow> (py_error + hook_result list) \<times> 's" where
  "emit_to run_one [] s = (Inr [], s)"
| "emit_to run_one (e # es) s = (case run_one (e_handler e) s of
     (Inl err, s1) \<Rightarrow> (Inl err, s1)
   | (Inr r, s1) \<Rightarrow> (case emit_to run_one es s1 of (Inl err, s2) \<Rightarrow> (Inl err, s2) | (Inr rs, s2) \<Rightarrow> (Inr (r # rs), s2)))"

definition run_other :: "'o others \<Rightarrow> handler \<Rightarrow> 'o session \<Rightarrow> (py_error + hook_result) \<times> 'o session" where
  "run_other other x s = (case other x (ss_others s) of (r, o') \<Rightarrow> (r, s\<lparr>ss_others := o'\<rparr>))"

definition run_listener :: "'o others \<Rightarrow> string list \<Rightarrow> handler \<Rightarrow> 'o session \<Rightarrow> (py_error + hook_result) \<times> 'o session" where
  "run_listener other ids x s = (case x of
     Interject_Listener \<Rightarrow> (Inr Continue, s\<lparr>ss_interject := on_briefing_assembled ids (ss_interject s)\<rparr>)
   | _ \<Rightarrow> run_other other x s)"

text \<open>The briefing's event on the bus while its handler runs; the bridge swallows what is raised there.\<close>

definition bridge_briefed :: "hooks \<Rightarrow> 'o others \<Rightarrow> brief_emit \<Rightarrow> 'o session \<Rightarrow> 'o session" where
  "bridge_briefed hs other e s = (case e of
     Briefing_Assembled n k ids \<Rightarrow> snd (emit_to (run_listener other ids) (hs ''memory:briefing_assembled'') s)
   | Briefing_Skipped reason \<Rightarrow> (if reason = ''prefetch_failed'' then s
       else snd (emit_to (run_listener other []) (hs ''memory:briefing_skipped'') s))
   | Briefing_Deferred ev \<Rightarrow> s)"

definition run_handler :: "brief_config \<Rightarrow> (string \<Rightarrow> string) \<Rightarrow> interject_hook \<Rightarrow> hooks \<Rightarrow> 'o others \<Rightarrow> occurrence
    \<Rightarrow> handler \<Rightarrow> 'o session \<Rightarrow> (py_error + hook_result) \<times> 'o session" where
  "run_handler cfg sha1 h hs other oc x s = (case x of
     Brief_Start \<Rightarrow> (Inr Continue, s\<lparr>ss_brief := on_session_start cfg (oc_env oc) (oc_sub oc) (ss_brief s)\<rparr>)
   | Brief_Deliver \<Rightarrow> (case on_deliver cfg (oc_env oc) (deliver_event_of oc) (oc_landed oc) (ss_brief s) of
       ((es, r), hp) \<Rightarrow> (r, fold (bridge_briefed hs other) es (s\<lparr>ss_brief := hp\<rparr>)))
   | Interject_On t \<Rightarrow> (case handle t sha1 h (oc_interject oc) (ss_interject s) of
       (r, s') \<Rightarrow> (map_sum id hook_result_of r, s\<lparr>ss_interject := s'\<rparr>))
   | _ \<Rightarrow> run_other other x s)"

definition emit :: "brief_config \<Rightarrow> (string \<Rightarrow> string) \<Rightarrow> interject_hook \<Rightarrow> coordinator \<Rightarrow> 'o others \<Rightarrow> occurrence
    \<Rightarrow> 'o session \<Rightarrow> (py_error + hook_result list) \<times> 'o session" where
  "emit cfg sha1 h co other oc s = emit_to (run_handler cfg sha1 h (co_hooks co) other oc) (co_hooks co (oc_name oc)) s"

section \<open>The benchmark's session\<close>

definition injections_in :: "hook_result list \<Rightarrow> ustr list" where
  "injections_in rs = concat (map (\<lambda>r. case r of Inject_Context t \<Rightarrow> (if t = [] then [] else [t]) | Continue \<Rightarrow> []) rs)"

text \<open>
  The start, the prompt, and the provider request that follows it: what each of them injected.  The benchmark counts as
  delivered what the prompt injected, or else what the request injected.
\<close>

definition one_session :: "brief_config \<Rightarrow> (string \<Rightarrow> string) \<Rightarrow> interject_hook \<Rightarrow> coordinator \<Rightarrow> 'o others
    \<Rightarrow> occurrence \<Rightarrow> 'o session \<Rightarrow> (py_error + ustr list \<times> ustr list \<times> ustr list) \<times> 'o session" where
  "one_session cfg sha1 h co other oc s = (
     case emit cfg sha1 h co other (oc\<lparr>oc_name := ''session:start''\<rparr>) s of
       (Inl err, s1) \<Rightarrow> (Inl err, s1)
     | (Inr rs1, s1) \<Rightarrow> (case emit cfg sha1 h co other (oc\<lparr>oc_name := ''prompt:submit''\<rparr>) s1 of
         (Inl err, s2) \<Rightarrow> (Inl err, s2)
       | (Inr rs2, s2) \<Rightarrow> (case emit cfg sha1 h co other (oc\<lparr>oc_name := ''provider:request''\<rparr>) s2 of
           (Inl err, s3) \<Rightarrow> (Inl err, s3)
         | (Inr rs3, s3) \<Rightarrow> (Inr (injections_in rs1, injections_in rs2, injections_in rs3), s3))))"

fun delivered :: "ustr list \<times> ustr list \<times> ustr list \<Rightarrow> ustr list" where
  "delivered (start, submit, request) = (if submit \<noteq> [] then submit else request)"

section \<open>The order of the handlers\<close>

lemma sort_key_snoc: "sort_key f (sort_key f xs @ ys) = sort_key f (xs @ ys)"
proof (rule properties_for_sort_key)
  show "mset (sort_key f (xs @ ys)) = mset (sort_key f xs @ ys)" by simp
  show "sorted (map f (sort_key f (xs @ ys)))" by simp
  fix k
  show "filter (\<lambda>x. f k = f x) (sort_key f (xs @ ys)) = filter (\<lambda>x. f k = f x) (sort_key f xs @ ys)"
    using sort_key_stable [of f "f k"] by (simp add: eq_commute [of "f k"])
qed

definition regs_at :: "string \<Rightarrow> (string \<times> entry) list \<Rightarrow> entry list" where
  "regs_at ev regs = map snd (filter (\<lambda>r. fst r = ev) regs)"

lemma fold_register:
  "hs ev = sort_key e_priority xs \<Longrightarrow> fold (\<lambda>(ev, e). register ev e) regs hs ev = sort_key e_priority (xs @ regs_at ev regs)"
proof (induction regs arbitrary: hs xs)
  case (Cons r regs)
  have "register (fst r) (snd r) hs ev = sort_key e_priority (xs @ regs_at ev [r])"
    using Cons.prems by (auto simp: register_def regs_at_def sort_key_snoc)
  then show ?case using Cons.IH [of "register (fst r) (snd r) hs"] by (simp add: regs_at_def case_prod_beta)
qed (simp add: regs_at_def)

fun hooks_of :: "interject_hook \<Rightarrow> bundle_module \<Rightarrow> (string \<times> entry) list" where
  "hooks_of h Briefing_Module = briefing_hooks"
| "hooks_of h Interject_Module = interject_hooks h"
| "hooks_of h Capture_Module = capture_hooks"
| "hooks_of h Project_Module = project_hooks"
| "hooks_of h Behavioral_Module = behavioral_hooks"
| "hooks_of h Tool_Module = []"
| "hooks_of h Sleep_Module = []"

lemma mount_module_hooks:
  "co_hooks (mount_module h reg m co) = fold (\<lambda>(ev, e). register ev e) (hooks_of h m) (co_hooks co)"
  by (cases m) (simp_all add: mount_briefing_module_def mount_interject_module_def mount_capture_module_def
    mount_project_module_def mount_tool_module_def mount_sleep_module_def add_hooks_def contribute_def Let_def)

text \<open>The handlers of an event are the registrations in mount order, stably sorted by priority.\<close>

lemma mounted_hooks:
  "co_hooks (mount_all h reg ms) ev = sort_key e_priority (concat (map (regs_at ev \<circ> hooks_of h) ms))"
proof -
  have "co_hooks (fold (mount_module h reg) ms co) ev = sort_key e_priority (xs @ concat (map (regs_at ev \<circ> hooks_of h) ms))"
    if "co_hooks co ev = sort_key e_priority xs" for co xs
    using that
  proof (induction ms arbitrary: co xs)
    case (Cons m ms)
    have "co_hooks (mount_module h reg m co) ev = sort_key e_priority (xs @ regs_at ev (hooks_of h m))"
      using fold_register [where hs = "co_hooks co" and xs = xs and ev = ev, OF Cons.prems] by (simp add: mount_module_hooks)
    then show ?case using Cons.IH by simp
  qed simp
  from this [of coordinator_init "[]"] show ?thesis by (simp add: mount_all_def coordinator_init_def)
qed

lemma two_elements: "distinct xs \<Longrightarrow> set xs = {a, b} \<Longrightarrow> a \<noteq> b \<Longrightarrow> xs = [a, b] \<or> xs = [b, a]"
proof -
  assume xs: "distinct xs" "set xs = {a, b}" "a \<noteq> b"
  then have "length xs = 2" using distinct_card [OF xs(1)] by simp
  then obtain x y where "xs = [x, y]" by (auto simp: numeral_2_eq_2 length_Suc_conv)
  then show ?thesis using xs by (auto simp: doubleton_eq_iff)
qed

lemma concat_map_filter: "(\<And>m. m \<in> set ms \<Longrightarrow> \<not> P m \<Longrightarrow> f m = []) \<Longrightarrow> concat (map f ms) = concat (map f (filter P ms))"
  by (induction ms) auto

lemma hooks_from_two:
  assumes "distinct ms" "a \<in> set ms" "b \<in> set ms" "a \<noteq> b" "\<And>m. m \<noteq> a \<Longrightarrow> m \<noteq> b \<Longrightarrow> regs_at ev (hooks_of h m) = []"
  shows "co_hooks (mount_all h reg ms) ev \<in> {sort_key e_priority (regs_at ev (hooks_of h a) @ regs_at ev (hooks_of h b)),
     sort_key e_priority (regs_at ev (hooks_of h b) @ regs_at ev (hooks_of h a))}"
proof -
  let ?P = "\<lambda>m. m = a \<or> m = b"
  have "set (filter ?P ms) = {a, b}" "distinct (filter ?P ms)" using assms(1-3) by auto
  then have "filter ?P ms = [a, b] \<or> filter ?P ms = [b, a]" by (intro two_elements) (use assms(4) in auto)
  moreover have "concat (map (regs_at ev \<circ> hooks_of h) ms) = concat (map (regs_at ev \<circ> hooks_of h) (filter ?P ms))"
    by (rule concat_map_filter) (use assms(5) in auto)
  ultimately show ?thesis by (auto simp: mounted_hooks)
qed

lemmas hook_lists = regs_at_def briefing_hooks_def interject_hooks_def capture_hooks_def project_hooks_def behavioral_hooks_def
  hook_entry_def DELIVER_PRIORITY_def INTERJECT_PRIORITY_def DEFAULT_PRIORITY_def

definition deliver_entry :: entry where
  "deliver_entry = hook_entry Brief_Deliver ''hooks-memory-briefing-deliver'' DELIVER_PRIORITY"

definition prompt_entries :: "interject_hook \<Rightarrow> entry list" where
  "prompt_entries h = (if prompt_enabled h then [hook_entry (Interject_On Prompt_Submit) ''memory-interject-prompt'' INTERJECT_PRIORITY] else [])"

lemma prompt_hooks:
  assumes "distinct ms" "Briefing_Module \<in> set ms" "Interject_Module \<in> set ms"
  shows "co_hooks (mount_all h reg ms) ''prompt:submit'' = deliver_entry # prompt_entries h"
proof -
  have none: "regs_at ''prompt:submit'' (hooks_of h m) = []" if "m \<noteq> Briefing_Module" "m \<noteq> Interject_Module" for m
    using that by (cases m) (simp_all add: hook_lists)
  have "regs_at ''prompt:submit'' (hooks_of h Briefing_Module) = [deliver_entry]"
    "regs_at ''prompt:submit'' (hooks_of h Interject_Module) = prompt_entries h"
    by (simp_all add: hook_lists deliver_entry_def prompt_entries_def)
  then show ?thesis
    using hooks_from_two [of ms Briefing_Module Interject_Module "''prompt:submit''" h reg, OF assms _ none]
    by (auto simp: prompt_entries_def deliver_entry_def hook_lists)
qed

lemma listener_hooks:
  assumes "distinct ms" "Briefing_Module \<in> set ms" "Interject_Module \<in> set ms"
  shows "map e_handler (co_hooks (mount_all h reg ms) ''memory:briefing_assembled'') = [Interject_Listener]"
proof -
  have none: "regs_at ''memory:briefing_assembled'' (hooks_of h m) = []" if "m \<noteq> Briefing_Module" "m \<noteq> Interject_Module" for m
    using that by (cases m) (simp_all add: hook_lists)
  have "trigger_event t \<noteq> ''memory:briefing_assembled''" for t by (cases t) simp_all
  then have "regs_at ''memory:briefing_assembled'' (hooks_of h Interject_Module)
      = [hook_entry Interject_Listener ''interject-briefing-listener'' DEFAULT_PRIORITY]"
    "regs_at ''memory:briefing_assembled'' (hooks_of h Briefing_Module) = []"
    by (simp_all add: hook_lists)
  then show ?thesis
    using hooks_from_two [of ms Briefing_Module Interject_Module "''memory:briefing_assembled''" h reg, OF assms _ none]
    by (auto simp: hook_lists)
qed

section \<open>The briefing and the interjection on one prompt\<close>

lemma interject_prompt_cases:
  assumes "run_handler cfg sha1 h hs other oc (Interject_On Prompt_Submit) s = (r, s')"
  shows "ss_interject s' = snd (on_prompt_submit sha1 h (oc_interject oc) (ss_interject s))" "ss_brief s' = ss_brief s"
  using assms by (auto simp: run_handler_def split: prod.splits)

lemma prompt_keeps_briefed:
  assumes "i \<in> briefed_ids s"
  shows "last_injected (snd (on_prompt_submit sha1 h e s)) i = last_injected s i"
    and "briefed_ids s \<subseteq> briefed_ids (snd (on_prompt_submit sha1 h e s))"
proof -
  obtain r s' where st: "on_prompt_submit sha1 h e s = (r, s')" by (rule prod.exhaust)
  have "step_ok h s r s'" by (rule prompt_ok [OF st])
  then show "last_injected (snd (on_prompt_submit sha1 h e s)) i = last_injected s i"
      "briefed_ids s \<subseteq> briefed_ids (snd (on_prompt_submit sha1 h e s))"
    using assms by (auto simp: st step_ok_def injects_def quiet_def)
qed

text \<open>What a handler on the bus may do to the interjection's state while the briefing runs.\<close>

definition briefs :: "'o session \<Rightarrow> 'o session \<Rightarrow> bool" where
  "briefs s s' \<longleftrightarrow> last_injected (ss_interject s') = last_injected (ss_interject s)
     \<and> briefed_ids (ss_interject s) \<subseteq> briefed_ids (ss_interject s') \<and> ss_brief s' = ss_brief s"

lemma briefs_refl [simp]: "briefs s s"
  by (simp add: briefs_def)

lemma briefs_trans: "briefs s s' \<Longrightarrow> briefs s' s'' \<Longrightarrow> briefs s s''"
  by (auto simp: briefs_def)

lemma run_listener_briefs: "run_listener other ids x s = (r, s') \<Longrightarrow> briefs s s'"
  by (auto simp: run_listener_def run_other_def briefs_def on_briefing_assembled_def split: handler.splits prod.splits)

lemma emit_listeners_briefs: "emit_to (run_listener other ids) es s = (r, s') \<Longrightarrow> briefs s s'"
proof (induction es arbitrary: s r)
  case (Cons e es)
  obtain r1 s1 where st: "run_listener other ids (e_handler e) s = (r1, s1)" by (rule prod.exhaust)
  show ?case using Cons.prems Cons.IH [of s1] run_listener_briefs [OF st]
    by (auto simp: st split: sum.splits prod.splits intro: briefs_trans)
qed simp

lemma bridge_briefed_briefs: "briefs s (bridge_briefed hs other e s)"
  by (cases e) (auto simp: bridge_briefed_def intro: emit_listeners_briefs [OF prod.collapse [symmetric]])

lemma fold_bridge_briefs: "briefs s (fold (bridge_briefed hs other) es s)"
  by (induction es arbitrary: s) (auto intro: briefs_trans bridge_briefed_briefs)

lemma bridged_ids_are_briefed:
  assumes "map e_handler (hs ''memory:briefing_assembled'') = [Interject_Listener]"
    and "Briefing_Assembled n k ids \<in> set es" "i \<in> set ids" "i \<noteq> []"
  shows "i \<in> briefed_ids (ss_interject (fold (bridge_briefed hs other) es s))"
proof -
  obtain es1 es2 where es: "es = es1 @ Briefing_Assembled n k ids # es2" using assms(2) by (meson split_list)
  define s1 where "s1 = fold (bridge_briefed hs other) es1 s"
  obtain x where "hs ''memory:briefing_assembled'' = [x]" "e_handler x = Interject_Listener" using assms(1) by auto
  then have "i \<in> briefed_ids (ss_interject (bridge_briefed hs other (Briefing_Assembled n k ids) s1))"
    using assms(3,4) by (simp add: bridge_briefed_def run_listener_def on_briefing_assembled_def)
  then show ?thesis using fold_bridge_briefs [of "bridge_briefed hs other (Briefing_Assembled n k ids) s1" hs other es2]
    by (auto simp: es briefs_def simp flip: s1_def)
qed

text \<open>
  C15: in whatever order the modules are mounted, the briefing reaches the model before the interjection looks.
  On a prompt the delivery runs first, and what it announces as shown is not injected by the interjection
  on that same prompt, nor by any event after it.
\<close>

theorem briefing_precedes_interjection:
  assumes "distinct ms" "Briefing_Module \<in> set ms" "Interject_Module \<in> set ms" and "oc_name oc = ''prompt:submit''"
    and "on_deliver cfg (oc_env oc) Prompt (oc_landed oc) (ss_brief s) = ((es, r), hp)"
    and "Briefing_Assembled n k ids \<in> set es" "i \<in> set ids" "i \<noteq> []"
    and "emit cfg sha1 h (mount_all h reg ms) other oc s = (res, s')"
  shows "map e_handler (co_hooks (mount_all h reg ms) ''prompt:submit'') = Brief_Deliver # (if prompt_enabled h then [Interject_On Prompt_Submit] else [])
    \<and> last_injected (ss_interject s') i = last_injected (ss_interject s) i
    \<and> i \<notin> (\<Union>(t, inj) \<in> set (injections sha1 h evs (ss_interject s')). set inj)"
proof -
  let ?hs = "co_hooks (mount_all h reg ms)"
  define s1 where "s1 = fold (bridge_briefed ?hs other) es (s\<lparr>ss_brief := hp\<rparr>)"
  note hooks = prompt_hooks [OF assms(1-3), of h reg]
  have i: "i \<in> briefed_ids (ss_interject s1)"
    unfolding s1_def by (rule bridged_ids_are_briefed [where n = n and k = k and ids = ids]) (use assms(6-8) listener_hooks [OF assms(1-3)] in simp_all)
  have l: "last_injected (ss_interject s1) = last_injected (ss_interject s)"
    using fold_bridge_briefs [of "s\<lparr>ss_brief := hp\<rparr>" ?hs other es] by (simp add: s1_def briefs_def)
  have first: "run_handler cfg sha1 h ?hs other oc Brief_Deliver s = (r, s1)"
    using assms(4,5) by (simp add: run_handler_def deliver_event_of_def s1_def)
  let ?s2 = "snd (on_prompt_submit sha1 h (oc_interject oc) (ss_interject s1))"
  have "ss_interject s' = ss_interject s1 \<or> ss_interject s' = ?s2"
    using assms(4,9) first by (auto simp: emit_def hooks deliver_entry_def prompt_entries_def hook_entry_def
      split: sum.splits prod.splits if_splits dest: interject_prompt_cases(1))
  then have "last_injected (ss_interject s') i = last_injected (ss_interject s) i \<and> i \<in> briefed_ids (ss_interject s')"
    using prompt_keeps_briefed [OF i, of sha1 h "oc_interject oc"] i l by auto
  moreover have "map e_handler (?hs ''prompt:submit'') = Brief_Deliver # (if prompt_enabled h then [Interject_On Prompt_Submit] else [])"
    by (simp add: hooks deliver_entry_def prompt_entries_def hook_entry_def)
  ultimately show ?thesis using injections_later [of _ _ sha1 h evs] by fastforce
qed

text \<open>The demonstration session, its interjection mounted before the briefing.\<close>

definition demo_others :: "unit others" where
  "demo_others = (\<lambda>x u. (Inr Continue, u))"

definition demo_occurrence :: occurrence where
  "demo_occurrence = \<lparr>oc_name = ''prompt:submit'', oc_env = demo_env [], oc_sub = False, oc_iteration = None,
     oc_landed = Some (Fetched demo_prefetch), oc_interject = demo_event\<lparr>ie_opt_out := True\<rparr>\<rparr>"

definition demo_session :: "brief_hook \<Rightarrow> unit session" where
  "demo_session bh = \<lparr>ss_brief = (bh, demo_process), ss_interject = interject_init, ss_others = ()\<rparr>"

definition demo_bundle :: "bundle_module list" where
  "demo_bundle = [Interject_Module, Project_Module, Briefing_Module, Capture_Module]"

lemma ready_delivery:
  assumes "bf_armed bh" "\<not> bf_delivered bh" "\<not> bf_deferred bh" "bf_future bh = Some j" "j < length (jobs p)"
    and "jobs p ! j = Fetched pre \<or> jobs p ! j = Running \<and> landed = Some (Fetched pre) \<and> 0 < deliver_wait_s cfg"
    and "pf_ok pre" "pf_part pre = Some part" "assemble_briefing cfg (be_dirs env) (pf_project pre) part = Inr b" "b_sections b \<noteq> []"
  obtains p2 where "on_deliver cfg env Prompt landed (bh, p)
    = ((emits cfg (Briefing_Assembled (length (b_sections b)) (b_tokens b) (map r_id (b_reranked b))), Inr (Inject_Context (b_text b))),
       bh\<lparr>bf_delivered := True\<rparr>, p2)" "b_text b \<noteq> []"
proof -
  have t: "b_text b \<noteq> []"
    using assms(9,10) by (auto simp: assemble_briefing_def bind_err_Inr Let_def cps_def split: if_splits)
  then have "hand_out cfg (be_dirs env) (Fetched pre)
      = (emits cfg (Briefing_Assembled (length (b_sections b)) (b_tokens b) (map r_id (b_reranked b))), Inr (Inject_Context (b_text b)))"
    using assms(7-9) by (simp add: hand_out_def briefing_result_def)
  moreover have "prefetch_now cfg env (bh, p) = (bh, p)" using assms(4) by (simp add: prefetch_now_def)
  ultimately have "\<exists>p2. on_deliver cfg env Prompt landed (bh, p)
    = ((emits cfg (Briefing_Assembled (length (b_sections b)) (b_tokens b) (map r_id (b_reranked b))), Inr (Inject_Context (b_text b))),
       bh\<lparr>bf_delivered := True\<rparr>, p2)"
    using assms(1-6) by (auto simp: on_deliver_def Let_def split: option.split)
  then show thesis using that t by blast
qed

lemma demo_delivery:
  obtains n k ids t hp where "on_deliver demo_config (oc_env demo_occurrence) Prompt (oc_landed demo_occurrence) (ss_brief (demo_session demo_armed))
    = (([Briefing_Assembled n k ids], Inr (Inject_Context t)), hp)" "''b'' \<in> set ids"
proof -
  obtain b where b: "assemble_briefing demo_config [] ''repo'' demo_part = Inr b" "b_sections b = [demo_section]" "b_reranked b = [demo_drawer]"
    using demo_assembled [of True] by (auto simp: demo_config_emits)
  have job: "bf_armed demo_armed" "\<not> bf_delivered demo_armed" "\<not> bf_deferred demo_armed" "bf_future demo_armed = Some 0" "0 < length (jobs demo_process)"
    "jobs demo_process ! 0 = Fetched demo_prefetch \<or> jobs demo_process ! 0 = Running \<and> Some (Fetched demo_prefetch) = Some (Fetched demo_prefetch) \<and> 0 < deliver_wait_s demo_config"
    "pf_ok demo_prefetch" "pf_part demo_prefetch = Some demo_part"
    "assemble_briefing demo_config (be_dirs (demo_env [])) (pf_project demo_prefetch) demo_part = Inr b" "b_sections b \<noteq> []"
    using b by (simp_all add: demo_armed_def demo_process_def demo_config_def demo_prefetch_def demo_env_def)
  obtain p2 where "on_deliver demo_config (demo_env []) Prompt (Some (Fetched demo_prefetch)) (demo_armed, demo_process)
    = ((emits demo_config (Briefing_Assembled (length (b_sections b)) (b_tokens b) (map r_id (b_reranked b))), Inr (Inject_Context (b_text b))),
       demo_armed\<lparr>bf_delivered := True\<rparr>, p2)" by (rule ready_delivery [OF job])
  then show thesis
    using that by (simp add: b(3) demo_occurrence_def demo_session_def emits_def demo_drawer_def) (simp add: demo_config_def)
qed

theorem briefing_precedes_interjection_witness:
  "\<exists>res s'. emit demo_config (\<lambda>_. []) demo_eager (mount_all demo_eager (\<lambda>_. Inr ()) demo_bundle) demo_others demo_occurrence
      (demo_session demo_armed) = (res, s') \<and> last_injected (ss_interject s') ''b'' = last_injected interject_init ''b''"
proof -
  obtain n k ids t hp where d: "on_deliver demo_config (oc_env demo_occurrence) Prompt (oc_landed demo_occurrence) (ss_brief (demo_session demo_armed))
    = (([Briefing_Assembled n k ids], Inr (Inject_Context t)), hp)" "''b'' \<in> set ids" by (rule demo_delivery)
  have m: "distinct demo_bundle" "Briefing_Module \<in> set demo_bundle" "Interject_Module \<in> set demo_bundle" "oc_name demo_occurrence = ''prompt:submit''"
    by (simp_all add: demo_bundle_def demo_occurrence_def)
  have e: "Briefing_Assembled n k ids \<in> set [Briefing_Assembled n k ids]" "''b'' \<noteq> []" by simp_all
  obtain res s' where r: "emit demo_config (\<lambda>_. []) demo_eager (mount_all demo_eager (\<lambda>_. Inr ()) demo_bundle) demo_others demo_occurrence
      (demo_session demo_armed) = (res, s')" by (rule prod.exhaust)
  show ?thesis using briefing_precedes_interjection [OF m d(1) e(1) d(2) e(2) r] r by (simp add: demo_session_def)
qed

section \<open>The benchmark's session delivers\<close>

lemma hooks_from_one:
  assumes "distinct ms" "a \<in> set ms" "\<And>m. m \<in> set ms \<Longrightarrow> m \<noteq> a \<Longrightarrow> regs_at ev (hooks_of h m) = []"
  shows "co_hooks (mount_all h reg ms) ev = sort_key e_priority (regs_at ev (hooks_of h a))"
proof -
  have "filter (\<lambda>m. m = a) ms = [a]" using assms(1,2) by (induction ms) (auto simp: filter_empty_conv)
  moreover have "concat (map (regs_at ev \<circ> hooks_of h) ms) = concat (map (regs_at ev \<circ> hooks_of h) (filter (\<lambda>m. m = a) ms))"
    by (rule concat_map_filter) (use assms(3) in auto)
  ultimately show ?thesis by (simp add: mounted_hooks)
qed

lemma trigger_event_neq [simp]: "trigger_event t \<noteq> ''session:start''" "trigger_event t \<noteq> ''provider:request''"
  by (cases t; simp)+

lemma request_hooks:
  assumes "distinct ms" "Briefing_Module \<in> set ms"
  shows "map e_handler (co_hooks (mount_all h reg ms) ''provider:request'') = [Brief_Deliver]"
proof -
  have "regs_at ''provider:request'' (hooks_of h m) = []" if "m \<noteq> Briefing_Module" for m
    using that by (cases m) (simp_all add: hook_lists filter_map comp_def)
  then show ?thesis using hooks_from_one [OF assms, of "''provider:request''" h reg] by (simp add: hook_lists)
qed

lemma start_hooks:
  assumes "distinct ms" "Briefing_Module \<in> set ms"
  shows "map e_handler (co_hooks (mount_all h reg ms) ''session:start'') \<in> {[Brief_Start], [Brief_Start, Project_Start], [Project_Start, Brief_Start]}"
proof -
  have none: "regs_at ''session:start'' (hooks_of h m) = []" if "m \<noteq> Briefing_Module" "m \<noteq> Project_Module" for m
    using that by (cases m) (simp_all add: hook_lists filter_map comp_def)
  show ?thesis
  proof (cases "Project_Module \<in> set ms")
    case True
    then show ?thesis using hooks_from_two [OF assms True, of "''session:start''" h reg] none by (auto simp: hook_lists)
  next
    case False
    then have "regs_at ''session:start'' (hooks_of h m) = []" if "m \<in> set ms" "m \<noteq> Briefing_Module" for m
      using none that by blast
    from hooks_from_one [OF assms this] show ?thesis by (simp add: hook_lists)
  qed
qed

text \<open>The other handlers, and the interjection on this prompt, raise nothing.\<close>

definition others_return :: "'o others \<Rightarrow> bool" where
  "others_return other \<longleftrightarrow> (\<forall>x u. \<exists>r u'. other x u = (Inr r, u'))"

definition prompt_returns :: "(string \<Rightarrow> string) \<Rightarrow> interject_hook \<Rightarrow> interject_event \<Rightarrow> bool" where
  "prompt_returns sha1 h e \<longleftrightarrow> (\<forall>s. \<exists>out s'. on_prompt_submit sha1 h e s = (Inr out, s'))"

lemma emit_start:
  assumes "map e_handler (co_hooks co ''session:start'') \<in> {[Brief_Start], [Brief_Start, Project_Start], [Project_Start, Brief_Start]}"
    and "others_return other" "oc_name oc = ''session:start''"
  shows "\<exists>rs s1. emit cfg sha1 h co other oc s = (Inr rs, s1) \<and> ss_brief s1 = on_session_start cfg (oc_env oc) (oc_sub oc) (ss_brief s)"
proof -
  obtain r1 u1 where u: "other Project_Start (ss_others s) = (Inr r1, u1)" using assms(2) unfolding others_return_def by blast
  show ?thesis using assms(1,3) u by (auto simp: emit_def run_handler_def run_other_def)
qed

lemma emit_prompt:
  assumes "co_hooks co ''prompt:submit'' = deliver_entry # prompt_entries h" and "prompt_returns sha1 h (oc_interject oc)" "oc_name oc = ''prompt:submit''"
    and "on_deliver cfg (oc_env oc) Prompt (oc_landed oc) (ss_brief s) = ((es, Inr r), hp)"
  shows "\<exists>rs s1. emit cfg sha1 h co other oc s = (Inr (r # rs), s1) \<and> ss_brief s1 = hp \<and> length rs \<le> 1"
proof -
  define s1 where "s1 = fold (bridge_briefed (co_hooks co) other) es (s\<lparr>ss_brief := hp\<rparr>)"
  have b: "ss_brief s1 = hp" using fold_bridge_briefs [of "s\<lparr>ss_brief := hp\<rparr>" "co_hooks co" other es] by (simp add: s1_def briefs_def)
  have first: "run_handler cfg sha1 h (co_hooks co) other oc Brief_Deliver s = (Inr r, s1)"
    using assms(3,4) by (simp add: run_handler_def deliver_event_of_def s1_def)
  obtain out s2 where "on_prompt_submit sha1 h (oc_interject oc) (ss_interject s1) = (Inr out, s2)"
    using assms(2) unfolding prompt_returns_def by blast
  then have "run_handler cfg sha1 h (co_hooks co) other oc (Interject_On Prompt_Submit) s1 = (Inr (hook_result_of out), s1\<lparr>ss_interject := s2\<rparr>)"
    by (simp add: run_handler_def)
  then show ?thesis using first b assms(1,3)
    by (simp add: emit_def deliver_entry_def prompt_entries_def hook_entry_def)
qed

lemma emit_request:
  assumes "map e_handler (co_hooks co ''provider:request'') = [Brief_Deliver]" "bf_delivered (fst (ss_brief s))" "oc_name oc = ''provider:request''"
  shows "\<exists>s1. emit cfg sha1 h co other oc s = (Inr [Continue], s1) \<and> ss_brief s1 = ss_brief s"
  using assms by (cases "ss_brief s") (auto simp: emit_def run_handler_def on_deliver_def)

lemma delivered_stays: "bf_delivered (fst hp) \<Longrightarrow> on_deliver cfg env ev landed hp = (([], Inr Continue), hp)"
  by (cases hp) (simp add: on_deliver_def)

lemma injections_length: "length (injections_in rs) \<le> length rs"
  by (induction rs) (auto simp: injections_in_def split: hook_result.split)


lemma demo_prompt_returns: "prompt_returns sha1 h (oc_interject demo_occurrence)"
  by (simp add: prompt_returns_def demo_occurrence_def on_prompt_submit_def)


end
