(* ===== verification/Expiry.thy ===== *)
theory Expiry
  imports Snapshot
begin

text \<open>
  How long the native store keeps a fold (\<open>_arm_expiry\<close> and \<open>_expire_snapshot\<close> in \<open>store.py\<close>): the one
  expiry timer of a store, armed by every build and re-armed while a younger build is there.  The
  calls of \<open>_arm_expiry\<close> happen outside the region that decides on them, so they are owed for a moment.
\<close>

section \<open>The timer\<close>

record 'e retention =
  rt_snap :: "'e snap"
  rt_timer :: "real option"
  rt_owed :: "real option list"
  rt_now :: real
  rt_touched :: real

text \<open>\<open>_arm_expiry\<close> in its locked region: nothing while a timer is pending.\<close>

definition arm_expiry :: "real option \<Rightarrow> 'e retention \<Rightarrow> 'e retention" where
  "arm_expiry delay s = (case rt_timer s of
     Some d \<Rightarrow> s
   | None \<Rightarrow> s\<lparr>rt_timer := Some (rt_now s + (case delay of None \<Rightarrow> SNAPSHOT_REUSE_S | Some x \<Rightarrow> x))\<rparr>)"

text \<open>The timer's function: the region that drops an old fold, and the re-arming it leaves to do.\<close>

definition fire :: "'e retention \<Rightarrow> 'e retention" where
  "fire s = (let snap = rt_snap s; age = rt_now s - last_build_at snap;
       s1 = s\<lparr>rt_timer := None, rt_snap := expire_snapshot (rt_now s) snap\<rparr>
     in if last_build_at snap = 0 \<or> age \<ge> SNAPSHOT_REUSE_S then s1
        else s1\<lparr>rt_owed := rt_owed s1 @ [Some (max (SNAPSHOT_REUSE_S - age) 0)]\<rparr>)"

text \<open>The two regions of a build that store something, each followed by a call of \<open>_arm_expiry\<close>.\<close>

definition store_build :: "'e list \<Rightarrow> 'e retention \<Rightarrow> 'e retention" where
  "store_build f s = s\<lparr>rt_snap := update_prior_fold (rt_now s) f (rt_snap s), rt_owed := rt_owed s @ [None], rt_touched := rt_now s\<rparr>"

definition publish_build :: "nat \<Rightarrow> real \<Rightarrow> 'e list \<Rightarrow> 'e retention \<Rightarrow> 'e retention" where
  "publish_build g t f s = s\<lparr>rt_snap := publish g t f (rt_snap s), rt_owed := rt_owed s @ [None], rt_touched := rt_now s\<rparr>"

text \<open>
  Time passes only while no call is owed and not past a timer that is due: the threads run at once.
  A build publishes after it has stored, so some build is on record.
\<close>

inductive retention_step :: "'e retention \<Rightarrow> 'e retention \<Rightarrow> bool" where
  tick: "rt_owed s = [] \<Longrightarrow> rt_now s \<le> t \<Longrightarrow> (\<And>d. rt_timer s = Some d \<Longrightarrow> t \<le> d) \<Longrightarrow> retention_step s (s\<lparr>rt_now := t\<rparr>)"
| append: "retention_step s (s\<lparr>rt_snap := on_append (rt_snap s)\<rparr>)"
| store: "retention_step s (store_build f s)"
| published: "last_build_at (rt_snap s) \<noteq> 0 \<Longrightarrow> retention_step s (publish_build g t f s)"
| armed: "rt_owed s = xs @ x # ys \<Longrightarrow> retention_step s (arm_expiry x (s\<lparr>rt_owed := xs @ ys\<rparr>))"
| fired: "rt_timer s = Some d \<Longrightarrow> d \<le> rt_now s \<Longrightarrow> retention_step s (fire s)"

definition retention_init :: "real \<Rightarrow> 'e retention" where
  "retention_init t = \<lparr>rt_snap = snap_init, rt_timer = None, rt_owed = [], rt_now = t, rt_touched = t\<rparr>"

definition retention_start :: "'e retention \<Rightarrow> bool" where
  "retention_start s \<longleftrightarrow> s = retention_init (rt_now s) \<and> 0 < rt_now s"

abbreviation retention_reach :: "'e retention \<Rightarrow> bool" where
  "retention_reach \<equiv> reachable retention_start retention_step"

lemma retention_next: "retention_reach s \<Longrightarrow> retention_step s s' \<Longrightarrow> retention_reach s'"
  by (rule reachable.step)

lemma retention_initial: "0 < t \<Longrightarrow> retention_reach (retention_init t)"
  by (rule reachable.start) (simp add: retention_start_def retention_init_def)

section \<open>The invariant\<close>

definition holds_fold :: "'e snap \<Rightarrow> bool" where
  "holds_fold s \<longleftrightarrow> snapshot s \<noteq> None \<or> prior_fold s \<noteq> None"

definition owed_ok :: "'e retention \<Rightarrow> bool" where
  "owed_ok s \<longleftrightarrow> (\<forall>x. Some x \<in> set (rt_owed s) \<longrightarrow> 0 \<le> x \<and> rt_now s + x \<le> rt_touched s + SNAPSHOT_REUSE_S)
     \<and> (None \<in> set (rt_owed s) \<longrightarrow> rt_touched s = rt_now s)"

definition retention_ok :: "'e retention \<Rightarrow> bool" where
  "retention_ok s \<longleftrightarrow> 0 < rt_now s \<and> rt_touched s \<le> rt_now s \<and> last_build_at (rt_snap s) \<le> rt_touched s \<and> owed_ok s
     \<and> (\<forall>d. rt_timer s = Some d \<longrightarrow> rt_now s \<le> d \<and> d \<le> rt_touched s + SNAPSHOT_REUSE_S)
     \<and> (holds_fold (rt_snap s) \<longrightarrow> last_build_at (rt_snap s) \<noteq> 0 \<and> (rt_timer s \<noteq> None \<or> rt_owed s \<noteq> []))"

lemma snap_regions:
  "last_build_at (on_append s) = last_build_at s" "holds_fold (on_append s) \<Longrightarrow> holds_fold s"
  "last_build_at (update_prior_fold now f s) = now" "last_build_at (publish g t f s) = last_build_at s"
  "last_build_at (expire_snapshot now s) = last_build_at s"
  by (auto simp: on_append_def holds_fold_def update_prior_fold_def publish_def expire_snapshot_def Let_def split: option.splits)

lemma expired_holds_nothing:
  "last_build_at s \<noteq> 0 \<Longrightarrow> now - last_build_at s \<ge> SNAPSHOT_REUSE_S \<Longrightarrow> \<not> holds_fold (expire_snapshot now s)"
  "holds_fold (expire_snapshot now s) \<Longrightarrow> holds_fold s"
  by (auto simp: expire_snapshot_def holds_fold_def split: if_splits)

lemma retention_ok_armed:
  assumes "retention_ok s" "rt_owed s = xs @ x # ys"
  shows "retention_ok (arm_expiry x (s\<lparr>rt_owed := xs @ ys\<rparr>))"
proof -
  have "0 \<le> (case x of None \<Rightarrow> SNAPSHOT_REUSE_S | Some y \<Rightarrow> y)"
    "rt_now s + (case x of None \<Rightarrow> SNAPSHOT_REUSE_S | Some y \<Rightarrow> y) \<le> rt_touched s + SNAPSHOT_REUSE_S"
    using assms by (cases x; auto simp: retention_ok_def owed_ok_def SNAPSHOT_REUSE_S_def)+
  then show ?thesis using assms by (auto simp: retention_ok_def owed_ok_def arm_expiry_def split: option.split)
qed

lemma retention_ok_fired:
  assumes "retention_ok s"
  shows "retention_ok (fire s)"
proof -
  define snap where "snap = rt_snap s"
  have "owed_ok (s\<lparr>rt_timer := None, rt_snap := expire_snapshot (rt_now s) snap\<rparr>)"
    using assms by (simp add: retention_ok_def owed_ok_def)
  then show ?thesis using assms expired_holds_nothing [where s = snap and now = "rt_now s"] snap_regions(5) [of "rt_now s" snap]
    by (auto simp: fire_def Let_def retention_ok_def owed_ok_def simp flip: snap_def)
qed

lemma retention_step_ok: "retention_step s s' \<Longrightarrow> retention_ok s \<Longrightarrow> retention_ok s'"
proof (induction rule: retention_step.induct)
  case (tick s t)
  then show ?case by (auto simp: retention_ok_def owed_ok_def)
next
  case (append s)
  then show ?case using snap_regions(1,2) [of "rt_snap s"] by (auto simp: retention_ok_def owed_ok_def)
next
  case (store s f)
  have "last_build_at (update_prior_fold (rt_now s) f (rt_snap s)) = rt_now s" by (rule snap_regions(3))
  then show ?case using store by (fastforce simp: retention_ok_def owed_ok_def store_build_def)
next
  case (published s g t f)
  then show ?case using snap_regions(4) [of g t f "rt_snap s"]
    by (fastforce simp: retention_ok_def owed_ok_def publish_build_def)
next
  case (armed s xs x ys)
  then show ?case by (intro retention_ok_armed)
next
  case (fired s d)
  then show ?case by (intro retention_ok_fired)
qed

lemma retention_ok_start: "0 < t \<Longrightarrow> retention_ok (retention_init t)"
  by (simp add: retention_ok_def owed_ok_def retention_init_def snap_init_def holds_fold_def)

interpretation retentions: step_invariant retention_start retention_step retention_ok
proof
  fix s s' :: "'e retention"
  show "retention_start s \<Longrightarrow> retention_ok s" using retention_ok_start unfolding retention_start_def by metis
  show "retention_step s s' \<Longrightarrow> retention_ok s \<Longrightarrow> retention_ok s'" by (rule retention_step_ok)
qed

section \<open>Property\<close>

text \<open>
  C33: an idle store gives its fold back.  However builds, appends, publications and the timer interleave, a
  store that no build has touched for more than the reuse time, five seconds, keeps neither a
  snapshot nor a base for the next build, and has no timer left.
\<close>

theorem idle_store_keeps_no_fold:
  assumes "retention_reach s" and "rt_touched s + SNAPSHOT_REUSE_S < rt_now s"
  shows "snapshot (rt_snap s) = None \<and> prior_fold (rt_snap s) = None \<and> rt_timer s = None"
proof -
  note ok = retentions.inv_reachable [OF assms(1)]
  have "rt_timer s = None" using ok assms(2) by (cases "rt_timer s") (auto simp: retention_ok_def)
  moreover have "x \<notin> set (rt_owed s)" for x
    using ok assms(2) by (cases x) (force simp: retention_ok_def owed_ok_def SNAPSHOT_REUSE_S_def)+
  then have "rt_owed s = []" by (cases "rt_owed s") auto
  ultimately show ?thesis using ok unfolding retention_ok_def holds_fold_def by blast
qed

theorem idle_store_keeps_no_fold_witness:
  "\<exists>s :: nat retention. retention_reach s \<and> rt_now s = 7 \<and> prior_fold (rt_snap s) = None"
proof -
  define s1 :: "nat retention" where "s1 = store_build [0] (retention_init 1)"
  define s2 where "s2 = arm_expiry None (s1\<lparr>rt_owed := [] @ []\<rparr>)"
  define s3 where "s3 = s2\<lparr>rt_now := 6\<rparr>"
  define s4 where "s4 = fire s3"
  have v1: "rt_owed s1 = [] @ None # []" "rt_now s1 = 1" "rt_touched s1 = 1" "rt_timer s1 = None" "last_build_at (rt_snap s1) = 1"
    by (simp_all add: s1_def store_build_def retention_init_def snap_regions)
  have v2: "rt_owed s2 = []" "rt_now s2 = 1" "rt_touched s2 = 1" "rt_timer s2 = Some 6" "last_build_at (rt_snap s2) = 1"
    using v1 by (simp_all add: s2_def arm_expiry_def SNAPSHOT_REUSE_S_def)
  have v4: "rt_owed s4 = []" "rt_now s4 = 6" "rt_touched s4 = 1" "rt_timer s4 = None"
    using v2 by (simp_all add: s4_def s3_def fire_def Let_def SNAPSHOT_REUSE_S_def)
  have "retention_reach s1" unfolding s1_def by (rule retention_next [OF retention_initial retention_step.store]) simp
  then have "retention_reach s2" unfolding s2_def by (rule retention_next [OF _ retention_step.armed]) (rule v1(1))
  then have "retention_reach (s2\<lparr>rt_now := 6\<rparr>)" by (rule retention_next [OF _ retention_step.tick]) (simp_all add: v2)
  then have "retention_reach s3" by (simp only: s3_def)
  then have "retention_reach s4" unfolding s4_def by (rule retention_next [OF _ retention_step.fired [where d = 6]]) (use v2 in \<open>simp_all add: s3_def\<close>)
  then have r: "retention_reach (s4\<lparr>rt_now := 7\<rparr>)" by (rule retention_next [OF _ retention_step.tick]) (use v4 in simp_all)
  have "prior_fold (rt_snap (s4\<lparr>rt_now := 7\<rparr>)) = None"
    using idle_store_keeps_no_fold [OF r] v4 by (simp add: SNAPSHOT_REUSE_S_def)
  then show ?thesis using r by (intro exI [of _ "s4\<lparr>rt_now := 7\<rparr>"]) simp
qed

end
