(* ===== verification/Kernel_Access.thy ===== *)
theory Kernel_Access
  imports Prelude
begin

text \<open>
  The serialized access of the daemon to the store's kernel (\<open>_SerializedFileKernel\<close> and
  \<open>_serialize_kernel_access\<close> in \<open>daemon.py\<close>).  The Rust kernel refuses a call that lands while
  another thread is inside one; the proxy makes every call take the durable kernel's own
  re-entrant lock, which its batched append also holds.  Threads interleave step by step.
\<close>

section \<open>Wrapping\<close>

text \<open>A store's kernel, as far as the wrapping reads it: \<open>_fk\<close>, \<open>_lock\<close> and the name of its class.\<close>

datatype inner_kernel = Rust_Kernel | Serialized inner_kernel

record kernel =
  k_fk :: "inner_kernel option"
  k_lock :: bool
  k_durable :: bool

text \<open>The kernel afterwards, and whether it was warned that requests are not serialized.\<close>

definition serialize_kernel_access :: "kernel option \<Rightarrow> kernel option \<times> bool" where
  "serialize_kernel_access ok = (case ok of None \<Rightarrow> (None, False)
     | Some k \<Rightarrow> (case k_fk k of
         Some inner \<Rightarrow> (if k_lock k then (case inner of Serialized i \<Rightarrow> (Some k, False)
             | Rust_Kernel \<Rightarrow> (Some (k\<lparr>k_fk := Some (Serialized inner)\<rparr>), False))
           else (Some k, k_durable k))
       | None \<Rightarrow> (Some k, k_durable k)))"

section \<open>Calls\<close>

text \<open>
  A thread's call of a kernel method: asked for, inside Rust, or over with the lock still to be given
  back.  \<open>batches\<close> counts the times a thread holds the lock around calls of its own.
\<close>

datatype call_phase = Away | Asking | In_Rust | Leaving

record access =
  holder :: "nat option"
  depth :: nat
  inside :: "nat option"
  calls :: "nat \<Rightarrow> call_phase"
  batches :: "nat \<Rightarrow> nat"
  refused :: bool

definition lock_free_for :: "nat \<Rightarrow> access \<Rightarrow> bool" where
  "lock_free_for t a \<longleftrightarrow> holder a = None \<or> holder a = Some t"

definition lock_acquire :: "nat \<Rightarrow> access \<Rightarrow> access" where
  "lock_acquire t a = a\<lparr>holder := Some t, depth := depth a + 1\<rparr>"

definition lock_release :: "access \<Rightarrow> access" where
  "lock_release a = a\<lparr>depth := depth a - 1, holder := (if depth a \<le> 1 then None else holder a)\<rparr>"

text \<open>\<open>_locked\<close> around the call, or the bare method where the kernel is not wrapped.\<close>

definition begin_call :: "bool \<Rightarrow> nat \<Rightarrow> access \<Rightarrow> access" where
  "begin_call wrapped t a = (if wrapped then lock_acquire t a else a)\<lparr>calls := (calls a)(t := Asking)\<rparr>"

definition enter_rust :: "nat \<Rightarrow> access \<Rightarrow> access" where
  "enter_rust t a = (case inside a of
     None \<Rightarrow> a\<lparr>inside := Some t, calls := (calls a)(t := In_Rust)\<rparr>
   | Some u \<Rightarrow> a\<lparr>refused := True, calls := (calls a)(t := Leaving)\<rparr>)"

definition leave_rust :: "nat \<Rightarrow> access \<Rightarrow> access" where
  "leave_rust t a = a\<lparr>inside := None, calls := (calls a)(t := Leaving)\<rparr>"

definition end_call :: "bool \<Rightarrow> nat \<Rightarrow> access \<Rightarrow> access" where
  "end_call wrapped t a = (if wrapped then lock_release a else a)\<lparr>calls := (calls a)(t := Away)\<rparr>"

inductive access_step :: "bool \<Rightarrow> access \<Rightarrow> access \<Rightarrow> bool" where
  begin_call: "calls a t = Away \<Longrightarrow> (w \<Longrightarrow> lock_free_for t a) \<Longrightarrow> access_step w a (begin_call w t a)"
| enter_rust: "calls a t = Asking \<Longrightarrow> access_step w a (enter_rust t a)"
| leave_rust: "calls a t = In_Rust \<Longrightarrow> access_step w a (leave_rust t a)"
| end_call: "calls a t = Leaving \<Longrightarrow> access_step w a (end_call w t a)"
| begin_batch: "calls a t = Away \<Longrightarrow> lock_free_for t a
    \<Longrightarrow> access_step w a (lock_acquire t a\<lparr>batches := (batches a)(t := batches a t + 1)\<rparr>)"
| end_batch: "calls a t = Away \<Longrightarrow> 0 < batches a t
    \<Longrightarrow> access_step w a (lock_release a\<lparr>batches := (batches a)(t := batches a t - 1)\<rparr>)"

definition access_init :: access where
  "access_init = \<lparr>holder = None, depth = 0, inside = None, calls = (\<lambda>t. Away), batches = (\<lambda>t. 0), refused = False\<rparr>"

abbreviation access_reach :: "bool \<Rightarrow> access \<Rightarrow> bool" where
  "access_reach w \<equiv> reachable (\<lambda>a. a = access_init) (access_step w)"

lemma access_next: "access_reach w s \<Longrightarrow> access_step w s s' \<Longrightarrow> access_reach w s'"
  by (rule reachable.step)

lemma access_initial: "access_reach w access_init"
  by (rule reachable.start) simp

section \<open>The invariant\<close>

text \<open>How often a thread holds the lock.\<close>

definition holds :: "access \<Rightarrow> nat \<Rightarrow> nat" where
  "holds a t = batches a t + (if calls a t = Away then 0 else 1)"

definition access_ok :: "access \<Rightarrow> bool" where
  "access_ok a \<longleftrightarrow> (\<forall>t. holds a t = (if holder a = Some t then depth a else 0)) \<and> (holder a = None \<longleftrightarrow> depth a = 0)
     \<and> (\<forall>t. calls a t = In_Rust \<longleftrightarrow> inside a = Some t) \<and> \<not> refused a"

lemma access_ok_rust: "access_ok a \<Longrightarrow> calls a u = In_Rust \<longleftrightarrow> inside a = Some u" "access_ok a \<Longrightarrow> \<not> refused a"
  unfolding access_ok_def by blast+

lemma access_ok_holder: "access_ok a \<Longrightarrow> calls a t \<noteq> Away \<or> 0 < batches a t \<Longrightarrow> holder a = Some t \<and> depth a = holds a t"
proof -
  assume a: "access_ok a" "calls a t \<noteq> Away \<or> 0 < batches a t"
  then have "0 < holds a t" by (auto simp: holds_def)
  moreover have "holds a t = (if holder a = Some t then depth a else 0)" using a(1) by (simp add: access_ok_def)
  ultimately show ?thesis by (auto split: if_splits)
qed

text \<open>Taking and giving back the lock moves the count of the thread that does it.\<close>

lemma access_ok_move:
  assumes "access_ok a" "\<And>u. u \<noteq> t \<Longrightarrow> holds a' u = holds a u"
    and "\<And>u. calls a' u = In_Rust \<longleftrightarrow> inside a' = Some u" "\<not> refused a'"
    and "holds a' t = holds a t + 1 \<and> lock_free_for t a \<and> holder a' = Some t \<and> depth a' = depth a + 1
      \<or> holds a t = holds a' t + 1 \<and> depth a' = depth a - 1 \<and> holder a' = (if depth a \<le> 1 then None else holder a)
      \<or> holds a' t = holds a t \<and> holder a' = holder a \<and> depth a' = depth a"
  shows "access_ok a'"
proof -
  have h: "holds a u = (if holder a = Some u then depth a else 0)" "holder a = None \<longleftrightarrow> depth a = 0" for u
    using assms(1) by (simp_all add: access_ok_def)
  have t: "holds a' t = (if holder a' = Some t then depth a' else 0)" "holder a' = None \<longleftrightarrow> depth a' = 0"
    using assms(5) h(1) [of t] h(2) by (auto simp: lock_free_for_def split: if_splits)
  have other: "holds a' u = (if holder a' = Some u then depth a' else 0)" if "u \<noteq> t" for u
    using assms(5) h(1) [of t] h(1) [of u] h(2) assms(2) [OF that] that by (auto simp: lock_free_for_def split: if_splits)
  have "holds a' u = (if holder a' = Some u then depth a' else 0)" for u
  proof (cases "u = t")
    case True
    show ?thesis unfolding True by (rule t(1))
  qed (rule other)
  then show ?thesis unfolding access_ok_def using assms(3,4) t(2) by blast
qed

lemma access_ok_alone: "access_ok a \<Longrightarrow> calls a t = Asking \<Longrightarrow> inside a = None"
proof (rule ccontr)
  assume a: "access_ok a" "calls a t = Asking" "inside a \<noteq> None"
  then obtain u where u: "inside a = Some u" by blast
  then have "calls a u = In_Rust" using access_ok_rust(1) [OF a(1)] by blast
  then have "holder a = Some u" "holder a = Some t"
    using access_ok_holder [OF a(1), of u] access_ok_holder [OF a(1), of t] a(2) by simp_all
  then show False using a(2) \<open>calls a u = In_Rust\<close> by simp
qed

lemma begin_call_ok:
  assumes "access_ok a" "calls a t = Away" "lock_free_for t a"
  shows "access_ok (begin_call True t a)"
  by (rule access_ok_move [OF assms(1), of t])
     (use assms(2,3) access_ok_rust [OF assms(1)] access_ok_rust(1) [OF assms(1), of t] in \<open>auto simp: begin_call_def lock_acquire_def holds_def\<close>)

lemma enter_rust_ok:
  assumes "access_ok a" "calls a t = Asking"
  shows "access_ok (enter_rust t a)"
  by (rule access_ok_move [OF assms(1), of t])
     (use assms(2) access_ok_rust [OF assms(1)] access_ok_alone [OF assms] in \<open>auto simp: enter_rust_def holds_def\<close>)

lemma leave_rust_ok:
  assumes "access_ok a" "calls a t = In_Rust"
  shows "access_ok (leave_rust t a)"
  by (rule access_ok_move [OF assms(1), of t])
     (use access_ok_rust [OF assms(1)] access_ok_rust(1) [OF assms(1), of t] in \<open>auto simp: leave_rust_def holds_def assms(2)\<close>)

lemma end_call_ok:
  assumes "access_ok a" "calls a t = Leaving"
  shows "access_ok (end_call True t a)"
  by (rule access_ok_move [OF assms(1), of t])
     (use assms(2) access_ok_rust [OF assms(1)] access_ok_rust(1) [OF assms(1), of t] in \<open>auto simp: end_call_def lock_release_def holds_def\<close>)

lemma batch_ok:
  assumes "access_ok a"
  shows "lock_free_for t a \<Longrightarrow> access_ok (lock_acquire t a\<lparr>batches := (batches a)(t := batches a t + 1)\<rparr>)"
    "0 < batches a t \<Longrightarrow> access_ok (lock_release a\<lparr>batches := (batches a)(t := batches a t - 1)\<rparr>)"
  by (rule access_ok_move [OF assms, of t];
      use access_ok_rust [OF assms] in \<open>auto simp: lock_acquire_def lock_release_def holds_def\<close>)+

lemma access_step_ok: "access_step w a a' \<Longrightarrow> w \<Longrightarrow> access_ok a \<Longrightarrow> access_ok a'"
  by (induction rule: access_step.induct)
     (simp_all add: begin_call_ok enter_rust_ok leave_rust_ok end_call_ok batch_ok [simplified])

interpretation accesses: step_invariant "\<lambda>a. a = access_init" "access_step True" access_ok
  by unfold_locales (simp add: access_ok_def access_init_def holds_def, simp add: access_step_ok)

section \<open>Property\<close>

definition wrapped :: "kernel \<Rightarrow> bool" where
  "wrapped k \<longleftrightarrow> (case k_fk k of Some (Serialized i) \<Rightarrow> True | _ \<Rightarrow> False)"

lemma serialized_is_wrapped:
  "serialize_kernel_access (Some k) = (Some k', False) \<Longrightarrow> k_durable k \<Longrightarrow> wrapped k' \<and> serialize_kernel_access (Some k') = (Some k', False)"
  by (auto simp: serialize_kernel_access_def wrapped_def split: option.splits if_splits inner_kernel.splits)

text \<open>
  C31: concurrent requests never meet inside the Rust kernel.  A durable kernel that the daemon wrapped without a
  warning stays as it is when wrapped again; and for every interleaving of calls and batches over it
  no call is refused, the thread inside Rust holds the lock, and no other thread is inside while a batch is open.
\<close>

theorem serialized_calls_are_never_refused:
  assumes "serialize_kernel_access (Some k) = (Some k', False)" and "k_durable k" and "access_reach (wrapped k') a"
  shows "serialize_kernel_access (Some k') = (Some k', False) \<and> \<not> refused a
    \<and> (calls a t = In_Rust \<longrightarrow> holder a = Some t) \<and> (calls a t = In_Rust \<and> 0 < batches a u \<longrightarrow> u = t)"
proof -
  have w: "wrapped k'" "serialize_kernel_access (Some k') = (Some k', False)"
    using serialized_is_wrapped [OF assms(1,2)] by simp_all
  have ok: "access_ok a" using accesses.inv_reachable assms(3) w(1) by simp
  then have "\<not> refused a" by (rule access_ok_rust(2))
  then show ?thesis using w(2) access_ok_holder [OF ok, of t] access_ok_holder [OF ok, of u] by auto
qed

theorem serialized_calls_are_never_refused_witness:
  "\<exists>a. access_reach True a \<and> calls a 0 = In_Rust \<and> holder a = Some 0 \<and> \<not> refused a"
proof -
  define a1 where "a1 = begin_call True 0 access_init"
  define a2 where "a2 = enter_rust 0 a1"
  have "access_step True access_init a1" unfolding a1_def
    by (rule access_step.begin_call) (simp_all add: access_init_def lock_free_for_def)
  then have r1: "access_reach True a1" by (rule access_next [OF access_initial])
  have "access_step True a1 a2" unfolding a2_def by (rule access_step.enter_rust) (simp add: a1_def begin_call_def)
  then have r2: "access_reach True a2" by (rule access_next [OF r1])
  have c: "calls a2 0 = In_Rust" by (simp add: a2_def a1_def enter_rust_def begin_call_def lock_acquire_def access_init_def)
  define k where "k = \<lparr>k_fk = Some Rust_Kernel, k_lock = True, k_durable = True\<rparr>"
  define k' where "k' = \<lparr>k_fk = Some (Serialized Rust_Kernel), k_lock = True, k_durable = True\<rparr>"
  have k: "serialize_kernel_access (Some k) = (Some k', False)" "k_durable k" by (simp_all add: k_def k'_def serialize_kernel_access_def)
  have "access_reach (wrapped k') a2" using r2 by (simp add: wrapped_def k'_def)
  from serialized_calls_are_never_refused [OF k this, of 0 0] show ?thesis using r2 c by auto
qed

text \<open>Without the wrapping two threads can meet, which is what the requests failed with.\<close>

lemma bare_calls_are_refused: "\<exists>a. access_reach False a \<and> refused a"
proof -
  let ?a1 = "begin_call False 0 access_init"
  let ?a2 = "begin_call False 1 ?a1"
  let ?a3 = "enter_rust 0 ?a2"
  let ?a4 = "enter_rust 1 ?a3"
  have "access_reach False ?a1" by (rule access_next [OF access_initial access_step.begin_call]) (simp_all add: access_init_def)
  then have "access_reach False ?a2" by (rule access_next [OF _ access_step.begin_call]) (simp_all add: begin_call_def access_init_def)
  then have "access_reach False ?a3" by (rule access_next [OF _ access_step.enter_rust]) (simp add: begin_call_def)
  then have "access_reach False ?a4"
    by (rule access_next [OF _ access_step.enter_rust]) (simp add: begin_call_def enter_rust_def access_init_def)
  moreover have "refused ?a4" by (simp add: begin_call_def enter_rust_def access_init_def)
  ultimately show ?thesis by blast
qed

end
