(* ===== verification/Curate.thy ===== *)
theory Curate
  imports Capture Memory_Store
begin

text \<open>
  The ends of the curation pipeline (\<open>scripts/load_captures.py\<close> and the command line of
  \<open>scripts/write_cells.py\<close>): reading back what a session filed from its event log, and filing
  the consolidated cells.  The steps between them are prompts of the pipeline, not code.
\<close>

section \<open>Loading the captures\<close>

definition FIELDS :: "string list" where
  "FIELDS = [''capture_id'', ''wing'', ''room'', ''category'', ''content_bytes'', ''source'']"

text \<open>A row: the fields, each a JSON value or null, and the preview (the time stamp is the record's).\<close>

record capture_row =
  cr_fields :: "(string \<times> yaml) list"
  cr_preview :: "string option"

text \<open>
  The loop over the lines.  \<open>look\<close> is \<open>data.get\<close> of a record's data, \<open>None\<close> where that is a
  value that is no object: the \<open>AttributeError\<close> ends the run.
\<close>

definition row_with :: "(string \<Rightarrow> yaml option) \<Rightarrow> string option \<Rightarrow> capture_row" where
  "row_with get preview = \<lparr>cr_fields = map (\<lambda>k. (k, case get k of Some v \<Rightarrow> v | None \<Rightarrow> YNull)) FIELDS, cr_preview = preview\<rparr>"

fun load_lines :: "('d \<Rightarrow> (string \<Rightarrow> yaml option) option) \<Rightarrow> 'd log_line list \<Rightarrow> py_error + capture_row list" where
  "load_lines look [] = Inr []"
| "load_lines look (Rec r # ls) = (if ev_name r \<noteq> ''drawer_filed'' then load_lines look ls
     else (case look (ev_data r) of None \<Rightarrow> Inl (AttributeError ''get'')
       | Some get \<Rightarrow> bind_err (load_lines look ls) (\<lambda>rows. Inr (row_with get (ev_preview r) # rows))))"
| "load_lines look (l # ls) = load_lines look ls"

definition load_captures :: "('d \<Rightarrow> (string \<Rightarrow> yaml option) option) \<Rightarrow> 'd event_files \<Rightarrow> string \<Rightarrow> py_error + capture_row list" where
  "load_captures look fs sid = (case fs sid of None \<Rightarrow> Inr [] | Some ls \<Rightarrow> load_lines look ls)"

text \<open>What the data of a capture event answers for the fields.\<close>

definition opt_category :: "string option \<Rightarrow> yaml" where
  "opt_category cat = (case cat of None \<Rightarrow> YNull | Some c \<Rightarrow> YStr c)"

fun capture_fields :: "capture_data \<Rightarrow> (string \<times> yaml) list" where
  "capture_fields (FiledData c w r cat n src ok) = [(''capture_id'', YStr c), (''wing'', YStr w), (''room'', YStr r),
     (''category'', opt_category cat), (''content_bytes'', YInt (int n)), (''source'', YStr src)]"
| "capture_fields (FailData c reason) = [(''capture_id'', YStr c)]"
| "capture_fields (OverflowData c n) = [(''capture_id'', YStr c)]"
| "capture_fields (QueuedData c t cat n sp) = [(''capture_id'', YStr c), (''category'', opt_category cat), (''content_bytes'', YInt (int n))]"
| "capture_fields (SkipData reason) = []"
| "capture_fields (ReplayData n) = []"

definition capture_look :: "capture_data \<Rightarrow> (string \<Rightarrow> yaml option) option" where
  "capture_look d = Some (map_of (capture_fields d))"

text \<open>The command: the exit code, what it prints, and what it complains of.\<close>

datatype cli_result = Usage_Error string nat | Printed "capture_row list"

definition load_captures_main ::
    "('d \<Rightarrow> (string \<Rightarrow> yaml option) option) \<Rightarrow> string \<Rightarrow> (string \<Rightarrow> 'd event_files) \<Rightarrow> string list \<Rightarrow> py_error + cli_result" where
  "load_captures_main look default_root roots args = (case args of
     [] \<Rightarrow> Inr (Usage_Error (''usage: memory-load-captures <session_id> [events_root]'' @ [newline]) 2)
   | sid # rest \<Rightarrow> bind_err (load_captures look (roots (case rest of [] \<Rightarrow> default_root | er # _ \<Rightarrow> er)) sid) (\<lambda>rows. Inr (Printed rows)))"

section \<open>Writing the cells\<close>

text \<open>What \<open>json.loads\<close> makes of the input: an error, a value that is no list, or a list of cells.\<close>

datatype parsed_cells = Invalid_Json | Not_List | Cells "raw_cell list"

datatype cells_result = Rejected string nat | Wrote nat

definition write_cells_main ::
    "(string \<Rightarrow> parsed_cells) \<Rightarrow> (cell \<Rightarrow> 's \<Rightarrow> 's) \<Rightarrow> string \<Rightarrow> 's \<Rightarrow> (py_error + cells_result) \<times> 's" where
  "write_cells_main loads file_cell raw s = (case (if py_strip raw = [] then Cells [] else loads raw) of
     Invalid_Json \<Rightarrow> (Inr (Rejected (''write_cells: input is not valid JSON'' @ [newline]) 2), s)
   | Not_List \<Rightarrow> (Inr (Rejected (''write_cells: expected a JSON list of cells'' @ [newline]) 2), s)
   | Cells cs \<Rightarrow> (case write_cells file_cell cs s 0 of (r, s') \<Rightarrow> (map_sum id Wrote r, s')))"

section \<open>What a session filed is what is loaded\<close>

type_synonym drawer = "string \<times> string \<times> string \<times> string \<times> string option"

text \<open>The row a drawer is read back as, under the id of its capture; the hook cuts the preview, and the log does again.\<close>

definition row_of_drawer :: "string \<Rightarrow> drawer \<Rightarrow> capture_row" where
  "row_of_drawer c d = (case d of (w, r, t, src, cat) \<Rightarrow> \<lparr>cr_fields = zip FIELDS [YStr c, YStr w, YStr r, opt_category cat, YInt (int (utf8_len t)), YStr src],
     cr_preview = truncate_preview (truncate_preview (Some t))\<rparr>)"

lemma load_lines_append: "load_lines look (ls @ ls') = bind_err (load_lines look ls) (\<lambda>rows. bind_err (load_lines look ls') (\<lambda>rows'. Inr (rows @ rows')))"
  by (induction ls rule: load_lines.induct) (auto simp: bind_err_def split: sum.splits option.splits)

lemma load_captures_log: "load_captures look fs sid = load_lines look (log_of fs sid)"
  by (simp add: load_captures_def log_of_def split: option.split)

text \<open>Draining a capture: a drawer and its row, or neither.\<close>

lemma drain_loads:
  assumes "rs (j_session j) = sid" "j_emits j" "outcome \<noteq> StoredButRaised" "load_captures capture_look (cs_events s) sid = Inr rows"
    and "s' = run_effects True rs (drain_effects detected outcome j) s"
  shows "\<exists>ds. cs_drawers s' = cs_drawers s @ ds \<and> load_captures capture_look (cs_events s') sid = Inr (rows @ map (row_of_drawer (j_id j)) ds)
    \<and> ds \<in> {[], [hd ds]}"
proof -
  have rec: "load_lines capture_look (log_of (cs_events s) sid @ [Rec r]) = Inr (rows @ (if ev_name r \<noteq> ''drawer_filed'' then []
      else [row_with (map_of (capture_fields (ev_data r))) (ev_preview r)]))" for r
    using assms(4) by (simp add: load_lines_append load_captures_log bind_err_def capture_look_def)
  show ?thesis
  proof (cases "outcome = Filed \<and> (\<exists>es. process_job detected outcome j = Inr es)")
    case True
    then obtain w r where "drain_effects detected outcome j = FileDrawer w r (j_output j) (j_source j) (j_category j)
        # Emit (j_session j) ''drawer_filed'' True (truncate_preview (Some (j_output j))) (FiledData (j_id j) w r (j_category j) (utf8_len (j_output j)) (j_source j) (j_success j))
        # (if j_wired j then [Bridge ''memory:drawer_filed'' (FiledData (j_id j) w r (j_category j) (utf8_len (j_output j)) (j_source j) (j_success j))] else [])
        @ [SpoolDelete (j_path j)]"
      using assms(2) by (auto simp: drain_effects_def process_job_def bind_err_Inr Let_def)
    then show ?thesis using rec
      by (intro exI [of _ "[(w, r, j_output j, j_source j, j_category j)]"])
         (auto simp: assms(5) run_effects_def emit_capture_def emit_event_def load_captures_log assms(1) spool_delete_def
           row_of_drawer_def row_with_def FIELDS_def log_of_def truncate_preview_def Let_def split: option.split)
  next
    case False
    then obtain d where "drain_effects detected outcome j = Emit (j_session j) ''capture_failed'' False (truncate_preview (Some (j_output j))) d
        # (if j_wired j then [Bridge ''memory:capture_failed'' d] else []) @ (if isl (process_job detected outcome j) then [SpoolDelete (j_path j)] else [])"
      using assms(2,3) by (auto simp: drain_effects_def process_job_def bind_err_def Let_def split: sum.splits)
    then show ?thesis using rec
      by (intro exI [of _ "[]"])
         (auto simp: assms(5) run_effects_def emit_capture_def emit_event_def load_captures_log assms(1) spool_delete_def log_of_def Let_def split: option.split)
  qed
qed

text \<open>A session's captures drained one after the other, each with its wing and the outcome of its filing.\<close>

type_synonym drained = "(py_error + string) \<times> file_outcome \<times> capture_job"

definition drain_all :: "(string option \<Rightarrow> string) \<Rightarrow> drained list \<Rightarrow> capture_state \<Rightarrow> capture_state" where
  "drain_all rs js s = fold (\<lambda>(detected, outcome, j). run_effects True rs (drain_effects detected outcome j)) js s"

definition drains_cleanly :: "(string option \<Rightarrow> string) \<Rightarrow> string \<Rightarrow> drained \<Rightarrow> bool" where
  "drains_cleanly rs sid x = (case x of (detected, outcome, j) \<Rightarrow> rs (j_session j) = sid \<and> j_emits j \<and> outcome \<noteq> StoredButRaised)"

lemma drain_all_loads:
  assumes "list_all (drains_cleanly rs sid) js" "load_captures capture_look (cs_events s) sid = Inr rows"
  shows "\<exists>ids ds. length ids = length ds \<and> subseq ids (map (\<lambda>(detected, outcome, j). j_id j) js) \<and> cs_drawers (drain_all rs js s) = cs_drawers s @ ds
    \<and> load_captures capture_look (cs_events (drain_all rs js s)) sid = Inr (rows @ map2 row_of_drawer ids ds)"
  using assms
proof (induction js arbitrary: s rows)
  case (Cons x js)
  obtain detected outcome j where x: "x = (detected, outcome, j)" by (rule prod_cases3)
  define s1 where "s1 = run_effects True rs (drain_effects detected outcome j) s"
  obtain ds1 where one: "cs_drawers s1 = cs_drawers s @ ds1" "ds1 \<in> {[], [hd ds1]}"
      "load_captures capture_look (cs_events s1) sid = Inr (rows @ map (row_of_drawer (j_id j)) ds1)"
    using drain_loads [OF _ _ _ Cons.prems(2) s1_def] Cons.prems(1) by (auto simp: x drains_cleanly_def)
  obtain ids ds where more: "length ids = length ds" "subseq ids (map (\<lambda>(detected, outcome, j). j_id j) js)"
      "cs_drawers (drain_all rs js s1) = cs_drawers s1 @ ds"
      "load_captures capture_look (cs_events (drain_all rs js s1)) sid = Inr ((rows @ map (row_of_drawer (j_id j)) ds1) @ map2 row_of_drawer ids ds)"
    using Cons.IH [OF _ one(3)] Cons.prems(1) by auto
  have run: "drain_all rs (x # js) s = drain_all rs js s1" by (simp add: drain_all_def x s1_def)
  have rows: "map2 row_of_drawer (map (\<lambda>d. j_id j) ds1 @ ids) (ds1 @ ds) = map (row_of_drawer (j_id j)) ds1 @ map2 row_of_drawer ids ds"
    by (simp add: zip_map1 comp_def zip_same_conv_map)
  have "subseq (map (\<lambda>d. j_id j) ds1 @ ids) (map (\<lambda>(detected, outcome, j). j_id j) (x # js))"
    using one(2) more(2) by (cases ds1) (auto simp: x)
  then show ?case unfolding run using one(1) more rows
    by (intro exI [of _ "map (\<lambda>d. j_id j) ds1 @ ids"] exI [of _ "ds1 @ ds"]) simp
qed (simp add: drain_all_def)

text \<open>
  C32: what the curation loads is what the session filed.  After any captures of the session have been
  drained with events on and none raising after it was stored, the rows loaded from the event log
  grow by exactly the drawers that reached the store, in order: each with the id of its capture, the
  wing, room, category and source it was filed under, the bytes of its text and its cut preview.
\<close>

theorem filed_captures_are_loaded:
  assumes "list_all (drains_cleanly rs sid) js" "load_captures capture_look (cs_events s) sid = Inr rows"
  shows "\<exists>ids ds. length ids = length ds \<and> subseq ids (map (\<lambda>(detected, outcome, j). j_id j) js) \<and> cs_drawers (drain_all rs js s) = cs_drawers s @ ds
    \<and> load_captures capture_look (cs_events (drain_all rs js s)) sid = Inr (rows @ map2 row_of_drawer ids ds)"
  by (rule drain_all_loads [OF assms])

definition demo_drained :: "drained list" where
  "demo_drained = [(Inr ''w'', Filed, demo_job), (Inr ''w'', NotStored, demo_job)]"

theorem filed_captures_are_loaded_witness:
  "\<exists>ids ds. length ids = length ds \<and> cs_drawers (drain_all (case_option [] id) demo_drained capture_init) = cs_drawers capture_init @ ds
    \<and> load_captures capture_look (cs_events (drain_all (case_option [] id) demo_drained capture_init)) ''s'' = Inr (map2 row_of_drawer ids ds)"
proof -
  have j: "list_all (drains_cleanly (case_option [] id) ''s'') demo_drained"
    by (simp add: demo_drained_def drains_cleanly_def demo_job_def new_job_def demo_payload_def demo_env_def demo_hook_def)
  have "load_captures capture_look (cs_events capture_init) ''s'' = Inr []" by (simp add: load_captures_def capture_init_def)
  from filed_captures_are_loaded [OF j this] show ?thesis by auto
qed

end
