(* ===== verification/Spawn.thy ===== *)
theory Spawn
  imports Server
begin

text \<open>
  The command line between a client that starts a daemon (\<open>_spawn_daemon_process\<close> in \<open>client.py\<close>) and
  the daemon's \<open>main\<close> (\<open>daemon.py\<close>).  Of \<open>argparse\<close> the exact option names are modelled; which
  words it takes for options rather than values is its own classification, a parameter.
\<close>

record main_args =
  ma_path :: "string option"
  ma_host :: string
  ma_port :: int
  ma_token_file :: "string option"
  ma_no_bypass :: bool
  ma_record_access :: bool
  ma_daemon :: bool
  ma_home :: "string option"
  ma_ephemeral :: bool
  ma_model :: string

definition DEFAULT_MODEL :: string where "DEFAULT_MODEL = ''sentence-transformers/all-MiniLM-L6-v2''"

definition main_defaults :: main_args where
  "main_defaults = \<lparr>ma_path = None, ma_host = ''127.0.0.1'', ma_port = 0, ma_token_file = None, ma_no_bypass = False,
     ma_record_access = False, ma_daemon = False, ma_home = None, ma_ephemeral = False, ma_model = DEFAULT_MODEL\<rparr>"

text \<open>The switches, and the options with a value; \<open>int_of\<close> is \<open>int\<close> on a text.\<close>

definition set_switch :: "string \<Rightarrow> main_args \<Rightarrow> main_args option" where
  "set_switch w a = (
     if w = ''--no-localhost-bypass'' then Some (a\<lparr>ma_no_bypass := True\<rparr>)
     else if w = ''--record-access'' then Some (a\<lparr>ma_record_access := True\<rparr>)
     else if w = ''--daemon'' then Some (a\<lparr>ma_daemon := True\<rparr>)
     else if w = ''--ephemeral'' then Some (a\<lparr>ma_ephemeral := True\<rparr>)
     else None)"

definition set_option :: "(string \<Rightarrow> int option) \<Rightarrow> string \<Rightarrow> string \<Rightarrow> main_args \<Rightarrow> main_args option" where
  "set_option int_of w v a = (
     if w = ''--path'' then Some (a\<lparr>ma_path := Some v\<rparr>)
     else if w = ''--host'' then Some (a\<lparr>ma_host := v\<rparr>)
     else if w = ''--port'' then map_option (\<lambda>n. a\<lparr>ma_port := n\<rparr>) (int_of v)
     else if w = ''--token-file'' then Some (a\<lparr>ma_token_file := Some v\<rparr>)
     else if w = ''--home'' then Some (a\<lparr>ma_home := Some v\<rparr>)
     else if w = ''--embedder-model'' then Some (a\<lparr>ma_model := v\<rparr>)
     else None)"

text \<open>\<open>parse_args\<close>: the arguments, or the exit with status 2.\<close>

fun parse_main :: "(string \<Rightarrow> bool) \<Rightarrow> (string \<Rightarrow> int option) \<Rightarrow> string list \<Rightarrow> main_args \<Rightarrow> nat + main_args" where
  "parse_main option_like int_of [] a = Inr a"
| "parse_main option_like int_of (w # ws) a = (case set_switch w a of
     Some a' \<Rightarrow> parse_main option_like int_of ws a'
   | None \<Rightarrow> (case ws of [] \<Rightarrow> Inl 2
       | v # ws' \<Rightarrow> (if option_like v then Inl 2 else (case set_option int_of w v a of None \<Rightarrow> Inl 2
           | Some a' \<Rightarrow> parse_main option_like int_of ws' a'))))"

text \<open>What \<open>main\<close> runs.\<close>

datatype main_run =
    Daemon_Run string string int bool string "string option"
  | Server_Run "string option" string int "string option" bool bool

definition main_run_of :: "(string \<Rightarrow> string) \<Rightarrow> string \<Rightarrow> main_args \<Rightarrow> main_run" where
  "main_run_of expanduser default_home a = (
     if ma_daemon a then Daemon_Run (case ma_home a of Some h \<Rightarrow> (if h \<noteq> [] then expanduser h else default_home) | None \<Rightarrow> default_home)
       (ma_host a) (ma_port a) (ma_ephemeral a) (ma_model a) (ma_token_file a)
     else Server_Run (ma_path a) (ma_host a) (ma_port a) (ma_token_file a) (\<not> ma_no_bypass a) (ma_record_access a))"

definition daemon_main :: "(string \<Rightarrow> bool) \<Rightarrow> (string \<Rightarrow> int option) \<Rightarrow> (string \<Rightarrow> string) \<Rightarrow> string \<Rightarrow> string list \<Rightarrow> nat + main_run" where
  "daemon_main option_like int_of expanduser default_home argv =
     map_sum id (main_run_of expanduser default_home) (parse_main option_like int_of argv main_defaults)"

text \<open>The command the client launches, and the part of it that reaches \<open>main\<close>.\<close>

definition spawn_command :: "string \<Rightarrow> string \<Rightarrow> string list" where
  "spawn_command executable home = [executable, ''-m'', ''amplifier_module_tool_memory.daemon'', ''--daemon'', ''--home'', home]"

definition module_argv :: "string list \<Rightarrow> string list" where
  "module_argv cmd = drop 3 cmd"

text \<open>A repeated option: the last value counts, as the words are read in order.\<close>

lemma parse_main_append:
  "parse_main ol int_of ws a = Inr a' \<Longrightarrow> parse_main ol int_of (ws @ ws') a = parse_main ol int_of ws' a'"
  by (induction ol int_of ws a rule: parse_main.induct) (auto split: option.splits list.splits if_splits)

text \<open>
  the daemon a client starts is the durable one, on the client's own home, with an address and a model of
  the daemon's choosing, however the home is called, as long as it is no option to \<open>argparse\<close>.
\<close>

theorem spawned_daemon_serves_the_home:
  assumes "home \<noteq> []" and "\<not> option_like home" and "expanduser home = home"
  shows "daemon_main option_like int_of expanduser default_home (module_argv (spawn_command executable home))
    = Inr (Daemon_Run home ''127.0.0.1'' 0 False DEFAULT_MODEL None)"
  using assms by (simp add: daemon_main_def module_argv_def spawn_command_def set_switch_def set_option_def main_run_of_def main_defaults_def)

theorem spawned_daemon_serves_the_home_witness:
  "daemon_main (starts_with ''-'') (\<lambda>s. None) id ''/d'' (module_argv (spawn_command ''python'' ''/home/u/.amplifier/memory''))
    = Inr (Daemon_Run ''/home/u/.amplifier/memory'' ''127.0.0.1'' 0 False DEFAULT_MODEL None)"
  by (rule spawned_daemon_serves_the_home) (simp_all add: starts_with_def)

end
