(* ===== verification/Overlap.thy ===== *)
theory Overlap
  imports Interject
begin

text \<open>
  The interjection's handlers where they wait: each runs up to its search, from the search to the
  judge's replies (\<open>_retrieve_and_gate\<close> filters the candidates between the two awaits), and from there to the
  injection.  Other handlers and the briefing listener run in between, so the handlers of a session overlap.
  The atomic handlers of \<open>Interject\<close> are the runs of a handler with nothing in between.
\<close>

section \<open>A handler in three parts\<close>

text \<open>Up to the search: a skip, or the query.\<close>

definition begin_handler :: "interject_hook \<Rightarrow> trigger \<Rightarrow> interject_event \<Rightarrow> interject_state \<Rightarrow> (outcome + string) \<times> interject_state" where
  "begin_handler h t e s0 = (let s = (if t = Orchestrator_Complete then s0\<lparr>turn := turn s0 + 1\<rparr> else s0) in
     if ie_sub e then (Inl (Skipped ''sub_session''), s)
     else if ie_opt_out e then (Inl (Skipped ''automation_opt_out''), s)
     else if \<not> registered h t then (Inl (Skipped ''disabled''), s)
     else (case t of
         Prompt_Submit \<Rightarrow> (if ie_text e = [] \<or> length (ie_text e) < 20 then (Inl (Skipped ''too_short''), s)
           else (Inr (ie_text e), s\<lparr>injected_this_turn := False\<rparr>))
       | Tool_Pre \<Rightarrow> (if length (tool_query e) < 15 then (Inl (Skipped ''too_short''), s) else (Inr (tool_query e), s))
       | Orchestrator_Complete \<Rightarrow> (if injected_this_turn s then (Inl (Skipped ''guard_flag''), s\<lparr>injected_this_turn := False\<rparr>)
           else if ie_text e = [] \<or> length (ie_text e) < 50 then (Inl (Skipped ''too_short''), s)
           else (Inr (ie_text e), s))))"

text \<open>Between the awaits: the gate closes, or what passes and what the judge, if enabled, is asked about.\<close>

definition screen :: "interject_hook \<Rightarrow> interject_state \<Rightarrow> memory list \<Rightarrow> gate + memory list \<times> memory list" where
  "screen h s cands = (if cands = [] then Inl (Closed ''retrieval_failed'' False)
     else let fresh = filter (\<lambda>m. m_id m \<notin> briefed_ids s \<and> \<not> is_on_cooldown h s (m_id m)) cands in
       if fresh = [] then Inl (Closed ''cooldown'' False)
       else Inr (filter (\<lambda>m. cosine_threshold h \<le> m_score m) fresh,
         filter (\<lambda>m. cosine_threshold h - uncertain_band h \<le> m_score m \<and> m_score m < cosine_threshold h) fresh))"

definition asks_judge :: "interject_hook \<Rightarrow> memory list \<Rightarrow> bool" where
  "asks_judge h uncertain \<longleftrightarrow> uncertain \<noteq> [] \<and> llm_judge_enabled h"

definition promote :: "(memory \<Rightarrow> real) \<Rightarrow> memory list \<Rightarrow> memory list \<Rightarrow> bool \<Rightarrow> gate" where
  "promote judge passed uncertain judged = (let ms = passed @ (if judged then filter (\<lambda>m. 7 / 10 \<le> judge m) uncertain else []) in
     if ms = [] then Closed ''below_threshold'' judged else Opened (take 2 (sorted_desc m_score ms)) judged)"

text \<open>What an open gate leads to: the injection, of the contradicting memories only after a response.\<close>

definition settle :: "interject_hook \<Rightarrow> trigger \<Rightarrow> gate \<Rightarrow> interject_state \<Rightarrow> outcome \<times> interject_state" where
  "settle h t g s = (case g of Closed reason judged \<Rightarrow> (Skipped reason, s)
     | Opened ms judged \<Rightarrow> (let cs = (if t = Orchestrator_Complete then filter contradicts ms else ms) in
         if t = Orchestrator_Complete \<and> cs = [] then (Skipped ''below_threshold'', s) else surface h t cs judged s))"

lemma gate_parts:
  "relevance_gate h s judge cands = (case screen h s cands of Inl g \<Rightarrow> g
     | Inr (passed, uncertain) \<Rightarrow> promote judge passed uncertain (asks_judge h uncertain))"
  by (simp add: relevance_gate_def screen_def promote_def asks_judge_def Let_def)

text \<open>The handler in one go is its three parts in a row.\<close>

lemma handle_parts:
  "handle t sha1 h e s = (case begin_handler h t e s of (Inl out, s1) \<Rightarrow> (Inr out, s1)
     | (Inr q, s1) \<Rightarrow> (case mcp_search sha1 (ie_answer e) q 5 of Inl err \<Rightarrow> (Inl err, s1)
       | Inr cands \<Rightarrow> apfst Inr (settle h t (relevance_gate h s1 (\<lambda>m. llm_judge (ie_reply e q m)) cands) s1)))"
  by (cases t)
     (simp_all add: begin_handler_def on_prompt_submit_def on_tool_pre_def on_orchestrator_complete_def retrieve_and_gate_def
        settle_def bind_err_def Let_def split: sum.split gate.split prod.split)

section \<open>Overlapping handlers\<close>

text \<open>
  Where a handler waits: for its search with the query, or for the judge since a time, with the memories
  it passed and the memories it asked about.
\<close>

datatype waiting = Searching trigger interject_event string
  | Judging trigger interject_event string "memory list" "memory list" nat

text \<open>
  The session: the hook's state, the handlers that wait, the number of events so far, the injections (when their
  candidates were filtered, when they were marked, the turn, the ids), and what the listener was told when.
\<close>

record overlap =
  ov_state :: interject_state
  ov_waiting :: "nat \<rightharpoonup> waiting"
  ov_clock :: nat
  ov_injections :: "(nat \<times> nat \<times> int \<times> string list) list"
  ov_told :: "(nat \<times> string list) list"

datatype overlap_event = Begins nat trigger interject_event | Found nat | Judged nat | Told "string list"

definition conclude :: "interject_hook \<Rightarrow> nat \<Rightarrow> trigger \<Rightarrow> nat \<Rightarrow> gate \<Rightarrow> overlap \<Rightarrow> overlap" where
  "conclude h i t screened g a = (case settle h t g (ov_state a) of
     (out, s) \<Rightarrow> a\<lparr>ov_state := s, ov_waiting := (ov_waiting a)(i := None),
       ov_injections := ov_injections a @ (case out of Surfaced block ids sc j \<Rightarrow> [(screened, ov_clock a, turn s, ids)] | Skipped r \<Rightarrow> [])\<rparr>)"

fun overlap_act :: "(string \<Rightarrow> string) \<Rightarrow> interject_hook \<Rightarrow> overlap_event \<Rightarrow> overlap \<Rightarrow> overlap" where
  "overlap_act sha1 h (Begins i t e) a = (if \<not> registered h t \<or> ov_waiting a i \<noteq> None then a
     else case begin_handler h t e (ov_state a) of
       (Inl out, s) \<Rightarrow> a\<lparr>ov_state := s\<rparr>
     | (Inr q, s) \<Rightarrow> a\<lparr>ov_state := s, ov_waiting := (ov_waiting a)(i \<mapsto> Searching t e q)\<rparr>)"
| "overlap_act sha1 h (Found i) a = (case ov_waiting a i of
     Some (Searching t e q) \<Rightarrow> (case mcp_search sha1 (ie_answer e) q 5 of
         Inl err \<Rightarrow> a\<lparr>ov_waiting := (ov_waiting a)(i := None)\<rparr>
       | Inr cands \<Rightarrow> (case screen h (ov_state a) cands of
           Inl g \<Rightarrow> conclude h i t (ov_clock a) g a
         | Inr (passed, uncertain) \<Rightarrow> (if asks_judge h uncertain
             then a\<lparr>ov_waiting := (ov_waiting a)(i \<mapsto> Judging t e q passed uncertain (ov_clock a))\<rparr>
             else conclude h i t (ov_clock a) (promote (\<lambda>m. 0) passed uncertain False) a)))
   | _ \<Rightarrow> a)"
| "overlap_act sha1 h (Judged i) a = (case ov_waiting a i of
     Some (Judging t e q passed uncertain screened) \<Rightarrow>
       conclude h i t screened (promote (\<lambda>m. llm_judge (ie_reply e q m)) passed uncertain True) a
   | _ \<Rightarrow> a)"
| "overlap_act sha1 h (Told ids) a = a\<lparr>ov_state := on_briefing_assembled ids (ov_state a), ov_told := ov_told a @ [(ov_clock a, ids)]\<rparr>"

definition overlap_step :: "(string \<Rightarrow> string) \<Rightarrow> interject_hook \<Rightarrow> overlap_event \<Rightarrow> overlap \<Rightarrow> overlap" where
  "overlap_step sha1 h ev a = (overlap_act sha1 h ev a)\<lparr>ov_clock := ov_clock a + 1\<rparr>"

definition overlap_init :: "interject_state \<Rightarrow> overlap" where
  "overlap_init s = \<lparr>ov_state = s, ov_waiting = Map.empty, ov_clock = 0, ov_injections = [], ov_told = []\<rparr>"

definition overlap_run :: "(string \<Rightarrow> string) \<Rightarrow> interject_hook \<Rightarrow> overlap_event list \<Rightarrow> interject_state \<Rightarrow> overlap" where
  "overlap_run sha1 h evs s = fold (overlap_step sha1 h) evs (overlap_init s)"

text \<open>A handler with nothing in between its parts is the atomic handler.\<close>

lemma conclude_state [simp]: "ov_state (conclude h i t n g a) = snd (settle h t g (ov_state a))" "ov_waiting (conclude h i t n g a) = (ov_waiting a)(i := None)"
  by (simp_all add: conclude_def split: prod.split)

lemma overlap_of_atomic:
  assumes "ov_waiting a i = None" "registered h t"
  shows "ov_state (overlap_step sha1 h (Judged i) (overlap_step sha1 h (Found i) (overlap_step sha1 h (Begins i t e) a)))
    = snd (handle t sha1 h e (ov_state a))"
proof -
  obtain r s where b: "begin_handler h t e (ov_state a) = (r, s)" by (rule prod.exhaust)
  show ?thesis
  proof (cases r)
    case (Inl out)
    then show ?thesis using assms b by (simp add: overlap_step_def handle_parts)
  next
    case (Inr q)
    show ?thesis
    proof (cases "mcp_search sha1 (ie_answer e) q 5")
      case (Inl err)
      then show ?thesis using assms b Inr by (simp add: overlap_step_def handle_parts)
    next
      case cands: (Inr cands)
      show ?thesis
      proof (cases "screen h s cands")
        case (Inl g)
        then show ?thesis using assms b cands \<open>r = Inr q\<close> by (simp add: overlap_step_def handle_parts gate_parts)
      next
        case (Inr pu)
        obtain passed uncertain where "pu = (passed, uncertain)" by (rule prod.exhaust)
        then show ?thesis using Inr assms b cands \<open>r = Inr q\<close>
          by (cases "asks_judge h uncertain") (simp_all add: overlap_step_def handle_parts gate_parts promote_def)
      qed
    qed
  qed
qed


section \<open>What holds at every event\<close>

lemma begin_moved: "begin_handler h t e s = (r, s') \<Longrightarrow> moved s s'"
  by (cases t) (auto simp: begin_handler_def Let_def split: if_splits)

lemma screen_fresh:
  assumes "screen h s cands = Inr (passed, uncertain)" and "m \<in> set passed \<union> set uncertain"
  shows "m_id m \<notin> briefed_ids s" "\<not> is_on_cooldown h s (m_id m)"
  using assms by (auto simp: screen_def Let_def split: if_splits)

lemma screen_closed: "screen h s cands = Inl g \<Longrightarrow> \<exists>reason judged. g = Closed reason judged"
  by (auto simp: screen_def Let_def split: if_splits)

lemma promote_opened: "promote judge passed uncertain judged = Opened ms j \<Longrightarrow> set ms \<subseteq> set passed \<union> set uncertain"
  by (auto simp: promote_def Let_def split: if_splits dest: in_set_takeD)

lemma settle_cases:
  assumes "settle h t g s = (out, s')"
  obtains (skips) reason where "out = Skipped reason" "s' = s"
  | (injects) ms judged ids block sc where "g = Opened ms judged" "out = Surfaced block ids sc judged" "set ids \<subseteq> m_id ` set ms"
      "turn s' = turn s" "briefed_ids s' = briefed_ids s"
      "\<And>m. last_injected s' m = (if m \<in> set ids then Some (turn s) else last_injected s m)"
proof (cases g)
  case (Closed reason judged)
  then show thesis using assms by (auto simp: settle_def intro: that(1))
next
  case (Opened ms judged)
  define cs where "cs = (if t = Orchestrator_Complete then filter contradicts ms else ms)"
  show thesis
  proof (cases "t = Orchestrator_Complete \<and> cs = []")
    case True
    then show thesis using assms Opened that(1) by (auto simp: settle_def cs_def)
  next
    case False
    then have s: "surface h t cs judged s = (out, s')" using assms Opened by (auto simp: settle_def cs_def)
    then have "set (map m_id cs) \<subseteq> m_id ` set ms" by (auto simp: cs_def)
    moreover obtain block sc where "out = Surfaced block (map m_id cs) sc judged"
      using s by (auto simp: surface_def Let_def)
    moreover have "turn s' = turn s" "briefed_ids s' = briefed_ids s"
        "last_injected s' = last_injected (mark_injected (map m_id cs) s)"
      using s by (auto simp: surface_def Let_def split: if_splits)
    ultimately show thesis using that(2) Opened by (simp add: last_mark)
  qed
qed

text \<open>What a memory that passed the filter at a time is clear of: the ids told and the injections marked before.\<close>

definition clear :: "interject_hook \<Rightarrow> overlap \<Rightarrow> nat \<Rightarrow> int \<Rightarrow> string \<Rightarrow> bool" where
  "clear h a screened now m \<longleftrightarrow> (\<forall>(n, told) \<in> set (ov_told a). n < screened \<longrightarrow> m \<in> set told \<longrightarrow> m = [])
     \<and> (\<forall>(c, n, t, ids) \<in> set (ov_injections a). n < screened \<longrightarrow> m \<in> set ids \<longrightarrow> cooldown_turns h \<le> now - t)"

definition remembers :: "overlap \<Rightarrow> bool" where
  "remembers a \<longleftrightarrow> (\<forall>(n, told) \<in> set (ov_told a). n < ov_clock a \<and> {i \<in> set told. i \<noteq> []} \<subseteq> briefed_ids (ov_state a))
     \<and> (\<forall>(c, n, t, ids) \<in> set (ov_injections a). c \<le> n \<and> n < ov_clock a \<and> t \<le> turn (ov_state a) \<and> (\<forall>m \<in> set ids.
          \<exists>t'. last_injected (ov_state a) m = Some t' \<and> t \<le> t'))"

definition clean :: "interject_hook \<Rightarrow> overlap \<Rightarrow> bool" where
  "clean h a \<longleftrightarrow> (\<forall>i t e q passed uncertain c. ov_waiting a i = Some (Judging t e q passed uncertain c) \<longrightarrow>
        llm_judge_enabled h \<and> c < ov_clock a \<and> (\<forall>m \<in> set passed \<union> set uncertain. clear h a c (turn (ov_state a)) (m_id m)))
     \<and> (\<forall>(c, n, t, ids) \<in> set (ov_injections a). (c = n \<or> llm_judge_enabled h) \<and> (\<forall>m \<in> set ids. clear h a c t m))"

lemma remembersD:
  "remembers a \<Longrightarrow> (n, told) \<in> set (ov_told a) \<Longrightarrow> n < ov_clock a \<and> {i \<in> set told. i \<noteq> []} \<subseteq> briefed_ids (ov_state a)"
  "remembers a \<Longrightarrow> (c, n, t, ids) \<in> set (ov_injections a) \<Longrightarrow> m \<in> set ids \<Longrightarrow> \<exists>t'. last_injected (ov_state a) m = Some t' \<and> t \<le> t'"
  "remembers a \<Longrightarrow> (c, n, t, ids) \<in> set (ov_injections a) \<Longrightarrow> c \<le> n \<and> n < ov_clock a \<and> t \<le> turn (ov_state a)"
  unfolding remembers_def by fast+

lemma clearD:
  "clear h a c now m \<Longrightarrow> (n, told) \<in> set (ov_told a) \<Longrightarrow> n < c \<Longrightarrow> m \<in> set told \<Longrightarrow> m = []"
  "clear h a c now m \<Longrightarrow> (c', n, t, ids) \<in> set (ov_injections a) \<Longrightarrow> n < c \<Longrightarrow> m \<in> set ids \<Longrightarrow> cooldown_turns h \<le> now - t"
  unfolding clear_def by fast+

lemma clear_now:
  assumes "remembers a" and "m \<notin> briefed_ids (ov_state a)" and "\<not> is_on_cooldown h (ov_state a) m"
  shows "clear h a c (turn (ov_state a)) m"
proof -
  have "cooldown_turns h \<le> turn (ov_state a) - t" if "(c', n, t, ids) \<in> set (ov_injections a)" "m \<in> set ids" for c' n t ids
  proof -
    note logged = that
    obtain t' where "last_injected (ov_state a) m = Some t'" "t \<le> t'"
      using remembersD(2) [OF assms(1) logged] by blast
    then show ?thesis using assms(3) by (simp add: is_on_cooldown_def)
  qed
  moreover have "m = []" if "(n, told) \<in> set (ov_told a)" "m \<in> set told" for n told
    using remembersD(1) [OF assms(1) that(1)] that(2) assms(2) by blast
  ultimately show ?thesis by (fastforce simp: clear_def)
qed

text \<open>Later events are out of the reach of an earlier time.\<close>

lemma clear_later:
  assumes "clear h a c now m" and "c \<le> ov_clock a" and "now \<le> now'"
    and "set (ov_told b) \<subseteq> set (ov_told a) \<union> {ov_clock a} \<times> UNIV"
    and "set (ov_injections b) \<subseteq> set (ov_injections a) \<union> {x. fst (snd x) = ov_clock a}"
  shows "clear h b c now' m"
  unfolding clear_def
proof (intro conjI ballI; clarify)
  fix n told assume "(n, told) \<in> set (ov_told b)" "n < c" "m \<in> set told"
  moreover from this have "(n, told) \<in> set (ov_told a)" using assms(2,4) by auto
  ultimately show "m = []" using clearD(1) [OF assms(1)] by blast
next
  fix c' n t ids assume "(c', n, t, ids) \<in> set (ov_injections b)" "n < c" "m \<in> set ids"
  moreover from this have "(c', n, t, ids) \<in> set (ov_injections a)" using assms(2,5) by auto
  ultimately have "cooldown_turns h \<le> now - t" using clearD(2) [OF assms(1)] by blast
  then show "cooldown_turns h \<le> now' - t" using assms(3) by linarith
qed


lemma clean_step:
  assumes "remembers a" "clean h a"
    and "ov_clock b = ov_clock a + 1" "turn (ov_state a) \<le> turn (ov_state b)"
    and "set (ov_told b) \<subseteq> set (ov_told a) \<union> {ov_clock a} \<times> UNIV"
    and "\<And>i t e q passed uncertain c. ov_waiting b i = Some (Judging t e q passed uncertain c) \<Longrightarrow> ov_waiting a i \<noteq> ov_waiting b i \<Longrightarrow>
      llm_judge_enabled h \<and> c = ov_clock a \<and> (\<forall>m \<in> set passed \<union> set uncertain. clear h a c (turn (ov_state a)) (m_id m))"
    and "\<And>c n t ids. (c, n, t, ids) \<in> set (ov_injections b) \<Longrightarrow> (c, n, t, ids) \<notin> set (ov_injections a) \<Longrightarrow>
      n = ov_clock a \<and> c \<le> n \<and> (c = n \<or> llm_judge_enabled h) \<and> (\<forall>m \<in> set ids. clear h a c t m)"
  shows "clean h b"
proof -
  have later: "clear h b c now' m" if "clear h a c now m" "c \<le> ov_clock a" "now \<le> now'" for c now now' m
    by (rule clear_later [OF that assms(5)]) (use assms(7) in auto)
  have wait: "llm_judge_enabled h \<and> c < ov_clock b \<and> (\<forall>m \<in> set passed \<union> set uncertain. clear h b c (turn (ov_state b)) (m_id m))"
    if "ov_waiting b i = Some (Judging t e q passed uncertain c)" for i t e q passed uncertain c
  proof -
    have "llm_judge_enabled h \<and> c \<le> ov_clock a \<and> (\<forall>m \<in> set passed \<union> set uncertain. clear h a c (turn (ov_state a)) (m_id m))"
    proof (cases "ov_waiting a i = ov_waiting b i")
      case True
      then have "ov_waiting a i = Some (Judging t e q passed uncertain c)" using that by simp
      then show ?thesis using assms(2) less_imp_le unfolding clean_def by blast
    qed (use assms(6) [OF that] in auto)
    then show ?thesis using later [OF _ _ assms(4)] assms(3) by auto
  qed
  have logs: "(c = n \<or> llm_judge_enabled h) \<and> (\<forall>m \<in> set ids. clear h b c t m)"
    if "(c, n, t, ids) \<in> set (ov_injections b)" for c n t ids
  proof (cases "(c, n, t, ids) \<in> set (ov_injections a)")
    case True
    then have "(c = n \<or> llm_judge_enabled h) \<and> (\<forall>m \<in> set ids. clear h a c t m)" "c \<le> ov_clock a"
      using assms(2) remembersD(3) [OF assms(1) True] unfolding clean_def by fastforce+
    then show ?thesis using later by blast
  qed (use assms(7) [OF that] later in auto)
  show ?thesis unfolding clean_def using wait logs by fast
qed

lemma remembers_quiet:
  assumes "remembers a" and "moved (ov_state a) (ov_state b)" "ov_told b = ov_told a" "ov_injections b = ov_injections a" "ov_clock b = ov_clock a + 1"
  shows "remembers b"
  using assms unfolding remembers_def moved_def by fastforce

lemma conclude_ok:
  assumes "remembers a" "clean h a" "c \<le> ov_clock a" "c = ov_clock a \<or> llm_judge_enabled h"
    and "\<And>ms j m. g = Opened ms j \<Longrightarrow> m \<in> set ms \<Longrightarrow> clear h a c (turn (ov_state a)) (m_id m)"
    and b: "b = (conclude h i t c g a)\<lparr>ov_clock := ov_clock a + 1\<rparr>"
  shows "remembers b \<and> clean h b"
proof -
  obtain out s' where r: "settle h t g (ov_state a) = (out, s')" by (rule prod.exhaust)
  show ?thesis using r
  proof (cases rule: settle_cases)
    case (skips reason)
    then have bs: "ov_state b = ov_state a" "ov_told b = ov_told a" "ov_injections b = ov_injections a"
        "ov_clock b = ov_clock a + 1" "ov_waiting b = (ov_waiting a)(i := None)"
      using r b by (simp_all add: conclude_def)
    have "clean h b" by (rule clean_step [OF assms(1,2)]) (simp_all add: bs split: if_splits)
    then show ?thesis using remembers_quiet [OF assms(1)] bs by simp
  next
    case (injects ms j ids block sc)
    then have bs: "ov_state b = s'" "ov_told b = ov_told a" "ov_injections b = ov_injections a @ [(c, ov_clock a, turn (ov_state a), ids)]"
        "ov_clock b = ov_clock a + 1" "ov_waiting b = (ov_waiting a)(i := None)"
      using r b by (simp_all add: conclude_def)
    have "\<forall>m \<in> set ids. clear h a c (turn (ov_state a)) m" using injects(1,3) assms(5) by blast
    then have "clean h b"
      by (intro clean_step [OF assms(1,2)]) (use assms(3,4) in \<open>auto simp: bs injects(4) split: if_splits\<close>)
    moreover have "remembers b"
      using assms(1,3) injects(4-6) unfolding remembers_def bs
      by (fastforce simp: bs)
    ultimately show ?thesis by simp
  qed
qed

lemma overlap_step_ok:
  assumes "remembers a" "clean h a"
  shows "remembers (overlap_step sha1 h ev a) \<and> clean h (overlap_step sha1 h ev a)"
proof -
  have quiet: "remembers b \<and> clean h b"
    if "moved (ov_state a) (ov_state b)" "ov_told b = ov_told a" "ov_injections b = ov_injections a" "ov_clock b = ov_clock a + 1"
      "\<And>i t e q passed uncertain c. ov_waiting b i = Some (Judging t e q passed uncertain c) \<Longrightarrow> ov_waiting a i \<noteq> ov_waiting b i \<Longrightarrow>
        llm_judge_enabled h \<and> c = ov_clock a \<and> (\<forall>m \<in> set passed \<union> set uncertain. clear h a c (turn (ov_state a)) (m_id m))" for b
    using remembers_quiet [OF assms(1) that(1-4)] clean_step [OF assms that(4) _ _ that(5)] that(1-4) by (auto simp: moved_def)
  show ?thesis
  proof (cases ev)
    case (Begins i t e)
    show ?thesis
      by (rule quiet)
         (auto simp: overlap_step_def Begins dest: begin_moved split: sum.splits prod.splits if_splits)
  next
    case (Told ids)
    have "clean h (overlap_step sha1 h ev a)"
      by (rule clean_step [OF assms]) (auto simp: overlap_step_def Told on_briefing_assembled_def)
    moreover have "remembers (overlap_step sha1 h ev a)"
      using assms(1) by (fastforce simp: remembers_def overlap_step_def Told on_briefing_assembled_def)
    ultimately show ?thesis by simp
  next
    case (Judged i)
    show ?thesis
    proof (cases "\<exists>t e q passed uncertain c. ov_waiting a i = Some (Judging t e q passed uncertain c)")
      case True
      then obtain t e q passed uncertain c where w: "ov_waiting a i = Some (Judging t e q passed uncertain c)" by blast
      then have k: "llm_judge_enabled h \<and> c < ov_clock a \<and> (\<forall>m \<in> set passed \<union> set uncertain. clear h a c (turn (ov_state a)) (m_id m))"
        using assms(2) unfolding clean_def by blast
      show ?thesis
        by (rule conclude_ok [OF assms, where c = c and i = i and t = t and g = "promote (\<lambda>m. llm_judge (ie_reply e q m)) passed uncertain True"])
           (use k w in \<open>auto simp: overlap_step_def Judged dest!: promote_opened\<close>)
    next
      case False
      then have "overlap_act sha1 h ev a = a" by (auto simp: Judged split: option.split waiting.split)
      then show ?thesis by (intro quiet) (simp_all add: overlap_step_def)
    qed
  next
    case (Found i)
    show ?thesis
    proof (cases "\<exists>t e q. ov_waiting a i = Some (Searching t e q)")
      case True
      then obtain t e q where w: "ov_waiting a i = Some (Searching t e q)" by blast
      show ?thesis
      proof (cases "mcp_search sha1 (ie_answer e) q 5")
        case (Inl err)
        then show ?thesis using w by (intro quiet) (auto simp: overlap_step_def Found split: if_splits)
      next
        case cands: (Inr cands)
        show ?thesis
        proof (cases "screen h (ov_state a) cands")
          case (Inl g)
          then show ?thesis
            by (intro conclude_ok [OF assms, where c = "ov_clock a" and i = i and t = t and g = g])
               (use w cands screen_closed [OF Inl] in \<open>auto simp: overlap_step_def Found\<close>)
        next
          case (Inr pu)
          then obtain passed uncertain where sc: "screen h (ov_state a) cands = Inr (passed, uncertain)" by (cases pu) simp
          have fresh: "clear h a (ov_clock a) (turn (ov_state a)) (m_id m)" if "m \<in> set passed \<union> set uncertain" for m
            by (rule clear_now [OF assms(1) screen_fresh [OF sc that]])
          show ?thesis
          proof (cases "asks_judge h uncertain")
            case True
            then show ?thesis
              by (intro quiet) (use w cands sc fresh in \<open>auto simp: overlap_step_def Found asks_judge_def split: if_splits\<close>)
          next
            case False
            then show ?thesis
              by (intro conclude_ok [OF assms, where c = "ov_clock a" and i = i and t = t and g = "promote (\<lambda>m. 0) passed uncertain False"])
                 (use w cands sc fresh in \<open>auto simp: overlap_step_def Found dest!: promote_opened\<close>)
          qed
        qed
      qed
    next
      case False
      then have "overlap_act sha1 h ev a = a" by (auto simp: Found split: option.split waiting.split)
      then show ?thesis by (intro quiet) (simp_all add: overlap_step_def)
    qed
  qed
qed

lemma overlap_run_ok: "remembers (overlap_run sha1 h evs s) \<and> clean h (overlap_run sha1 h evs s)"
proof -
  have "remembers (fold (overlap_step sha1 h) evs a) \<and> clean h (fold (overlap_step sha1 h) evs a)" if "remembers a" "clean h a" for a
    using that by (induction evs arbitrary: a) (simp_all add: overlap_step_ok)
  moreover have "remembers (overlap_init s) \<and> clean h (overlap_init s)" by (simp add: remembers_def clean_def overlap_init_def)
  ultimately show ?thesis by (simp add: overlap_run_def)
qed


section \<open>Properties\<close>

text \<open>Two judged tool calls that bring the same memory, and prompts around three responses of a sub-session.\<close>

definition judged_hook :: interject_hook where
  "judged_hook = demo_hook\<lparr>tool_pre_enabled := True, llm_judge_enabled := True\<rparr>"

definition uncertain_event :: interject_event where
  "uncertain_event = demo_event\<lparr>ie_tool := ''search of the memory'', ie_reply := (\<lambda>q m. Some (Fin 1)),
     ie_answer := (\<lambda>q n. Some [Some \<lparr>raw_ref = ''b'', raw_text = ''text'', raw_path = [], raw_score = Inr (65 / 100)\<rparr>])\<rparr>"

abbreviation spaced_session :: "overlap_event list" where
  "spaced_session \<equiv> [Told [''c''], Begins 0 Prompt_Submit demo_event, Found 0, Begins 1 Prompt_Submit demo_event, Found 1]
     @ replicate 3 (Begins 2 Orchestrator_Complete (demo_event\<lparr>ie_sub := True\<rparr>)) @ [Begins 3 Prompt_Submit demo_event, Found 3]"

lemmas overlap_simps = overlap_run_def overlap_init_def overlap_step_def begin_handler_def tool_query_def mcp_search_def memory_of_def
  bind_err_def screen_def asks_judge_def promote_def settle_def conclude_def surface_def mark_injected_def is_on_cooldown_def
  on_briefing_assembled_def interject_init_def sorted_desc_def llm_judge_def demo_hook_def demo_event_def demo_short_def Let_def

lemma spaced_injections:
  "ov_injections (overlap_run (\<lambda>_. []) demo_hook spaced_session interject_init) = [(2, 2, 0, [''b'']), (9, 9, 3, [''b''])]"
  by (simp add: overlap_simps numeral_3_eq_3)

text \<open>
  C3: over any interleaving of the handlers of a session with each other, with their searches and judges and
  with the briefing listener: an injection comes at least \<open>cooldown_turns\<close> turns after every injection of one of
  its memories that was marked before its own candidates were filtered, and it holds no memory the listener was
  told of before that filtering.  With the judge off, as by default, the filtering and the marking are one event, so
  every injection is spaced from all the earlier ones.
\<close>
theorem cooldown_over_overlapping_handlers:
  "\<forall>(c, n, t, ids) \<in> set (ov_injections (overlap_run sha1 h evs s)). (c = n \<or> llm_judge_enabled h)
     \<and> (\<forall>(c', n', t', ids') \<in> set (ov_injections (overlap_run sha1 h evs s)). n' < c \<longrightarrow> set ids \<inter> set ids' \<noteq> {} \<longrightarrow> cooldown_turns h \<le> t - t')
     \<and> (\<forall>(k, told) \<in> set (ov_told (overlap_run sha1 h evs s)). k < c \<longrightarrow> set ids \<inter> {i \<in> set told. i \<noteq> []} = {})"
proof -
  let ?a = "overlap_run sha1 h evs s"
  have *: "(c = n \<or> llm_judge_enabled h) \<and> (\<forall>m \<in> set ids. clear h ?a c t m)" if "(c, n, t, ids) \<in> set (ov_injections ?a)" for c n t ids
    using conjunct2 [OF overlap_run_ok [of sha1 h evs s]] that unfolding clean_def by fast
  have "cooldown_turns h \<le> t - t'"
    if "(c, n, t, ids) \<in> set (ov_injections ?a)" "(c', n', t', ids') \<in> set (ov_injections ?a)" "n' < c" "m \<in> set ids" "m \<in> set ids'" for c n t ids c' n' t' ids' m
    using * [OF that(1)] clearD(2) [OF _ that(2,3,5)] that(4) by blast
  moreover have "m = []"
    if "(c, n, t, ids) \<in> set (ov_injections ?a)" "(k, told) \<in> set (ov_told ?a)" "k < c" "m \<in> set ids" "m \<in> set told" for c n t ids k told m
    using * [OF that(1)] clearD(1) [OF _ that(2,3,5)] that(4) by blast
  ultimately show ?thesis using * by fast
qed

theorem cooldown_over_overlapping_handlers_witness:
  "ov_injections (overlap_run (\<lambda>_. []) demo_hook spaced_session interject_init) = [(2, 2, 0, [''b'']), (9, 9, 3, [''b''])]
   \<and> cooldown_turns demo_hook \<le> 3 - 0"
  using cooldown_over_overlapping_handlers [of "\<lambda>_. []" demo_hook spaced_session interject_init]
  unfolding spaced_injections by simp

text \<open>
  with the judge on the filtering and the marking are apart: two tool calls whose handlers wait for their judges at the
  same time both inject the same memory, in the same turn, whatever the cooldown.
\<close>
theorem overlapping_judges_inject_twice:
  "ov_injections (overlap_run (\<lambda>_. []) judged_hook [Begins 0 Tool_Pre uncertain_event, Begins 1 Tool_Pre uncertain_event,
      Found 0, Found 1, Judged 0, Judged 1] interject_init) = [(2, 4, 0, [''b'']), (3, 5, 0, [''b''])]
   \<and> 0 < cooldown_turns judged_hook"
  by (simp add: overlap_simps judged_hook_def uncertain_event_def)

text \<open>
  a memory the briefing reports while the judge is out is injected although it is in the briefing.
\<close>
theorem briefing_during_judging_is_repeated:
  "ov_injections (overlap_run (\<lambda>_. []) judged_hook [Begins 0 Tool_Pre uncertain_event, Found 0, Told [''b''], Judged 0] interject_init)
    = [(1, 3, 0, [''b''])]"
  by (simp add: overlap_simps judged_hook_def uncertain_event_def)

end
