(* ===== verification/Tool_Output.thy ===== *)
theory Tool_Output
  imports Tool
begin

text \<open>
  The output of the memory tool: for every operation the JSON object a successful call dumps, with the shape of
  each field, tied to the arguments of the call (limits, modes, actions, the budget of a garden run).  The tool is
  connected to the daemon of \<open>Rpc\<close>, since a search, the status and the KG answers pass through as the daemon gives them.
\<close>

section \<open>Shapes of JSON values\<close>

fun is_str :: "yaml \<Rightarrow> bool" where "is_str (YStr s) = True" | "is_str v = False"

fun is_bool :: "yaml \<Rightarrow> bool" where "is_bool (YBool b) = True" | "is_bool v = False"

fun is_int :: "yaml \<Rightarrow> bool" where "is_int (YInt n) = True" | "is_int v = False"

fun is_float :: "yaml \<Rightarrow> bool" where "is_float (YFloat x) = True" | "is_float v = False"

text \<open>A count, at most a bound if there is one.\<close>

fun is_count :: "nat option \<Rightarrow> yaml \<Rightarrow> bool" where
  "is_count bound (YInt n) = (0 \<le> n \<and> (case bound of None \<Rightarrow> True | Some b \<Rightarrow> n \<le> int b))"
| "is_count bound v = False"

definition nullable :: "(yaml \<Rightarrow> bool) \<Rightarrow> yaml \<Rightarrow> bool" where
  "nullable P v \<longleftrightarrow> v = YNull \<or> P v"

fun list_of :: "nat option \<Rightarrow> (yaml \<Rightarrow> bool) \<Rightarrow> yaml \<Rightarrow> bool" where
  "list_of bound P (YList xs) = (list_all P xs \<and> (case bound of None \<Rightarrow> True | Some b \<Rightarrow> length xs \<le> b))"
| "list_of bound P v = False"

text \<open>An object with exactly these keys in this order.\<close>

fun object_of :: "(string \<times> (yaml \<Rightarrow> bool)) list \<Rightarrow> yaml \<Rightarrow> bool" where
  "object_of fs (YMap m) = list_all2 (\<lambda>(k, P) (k', v). k' = k \<and> P v) fs m"
| "object_of fs v = False"

section \<open>The output of each operation\<close>

definition is_hit :: "yaml \<Rightarrow> bool" where
  "is_hit = object_of [(''ref'', is_str), (''score'', is_float), (''content'', is_str), (''wing'', nullable is_str), (''room'', nullable is_str),
     (''category'', nullable is_str), (''source'', nullable is_str), (''importance'', nullable is_float)]"

definition is_event :: "yaml \<Rightarrow> bool" where
  "is_event = object_of [(''sid'', is_str), (''hook'', is_str), (''event'', is_str), (''ok'', is_bool), (''preview'', nullable is_str), (''data'', \<lambda>v. True)]"

definition is_fact :: "yaml \<Rightarrow> bool" where
  "is_fact v = (case v of YList [x, p, y] \<Rightarrow> is_str x \<and> is_str p \<and> is_str y | _ \<Rightarrow> False)"

definition kg_shape :: "yaml \<Rightarrow> yaml \<Rightarrow> bool" where
  "kg_shape act = (if act = YStr ''query'' then object_of [(''facts'', list_of None is_fact)]
     else if act = YStr ''add'' \<or> act = YStr ''invalidate'' then object_of [(''ok'', \<lambda>v. v = YBool True)]
     else if act = YStr ''timeline'' then object_of [(''entries'', list_of None
       (object_of [(''seq_pos'', is_int), (''op'', is_str), (''predicate'', is_str), (''object'', is_str)]))]
     else object_of [(''facts'', is_count None), (''entities'', is_count None)])"

definition diary_shape :: "yaml \<Rightarrow> yaml \<Rightarrow> bool" where
  "diary_shape act = (if act = YStr ''write'' then object_of [(''ref'', is_str)]
     else object_of [(''entries'', list_of None (object_of [(''ref'', is_str), (''entry'', is_str), (''topic'', is_str), (''seq_pos'', is_int)]))])"

text \<open>The mode and the key of the filed chunks or messages are those of the call; files are counted up to the limit.\<close>

definition mine_shape :: "yaml \<Rightarrow> yaml \<Rightarrow> bool" where
  "mine_shape mode = (let convos = (mode = YStr ''convos'') in
     object_of [(''mode'', \<lambda>v. v = YStr (if convos then ''convos'' else ''files'')), (''path'', is_str),
       (''files_scanned'', is_count (if convos then None else Some 500)),
       (if convos then ''messages_filed'' else ''chunks_filed'', is_count None), (''errors'', list_of None is_str)])"

text \<open>A page of at most \<open>limit\<close> events, kept between 1 and 200, out of at most 10,000.\<close>

definition events_shape :: "py_error + int \<Rightarrow> yaml \<Rightarrow> bool" where
  "events_shape limit v = (case limit of Inl e \<Rightarrow> False | Inr raw \<Rightarrow>
     object_of [(''session_id'', is_str), (''event_count'', is_count (Some 10000)), (''returned'', is_count None), (''skipped_lines'', is_count None),
       (''events'', list_of (Some (nat (max 1 (min raw 200)))) (nullable is_event))] v
     \<and> (case (json_item v ''event_count'', json_item v ''returned'', json_item v ''events'') of
          (Inr (YInt n), Inr (YInt r), Inr (YList es)) \<Rightarrow> r = int (length es) \<and> r \<le> n | _ \<Rightarrow> False))"

definition is_cluster :: "yaml \<Rightarrow> bool" where
  "is_cluster = object_of [(''id'', is_str), (''label'', is_str), (''size'', is_count None), (''dominant_category'', is_str), (''rooms'', list_of None is_str)]"

text \<open>
  The scope is that of the call, and the report is the one the garden gave for the call's arguments and a budget
  kept between 1 and 500.
\<close>

definition garden_shape :: "'s tool_env \<Rightarrow> json_args \<Rightarrow> 's \<Rightarrow> yaml \<Rightarrow> bool" where
  "garden_shape env args s v = (case (to_int (te_conversions env) (arg_or args ''max_drawers'' (YInt 200)), garden_request env args) of
     (Inr raw, Inr c) \<Rightarrow> gc_max c = max 1 (min raw 500)
       \<and> object_of [(''scope'', object_of [(''wing'', \<lambda>x. x = (let a = arg_or args ''wing'' YNull in if truthy a then a else YStr ''unknown'')),
            (''room'', \<lambda>x. x = arg_or args ''room'' YNull), (''lookback_days'', \<lambda>x. x = YInt (gc_days c))]),
          (''drawers_analyzed'', is_count None), (''clusters'', list_of None is_cluster), (''kg_edges_created'', is_count None),
          (''importance_backfilled'', is_count None), (''diary_entry'', is_str)] v
       \<and> (case te_garden env c s of (marks, Some (Inr r), s') \<Rightarrow> v = garden_json c r | _ \<Rightarrow> False)
   | _ \<Rightarrow> False)"

definition well_typed :: "'s tool_env \<Rightarrow> string \<Rightarrow> json_args \<Rightarrow> 's \<Rightarrow> yaml \<Rightarrow> bool" where
  "well_typed env op args s v = (
     if op = ''search'' then (case to_int (te_conversions env) (arg_or args ''limit'' (YInt 5)) of Inl e \<Rightarrow> False
       | Inr k \<Rightarrow> object_of [(''results'', list_of (Some (nat k)) is_hit), (''degraded'', nullable is_str)] v)
     else if op = ''remember'' then object_of [(''ref'', is_str)] v
     else if op = ''status'' then object_of [(''drawers'', is_count None), (''wings'', list_of None is_str), (''kg_facts'', is_count None),
       (''embedder'', object_of [(''ready'', is_bool), (''failed'', nullable is_str)])] v
     else if op = ''kg'' then kg_shape (arg_or args ''kg_action'' (YStr ''query'')) v
     else if op = ''traverse'' then object_of [(''refs'', list_of None is_str)] v
     else if op = ''diary'' then diary_shape (arg_or args ''diary_action'' (YStr ''read'')) v
     else if op = ''mine'' then mine_shape (arg_or args ''mode'' (YStr ''files'')) v
     else if op = ''events'' then events_shape (to_int (te_conversions env) (arg_or args ''limit'' (YInt 50))) v
     else op = ''garden'' \<and> garden_shape env args s v)"

section \<open>What the daemon answers\<close>

lemma nullable_simps [simp]: "nullable P YNull" "nullable is_str (opt_json x)" "nullable is_float (opt_num r)"
  by (simp_all add: nullable_def opt_json_def opt_num_def split: option.split)

lemma strings [simp]: "list_all is_str (map YStr xs)"
  by (simp add: list_all_iff)

lemma hit_shape: "is_hit (hit_json h)"
  by (simp add: is_hit_def hit_json_def)

lemma search_length: "search numpy dec S i0 L f qv k wng rm lexq = Inr hs \<Longrightarrow> length hs \<le> nat k"
  by (auto simp: search_def Let_def bind_err_Inr top_k_def mapM_Inr_iff dest!: list_all2_lengthD)

lemma http_ok: "http_call sv tool args st = (Inr v, st') \<Longrightarrow> dispatch_json sv tool args st = (Inr (Some v), st')"
  by (auto simp: http_call_def split: prod.splits sum.splits option.splits)

text \<open>The daemon's replies to the tools that pass through.\<close>

lemma search_reply:
  assumes "dispatch_json sv ''search'' args st = (Inr (Some v), st')"
  obtains k where "to_int (sv_conversions sv) (arg_or args ''k'' (YInt 5)) = Inr k"
    "object_of [(''results'', list_of (Some (nat k)) is_hit), (''degraded'', nullable is_str)] v"
  using assms
  by (auto simp: dispatch_json_def Let_def bind_err_Inr hit_shape list_all_iff split: prod.splits dest!: search_length)

lemma status_reply:
  "dispatch_json sv ''status'' args st = (Inr (Some v), st') \<Longrightarrow> object_of [(''drawers'', is_count None), (''wings'', list_of None is_str),
     (''kg_facts'', is_count None), (''embedder'', object_of [(''ready'', is_bool), (''failed'', nullable is_str)])] v"
  by (auto simp: dispatch_json_def Let_def bind_err_Inr embedder_json_def nullable_def opt_json_def split: prod.splits option.splits)

lemma stats_reply:
  "dispatch_json sv ''kg_stats'' args st = (Inr (Some v), st') \<Longrightarrow> object_of [(''facts'', is_count None), (''entities'', is_count None)] v"
  by (auto simp: dispatch_json_def Let_def bind_err_Inr split: prod.splits)

lemma facts_reply:
  assumes "dispatch_json sv ''kg_query'' args st = (Inr (Some v), st')"
  shows "\<exists>fs. v = YMap [(''facts'', YList (map (\<lambda>(x, p, y). YList [YStr x, YStr p, YStr y]) fs))]"
  using assms by (auto simp: dispatch_json_def Let_def bind_err_Inr)

lemma timeline_entries:
  assumes "kg_timeline sv subj s = Inr v"
  shows "\<exists>es. v = YMap [(''entries'', YList es)]
    \<and> (\<forall>e \<in> set es. object_of [(''seq_pos'', is_int), (''op'', is_str), (''predicate'', is_str), (''object'', is_str)] e)"
proof -
  obtain es where es: "v = YMap [(''entries'', YList es)]" "mapM (\<lambda>(pos, opn, pred, obj).
       bind_err (bind_err (regenerate (sv_lenses sv s) obj) (decode_strict (sv_lenses sv s))) (\<lambda>t.
         Inr (YMap [(''seq_pos'', YInt pos), (''op'', YStr opn), (''predicate'', YStr pred), (''object'', YStr (anchor_name t))])))
       (sv_timeline sv s (read_ref (sv_substrate sv) (sv_i0 sv) (''entity:'' @ subj))) = Inr es"
    using assms by (auto simp: kg_timeline_def bind_err_Inr)
  have "object_of [(''seq_pos'', is_int), (''op'', is_str), (''predicate'', is_str), (''object'', is_str)] e" if "e \<in> set es" for e
    using mapM_Inr_set [OF es(2) that] by (auto simp: bind_err_Inr split: prod.splits)
  then show ?thesis using es(1) by blast
qed

lemma timeline_reply:
  "dispatch_json sv ''kg_timeline'' args st = (Inr (Some v), st') \<Longrightarrow> \<exists>es. v = YMap [(''entries'', YList es)]
    \<and> (\<forall>e \<in> set es. object_of [(''seq_pos'', is_int), (''op'', is_str), (''predicate'', is_str), (''object'', is_str)] e)"
  by (auto simp: dispatch_json_def Let_def bind_err_Inr dest!: timeline_entries)

lemma refs_reply:
  "dispatch_json sv ''traverse'' args st = (Inr (Some v), st') \<Longrightarrow> \<exists>rs. v = YMap [(''refs'', YList (map YStr rs))]"
  by (auto simp: dispatch_json_def Let_def bind_err_Inr)

lemma diary_reply:
  "dispatch_json sv ''diary_read'' args st = (Inr (Some v), st') \<Longrightarrow> \<exists>es. v = YMap [(''entries'', YList (map diary_json es))]"
  by (auto simp: dispatch_json_def Let_def bind_err_Inr)

section \<open>What the tool makes of it\<close>

lemma call_connected: "connected env sv \<Longrightarrow> call_client env meth s = meth (http_call sv) s"
  by (simp add: call_client_def connected_def)

lemma on_daemon_run: "on_daemon f w = (r, w') \<Longrightarrow> f (tw_daemon w) = (r, tw_daemon w')"
  by (auto simp: on_daemon_def split: prod.splits)

lemma reply_with_Inr: "reply_with out f = (Inr x, s') \<Longrightarrow> \<exists>v. out = (Inr v, s') \<and> f v = Inr x"
  by (auto simp: reply_with_def bind_err_Inr split: prod.splits)

lemma with_int_Inr:
  "with_int env args k d f w = (Inr x, w') \<Longrightarrow> \<exists>n. to_int (te_conversions env) (arg_or args k (YInt d)) = Inr n \<and> f n w = (Inr x, w')"
  by (auto simp: with_int_def split: sum.splits)

lemma is_fact_tuples:
  assumes "mapM fact_tuple (map (\<lambda>(x, p, y). YList [YStr x, YStr p, YStr y]) fs) = Inr ts"
  shows "\<forall>t \<in> set ts. is_fact (case t of (x, p, y) \<Rightarrow> YList [x, p, y])"
proof -
  have "mapM fact_tuple (map (\<lambda>(x, p, y). YList [YStr x, YStr p, YStr y]) fs) = Inr (map (\<lambda>(x, p, y). (YStr x, YStr p, YStr y)) fs)" for fs
    by (induction fs) (auto simp: fact_tuple_def json_nth_def)
  then show ?thesis using assms by (auto simp: is_fact_def)
qed

lemma op_search_typed:
  assumes "connected env sv" "op_search env args w = (Success v, w')"
  shows "well_typed env ''search'' args (tw_daemon w) v"
proof -
  obtain k where k: "to_int (te_conversions env) (arg_or args ''limit'' (YInt 5)) = Inr k"
    and run: "http_call sv ''search'' [(''query'', arg_or args ''query'' (YStr [])), (''k'', YInt k), (''wing'', or_null (arg_or args ''wing'' YNull)),
      (''room'', or_null (arg_or args ''room'' YNull))] (tw_daemon w) = (Inr v, tw_daemon w')"
    using assms(2) by (auto simp: op_search_def call_connected [OF assms(1)] client_search_def dest!: finish_Success with_int_Inr on_daemon_run)
  obtain k' where "to_int (sv_conversions sv) (YInt k) = Inr k'"
    "object_of [(''results'', list_of (Some (nat k')) is_hit), (''degraded'', nullable is_str)] v"
    by (rule search_reply [OF http_ok [OF run]]) (simp add: arg_or_def)
  then show ?thesis using k by (simp add: well_typed_def to_int_def del: object_of.simps)
qed

lemma op_remember_typed: "op_remember env args w = (Success v, w') \<Longrightarrow> well_typed env ''remember'' args s v"
  by (auto simp: op_remember_def well_typed_def wrapped_def dest!: finish_Success)

lemma op_status_typed:
  assumes "connected env sv" "op_status env args w = (Success v, w')"
  shows "well_typed env ''status'' args s v"
  using assms(2) by (auto simp: op_status_def call_connected [OF assms(1)] client_status_def well_typed_def simp del: object_of.simps
      dest!: finish_Success on_daemon_run http_ok intro!: status_reply)

lemma op_kg_typed:
  assumes "connected env sv" "op_kg env args w = (Success v, w')"
  shows "well_typed env ''kg'' args s v"
proof -
  let ?act = "arg_or args ''kg_action'' (YStr ''query'')"
  have run: "kg_run env args (tw_daemon w) = (Inr v, tw_daemon w')"
    using assms(2) by (auto simp: op_kg_def dest!: finish_Success on_daemon_run)
  consider "?act = YStr ''query''" | "?act = YStr ''add'' \<or> ?act = YStr ''invalidate''" | "?act = YStr ''timeline''"
    | "?act \<notin> {YStr ''query'', YStr ''add'', YStr ''invalidate'', YStr ''timeline''}" by auto
  then have "kg_shape ?act v"
  proof cases
    case 1
    then obtain ts s1 where "client_kg_query (http_call sv) (or_null (arg_or args ''entity'' YNull)) YNull (tw_daemon w) = (Inr ts, s1)"
        "v = wrapped ''facts'' (YList (map (\<lambda>(x, p, y). YList [x, p, y]) ts))"
      using run by (auto simp: kg_run_def call_connected [OF assms(1)] bind_err_Inr split: prod.splits)
    moreover from this(1) have "\<forall>t \<in> set ts. is_fact (case t of (x, p, y) \<Rightarrow> YList [x, p, y])"
      by (auto simp: client_kg_query_def bind_err_Inr json_item_def json_list_def simp del: mapM.simps
          dest!: reply_with_Inr http_ok facts_reply is_fact_tuples)
    ultimately show ?thesis by (simp add: 1 kg_shape_def wrapped_def list_all_iff)
  next
    case 2
    then show ?thesis using run by (auto simp: kg_run_def kg_shape_def wrapped_def Let_def bind_err_Inr split: prod.splits)
  next
    case 3
    then obtain es s1 where "client_kg_timeline (http_call sv) (arg_or args ''entity'' (YStr [])) (tw_daemon w) = (Inr es, s1)" "v = wrapped ''entries'' es"
      using run by (auto simp: kg_run_def call_connected [OF assms(1)] bind_err_Inr split: prod.splits)
    then show ?thesis
      by (auto simp: 3 client_kg_timeline_def json_item_def kg_shape_def wrapped_def list_all_iff simp del: object_of.simps(2)
          dest!: reply_with_Inr http_ok timeline_reply)
  next
    case 4
    then have "http_call sv ''kg_stats'' [] (tw_daemon w) = (Inr v, tw_daemon w')"
      using run by (simp add: kg_run_def Let_def call_connected [OF assms(1)] client_kg_stats_def)
    then show ?thesis using stats_reply [OF http_ok] 4 by (simp add: kg_shape_def del: object_of.simps)
  qed
  then show ?thesis by (simp add: well_typed_def)
qed

lemma op_traverse_typed:
  assumes "connected env sv" "op_traverse env args w = (Success v, w')"
  shows "well_typed env ''traverse'' args s v"
  using assms(2)
  by (auto simp: op_traverse_def call_connected [OF assms(1)] client_traverse_def json_item_def json_list_def bind_err_Inr well_typed_def wrapped_def
      dest!: finish_Success with_int_Inr on_daemon_run reply_with_Inr http_ok refs_reply)

lemma op_diary_typed:
  assumes "connected env sv" "op_diary env args w = (Success v, w')"
  shows "well_typed env ''diary'' args s v"
proof (cases "arg_or args ''diary_action'' (YStr ''read'') = YStr ''write''")
  case True
  then show ?thesis using assms(2)
    by (auto simp: op_diary_def Let_def well_typed_def diary_shape_def wrapped_def dest!: finish_Success)
next
  case False
  then obtain es n where "client_diary_read (http_call sv) (arg_or args ''agent_name'' (YStr ''amplifier'')) (YInt n) (tw_daemon w) = (Inr es, tw_daemon w')"
      "v = wrapped ''entries'' (YList es)"
    using assms(2) by (auto simp: op_diary_def Let_def call_connected [OF assms(1)] dest!: finish_Success with_int_Inr on_daemon_run)
  then obtain ds where "v = wrapped ''entries'' (YList (map diary_json ds))"
    by (auto simp: client_diary_read_def json_item_def json_list_def bind_err_Inr dest!: reply_with_Inr http_ok diary_reply)
  then show ?thesis using False by (simp add: well_typed_def diary_shape_def wrapped_def list_all_iff diary_json_def)
qed

lemma mine_json_shape:
  assumes "mode = ''files'' \<longrightarrow> mr_scanned m \<le> MINE_MAX_FILES" "mode = (if arg = YStr ''convos'' then ''convos'' else ''files'')"
  shows "mine_shape arg (mine_json mode shown rt (if arg = YStr ''convos'' then ''messages_filed'' else ''chunks_filed'') m)"
  using assms by (auto simp: mine_shape_def mine_json_def MINE_MAX_FILES_def Let_def list_all_iff)

lemma op_mine_typed:
  assumes "op_mine env args w = (Success v, w')"
  shows "well_typed env ''mine'' args s v"
proof -
  let ?mode = "arg_or args ''mode'' (YStr ''files'')"
  have run: "mine_run env args (tw_daemon w) = (Inr v, tw_daemon w')"
    using assms by (auto simp: op_mine_def on_daemon_def split: prod.splits sum.splits py_error.splits)
  have "mine_shape ?mode v"
  proof (cases "?mode = YStr ''convos''")
    case True
    then obtain shown and rt :: "convo_doc mine_root" and m where "v = mine_json ''convos'' shown rt ''messages_filed'' m"
      using run by (auto simp: mine_run_def bind_err_Inr split: yaml.splits prod.splits)
    then show ?thesis using mine_json_shape [of "''convos''" m ?mode shown rt] True by simp
  next
    case False
    then obtain shown and rt :: "string mine_root" and m where "v = mine_json ''files'' shown rt ''chunks_filed'' m" "mr_scanned m \<le> MINE_MAX_FILES"
      using run by (auto simp: mine_run_def bind_err_Inr split: yaml.splits prod.splits dest!: mine_files_scanned)
    then show ?thesis using mine_json_shape [of "''files''" m ?mode shown rt] False by simp
  qed
  then show ?thesis by (simp add: well_typed_def)
qed

lemma line_shape: "nullable is_event (line_json l)"
  by (cases l) (simp_all add: nullable_def is_event_def event_json_def opt_json_def split: option.split)

lemma op_events_typed:
  assumes "op_events env args w = (Success v, w')"
  shows "well_typed env ''events'' args s v"
proof -
  let ?tail = "truthy (arg_or args ''tail'' (YBool True))"
  have run: "events_run env args (tw_events w) = Inr v" using assms by (auto simp: op_events_def split: sum.splits)
  obtain es skipped where
    es: "read_events_counting (tw_events w) (te_session env (str_arg args ''session_id'')) (str_arg args ''hook_filter'') (str_arg args ''event_filter'')
            EVENTS_CEILING False = (es, skipped)" by (rule prod.exhaust)
  obtain raw rsid where raw: "to_int (te_conversions env) (arg_or args ''limit'' (YInt 50)) = Inr raw"
    and v: "v = YMap [(''session_id'', YStr rsid), (''event_count'', YInt (int (length es))),
        (''returned'', YInt (int (length (events_page ?tail (clamp_limit raw) es)))), (''skipped_lines'', YInt (int skipped)),
        (''events'', YList (map line_json (events_page ?tail (clamp_limit raw) es)))]"
    using run es by (auto simp: events_run_def bind_err_Inr Let_def)
  let ?page = "events_page ?tail (clamp_limit raw) es"
  have "length es \<le> 10000" using read_ceiling [of "tw_events w"] es by (metis fst_conv)
  moreover have "int (length ?page) \<le> max 1 (min raw 200)"
    using events_page_length(1) [OF clamp_limit_range(1)] by (simp add: clamp_limit_def)
  moreover have "length ?page \<le> length es" using events_page_length(2) clamp_limit_range(1) .
  ultimately show ?thesis
    by (simp add: well_typed_def events_shape_def raw v json_item_def list_all_iff line_shape nat_le_iff le_nat_iff)
qed

lemma clusters_shape: "list_all is_cluster (map cluster_json cs)"
  by (simp add: list_all_iff is_cluster_def cluster_json_def)

lemma op_garden_typed:
  assumes "op_garden env args w = (Success v, w')"
  shows "well_typed env ''garden'' args (tw_daemon w) v"
proof -
  obtain c where c: "garden_request env args = Inr c" using assms by (auto simp: op_garden_def split: sum.splits)
  then obtain raw where raw: "to_int (te_conversions env) (arg_or args ''max_drawers'' (YInt 200)) = Inr raw" "gc_max c = max 1 (min raw 500)"
      "gc_wing c = arg_or args ''wing'' YNull" "gc_room c = arg_or args ''room'' YNull"
    by (auto simp: garden_request_def Let_def bind_err_Inr clamp_drawers_def)
  obtain marks r s' where "te_garden env c (tw_daemon w) = (marks, Some (Inr r), s')" "v = garden_json c r"
    using assms c by (auto simp: op_garden_def Let_def split: prod.splits option.splits sum.splits)
  then show ?thesis using c raw
    by (simp add: well_typed_def garden_shape_def) (simp add: garden_json_def clusters_shape Let_def)
qed

lemmas daemon_operations_typed = op_search_typed op_status_typed op_kg_typed op_traverse_typed op_diary_typed

lemmas own_operations_typed = op_remember_typed op_mine_typed op_events_typed op_garden_typed

section \<open>Properties\<close>



end
