(* ===== verification/Spec2Isabelle.thy ===== *)
theory Spec2Isabelle
  imports Salience Usage Phase3 Manifest Mutation Memory_Store Fold Vector Native_Store Lexical Native_Read Gateway Snapshot Daemon Client Capture Garden Interject Briefing Context_Sleep Behavioral Project_Context Tool Migrate Server Bridge Mount Expiry Kernel_Access Curate Spawn Overlap Tool_Output
begin

text \<open>
  A verification development for amplifier-bundle-memory, the memory of an agent: hooks that watch a session, a tool
  the agent calls, a daemon that owns the store, and the store itself.

  \<^bold>\<open>The program.\<close>  A session mounts modules (\<open>src/modules/*\<close>); each registers handlers with the kernel's hook registry
  (\<open>Mount\<close>).  After a tool call the capture hook decides whether the output is worth keeping, spools it and queues it; a
  drain thread files it as a drawer (\<open>Capture\<close>), and a future per queued job carries the outcome back to the
  session (\<open>Bridge\<close>).  Every hook writes to one event log per session (\<open>Events\<close>), which the behavioral hook reads at
  the end to learn importances (\<open>Behavioral\<close>) and the curation scripts read to consolidate (\<open>Curate\<close>).  At
  the first prompt the briefing hook injects what it prefetched (\<open>Briefing\<close>), and the interjection hook surfaces single
  memories during the session (\<open>Interject\<close>, \<open>Overlap\<close>).  The context manager consolidates a long window
  (\<open>Context_Sleep\<close>) and the project hook keeps coordination files (\<open>Project_Context\<close>).  The agent's tool (\<open>Tool\<close>,
  \<open>Tool_Output\<close>, \<open>Mine\<close>, \<open>Garden\<close>) and the hooks reach the daemon through a client that finds or starts it (\<open>Client\<close>,
  \<open>Spawn\<close>) and calls it over HTTP (\<open>Rpc\<close>, \<open>Gateway\<close>, \<open>Server\<close>).  The daemon serves its domain operations (\<open>Daemon\<close>) over a
  serialized kernel (\<open>Kernel_Access\<close>) and the native store, which appends events to a log (\<open>Native_Store\<close>) and
  answers reads from a fold of it (\<open>Fold\<close>, \<open>Vector\<close>, \<open>Native_Read\<close>, \<open>Snapshot\<close>, \<open>Expiry\<close>).

  \<^bold>\<open>The theories and the code\<close> (paths below \<open>src/modules/tool-memory/amplifier_module_tool_memory/\<close> unless another module
  is named):
  \<^item> \<open>Prelude\<close>: the Python built-ins the code uses (slices, strip, lower, join, rounding, stable descending sort), the
    exceptions as a datatype with results \<open>py_error + 'a\<close>, and step systems: \<open>reachable\<close> states and the locale
    \<open>step_invariant\<close>.
  \<^item> \<open>Salience\<close> (\<open>salience.py\<close>), \<open>Usage\<close> (\<open>usage.py\<close>, \<open>embeddings.py\<close>), \<open>Phase3\<close> (\<open>phase3.py\<close>), \<open>Manifest\<close> (\<open>manifest.py\<close>),
    \<open>Mutation\<close> (\<open>scripts/mutation.py\<close>): the pure modules, whole.
  \<^item> \<open>Memory_Store\<close> (\<open>store.py\<close>, the protocol and \<open>RecordingMemoryStore\<close>), \<open>Curate\<close> (\<open>scripts/load_captures.py\<close>,
    \<open>scripts/write_cells.py\<close>).
  \<^item> \<open>Fold\<close>, \<open>Vector\<close> (\<open>_CellRefCache\<close>, \<open>_SearchFold\<close>), \<open>Snapshot\<close> (\<open>_fold_snapshot\<close> between threads), \<open>Expiry\<close>
    (\<open>_arm_expiry\<close>, \<open>_expire_snapshot\<close>), \<open>Native_Store\<close> and \<open>Native_Read\<close> (\<open>NativeMemoryStore\<close>): \<open>store.py\<close>.
  \<^item> \<open>Lexical\<close> (\<open>embedder.py\<close> and the lexical score), \<open>Gateway\<close> (\<open>_dispatch_generic\<close>, \<open>GatewayClient\<close>), \<open>Daemon\<close>
    (\<open>_sweep_needs_embedding\<close>, \<open>_dispatch_domain\<close>), \<open>Kernel_Access\<close> (\<open>_SerializedFileKernel\<close>), \<open>Server\<close>
    (\<open>make_daemon\<close>, \<open>run_daemon\<close>), \<open>Rpc\<close> (the JSON of the domain tools, with \<open>client.py\<close>'s methods): \<open>daemon.py\<close>.
  \<^item> \<open>Client\<close>, \<open>Spawn\<close> (\<open>client.py\<close>, the daemon's life and command line), \<open>Events\<close> (\<open>event_emitter.py\<close>,
    \<open>automation_gate.py\<close>), \<open>Bridge\<close> (\<open>coordinator_bridge.py\<close> and the completion futures of the capture hook).
  \<^item> \<open>Clusters\<close>, \<open>Garden\<close> (\<open>garden.py\<close>), \<open>Mine\<close>, \<open>Tool\<close>, \<open>Tool_Output\<close> (\<open>__init__.py\<close>), \<open>Migrate\<close> (\<open>migrate.py\<close>).
  \<^item> \<open>Capture\<close>, \<open>Interject\<close> with \<open>Overlap\<close>, \<open>Briefing\<close>, \<open>Behavioral\<close>, \<open>Project_Context\<close>, \<open>Context_Sleep\<close>: the
    \<open>__init__.py\<close> of the hook modules of that name and of \<open>context-sleep\<close>.
  \<^item> \<open>Mount\<close>: the \<open>mount\<close> functions of all modules, on the registry of
    \<open>hooks-memory-briefing/scripts/bench_startup.py\<close>, the only registry in the repository.

  \<^bold>\<open>State and operations.\<close>  An object of the code is a record, a method a function from the state to its result and
  the new state, an exception a value \<open>Inl e\<close> with the state it leaves.  Effects whose order matters are lists of
  effects (\<open>Capture\<close>, \<open>Bridge\<close>).  Threads, processes, timers and interleaved coroutines are step relations
  (\<open>Snapshot.world_step\<close>, \<open>Expiry.retention_step\<close>, \<open>Client.home_step\<close>, \<open>Kernel_Access.access_step\<close>,
  \<open>Bridge.bridge_step\<close>, \<open>Capture.capture_step\<close>) or runs over event lists (\<open>Overlap\<close>, \<open>Context_Sleep\<close>, \<open>Briefing\<close>); where a
  handler awaits, the model lets others run only where that is said, as \<open>Overlap\<close> does for the interjection.

  \<^bold>\<open>What the lemmas show.\<close>  Each theory proves its invariants and the functional behaviour of its operations, the
  properties stating the main ones (C1 to C40).  The groups are: no capture is lost and each outcome is reported once (C1, C30,
  C37); the store refines an event log and its reads are those of a fold from scratch (C2, C4, C5, C17, C21, C28, C33, C40);
  client, gateway, server and tool compose to the store's operations (C6, C7, C9, C14, C18, C27, C35, C36, C38, C39); the
  daemon's sweep, lock and kernel (C8, C25, C29, C31); the hooks on a session (C3, C11, C12, C15, C16, C19, C20, C32, C34);
  garden, mining and import (C10, C13, C22, C23, C24, C26).  Theorems named after a defect show a concrete one; they are the
  findings of the manifest.

  \<^bold>\<open>Interfaces.\<close>  \<open>memory_store\<close> and \<open>plasticity_store\<close> (\<open>Memory_Store\<close>) are the contracts of filing and of importance
  updates, interpreted on the recording store (\<open>recs\<close>, \<open>recp\<close>) and on the native one (\<open>nat_store\<close>, \<open>nat_plastic\<close>, the latter
  used by \<open>Behavioral\<close>).  \<open>ref_memo\<close> (\<open>Fold\<close>) is a memo of the refs of a log, interpreted on \<open>refs_for\<close> (\<open>memo\<close>).
  \<open>event_writer\<close> and \<open>event_backend\<close> (\<open>Native_Store\<close>) say that writing calls, single or staged in a batch, append known
  events; they hold of the log itself (\<open>logb\<close>) and of the gateway over any direct backend (\<open>direct_backend\<close>, the sublocale
  \<open>gw\<close>, \<open>logd\<close>).  \<open>step_invariant\<close> (\<open>Prelude\<close>) turns an inductive invariant into one of all reachable states, interpreted on the
  step relations (\<open>homes\<close>, \<open>bridges\<close>, \<open>accesses\<close>, \<open>retentions\<close>, \<open>worlds\<close>).

  \<^bold>\<open>Conventions, bounds and termination.\<close>  Strings are lists of characters up to 255, which lets the character classes of Python be
  written out; texts with other code points are lists of numbers (\<open>ustr\<close>).  Floats are reals: rounding is written
  out where the code rounds (\<open>round10\<close>, \<open>round4\<close>) and NaN and infinities appear where the code meets them (\<open>py_number\<close>).
  Python's integers are \<open>int\<close>.  The bounds are the code's: a queue of 1024 jobs, 500 files and 500 garden drawers, 200 events of
  a page out of the first 10,000, pages of 500 records, a reuse time of 5 seconds.  No definition has fuel: the loops are
  structural or have a measure, and the paging of the import, which a collection could keep alive, is a
  \<open>partial_function\<close> whose end C26 proves.

  \<^bold>\<open>What is a parameter.\<close>  The kernel's content addresses and lenses, the embedding model, the language models behind
  the judge and the consolidation, the digests, the tokenizer, \<open>str\<close> of a float, the YAML and JSON parsers, sockets, the file system
  as a value, git, the clock, the vendor collection of the import, and what other modules' handlers answer.

  \<^bold>\<open>What is not modelled.\<close>  The timings and command line of the benchmark and the concurrency probe of the server, which
  measure and print; the per-call reads of remote backends without a fold; logging to the standard error beyond the bridge's;
  overlapping deliveries of the briefing, whose handler is atomic here; the tests, prompts, pipelines and documents.
\<close>

end
